(* ===== verification/Prelude.thy ===== *)
theory Prelude
  imports Main "HOL-Library.Word"
begin

text \<open>
  The shared vocabulary of the development: names for the machine types of the C code, the
  little list library the component theories use (update, removal and search of the first
  element that satisfies a predicate, as the C loops over the linked queues do them), and
  counting lemmas for the scheduler's ready counter.
\<close>

unbundle bit_operations_syntax

section \<open>Machine types\<close>

text \<open>
  Unsigned C types keep their width. A plain C \<open>int\<close> (process ids, semaphore ids, counters) is
  an \<open>int\<close>: signed overflow is undefined in C, so no behaviour is lost below the overflow.
  Pointers are \<open>u64\<close> values with \<open>0\<close> as \<open>NULL\<close>; a \<open>char\<close> is a \<open>u8\<close>, read through \<open>sint\<close> where the
  code widens it to \<open>int\<close>.
\<close>

type_synonym u8 = "8 word"
type_synonym u16 = "16 word"
type_synonym u32 = "32 word"
type_synonym u64 = "64 word"

section \<open>First-match operations on lists\<close>

text \<open>\<open>upd_first P f xs\<close> changes the first element that satisfies \<open>P\<close>: a store through the
  pointer a search returned.\<close>

primrec upd_first :: "('a \<Rightarrow> bool) \<Rightarrow> ('a \<Rightarrow> 'a) \<Rightarrow> 'a list \<Rightarrow> 'a list" where
  "upd_first P f [] = []"
| "upd_first P f (x # xs) = (if P x then f x # xs else x # upd_first P f xs)"

primrec remove_first :: "('a \<Rightarrow> bool) \<Rightarrow> 'a list \<Rightarrow> 'a list" where
  "remove_first P [] = []"
| "remove_first P (x # xs) = (if P x then xs else x # remove_first P xs)"

lemma length_upd_first [simp]: "length (upd_first P f xs) = length xs"
  by (induction xs) auto

lemma upd_first_eq_Nil [simp]: "upd_first P f xs = [] \<longleftrightarrow> xs = []"
  by (cases xs) auto

lemma upd_first_notin: "(\<forall>x \<in> set xs. \<not> P x) \<Longrightarrow> upd_first P f xs = xs"
  by (induction xs) auto

lemma map_upd_first [simp]: "(\<And>x. g (f x) = g x) \<Longrightarrow> map g (upd_first P f xs) = map g xs"
  by (induction xs) auto

lemma upd_first_append1: "\<exists>x \<in> set xs. P x \<Longrightarrow> upd_first P f (xs @ ys) = upd_first P f xs @ ys"
  by (induction xs) auto

lemma upd_first_append2: "\<forall>x \<in> set xs. \<not> P x \<Longrightarrow> upd_first P f (xs @ ys) = xs @ upd_first P f ys"
  by (induction xs) auto

lemma set_upd_first: "set (upd_first P f xs) \<subseteq> set xs \<union> f ` {y \<in> set xs. P y}"
  by (induction xs) (auto split: if_splits)

lemma upd_first_compose:
  "(\<And>x. P (f x) = P x) \<Longrightarrow> upd_first P g (upd_first P f xs) = upd_first P (g \<circ> f) xs"
  by (induction xs) auto

lemma find_upd_first:
  "(\<And>x. P (f x) = P x) \<Longrightarrow> List.find P (upd_first P f xs) = map_option f (List.find P xs)"
  by (induction xs) auto

lemma find_upd_first_other:
  "(\<And>x. Q (f x) = Q x) \<Longrightarrow> (\<And>x. P x \<Longrightarrow> \<not> Q x) \<Longrightarrow>
     List.find Q (upd_first P f xs) = List.find Q xs"
  by (induction xs) auto

lemma set_remove_first: "set (remove_first P xs) \<subseteq> set xs"
  by (induction xs) auto

lemma in_remove_first: "x \<in> set (remove_first P xs) \<Longrightarrow> x \<in> set xs"
  by (rule subsetD [OF set_remove_first])

lemma remove_first_notin: "(\<forall>x \<in> set xs. \<not> P x) \<Longrightarrow> remove_first P xs = xs"
  by (induction xs) auto

lemma distinct_map_remove_first [intro]:
  "distinct (map g xs) \<Longrightarrow> distinct (map g (remove_first P xs))"
  by (induction xs) (auto dest: in_remove_first)

lemma find_Some_prop: "List.find P xs = Some x \<Longrightarrow> P x \<and> x \<in> set xs"
  by (auto simp: find_Some_iff)

lemma find_None_prop: "List.find P xs = None \<longleftrightarrow> (\<forall>x \<in> set xs. \<not> P x)"
  by (auto simp: find_None_iff)

lemma find_append_Some: "List.find P xs = Some x \<Longrightarrow> List.find P (xs @ ys) = Some x"
  by (induction xs) (auto split: if_splits)

text \<open>With distinct keys the first match is the only one, and a store through it changes
  exactly that element.\<close>

lemma upd_first_distinct:
  "distinct (map key xs) \<Longrightarrow>
     upd_first (\<lambda>x. key x = k) f xs = map (\<lambda>x. if key x = k then f x else x) xs"
proof (induction xs)
  case Nil
  show ?case by simp
next
  case (Cons a xs)
  then show ?case
    by (cases "key a = k") (auto simp: image_iff intro!: map_idI[symmetric])
qed

lemma find_distinct_key:
  "distinct (map key xs) \<Longrightarrow> x \<in> set xs \<Longrightarrow> List.find (\<lambda>y. key y = key x) xs = Some x"
proof (induction xs)
  case Nil
  then show ?case by simp
next
  case (Cons a xs)
  then show ?case by (cases "a = x") (auto simp: image_iff)
qed

section \<open>Counting\<close>

text \<open>How the number of elements with a property changes when one element is replaced.\<close>

definition count_if :: "('a \<Rightarrow> bool) \<Rightarrow> 'a list \<Rightarrow> int" where
  "count_if P xs = int (length (filter P xs))"

lemma count_if_simps [simp]:
  "count_if P [] = 0"
  "count_if P (x # xs) = (if P x then 1 else 0) + count_if P xs"
  "count_if P (xs @ ys) = count_if P xs + count_if P ys"
  by (simp_all add: count_if_def)

lemma count_if_nonneg [simp]: "0 \<le> count_if P xs"
  by (simp add: count_if_def)

lemma count_if_pos_iff: "0 < count_if P xs \<longleftrightarrow> (\<exists>x \<in> set xs. P x)"
  by (auto simp: count_if_def filter_empty_conv)

lemma count_if_upd_first:
  "List.find P xs = Some x \<Longrightarrow>
     count_if R (upd_first P f xs) =
       count_if R xs - (if R x then 1 else 0) + (if R (f x) then 1 else 0)"
  by (induction xs) (auto split: if_splits)

section \<open>Words\<close>

lemma unat_u8_less [simp]: "unat (x :: u8) < 256"
proof -
  have "unat x < 2 ^ LENGTH(8)" by (rule unsigned_less)
  then show ?thesis by simp
qed

lemma unat_plus_one: "x + 1 \<noteq> 0 \<Longrightarrow> unat (x + 1) = unat x + 1"
  using unatSuc [of x] by (simp add: add.commute)

lemma word_step_decreases:
  fixes x :: u8
  assumes "x + 1 \<noteq> 0"
  shows "256 - unat (x + 1) < 256 - unat x"
  using unat_plus_one [OF assms] unat_u8_less [of x] by linarith

end
