(* ===== verification/QueueRefine.thy ===== *)
theory QueueRefine
  imports QueueImpl
begin

text \<open>
  The pointer queue of \<open>queue.c\<close> implements a list. \<open>qrep h q ps\<close> says that the descriptor \<open>q\<close>
  holds exactly the chain of nodes \<open>ps\<close> of the heap \<open>h\<close>; \<open>qabs h q xs\<close> hides the nodes and keeps
  their values. Every operation is related to its list counterpart, and returns, on such a queue.
\<close>

section \<open>Chains of nodes\<close>

primrec path :: "nheap \<Rightarrow> u64 \<Rightarrow> u64 list \<Rightarrow> u64 \<Rightarrow> bool" where
  "path h p [] r = (p = r)"
| "path h p (a # as) r =
     (p = a \<and> a \<noteq> 0 \<and> (case h a of None \<Rightarrow> False | Some nd \<Rightarrow> path h (n_next nd) as r))"

definition vals :: "nheap \<Rightarrow> u64 list \<Rightarrow> u64 list" where
  "vals h ps = map (\<lambda>p. n_value (the (h p))) ps"

definition qrep :: "nheap \<Rightarrow> queueCDT \<Rightarrow> u64 list \<Rightarrow> bool" where
  "qrep h q ps \<longleftrightarrow>
     path h (q_first q) ps 0 \<and> distinct ps \<and> unat (q_size q) = length ps \<and>
     (ps \<noteq> [] \<longrightarrow> q_last q = last ps)"

definition qabs :: "nheap \<Rightarrow> queueCDT \<Rightarrow> u64 list \<Rightarrow> bool" where
  "qabs h q xs \<longleftrightarrow> (\<exists>ps. qrep h q ps \<and> vals h ps = xs)"

lemma vals_simps [simp]:
  "vals h [] = []"
  "vals h (p # ps) = n_value (the (h p)) # vals h ps"
  "vals h (ps @ qs) = vals h ps @ vals h qs"
  "length (vals h ps) = length ps"
  by (simp_all add: vals_def)

lemma vals_upd [simp]: "a \<notin> set ps \<Longrightarrow> vals (h(a := v)) ps = vals h ps"
  by (induction ps) auto

lemma vals_next [simp]:
  "h a = Some nd \<Longrightarrow> vals (h(a \<mapsto> nd\<lparr>n_next := x\<rparr>)) ps = vals h ps"
  by (induction ps) auto

lemma path_nonnull: "path h p ps r \<Longrightarrow> 0 \<notin> set ps"
  by (induction ps arbitrary: p) (auto split: option.splits)

lemma path_mapped: "path h p ps r \<Longrightarrow> a \<in> set ps \<Longrightarrow> h a \<noteq> None"
  by (induction ps arbitrary: p) (auto split: option.splits)

lemma path_upd [simp]: "a \<notin> set ps \<Longrightarrow> path (h(a := v)) p ps r = path h p ps r"
  by (induction ps arbitrary: p) (auto split: option.splits)

lemma path_append: "path h p (as @ bs) r \<longleftrightarrow> (\<exists>m. path h p as m \<and> path h m bs r)"
  by (induction as arbitrary: p) (auto split: option.splits)

lemma path_start: "path h p ps 0 \<Longrightarrow> p = (if ps = [] then 0 else hd ps)"
  by (cases ps) auto

text \<open>Node addresses are distinct and not \<open>NULL\<close>, so a chain has fewer than \<open>2 ^ 64\<close> nodes and
  the 64-bit size field does not wrap.\<close>

lemma chain_length: "distinct ps \<Longrightarrow> (0::u64) \<notin> set ps \<Longrightarrow> length ps < 2 ^ 64"
proof -
  assume d: "distinct ps" and z: "(0::u64) \<notin> set ps"
  have "set ps \<subset> UNIV" using z by auto
  then have "card (set ps) < card (UNIV :: u64 set)" by (intro psubset_card_mono) auto
  then show ?thesis using d by (simp add: distinct_card card_word)
qed

lemma unat_eq_0_iff: "unat (w::u64) = 0 \<longleftrightarrow> w = 0"
  by (simp add: unat_eq_0)

lemma qrep_facts:
  assumes "qrep h q ps"
  shows "path h (q_first q) ps 0" "distinct ps" "0 \<notin> set ps" "unat (q_size q) = length ps"
    "ps \<noteq> [] \<Longrightarrow> q_last q = last ps" "a \<in> set ps \<Longrightarrow> h a \<noteq> None"
    "q_first q = (if ps = [] then 0 else hd ps)"
  using assms path_nonnull path_mapped path_start unfolding qrep_def by blast+

lemma qrep_empty_iff: "qrep h q ps \<Longrightarrow> q_size q = 0 \<longleftrightarrow> ps = []"
  by (auto simp: qrep_def unat_eq_0_iff)

section \<open>Each operation and its list counterpart\<close>

lemma initQueue_rep: "m \<noteq> 0 \<Longrightarrow> \<exists>q. initQueue m = Some q \<and> qrep h q []"
  by (simp add: initQueue_def qrep_def)

lemma enqueue_rep:
  assumes rep: "qrep h q ps" and m: "m \<noteq> 0" "h m = None"
  shows "\<exists>q' h'. enqueue m v q h = Some (0, q', h') \<and> qrep h' q' (ps @ [m]) \<and>
           vals h' (ps @ [m]) = vals h ps @ [v] \<and> (\<forall>a. a \<notin> set ps \<longrightarrow> a \<noteq> m \<longrightarrow> h' a = h a)"
proof -
  have fresh: "m \<notin> set ps" using qrep_facts(6) [OF rep] m by blast
  have size: "unat (q_size q + 1) = Suc (length ps)"
  proof -
    have "0 \<notin> set (ps @ [m])" "distinct (ps @ [m])"
      using qrep_facts(2,3) [OF rep] fresh m by auto
    then have "length (ps @ [m]) < 2 ^ 64" by (rule chain_length [rotated])
    then show ?thesis using rep by (simp add: qrep_def unat_word_ariths)
  qed
  show ?thesis
  proof (cases ps rule: rev_cases)
    case Nil
    then have "q_size q = 0" using rep qrep_empty_iff by blast
    then show ?thesis using m Nil size by (auto simp: enqueue_def qrep_def)
  next
    case (snoc as a)
    with rep have a: "q_last q = a" "q_size q \<noteq> 0" by (auto simp: qrep_def)
    from rep snoc obtain nd where nd: "h a = Some nd" "path h (q_first q) as a" "n_next nd = 0"
      by (auto simp: qrep_def path_append split: option.splits)
    have ne: "a \<noteq> 0" "a \<noteq> m" "a \<notin> set as" "m \<notin> set as"
      using qrep_facts(2,3) [OF rep] snoc fresh by auto
    let ?h1 = "h(m \<mapsto> \<lparr>n_value = v, n_next = 0\<rparr>)"
    let ?h2 = "?h1(a \<mapsto> nd\<lparr>n_next := m\<rparr>)"
    have "enqueue m v q h = Some (0, q\<lparr>q_last := m, q_size := q_size q + 1\<rparr>, ?h2)"
      using m a nd ne by (simp add: enqueue_def Let_def)
    moreover have "qrep ?h2 (q\<lparr>q_last := m, q_size := q_size q + 1\<rparr>) (ps @ [m])"
      using rep snoc nd ne m size fresh by (auto simp: qrep_def path_append)
    moreover have "vals ?h2 (ps @ [m]) = vals h ps @ [v]"
      using snoc nd ne fresh by simp
    ultimately show ?thesis using snoc by auto
  qed
qed

lemma enqueue_null: "enqueue 0 v q h = Some (-1, q, h)"
  by (simp add: enqueue_def)

lemma dequeue_rep_Nil: "qrep h q [] \<Longrightarrow> dequeue q h = Some (0, q, h)"
  by (auto simp: dequeue_def qrep_empty_iff)

lemma dequeue_rep_Cons:
  assumes rep: "qrep h q (p # ps)"
  shows "\<exists>q' h'. dequeue q h = Some (n_value (the (h p)), q', h') \<and> qrep h' q' ps \<and>
           vals h' ps = vals h ps \<and> (\<forall>a. a \<noteq> p \<longrightarrow> h' a = h a)"
proof -
  from rep obtain nd where nd: "h p = Some nd" "q_first q = p" "path h (n_next nd) ps 0"
    by (auto simp: qrep_def split: option.splits)
  have s: "q_size q \<noteq> 0" using rep by (auto simp: qrep_def)
  then have "unat (q_size q - 1) = length ps"
    using rep by (simp add: qrep_def unat_minus_one)
  moreover have "\<not> q_size q \<le> 0" using s by (simp add: word_le_0_iff)
  ultimately show ?thesis
    using rep nd s by (auto simp: dequeue_def qrep_def)
qed

lemma peek_rep:
  "qrep h q ps \<Longrightarrow> peek q h = Some (case vals h ps of [] \<Rightarrow> 0 | v # _ \<Rightarrow> v)"
  by (cases ps) (auto simp: peek_def qrep_def unat_eq_0_iff split: option.splits)

lemma find_loop_path:
  "path h p ps 0 \<Longrightarrow>
     find_loop c el h (Some p) aux False =
       Some (case List.find (\<lambda>v. c v el \<noteq> 0) (vals h ps) of
               Some v \<Rightarrow> (v, True)
             | None \<Rightarrow> (last (aux # vals h ps), False))"
proof (induction ps arbitrary: p aux)
  case Nil
  then show ?case by (simp add: find_loop.simps hasNext_def)
next
  case (Cons a ps)
  then obtain nd where nd: "p = a" "a \<noteq> 0" "h a = Some nd" "path h (n_next nd) ps 0"
    by (auto split: option.splits)
  show ?case
  proof (cases "c (n_value nd) el \<noteq> 0")
    case True
    then show ?thesis using nd by (simp add: find_loop.simps hasNext_def next_elem_def)
  next
    case False
    then show ?thesis
      using nd Cons.IH [OF nd(4), of "n_value nd"]
      by (subst find_loop.simps) (auto simp: hasNext_def next_elem_def split: option.splits)
  qed
qed

lemma find_loop_done: "\<not> hasNext it \<Longrightarrow> find_loop c el h it aux found = Some (aux, found)"
  by (subst find_loop.simps) simp

lemma find_elem_rep:
  assumes "qrep h q ps"
  shows "find_elem m (Some q) (Some c) el h =
           Some (if m = 0 then 0
                 else case List.find (\<lambda>v. c v el \<noteq> 0) (vals h ps) of None \<Rightarrow> 0 | Some v \<Rightarrow> v)"
proof (cases "m = 0")
  case True
  then show ?thesis by (simp add: find_elem_def toBegin_def find_loop_done hasNext_def)
next
  case False
  then show ?thesis
    using find_loop_path [OF qrep_facts(1) [OF assms]]
    by (simp add: find_elem_def toBegin_def split: option.splits)
qed

text \<open>Unlinking a node of the chain.\<close>

lemma unlink_path:
  assumes rep: "qrep h q (pre @ node # post)" and nd: "h node = Some nd"
    and prev: "prev = (if pre = [] then 0 else last pre)"
  shows "\<exists>q' h'. unlink q h prev node nd = Some (n_value nd, q', h') \<and> qrep h' q' (pre @ post) \<and>
           vals h' (pre @ post) = vals h (pre @ post) \<and>
           (\<forall>a. a \<notin> set (pre @ node # post) \<longrightarrow> h' a = h a)"
proof -
  have p: "path h (q_first q) pre node" "path h (n_next nd) post 0" "node \<noteq> 0"
    using rep nd by (auto simp: qrep_def path_append)
  have d: "distinct (pre @ node # post)" "0 \<notin> set (pre @ node # post)"
    using qrep_facts(2,3) [OF rep] by simp_all
  have last: "n_next nd = 0 \<longleftrightarrow> post = []" using p(2) d by (cases post) auto
  have size: "unat (q_size q - 1) = length pre + length post"
  proof -
    have "q_size q \<noteq> 0" using rep by (auto simp: qrep_def)
    then show ?thesis using rep by (simp add: qrep_def unat_minus_one)
  qed
  show ?thesis
  proof (cases pre rule: rev_cases)
    case Nil
    then show ?thesis
      using rep p d last size prev by (auto simp: unlink_def qrep_def Let_def)
  next
    case (snoc as a)
    obtain pn where pn: "h a = Some pn" "path h (q_first q) as a"
      using p(1) snoc by (auto simp: path_append split: option.splits)
    let ?h = "(h(a \<mapsto> pn\<lparr>n_next := n_next nd\<rparr>))(node := None)"
    have a: "a \<noteq> 0" "a \<noteq> node" "a \<notin> set as" "a \<notin> set post" "node \<notin> set as" "node \<notin> set post"
      using d snoc by auto
    have "path ?h (q_first q) (as @ a # post) 0"
      using a pn p by (auto simp: path_append)
    moreover have "vals ?h (pre @ post) = vals h (pre @ post)"
      using snoc a pn by simp
    ultimately show ?thesis
      using rep prev snoc a pn d last size
      by (auto simp: unlink_def qrep_def Let_def)
  qed
qed

lemma take_loop_path:
  assumes "qrep h q (pre @ rest)" and "node = (if rest = [] then 0 else hd rest)"
    and "prev = (if pre = [] then 0 else last pre)"
    and "\<forall>v \<in> set (vals h pre). c v el = 0"
  shows "\<exists>v q' h' ps'. take_loop c el q h prev node = Some (v, q', h') \<and> qrep h' q' ps' \<and>
           v = (case List.find (\<lambda>v. c v el \<noteq> 0) (vals h rest) of None \<Rightarrow> 0 | Some v \<Rightarrow> v) \<and>
           vals h' ps' = vals h pre @ remove_first (\<lambda>v. c v el \<noteq> 0) (vals h rest) \<and>
           set ps' \<subseteq> set (pre @ rest) \<and> (\<forall>a. a \<notin> set (pre @ rest) \<longrightarrow> h' a = h a)"
  using assms
proof (induction rest arbitrary: pre prev node)
  case Nil
  then have "take_loop c el q h prev node = Some (0, q, h)" by (simp add: take_loop.simps)
  then show ?case using Nil.prems(1) by (intro exI [of _ 0] exI [of _ q] exI [of _ h] exI [of _ pre]) simp
next
  case (Cons a rest)
  from Cons.prems(1,2) obtain nd where nd: "node = a" "a \<noteq> 0" "h a = Some nd"
      and tl: "path h (n_next nd) rest 0"
    by (auto simp: qrep_def path_append split: option.splits)
  show ?case
  proof (cases "c (n_value nd) el \<noteq> 0")
    case True
    obtain q' h' where u: "unlink q h prev a nd = Some (n_value nd, q', h')" "qrep h' q' (pre @ rest)"
        "vals h' (pre @ rest) = vals h (pre @ rest)" "\<forall>b. b \<notin> set (pre @ a # rest) \<longrightarrow> h' b = h b"
      using unlink_path [OF Cons.prems(1) nd(3) Cons.prems(3)] by blast
    have "take_loop c el q h prev node = unlink q h prev a nd"
      using nd True by (subst take_loop.simps) simp
    then show ?thesis
      using u nd True
      by (intro exI [of _ "n_value nd"] exI [of _ q'] exI [of _ h'] exI [of _ "pre @ rest"]) auto
  next
    case False
    have "qrep h q ((pre @ [a]) @ rest)" using Cons.prems(1) by simp
    moreover have "n_next nd = (if rest = [] then 0 else hd rest)" by (rule path_start [OF tl])
    moreover have "a = (if pre @ [a] = [] then 0 else last (pre @ [a]))" by simp
    moreover have "\<forall>v \<in> set (vals h (pre @ [a])). c v el = 0" using Cons.prems(4) nd False by simp
    ultimately obtain v q' h' ps' where ih: "take_loop c el q h a (n_next nd) = Some (v, q', h')"
        "qrep h' q' ps'"
        "v = (case List.find (\<lambda>v. c v el \<noteq> 0) (vals h rest) of None \<Rightarrow> 0 | Some v \<Rightarrow> v)"
        "vals h' ps' = vals h (pre @ [a]) @ remove_first (\<lambda>v. c v el \<noteq> 0) (vals h rest)"
        "set ps' \<subseteq> set ((pre @ [a]) @ rest)" "\<forall>b. b \<notin> set ((pre @ [a]) @ rest) \<longrightarrow> h' b = h b"
      using Cons.IH [of "pre @ [a]" "n_next nd" a] by blast
    have "take_loop c el q h prev node = take_loop c el q h a (n_next nd)"
      using nd False by (subst take_loop.simps) simp
    then show ?thesis
      using ih nd False
      by (intro exI [of _ v] exI [of _ q'] exI [of _ h'] exI [of _ ps']) simp
  qed
qed

lemma takeElement_rep:
  assumes rep: "qrep h q ps"
  shows "\<exists>q' h' ps'.
           takeElement (Some q) (Some c) el h =
             Some (case List.find (\<lambda>v. c v el \<noteq> 0) (vals h ps) of None \<Rightarrow> 0 | Some v \<Rightarrow> v, Some q', h') \<and>
           qrep h' q' ps' \<and> vals h' ps' = remove_first (\<lambda>v. c v el \<noteq> 0) (vals h ps) \<and>
           set ps' \<subseteq> set ps \<and> (\<forall>a. a \<notin> set ps \<longrightarrow> h' a = h a)"
proof (cases "ps = []")
  case True
  then show ?thesis using rep by (auto simp: takeElement_def qrep_empty_iff [OF rep])
next
  case False
  then have "q_size q \<noteq> 0" using qrep_empty_iff [OF rep] by simp
  moreover have "q_first q = (if ps = [] then 0 else hd ps)" by (rule qrep_facts(7) [OF rep])
  ultimately show ?thesis
    using take_loop_path [where pre = "[]" and rest = ps and prev = 0 and node = "q_first q" and c = c
        and el = el, of h q] rep
    by (fastforce simp: takeElement_def)
qed

text \<open>Freeing stops at the first \<open>NULL\<close> value: exactly the values before it are freed.\<close>

lemma freeQueue_loop_rep:
  "qrep h q ps \<Longrightarrow>
     \<exists>q' h'. freeQueue_loop q h acc = Some (acc @ takeWhile (\<lambda>v. v \<noteq> 0) (vals h ps), q', h')"
proof (induction ps arbitrary: q h acc)
  case Nil
  then show ?case by (auto simp: freeQueue_loop.simps dequeue_rep_Nil)
next
  case (Cons p ps)
  obtain q' h' where step: "dequeue q h = Some (n_value (the (h p)), q', h')" "qrep h' q' ps"
      "vals h' ps = vals h ps"
    using dequeue_rep_Cons [OF Cons.prems] by blast
  show ?case
    using step Cons.IH [OF step(2), of "acc @ [n_value (the (h p))]"]
    by (subst freeQueue_loop.simps) auto
qed

end
