(* ===== verification/QueueContract.thy ===== *)
theory QueueContract
  imports QueueRefine
begin

text \<open>
  The contract the kernel relies on when it stores processes, semaphores, pipes and pids in a
  queue: first in, first out, with a failed \<open>malloc\<close> leaving the queue as it was. The contract is a
  locale; the pointer code of \<open>queue.c\<close> is its interpretation, and a whole run of operations
  through the contract behaves like a list.
\<close>

section \<open>Runs of queue operations\<close>

text \<open>\<open>Enq m v\<close> is \<open>enqueue(queue, v)\<close> whose \<open>malloc\<close> returned \<open>m\<close>. A run returns the result of
  each call, \<open>Inl\<close> for the \<open>int\<close> of \<open>enqueue\<close> and \<open>Inr\<close> for the pointer of \<open>dequeue\<close>.\<close>

datatype qop = Enq u64 u64 | Deq

fun qrun ::
  "(u64 \<Rightarrow> u64 \<Rightarrow> 's \<Rightarrow> (int \<times> 's) option) \<Rightarrow> ('s \<Rightarrow> (u64 \<times> 's) option) \<Rightarrow>
     qop list \<Rightarrow> 's \<Rightarrow> ((int + u64) list \<times> 's) option" where
  "qrun enq deq [] s = Some ([], s)"
| "qrun enq deq (Enq m v # ops) s =
     (case enq m v s of None \<Rightarrow> None
      | Some (r, s') \<Rightarrow> map_option (\<lambda>(rs, s''). (Inl r # rs, s'')) (qrun enq deq ops s'))"
| "qrun enq deq (Deq # ops) s =
     (case deq s of None \<Rightarrow> None
      | Some (r, s') \<Rightarrow> map_option (\<lambda>(rs, s''). (Inr r # rs, s'')) (qrun enq deq ops s'))"

text \<open>The same run on a plain list, and the condition on the memory manager: an address it hands
  out is not in use at that moment.\<close>

fun list_run :: "qop list \<Rightarrow> u64 list \<Rightarrow> (int + u64) list \<times> u64 list" where
  "list_run [] xs = ([], xs)"
| "list_run (Enq m v # ops) xs =
     (if m = 0 then let (rs, ys) = list_run ops xs in (Inl (-1) # rs, ys)
      else let (rs, ys) = list_run ops (xs @ [v]) in (Inl 0 # rs, ys))"
| "list_run (Deq # ops) xs =
     (case xs of [] \<Rightarrow> (let (rs, ys) = list_run ops [] in (Inr 0 # rs, ys))
      | x # xs' \<Rightarrow> (let (rs, ys) = list_run ops xs' in (Inr x # rs, ys)))"

fun fresh_run ::
  "(u64 \<Rightarrow> u64 \<Rightarrow> 's \<Rightarrow> (int \<times> 's) option) \<Rightarrow> ('s \<Rightarrow> (u64 \<times> 's) option) \<Rightarrow>
     (u64 \<Rightarrow> 's \<Rightarrow> bool) \<Rightarrow> qop list \<Rightarrow> 's \<Rightarrow> bool" where
  "fresh_run enq deq fr [] s = True"
| "fresh_run enq deq fr (Enq m v # ops) s =
     ((m = 0 \<or> fr m s) \<and>
      (case enq m v s of None \<Rightarrow> False | Some (_, s') \<Rightarrow> fresh_run enq deq fr ops s'))"
| "fresh_run enq deq fr (Deq # ops) s =
     (case deq s of None \<Rightarrow> False | Some (_, s') \<Rightarrow> fresh_run enq deq fr ops s')"

section \<open>The contract\<close>

locale fifo_contract =
  fixes enq :: "u64 \<Rightarrow> u64 \<Rightarrow> 's \<Rightarrow> (int \<times> 's) option"
    and deq :: "'s \<Rightarrow> (u64 \<times> 's) option"
    and fr :: "u64 \<Rightarrow> 's \<Rightarrow> bool"
    and rep :: "'s \<Rightarrow> u64 list \<Rightarrow> bool"
  assumes enq_null: "rep s xs \<Longrightarrow> enq 0 v s = Some (-1, s)"
    and enq_fresh: "rep s xs \<Longrightarrow> m \<noteq> 0 \<Longrightarrow> fr m s \<Longrightarrow>
      \<exists>s'. enq m v s = Some (0, s') \<and> rep s' (xs @ [v])"
    and deq_empty: "rep s [] \<Longrightarrow> deq s = Some (0, s)"
    and deq_first: "rep s (x # xs) \<Longrightarrow> \<exists>s'. deq s = Some (x, s') \<and> rep s' xs"
begin

lemma run_refines:
  "rep s xs \<Longrightarrow> fresh_run enq deq fr ops s \<Longrightarrow>
     \<exists>s'. qrun enq deq ops s = Some (fst (list_run ops xs), s') \<and> rep s' (snd (list_run ops xs))"
proof (induction ops arbitrary: s xs)
  case Nil
  then show ?case by simp
next
  case (Cons op ops)
  show ?case
  proof (cases op)
    case (Enq m v)
    show ?thesis
    proof (cases "m = 0")
      case True
      then show ?thesis
        using Enq Cons.prems Cons.IH [OF Cons.prems(1)] enq_null [OF Cons.prems(1)]
        by (auto split: prod.splits)
    next
      case False
      then obtain s1 where s1: "enq m v s = Some (0, s1)" "rep s1 (xs @ [v])"
        using Enq Cons.prems enq_fresh by (metis fresh_run.simps(2))
      then show ?thesis
        using False Enq Cons.prems(2) Cons.IH [OF s1(2)] by (auto split: prod.splits)
    qed
  next
    case Deq
    show ?thesis
    proof (cases xs)
      case Nil
      then have "rep s []" using Cons.prems(1) by simp
      then show ?thesis
        using Nil Deq Cons.prems(2) Cons.IH [of s "[]"] deq_empty by (auto split: prod.splits)
    next
      case (Cons x xs')
      then obtain s1 where s1: "deq s = Some (x, s1)" "rep s1 xs'"
        using Cons.prems(1) deq_first by blast
      then show ?thesis
        using Cons Deq Cons.prems(2) Cons.IH [OF s1(2)] by (auto split: prod.splits)
    qed
  qed
qed

end

section \<open>The pointer queue provides it\<close>

definition ptr_enq :: "u64 \<Rightarrow> u64 \<Rightarrow> queueCDT \<times> nheap \<Rightarrow> (int \<times> queueCDT \<times> nheap) option" where
  "ptr_enq m v s = enqueue m v (fst s) (snd s)"

definition ptr_deq :: "queueCDT \<times> nheap \<Rightarrow> (u64 \<times> queueCDT \<times> nheap) option" where
  "ptr_deq s = dequeue (fst s) (snd s)"

definition ptr_fresh :: "u64 \<Rightarrow> queueCDT \<times> nheap \<Rightarrow> bool" where
  "ptr_fresh m s \<longleftrightarrow> snd s m = None"

definition ptr_rep :: "queueCDT \<times> nheap \<Rightarrow> u64 list \<Rightarrow> bool" where
  "ptr_rep s xs \<longleftrightarrow> qabs (snd s) (fst s) xs"

lemma ptr_enq_fresh:
  assumes "qabs h q xs" and m: "m \<noteq> 0" "h m = None"
  shows "\<exists>q' h'. enqueue m v q h = Some (0, q', h') \<and> qabs h' q' (xs @ [v])"
proof -
  obtain ps where ps: "qrep h q ps" "vals h ps = xs" using assms(1) by (auto simp: qabs_def)
  then obtain q' h' where "enqueue m v q h = Some (0, q', h')" "qrep h' q' (ps @ [m])"
      "vals h' (ps @ [m]) = xs @ [v]"
    using enqueue_rep [OF ps(1) m, of v] by blast
  then show ?thesis unfolding qabs_def by blast
qed

lemma ptr_deq_first:
  assumes "qabs h q (x # xs)"
  shows "\<exists>q' h'. dequeue q h = Some (x, q', h') \<and> qabs h' q' xs"
proof -
  obtain p ps where ps: "qrep h q (p # ps)" "vals h (p # ps) = x # xs"
    using assms by (auto simp: qabs_def vals_def)
  show ?thesis using dequeue_rep_Cons [OF ps(1)] ps(2) by (auto simp: qabs_def)
qed

interpretation ptr_queue: fifo_contract ptr_enq ptr_deq ptr_fresh ptr_rep
proof unfold_locales
  fix s :: "queueCDT \<times> nheap" and xs v m x
  show "ptr_enq 0 v s = Some (-1, s)" by (simp add: ptr_enq_def enqueue_null)
  show "\<exists>s'. ptr_enq m v s = Some (0, s') \<and> ptr_rep s' (xs @ [v])"
    if "ptr_rep s xs" "m \<noteq> 0" "ptr_fresh m s"
    using ptr_enq_fresh [of "snd s" "fst s" xs m v] that
    by (auto simp: ptr_enq_def ptr_rep_def ptr_fresh_def)
  show "ptr_deq s = Some (0, s)" if "ptr_rep s []"
    using that dequeue_rep_Nil [of "snd s" "fst s"]
    by (auto simp: ptr_deq_def ptr_rep_def qabs_def vals_def)
  show "\<exists>s'. ptr_deq s = Some (x, s') \<and> ptr_rep s' xs" if "ptr_rep s (x # xs)"
    using ptr_deq_first [of "snd s" "fst s" x xs] that by (auto simp: ptr_deq_def ptr_rep_def)
qed

section \<open>Properties of the queue\<close>

text \<open>C6. Any run of \<open>enqueue\<close> and \<open>dequeue\<close> calls on a queue that holds the values \<open>xs\<close> returns,
  call by call, what the same run on a plain list returns, and ends in a queue that holds the
  list's final content; every call returns, whatever the memory manager answers, as long as it
  hands out addresses that are not in use.\<close>

theorem queue_run_is_fifo:
  assumes "qabs h q xs" and "fresh_run ptr_enq ptr_deq ptr_fresh ops (q, h)"
  shows "\<exists>q' h'. qrun ptr_enq ptr_deq ops (q, h) = Some (fst (list_run ops xs), q', h') \<and>
           qabs h' q' (snd (list_run ops xs))"
  using ptr_queue.run_refines [of "(q, h)" xs ops] assms by (auto simp: ptr_rep_def)

theorem queue_run_is_fifo_witness:
  "\<exists>q' h'. qrun ptr_enq ptr_deq [Enq 16 7, Enq 0 8, Enq 32 9, Deq, Deq, Deq]
       (\<lparr>q_size = 0, q_first = 0, q_last = 0\<rparr>, Map.empty) =
       Some ([Inl 0, Inl (-1), Inl 0, Inr 7, Inr 9, Inr 0], q', h') \<and> qabs h' q' []"
proof -
  have "qabs Map.empty \<lparr>q_size = 0, q_first = 0, q_last = 0\<rparr> []"
    by (auto simp: qabs_def qrep_def intro!: exI [of _ "[]"])
  moreover have "fresh_run ptr_enq ptr_deq ptr_fresh [Enq 16 7, Enq 0 8, Enq 32 9, Deq, Deq, Deq]
      (\<lparr>q_size = 0, q_first = 0, q_last = 0\<rparr>, Map.empty)"
    by (simp add: ptr_enq_def ptr_deq_def ptr_fresh_def enqueue_def dequeue_def Let_def)
  ultimately show ?thesis using queue_run_is_fifo by fastforce
qed

text \<open>\<open>takeElement\<close> on a queue that holds the nodes \<open>ps\<close> returns the first value that satisfies
  the condition (\<open>NULL\<close> if none does), leaves a queue that holds the other values in their order,
  and touches no node outside the queue, so other queues of the same heap keep their contents.\<close>

theorem takeElement_removes_first_match:
  assumes "qrep h q ps"
  shows "\<exists>q' h' ps'.
           takeElement (Some q) (Some c) el h =
             Some (case List.find (\<lambda>v. c v el \<noteq> 0) (vals h ps) of None \<Rightarrow> 0 | Some v \<Rightarrow> v, Some q', h') \<and>
           qrep h' q' ps' \<and> vals h' ps' = remove_first (\<lambda>v. c v el \<noteq> 0) (vals h ps) \<and>
           (\<forall>a. a \<notin> set ps \<longrightarrow> h' a = h a)"
  using takeElement_rep [OF assms, of c el] by blast

definition sample_heap :: nheap where
  "sample_heap = [16 \<mapsto> \<lparr>n_value = 7, n_next = 32\<rparr>, 32 \<mapsto> \<lparr>n_value = 9, n_next = 0\<rparr>]"

theorem takeElement_removes_first_match_witness:
  "\<exists>q' h' ps'. takeElement (Some \<lparr>q_size = 2, q_first = 16, q_last = 32\<rparr>)
       (Some (\<lambda>v e. if v = e then 1 else 0)) 9 sample_heap = Some (9, Some q', h') \<and>
     qrep h' q' ps' \<and> vals h' ps' = [7] \<and> (\<forall>a. a \<notin> {16, 32} \<longrightarrow> h' a = sample_heap a)"
proof -
  have "qrep sample_heap \<lparr>q_size = 2, q_first = 16, q_last = 32\<rparr> [16, 32]"
    by (simp add: qrep_def sample_heap_def)
  from takeElement_removes_first_match [OF this, of "\<lambda>v e. if v = e then 1 else 0" 9]
  show ?thesis by (simp add: sample_heap_def)
qed

text \<open>\<open>freeQueue\<close> returns on every queue and frees exactly the values before the first \<open>NULL\<close>
  value; on a \<open>NULL\<close> queue it returns -1 and frees nothing.\<close>

theorem freeQueue_frees_values:
  assumes "qrep h q ps"
  shows "(\<exists>h'. freeQueue (Some q) h = Some (0, takeWhile (\<lambda>v. v \<noteq> 0) (vals h ps), h')) \<and>
         freeQueue None h = Some (-1, [], h)"
  using freeQueue_loop_rep [OF assms, of "[]"] by (auto simp: freeQueue_def)

theorem freeQueue_frees_values_witness:
  "(\<exists>h'. freeQueue (Some \<lparr>q_size = 2, q_first = 16, q_last = 32\<rparr>) sample_heap = Some (0, [7, 9], h')) \<and>
   freeQueue None sample_heap = Some (-1, [], sample_heap)"
proof -
  have "qrep sample_heap \<lparr>q_size = 2, q_first = 16, q_last = 32\<rparr> [16, 32]"
    by (simp add: qrep_def sample_heap_def)
  from freeQueue_frees_values [OF this] show ?thesis by (simp add: sample_heap_def)
qed

end
