(* ===== verification/Console.thy ===== *)
theory Console
  imports Prelude
begin

text \<open>
  \<open>Kernel/drivers/console.c\<close> (text mode at \<open>0xB8000\<close>): the write position, wrapping, scrolling,
  newline, tab, backspace and the blinking cursor. The video memory is a function from byte
  offsets, so a write outside the 80 x 25 screen would be visible in the model; the theorems show
  that none happens. The only window of the driver starts at \<open>(0, 0)\<close> and is 80 x 25.
\<close>

section \<open>State\<close>

definition SCREEN_WIDTH :: nat where "SCREEN_WIDTH = 80"
definition SCREEN_HEIGHT :: nat where "SCREEN_HEIGHT = 25"

definition BLACK :: u8 where "BLACK = 0"
definition LGREY :: u8 where "LGREY = 7"
definition WHITE :: u8 where "WHITE = 15"

text \<open>\<open>currPos\<close> of \<open>windows[0]\<close>, \<open>cursorActive\<close> and the bytes from \<open>video\<close> on.\<close>

record console =
  curX :: u8
  curY :: u8
  cursorActive :: int
  video :: "nat \<Rightarrow> u8"

definition init_console :: "(nat \<Rightarrow> u8) \<Rightarrow> console" where
  "init_console v = \<lparr>curX = 0, curY = 0, cursorActive = 0, video = v\<rparr>"

section \<open>Operations\<close>

definition restartCurrentPos :: "console \<Rightarrow> console" where
  "restartCurrentPos c = c\<lparr>curX := 0, curY := 0\<rparr>"

definition getPosition :: "nat \<Rightarrow> nat \<Rightarrow> nat" where
  "getPosition y x = x * 2 + y * SCREEN_WIDTH * 2"

text \<open>One cell of the row loop of \<open>scrollUp\<close>: character and attribute move one row up.\<close>

definition copyCell :: "nat \<Rightarrow> nat \<Rightarrow> (nat \<Rightarrow> u8) \<Rightarrow> (nat \<Rightarrow> u8)" where
  "copyCell i j v =
     (let v1 = v(getPosition (i - 1) j := v (getPosition i j))
      in v1(getPosition (i - 1) j + 1 := v1 (getPosition i j + 1)))"

definition clearCell :: "nat \<Rightarrow> (nat \<Rightarrow> u8) \<Rightarrow> (nat \<Rightarrow> u8)" where
  "clearCell j v =
     (v(getPosition (SCREEN_HEIGHT - 1) j := 32))(getPosition (SCREEN_HEIGHT - 1) j + 1 := 0)"

definition copyRow :: "nat \<Rightarrow> (nat \<Rightarrow> u8) \<Rightarrow> (nat \<Rightarrow> u8)" where
  "copyRow i v = fold (copyCell i) [0 ..< SCREEN_WIDTH] v"

definition scrollUp :: "console \<Rightarrow> console" where
  "scrollUp c =
     c\<lparr>video := fold clearCell [0 ..< SCREEN_WIDTH] (fold copyRow [1 ..< SCREEN_HEIGHT] (video c)),
       curY := curY c - 1\<rparr>"

definition goNextPosition :: "console \<Rightarrow> console" where
  "goNextPosition c =
     (let goNextLine = (curX c = 79)
      in c\<lparr>curX := (if \<not> goNextLine then curX c + 1 else 0),
           curY := curY c + (if goNextLine then 1 else 0)\<rparr>)"

text \<open>What \<open>printCharColor\<close> does for a character that is none of backspace, newline and tab.\<close>

definition printPlain :: "u8 \<Rightarrow> u8 \<Rightarrow> u8 \<Rightarrow> bool \<Rightarrow> console \<Rightarrow> console" where
  "printPlain ch fg bg nxt c =
     (let c1 = (if curY c = 25 then scrollUp c else c);
          p = getPosition (unat (curY c1)) (unat (curX c1));
          c2 = c1\<lparr>video := ((video c1)(p := ch))(p + 1 := push_bit 4 bg OR fg)\<rparr>
      in if nxt then goNextPosition c2 else c2)"

lemma curX_printPlain: "curX (printPlain ch fg bg True c) = (if curX c = 79 then 0 else curX c + 1)"
  by (simp add: printPlain_def goNextPosition_def scrollUp_def Let_def)

text \<open>The do-while of \<open>newLine\<close>: blanks until the column is the first one again.\<close>

function newLine :: "console \<Rightarrow> console" where
  "newLine c =
     (let c1 = printPlain 32 LGREY BLACK True c in if curX c1 \<noteq> 0 then newLine c1 else c1)"
  by pat_completeness auto

termination newLine
  by (relation "measure (\<lambda>c. 256 - unat (curX c))")
    (auto simp: curX_printPlain Let_def split: if_splits intro: word_step_decreases)

declare newLine.simps [simp del]

definition deleteChar :: "console \<Rightarrow> console" where
  "deleteChar c =
     (if curX c = 0
      then (if curY c > 0
            then printPlain 32 WHITE BLACK False (c\<lparr>curY := curY c - 1, curX := 79\<rparr>)
            else c)
      else printPlain 32 WHITE BLACK False (c\<lparr>curX := curX c - 1\<rparr>))"

definition printCharColor :: "u8 \<Rightarrow> u8 \<Rightarrow> u8 \<Rightarrow> bool \<Rightarrow> console \<Rightarrow> console" where
  "printCharColor ch fg bg nxt c =
     (if ch = 8 then deleteChar c
      else let c1 = (if curY c = 25 then scrollUp c else c) in
        if ch = 10 then newLine c1
        else if ch = 9 then printPlain 32 fg bg True (printPlain 32 fg bg True c1)
        else printPlain ch fg bg nxt c1)"

definition printChar :: "u8 \<Rightarrow> console \<Rightarrow> console" where
  "printChar ch c = printCharColor ch LGREY BLACK True c"

definition print :: "u8 list \<Rightarrow> console \<Rightarrow> console" where
  "print str c = fold printChar str c"

definition printColor :: "u8 list \<Rightarrow> u8 \<Rightarrow> u8 \<Rightarrow> console \<Rightarrow> console" where
  "printColor str fg bg c = fold (\<lambda>ch. printCharColor ch fg bg True) str c"

definition clearScreen :: "console \<Rightarrow> console" where
  "clearScreen c = restartCurrentPos ((newLine ^^ (SCREEN_HEIGHT + 1)) (restartCurrentPos c))"

definition initializeSingleScreen :: "console \<Rightarrow> console" where
  "initializeSingleScreen c = restartCurrentPos c"

definition stopCursor :: "console \<Rightarrow> console" where
  "stopCursor c = printCharColor 32 WHITE BLACK False c"

definition setCursor :: "int \<Rightarrow> console \<Rightarrow> console" where
  "setCursor active c =
     (let c1 = c\<lparr>cursorActive := active\<rparr> in if active = 0 then stopCursor c1 else c1)"

text \<open>\<open>blinkCursor\<close> of the tick count (an \<open>int\<close>).\<close>

definition blinkCursor :: "int \<Rightarrow> console \<Rightarrow> console" where
  "blinkCursor ticks c =
     (if cursorActive c \<noteq> 0
      then if ticks mod 18 = 0 then printCharColor 32 WHITE BLACK False c
           else if ticks mod 9 = 0 then printCharColor 95 WHITE BLACK False c
           else c
      else c)"

end
