(* ===== verification/ConsoleProps.thy ===== *)
theory ConsoleProps
  imports Console
begin

text \<open>
  What the console driver guarantees: every operation keeps the write position on the screen (or
  just past its last row, which the next write scrolls away) and never writes a byte outside the
  4000 bytes of the screen; scrolling moves every row up and blanks the last; \<open>newLine\<close> ends at
  column 0 of the next row; \<open>clearScreen\<close> blanks every cell.
\<close>

section \<open>The invariant\<close>

definition console_ok :: "console \<Rightarrow> bool" where
  "console_ok c \<longleftrightarrow> unat (curX c) < 80 \<and> (unat (curY c) < 25 \<or> (unat (curY c) = 25 \<and> curX c = 0))"

definition same_outside :: "console \<Rightarrow> console \<Rightarrow> bool" where
  "same_outside c c' \<longleftrightarrow> (\<forall>k \<ge> 4000. video c' k = video c k)"

lemma same_outside_refl [simp]: "same_outside c c"
  by (simp add: same_outside_def)

lemma same_outside_trans: "same_outside a b \<Longrightarrow> same_outside b c \<Longrightarrow> same_outside a c"
  by (simp add: same_outside_def)

lemma u8_eq_iff: "(x :: u8) = y \<longleftrightarrow> unat x = unat y"
  by (simp add: word_unat_eq_iff)

section \<open>Scrolling\<close>

lemma copyCells:
  "j \<le> 80 \<Longrightarrow> fold (copyCell (Suc i)) [0 ..< j] v k =
     (if i * 160 \<le> k \<and> k < i * 160 + 2 * j then v (k + 160) else v k)"
proof (induction j arbitrary: k)
  case 0
  then show ?case by auto
next
  case (Suc j)
  let ?v = "fold (copyCell (Suc i)) [0 ..< j] v" and ?p = "j * 2 + i * 160"
  have i: "getPosition (Suc i - 1) j = ?p" "getPosition (Suc i) j = ?p + 160"
    by (auto simp: getPosition_def SCREEN_WIDTH_def algebra_simps)
  have "?v (?p + 160) = v (?p + 160)" "?v (?p + 161) = v (?p + 161)"
    using Suc.IH [of "?p + 160"] Suc.IH [of "?p + 161"] Suc.prems by auto
  then have "copyCell (Suc i) j ?v k =
      (if k = ?p then v (?p + 160) else if k = ?p + 1 then v (?p + 161) else ?v k)"
    unfolding copyCell_def i Let_def by (auto simp: algebra_simps)
  then show ?case
    using Suc.IH [of k] Suc.prems by (auto simp: algebra_simps)
qed

lemma copyRow_spec:
  "copyRow (Suc i) v k = (if i * 160 \<le> k \<and> k < Suc i * 160 then v (k + 160) else v k)"
  using copyCells [of 80 i v k] by (auto simp: copyRow_def SCREEN_WIDTH_def)

lemma copyRows: "fold copyRow [1 ..< Suc n] v k = (if k < n * 160 then v (k + 160) else v k)"
proof (induction n arbitrary: k)
  case 0
  then show ?case by simp
next
  case (Suc n)
  have "fold copyRow [1 ..< Suc (Suc n)] v k = copyRow (Suc n) (fold copyRow [1 ..< Suc n] v) k"
    by simp
  also have "\<dots> = (if k < Suc n * 160 then v (k + 160) else v k)"
    using Suc.IH [of k] Suc.IH [of "k + 160"] by (auto simp: copyRow_spec)
  finally show ?case .
qed

lemma clearCells:
  "fold clearCell [0 ..< j] v k =
     (if 3840 \<le> k \<and> k < 3840 + 2 * j then (if even k then 32 else 0) else v k)"
proof (induction j arbitrary: k)
  case 0
  then show ?case by auto
next
  case (Suc j)
  have "getPosition (SCREEN_HEIGHT - 1) j = 3840 + 2 * j"
    by (simp add: getPosition_def SCREEN_WIDTH_def SCREEN_HEIGHT_def)
  then show ?case using Suc.IH [of k] by (auto simp: clearCell_def)
qed

lemma video_scrollUp:
  "video (scrollUp c) k =
     (if k < 3840 then video c (k + 160)
      else if k < 4000 then (if even k then 32 else 0) else video c k)"
  using copyRows [of 24 "video c" k] clearCells [of 80 _ k]
  by (simp add: scrollUp_def SCREEN_WIDTH_def SCREEN_HEIGHT_def)

lemma cur_scrollUp [simp]: "curX (scrollUp c) = curX c" "curY (scrollUp c) = curY c - 1"
  by (simp_all add: scrollUp_def)

section \<open>Writing one character\<close>

text \<open>The state a character is written in: after the scroll, if the position was past the last
  row.\<close>

definition scrolled :: "console \<Rightarrow> console" where
  "scrolled c = (if curY c = 25 then scrollUp c else c)"

lemma scrolled_ok:
  assumes "console_ok c"
  shows "unat (curY (scrolled c)) < 25" "unat (curX (scrolled c)) < 80" "same_outside c (scrolled c)"
    "curX (scrolled c) = curX c" "console_ok (scrolled c)"
proof -
  have "curY c = 25 \<Longrightarrow> unat (curY c - 1) = 24" by simp
  then show "unat (curY (scrolled c)) < 25" "unat (curX (scrolled c)) < 80"
    "same_outside c (scrolled c)" "curX (scrolled c) = curX c" "console_ok (scrolled c)"
    using assms u8_eq_iff [of "curY c" 25]
    by (auto simp: scrolled_def console_ok_def same_outside_def video_scrollUp)
qed

lemma printPlain_scrolled: "printPlain ch fg bg nxt c = printPlain ch fg bg nxt (scrolled c)"
proof (cases "curY c = 25")
  case True
  then have "curY (scrolled c) = 24" by (simp add: scrolled_def)
  then show ?thesis using True by (simp add: printPlain_def scrolled_def)
qed (simp add: scrolled_def)

lemma goNextPosition_ok:
  assumes "unat (curY c) < 25" "unat (curX c) < 80"
  shows "console_ok (goNextPosition c)" "video (goNextPosition c) = video c"
proof -
  have y: "unat (curY c + 1) = unat (curY c) + 1"
    using assms(1) by (intro unat_plus_one) (auto simp: word_unat_eq_iff unat_word_ariths)
  have x: "curX c \<noteq> 79 \<Longrightarrow> unat (curX c + 1) < 80"
  proof -
    assume "curX c \<noteq> 79"
    then have "unat (curX c) < 79" using assms(2) by (auto simp: u8_eq_iff)
    then show ?thesis by (simp add: unat_word_ariths)
  qed
  show "console_ok (goNextPosition c)" "video (goNextPosition c) = video c"
    using assms x y by (auto simp: goNextPosition_def console_ok_def Let_def)
qed

lemma getPosition_bound: "y < 25 \<Longrightarrow> x < 80 \<Longrightarrow> getPosition y x + 1 < 4000"
  by (simp add: getPosition_def SCREEN_WIDTH_def)

lemma printPlain_ok:
  assumes "console_ok c"
  shows "console_ok (printPlain ch fg bg nxt c)" "same_outside c (printPlain ch fg bg nxt c)"
proof -
  note s = scrolled_ok [OF assms]
  let ?c = "scrolled c"
  let ?p = "getPosition (unat (curY ?c)) (unat (curX ?c))"
  let ?w = "?c\<lparr>video := (video ?c)(?p := ch, ?p + 1 := push_bit 4 bg OR fg)\<rparr>"
  have eq: "printPlain ch fg bg nxt c = (if nxt then goNextPosition ?w else ?w)"
    by (simp add: printPlain_def scrolled_def Let_def)
  have w: "console_ok ?w" "same_outside c ?w"
    using s getPosition_bound [of "unat (curY ?c)" "unat (curX ?c)"]
    by (auto simp: console_ok_def same_outside_def)
  have "console_ok (goNextPosition ?w)" "video (goNextPosition ?w) = video ?w"
    using goNextPosition_ok [of ?w] s by simp_all
  then show "console_ok (printPlain ch fg bg nxt c)" "same_outside c (printPlain ch fg bg nxt c)"
    using w eq by (auto simp: same_outside_def)
qed

lemma newLine_ok: "console_ok c \<Longrightarrow> console_ok (newLine c) \<and> same_outside c (newLine c)"
proof (induction c rule: newLine.induct)
  case (1 c)
  note p = printPlain_ok [OF "1.prems", of 32 LGREY BLACK True]
  show ?case
    using p "1.IH" [OF refl] by (subst (1 2) newLine.simps) (auto simp: Let_def intro: same_outside_trans)
qed

lemma newLine_column: "curX (newLine c) = 0"
proof (induction c rule: newLine.induct)
  case (1 c)
  then show ?case by (subst newLine.simps) (auto simp: Let_def)
qed

lemma deleteChar_ok:
  assumes "console_ok c"
  shows "console_ok (deleteChar c) \<and> same_outside c (deleteChar c)"
proof -
  have "unat (79::u8) = 79" by simp
  have y: "curY c > 0 \<Longrightarrow> console_ok (c\<lparr>curY := curY c - 1, curX := 79\<rparr>)"
  proof -
    assume "curY c > 0"
    then have "unat (curY c - 1) = unat (curY c) - 1" "unat (curY c) > 0"
      by (simp_all add: unat_minus_one word_gt_0 unat_gt_0)
    then show ?thesis using assms by (auto simp: console_ok_def)
  qed
  have x: "curX c \<noteq> 0 \<Longrightarrow> console_ok (c\<lparr>curX := curX c - 1\<rparr>)"
    using assms by (auto simp: console_ok_def unat_minus_one)
  have same: "same_outside (c\<lparr>curY := a, curX := b\<rparr>) d = same_outside c d"
    "same_outside (c\<lparr>curX := b\<rparr>) d = same_outside c d" for a b d
    by (simp_all add: same_outside_def)
  show ?thesis
    using assms printPlain_ok [OF y, of 32 WHITE BLACK False]
      printPlain_ok [OF x, of 32 WHITE BLACK False]
    by (auto simp: deleteChar_def same)
qed

lemma printCharColor_ok:
  assumes "console_ok c"
  shows "console_ok (printCharColor ch fg bg nxt c) \<and> same_outside c (printCharColor ch fg bg nxt c)"
proof -
  have 1: "printCharColor ch fg bg nxt c =
      (if ch = 8 then deleteChar c
       else if ch = 10 then newLine (scrolled c)
       else if ch = 9 then printPlain 32 fg bg True (printPlain 32 fg bg True (scrolled c))
       else printPlain ch fg bg nxt (scrolled c))"
    by (simp add: printCharColor_def scrolled_def Let_def)
  note s = scrolled_ok [OF assms]
  note p = printPlain_ok [OF s(5)]
  show ?thesis
    using s(3) p newLine_ok [OF s(5)] deleteChar_ok [OF assms]
      printPlain_ok [OF p(1) [of 32 fg bg True], of 32 fg bg True]
    unfolding 1 by (auto simp: same_outside_def)
qed

lemma fold_ok:
  "(\<And>x c. console_ok c \<Longrightarrow> console_ok (f x c) \<and> same_outside c (f x c)) \<Longrightarrow> console_ok c \<Longrightarrow>
     console_ok (fold f xs c) \<and> same_outside c (fold f xs c)"
  by (induction xs arbitrary: c) (auto intro: same_outside_trans)

lemma restart_ok [simp]: "console_ok (restartCurrentPos c)" "same_outside c (restartCurrentPos c)"
  by (simp_all add: restartCurrentPos_def console_ok_def same_outside_def)

section \<open>Newline and clear\<close>

text \<open>From column \<open>x\<close> of a row on the screen, \<open>newLine\<close> blanks the rest of the row.\<close>

lemma newLine_row:
  assumes "unat (curX c) = 80 - Suc n" "n < 80" "unat (curY c) < 25"
  shows "curY (newLine c) = curY c + 1 \<and>
    video (newLine c) = (\<lambda>k. if getPosition (unat (curY c)) (80 - Suc n) \<le> k \<and>
        k < getPosition (unat (curY c)) 80 then (if even k then 32 else 7) else video c k)"
  using assms
proof (induction n arbitrary: c)
  case 0
  then have "curX c = 79" by (simp add: u8_eq_iff)
  moreover have "curY c \<noteq> 25" using 0 by (auto simp: u8_eq_iff)
  ultimately show ?case
    using 0
    by (subst (1 2) newLine.simps)
      (auto simp: printPlain_def goNextPosition_def Let_def getPosition_def SCREEN_WIDTH_def
        LGREY_def BLACK_def fun_eq_iff; presburger)
next
  case (Suc n)
  let ?c1 = "printPlain 32 LGREY BLACK True c"
  have x: "curX c \<noteq> 79" "curY c \<noteq> 25" using Suc.prems by (auto simp: u8_eq_iff)
  have x1: "unat (curX c + 1) = 80 - Suc n"
    using Suc.prems by (simp add: unat_word_ariths)
  have c1: "curX ?c1 = curX c + 1" "curY ?c1 = curY c"
    "video ?c1 = (video c)(getPosition (unat (curY c)) (80 - Suc (Suc n)) := 32,
        getPosition (unat (curY c)) (80 - Suc (Suc n)) + 1 := 7)"
    using x Suc.prems(1) by (simp_all add: printPlain_def goNextPosition_def Let_def LGREY_def BLACK_def)
  have "curX ?c1 \<noteq> 0" using c1 x1 Suc.prems by (auto simp: u8_eq_iff)
  then have nl: "newLine c = newLine ?c1" by (subst newLine.simps) (simp add: Let_def)
  have ih: "curY (newLine ?c1) = curY ?c1 + 1"
    "video (newLine ?c1) = (\<lambda>k. if getPosition (unat (curY ?c1)) (80 - Suc n) \<le> k \<and>
        k < getPosition (unat (curY ?c1)) 80 then (if even k then 32 else 7) else video ?c1 k)"
    using Suc.IH [of ?c1] c1 x1 Suc.prems by simp_all
  have pos: "getPosition y (80 - Suc (Suc n)) + 2 = getPosition y (80 - Suc n)"
    "even (getPosition y (80 - Suc (Suc n)))" "getPosition y (80 - Suc n) \<le> getPosition y 80" for y
    using Suc.prems(2) by (auto simp: getPosition_def SCREEN_WIDTH_def)
  have "video (newLine c) k = (if getPosition (unat (curY c)) (80 - Suc (Suc n)) \<le> k \<and>
      k < getPosition (unat (curY c)) 80 then (if even k then 32 else 7) else video c k)" for k
    using pos [of "unat (curY c)"] unfolding nl ih c1 by (auto; presburger)
  then show ?case using ih c1 nl by (auto simp: fun_eq_iff)
qed

lemma newLine_from_start:
  assumes "curX c = 0" "unat (curY c) < 25"
  shows "curY (newLine c) = curY c + 1"
    "video (newLine c) k = (if unat (curY c) * 160 \<le> k \<and> k < unat (curY c) * 160 + 160
        then (if even k then 32 else 7) else video c k)"
  using newLine_row [of c 79] assms by (auto simp: getPosition_def SCREEN_WIDTH_def)

lemma newLine_scrolled: "newLine c = newLine (scrolled c)"
  using printPlain_scrolled [of 32 LGREY BLACK True c]
  by (subst (1 2) newLine.simps) simp

definition blank_upto :: "nat \<Rightarrow> console \<Rightarrow> bool" where
  "blank_upto n c \<longleftrightarrow> (\<forall>k < n. even k \<longrightarrow> video c k = 32)"

lemma newLines_blank:
  "n \<le> 25 \<Longrightarrow> curX c = 0 \<Longrightarrow> curY c = 0 \<Longrightarrow>
     curX ((newLine ^^ n) c) = 0 \<and> unat (curY ((newLine ^^ n) c)) = n \<and>
     blank_upto (n * 160) ((newLine ^^ n) c)"
proof (induction n)
  case 0
  then show ?case by (simp add: blank_upto_def)
next
  case (Suc n)
  let ?c = "(newLine ^^ n) c"
  have c: "curX ?c = 0" "unat (curY ?c) = n" "n < 25" "blank_upto (n * 160) ?c"
    using Suc by simp_all
  then have "unat (curY (newLine ?c)) = Suc n"
    using newLine_from_start(1) [of ?c] by (simp add: unat_word_ariths)
  moreover have "blank_upto (Suc n * 160) (newLine ?c)"
    using c newLine_from_start(2) [of ?c] by (auto simp: blank_upto_def)
  ultimately show ?case by (simp add: newLine_column)
qed

lemma clearScreen_cells:
  assumes "k < 4000" "even k"
  shows "video (clearScreen c) k = 32"
proof -
  let ?c = "(newLine ^^ 25) (restartCurrentPos c)"
  have b: "curX ?c = 0" "unat (curY ?c) = 25" "blank_upto 4000 ?c"
    using newLines_blank [of 25 "restartCurrentPos c"] by (simp_all add: restartCurrentPos_def)
  then have y: "curY ?c = 25" by (simp add: u8_eq_iff)
  let ?s = "scrollUp ?c"
  have s: "curX ?s = 0" "unat (curY ?s) = 24" using b y by simp_all
  have "video (newLine ?s) k = 32"
    using newLine_from_start(2) [OF s(1), of k] s(2) assms b(3)
    by (auto simp: video_scrollUp blank_upto_def)
  moreover have "newLine ?c = newLine ?s" using newLine_scrolled [of ?c] y by (simp add: scrolled_def)
  moreover have "(newLine ^^ (SCREEN_HEIGHT + 1)) (restartCurrentPos c) = newLine ?c"
    by (simp add: SCREEN_HEIGHT_def numeral_eq_Suc)
  ultimately show ?thesis by (simp add: clearScreen_def restartCurrentPos_def)
qed

end
