(* ===== verification/CString.thy ===== *)
theory CString
  imports Prelude
begin

text \<open>
  \<open>Kernel/lib/string.c\<close> over byte-addressed memory. The loops follow the code pointer by pointer and
  may run for ever on memory without a terminator, so they are partial functions: \<open>None\<close> is not
  returning. \<open>cstr m p xs\<close> says that the C string at \<open>p\<close> is \<open>xs\<close>; on such memory every function
  returns, and the rest of the kernel model works with the lists.
\<close>

type_synonym memory = "u64 \<Rightarrow> u8"

section \<open>Functions\<close>

text \<open>A \<open>char\<close> is signed and widened to \<open>int\<close> by \<open>sint\<close>.\<close>

definition toLower :: "int \<Rightarrow> int" where
  "toLower chr = (if chr \<ge> 65 \<and> chr \<le> 90 then chr + 32 else chr)"

partial_function (option) strlen_loop :: "memory \<Rightarrow> u64 \<Rightarrow> int \<Rightarrow> int option" where
  "strlen_loop m p i = (if m p \<noteq> 0 then strlen_loop m (p + 1) (i + 1) else Some i)"

definition strlen :: "memory \<Rightarrow> u64 \<Rightarrow> int option" where
  "strlen m p = (if p = 0 then Some (-1) else strlen_loop m p 0)"

partial_function (option) strcpy_loop :: "memory \<Rightarrow> u64 \<Rightarrow> u64 \<Rightarrow> memory option" where
  "strcpy_loop m d s =
     (let m' = m(d := m s) in if m s \<noteq> 0 then strcpy_loop m' (d + 1) (s + 1) else Some m')"

definition strcpy :: "memory \<Rightarrow> u64 \<Rightarrow> u64 \<Rightarrow> (u64 \<times> memory) option" where
  "strcpy m d s = map_option (\<lambda>m'. (d, m')) (strcpy_loop m d s)"

text \<open>\<open>strncpy\<close>: the loop ends after at most \<open>n\<close> bytes, and one more byte is written.\<close>

primrec strncpy_loop :: "nat \<Rightarrow> memory \<Rightarrow> u64 \<Rightarrow> u64 \<Rightarrow> memory" where
  "strncpy_loop 0 m d s = m(d := 0)"
| "strncpy_loop (Suc n) m d s =
     (if m s \<noteq> 0 then strncpy_loop n (m(d := m s)) (d + 1) (s + 1) else m(d := 0))"

definition strncpy :: "memory \<Rightarrow> u64 \<Rightarrow> u64 \<Rightarrow> nat \<Rightarrow> u64 \<times> memory" where
  "strncpy m d s n = (d, strncpy_loop n m d s)"

partial_function (option) strcasecmp :: "memory \<Rightarrow> u64 \<Rightarrow> u64 \<Rightarrow> int option" where
  "strcasecmp m p q =
     (if m p \<noteq> 0 \<and> m q \<noteq> 0 \<and> toLower (sint (m p)) = toLower (sint (m q))
      then strcasecmp m (p + 1) (q + 1)
      else Some (if m p = 0 \<and> m q = 0 then 0
                 else if m p = 0 then -1
                 else if m q = 0 then 1
                 else toLower (sint (m p)) - toLower (sint (m q))))"

section \<open>Strings in memory\<close>

primrec cstr :: "memory \<Rightarrow> u64 \<Rightarrow> u8 list \<Rightarrow> bool" where
  "cstr m p [] = (m p = 0)"
| "cstr m p (c # cs) = (m p = c \<and> c \<noteq> 0 \<and> cstr m (p + 1) cs)"

text \<open>The addresses a string of that length occupies, its terminator included.\<close>

primrec region :: "u64 \<Rightarrow> nat \<Rightarrow> u64 set" where
  "region p 0 = {p}"
| "region p (Suc n) = insert p (region (p + 1) n)"

lemma region_self [simp]: "p \<in> region p n"
  by (cases n) auto

lemma in_region: "a \<in> region p n \<Longrightarrow> \<exists>i \<le> n. a = p + of_nat i"
proof (induction n arbitrary: p)
  case 0
  then show ?case by simp
next
  case (Suc n)
  show ?case
  proof (cases "a = p")
    case True
    then show ?thesis by (intro exI [of _ 0]) simp
  next
    case False
    then obtain i where "i \<le> n" "a = p + 1 + of_nat i" using Suc by auto
    then show ?thesis by (intro exI [of _ "Suc i"]) (simp add: add.assoc)
  qed
qed

lemma region_bounded:
  assumes "n < 2 ^ 64 - 1"
  shows "p \<notin> region (p + 1) n"
proof
  assume "p \<in> region (p + 1) n"
  then obtain i where i: "i \<le> n" "p = p + 1 + of_nat i" using in_region by blast
  then have "p + (of_nat (Suc i) :: u64) = p" by (metis add.assoc add.commute of_nat_Suc)
  then have "(of_nat (Suc i) :: u64) = 0" by (metis add_cancel_right_right)
  then have "unat (of_nat (Suc i) :: u64) = 0" by (simp only: unat_eq_zero)
  moreover have "unat (of_nat (Suc i) :: u64) = Suc i"
    using i(1) assms by (simp only: unat_of_nat) simp
  ultimately show False by simp
qed

lemma cstr_unchanged:
  "cstr m p xs \<Longrightarrow> (\<And>a. a \<in> region p (length xs) \<Longrightarrow> m' a = m a) \<Longrightarrow> cstr m' p xs"
  by (induction xs arbitrary: p) (auto simp: region.simps)

lemma cstr_unique: "cstr m p xs \<Longrightarrow> cstr m p ys \<Longrightarrow> xs = ys"
proof (induction xs arbitrary: p ys)
  case Nil
  then show ?case by (cases ys) auto
next
  case (Cons x xs)
  then show ?case by (cases ys) auto
qed

section \<open>What the functions compute\<close>

lemma strlen_loop_cstr: "cstr m p xs \<Longrightarrow> strlen_loop m p i = Some (i + int (length xs))"
  by (induction xs arbitrary: p i) (simp_all add: strlen_loop.simps)

lemma strcpy_loop_cstr:
  "cstr m s xs \<Longrightarrow> region d (length xs) \<inter> region s (length xs) = {} \<Longrightarrow> length xs < 2 ^ 64 - 1 \<Longrightarrow>
     \<exists>m'. strcpy_loop m d s = Some m' \<and> cstr m' d xs \<and> (\<forall>a. a \<notin> region d (length xs) \<longrightarrow> m' a = m a)"
proof (induction xs arbitrary: m d s)
  case Nil
  then show ?case by (simp add: strcpy_loop.simps)
next
  case (Cons x xs)
  let ?m = "m(d := m s)"
  have disj: "region (d + 1) (length xs) \<inter> region (s + 1) (length xs) = {}"
    and d: "d \<notin> region (s + 1) (length xs)"
    using Cons.prems(2) by (auto simp: region.simps)
  have "cstr ?m (s + 1) xs"
    by (rule cstr_unchanged [of m]) (use Cons.prems(1) d in auto)
  moreover have "length xs < 2 ^ 64 - 1" using Cons.prems(3) by simp
  ultimately obtain m' where
    m': "strcpy_loop ?m (d + 1) (s + 1) = Some m'" "cstr m' (d + 1) xs"
      "\<forall>a. a \<notin> region (d + 1) (length xs) \<longrightarrow> m' a = ?m a"
    using Cons.IH [OF _ disj] by blast
  have "m' d = x"
    using m'(3) region_bounded [of "length xs" d] Cons.prems(1,3) by simp
  moreover have "\<forall>a. a \<notin> region d (length (x # xs)) \<longrightarrow> m' a = m a"
    using m'(3) by (simp add: region.simps)
  moreover have "strcpy_loop m d s = Some m'"
    using m'(1) Cons.prems(1) by (subst strcpy_loop.simps) (simp add: Let_def)
  ultimately show ?case using m'(2) Cons.prems(1) by auto
qed

text \<open>The comparison as a function of the two strings.\<close>

fun strcasecmp_list :: "u8 list \<Rightarrow> u8 list \<Rightarrow> int" where
  "strcasecmp_list [] [] = 0"
| "strcasecmp_list [] (b # bs) = -1"
| "strcasecmp_list (a # as) [] = 1"
| "strcasecmp_list (a # as) (b # bs) =
     (if toLower (sint a) = toLower (sint b) then strcasecmp_list as bs
      else toLower (sint a) - toLower (sint b))"

lemma strcasecmp_cstr:
  "cstr m p xs \<Longrightarrow> cstr m q ys \<Longrightarrow> strcasecmp m p q = Some (strcasecmp_list xs ys)"
proof (induction xs ys arbitrary: p q rule: strcasecmp_list.induct)
  case (4 a as b bs)
  then show ?case by (subst strcasecmp.simps) auto
qed (subst strcasecmp.simps, simp)+

definition lowered :: "u8 list \<Rightarrow> int list" where
  "lowered xs = map (\<lambda>c. toLower (sint c)) xs"

lemma strcasecmp_list_eq_0: "strcasecmp_list xs ys = 0 \<longleftrightarrow> lowered xs = lowered ys"
  by (induction xs ys rule: strcasecmp_list.induct) (auto simp: lowered_def)

section \<open>Properties\<close>

text \<open>\<open>strcpy\<close> from a string to a disjoint destination returns the destination, which then
  holds the same string with its terminator, and no byte beyond it is written.\<close>

theorem strcpy_copies:
  assumes "cstr m s xs" and "region d (length xs) \<inter> region s (length xs) = {}"
    and "length xs < 2 ^ 64 - 1"
  shows "\<exists>m'. strcpy m d s = Some (d, m') \<and> cstr m' d xs \<and> cstr m' s xs \<and>
           (\<forall>a. a \<notin> region d (length xs) \<longrightarrow> m' a = m a)"
proof -
  obtain m' where m': "strcpy_loop m d s = Some m'" "cstr m' d xs"
      "\<forall>a. a \<notin> region d (length xs) \<longrightarrow> m' a = m a"
    using strcpy_loop_cstr [OF assms] by blast
  moreover have "cstr m' s xs"
    by (rule cstr_unchanged [OF assms(1)]) (use m'(3) assms(2) in blast)
  ultimately show ?thesis by (simp add: strcpy_def)
qed

theorem strcpy_copies_witness:
  "\<exists>m'. strcpy ((\<lambda>_. 9)(100 := 65, 101 := 66, 102 := 0)) 200 100 = Some (200, m') \<and>
     cstr m' 200 [65, 66] \<and> cstr m' 100 [65, 66] \<and>
     (\<forall>a. a \<notin> region 200 (length [65 :: u8, 66]) \<longrightarrow> m' a = ((\<lambda>_. 9)(100 := 65, 101 := 66, 102 := 0)) a)"
  by (rule strcpy_copies) simp_all

text \<open>\<open>strcasecmp\<close> always returns on two strings, and returns 0 exactly when they are equal
  after lowering the ASCII capitals: the name lookup of named semaphores is case insensitive and
  nothing else.\<close>

theorem strcasecmp_zero_iff:
  assumes "cstr m p xs" and "cstr m q ys"
  shows "\<exists>r. strcasecmp m p q = Some r \<and> (r = 0 \<longleftrightarrow> lowered xs = lowered ys)"
  using strcasecmp_cstr [OF assms] strcasecmp_list_eq_0 by simp

theorem strcasecmp_zero_iff_witness:
  "\<exists>r. strcasecmp ((\<lambda>_. 0)(100 := 65, 200 := 97)) 100 200 = Some r \<and>
     (r = 0 \<longleftrightarrow> lowered [65] = lowered [97])"
  by (rule strcasecmp_zero_iff) simp_all

end
