(* ===== verification/KernelState.thy ===== *)
theory KernelState
  imports ConsoleProps CString
begin

text \<open>
  The state of the kernel and the results of kernel code. The queues of \<open>queue.c\<close> appear as the
  lists they implement (theory \<open>QueueContract\<close>), the answers of the memory manager as an arbitrary
  stream, and a call into the kernel as a resumption: it returns, is switched away from in the
  middle and continues later from whatever state the kernel is in then, or crashes.
\<close>

section \<open>Objects of the kernel\<close>

datatype process_state = READY | BLOCKED | EXITED | TERMINATED

definition BACKGROUND_PRIORITY :: int where "BACKGROUND_PRIORITY = 1"
definition FOREGROUND_PRIORITY :: int where "FOREGROUND_PRIORITY = 2"
definition MAX_PRIO :: int where "MAX_PRIO = 20"

text \<open>\<open>pcb\<close> of \<open>processManager.h\<close>; \<open>pc_argv\<close> holds the copied argument strings.\<close>

record pcb =
  pc_pid :: int
  pc_ppid :: int
  pc_foreground :: int
  pc_state :: process_state
  pc_priority :: int
  pc_name :: "u8 list"
  pc_fd0 :: int
  pc_fd1 :: int
  pc_rsp :: u64
  pc_rbp :: u64
  pc_argc :: int
  pc_argv :: "u8 list list"
  pc_semId :: int

text \<open>\<open>stackFrame\<close>: what the interrupt return of a new process pops, in memory order.\<close>

record stackFrame =
  sf_gs :: u64
  sf_fs :: u64
  sf_r15 :: u64
  sf_r14 :: u64
  sf_r13 :: u64
  sf_r12 :: u64
  sf_r11 :: u64
  sf_r10 :: u64
  sf_r9 :: u64
  sf_r8 :: u64
  sf_rsi :: u64
  sf_rdi :: u64
  sf_rbp :: u64
  sf_rdx :: u64
  sf_rcx :: u64
  sf_rbx :: u64
  sf_rax :: u64
  sf_rip :: u64
  sf_cs :: u64
  sf_eflags :: u64
  sf_rsp :: u64
  sf_ss :: u64
  sf_base :: u64

text \<open>\<open>t_sem\<close> of \<open>sem.c\<close>. \<open>s_blocked\<close> is \<open>None\<close> when the queue of blocked pids could not be
  allocated.\<close>

record sem =
  s_blocked :: "int list option"
  s_attached :: u16
  s_id :: int
  s_value :: int
  s_lock :: int
  s_name :: "u8 list"

definition PIPE_BUFFER_SIZE :: int where "PIPE_BUFFER_SIZE = 1024"
definition STDIN_PIPENO :: int where "STDIN_PIPENO = 0"
definition STDOUT_PIPENO :: int where "STDOUT_PIPENO = 1"

text \<open>\<open>t_pipe\<close> of \<open>pipes.c\<close>.\<close>

record pipe =
  pi_id :: int
  pi_buffer :: "u8 list"
  pi_writeIndex :: int
  pi_readIndex :: int
  pi_totalProcesses :: int
  pi_writeSemId :: int
  pi_readSemId :: int

section \<open>The kernel state\<close>

text \<open>
  The static variables of the kernel's translation units. \<open>None\<close> stands for a \<open>NULL\<close> pointer:
  a queue that is not initialised yet, no current or idle process, no cached pipe. A pointer to
  a pipe is the pipe's id and \<open>cachedPipe\<close> the id of the cached pipe. \<open>mallocs n\<close> is the address
  the \<open>n\<close>-th call of \<open>malloc\<close> returns (\<open>0\<close> when memory is exhausted), \<open>heap_junk\<close> what fresh memory
  contains, \<open>low_word\<close> the \<open>int\<close> at address 0, which \<open>currentProcessPCB->pid\<close> reads before the first
  process runs, \<open>cpu_rsp\<close> the stack pointer at the current interrupt and \<open>frames\<close> the initial stack
  frames of new processes by address. \<open>wrapperAddr\<close> is the address of the
  code of \<open>processWrapper\<close>.
\<close>

record kernel =
  mallocs :: "nat \<Rightarrow> u64"
  mcount :: nat
  heap_junk :: u8
  low_word :: int
  cpu_rsp :: u64
  semQueue :: "sem list option"
  nextSemId :: int
  allSemsLock :: int
  pidCounter :: int
  procQueue :: "pcb list option"
  currentCycles :: int
  idleProc :: "pcb option"
  currentProc :: "pcb option"
  readyCount :: int
  userlandPid :: int
  initPid :: int
  frames :: "u64 \<rightharpoonup> stackFrame"
  wrapperAddr :: u64
  pipeQueue :: "pipe list option"
  allPipesSem :: int
  cachedPipe :: "int option"
  con :: console
  ticks :: u64
  stdinPipe :: int
  isSpecial :: int
  shiftFlag :: int
  controlFlag :: int
  registers :: "u64 list"

section \<open>Results of kernel code\<close>

text \<open>Why a call does not go on: an access through \<open>NULL\<close> or through freed memory, a spin lock that
  is never released, the scheduler entered from inside the scheduler, no process left to pick,
  an access past the end of a buffer, memory read or handed out before it was ever written. The last
  one is a bound of the model: a loop ran longer than its fuel.\<close>

datatype crash =
  NullDeref | UseAfterFree | SpinForever | NestedTick | NoReadyProcess | BufferOverflow | UninitRead |
  OutOfFuel

datatype 'a kres =
  Ret 'a kernel
| Switch kernel "kernel \<Rightarrow> 'a kres"
| Crash crash

primrec kbind :: "'a kres \<Rightarrow> ('a \<Rightarrow> kernel \<Rightarrow> 'b kres) \<Rightarrow> 'b kres" where
  "kbind (Ret a s) f = f a s"
| "kbind (Switch s k) f = Switch s (\<lambda>s'. kbind (k s') f)"
| "kbind (Crash c) f = Crash c"

lemma kbind_Ret_right [simp]: "kbind m (\<lambda>a s. Ret a s) = m"
  by (induction m) auto

lemma kbind_assoc: "kbind (kbind m f) g = kbind m (\<lambda>a s. kbind (f a s) g)"
  by (induction m) auto

text \<open>
  The calculus of such calls. \<open>kwp E I R m Q\<close>: if \<open>m\<close> crashes then in a way \<open>E\<close> allows; whenever it
  is switched away from, the kernel state satisfies \<open>I\<close>, and it goes on correctly from every state
  that satisfies \<open>R\<close>, the states in which it can be resumed; if it returns, result and state
  satisfy \<open>Q\<close>.
\<close>

primrec kwp ::
  "(crash \<Rightarrow> bool) \<Rightarrow> (kernel \<Rightarrow> bool) \<Rightarrow> (kernel \<Rightarrow> bool) \<Rightarrow> 'a kres \<Rightarrow>
     ('a \<Rightarrow> kernel \<Rightarrow> bool) \<Rightarrow> bool" where
  "kwp E I R (Ret a s) Q = Q a s"
| "kwp E I R (Switch s k) Q = (I s \<and> (\<forall>s'. R s' \<longrightarrow> kwp E I R (k s') Q))"
| "kwp E I R (Crash c) Q = E c"

lemma kwp_bind [simp]: "kwp E I R (kbind m f) Q = kwp E I R m (\<lambda>a s. kwp E I R (f a s) Q)"
  by (induction m) auto

lemma kwp_mono:
  "kwp E I R m Q \<Longrightarrow> (\<And>a s. Q a s \<Longrightarrow> Q' a s) \<Longrightarrow> kwp E I R m Q'"
  by (induction m) auto

lemma kwp_mono_crash: "kwp E I R m Q \<Longrightarrow> (\<And>c. E c \<Longrightarrow> E' c) \<Longrightarrow> kwp E' I R m Q"
  by (induction m) auto

lemma kwp_conj: "kwp E I R m Q \<Longrightarrow> kwp E I R m Q' \<Longrightarrow> kwp E I R m (\<lambda>a s. Q a s \<and> Q' a s)"
  by (induction m) auto

text \<open>Calls that never switch and never crash: their specification holds under every switch
  invariant, and they have a value.\<close>

abbreviation kwp0 :: "'a kres \<Rightarrow> ('a \<Rightarrow> kernel \<Rightarrow> bool) \<Rightarrow> bool" where
  "kwp0 m Q \<equiv> kwp (\<lambda>_. False) (\<lambda>_. False) (\<lambda>_. False) m Q"

lemma kwp_noswitch: "kwp E (\<lambda>_. False) R' m Q \<Longrightarrow> kwp E I R m Q"
  by (cases m) auto

lemma kwp0_iff: "kwp0 m Q \<longleftrightarrow> (\<exists>a s. m = Ret a s \<and> Q a s)"
  by (cases m) auto

lemma kwp0_lift: "kwp0 m Q \<Longrightarrow> (\<And>a s. Q a s \<Longrightarrow> Q' a s) \<Longrightarrow> kwp E I R m Q'"
  by (cases m) auto

section \<open>Memory and iteration\<close>

text \<open>Both memory managers return \<open>NULL\<close> for \<open>malloc(0)\<close>.\<close>

definition kmalloc :: "nat \<Rightarrow> kernel \<Rightarrow> u64 \<times> kernel" where
  "kmalloc n s = (if n = 0 then (0, s) else (mallocs s (mcount s), s\<lparr>mcount := Suc (mcount s)\<rparr>))"

definition memory_ok :: "kernel \<Rightarrow> bool" where
  "memory_ok s \<longleftrightarrow> (\<forall>n. mallocs s n \<noteq> 0)"

text \<open>\<open>find\<close> of \<open>queue.c\<close> over the list a queue stands for: it allocates its iterator, and finds
  nothing when that fails.\<close>

definition kfind :: "('a \<Rightarrow> bool) \<Rightarrow> 'a list option \<Rightarrow> kernel \<Rightarrow> 'a option \<times> kernel" where
  "kfind P q s =
     (case q of
        None \<Rightarrow> (None, s)
      | Some xs \<Rightarrow>
          (let (it, s') = kmalloc 8 s in (if it = 0 then None else List.find P xs, s')))"

text \<open>\<open>enqueue\<close>: the new list, unchanged when the node cannot be allocated.\<close>

definition kenqueue :: "'a \<Rightarrow> 'a list \<Rightarrow> kernel \<Rightarrow> 'a list \<times> kernel" where
  "kenqueue x xs s = (let (m, s') = kmalloc 16 s in (if m = 0 then xs else xs @ [x], s'))"

lemma kmalloc_ok: "memory_ok s \<Longrightarrow> 0 < n \<Longrightarrow> kmalloc n s = (mallocs s (mcount s), s\<lparr>mcount := Suc (mcount s)\<rparr>)
    \<and> mallocs s (mcount s) \<noteq> 0"
  by (simp add: kmalloc_def memory_ok_def)

end
