(* ===== verification/Proc.thy ===== *)
theory Proc
  imports KernelState
begin

text \<open>
  The process table of \<open>processManager.c\<close>: the queue of processes, the current and the idle process,
  and \<open>changeState\<close>, through which every state change of a process goes. A pointer to a \<open>pcb\<close> is
  its pid; under the invariant \<open>procs_ok\<close> pids identify processes, so a store through the pointer is
  an update of the process with that pid. The idle process is never in the queue, and while it runs
  \<open>currentProcessPCB\<close> and \<open>idleProcessPCB\<close> are the same object.
\<close>

section \<open>Lookup\<close>

text \<open>\<open>currentProcessPCB->pid\<close>, and \<open>getpid\<close>, which checks the pointer first.\<close>

definition curPid :: "kernel \<Rightarrow> int" where
  "curPid s = (case currentProc s of None \<Rightarrow> low_word s | Some p \<Rightarrow> pc_pid p)"

definition getpid :: "kernel \<Rightarrow> int" where
  "getpid s = (case currentProc s of None \<Rightarrow> 0 | Some p \<Rightarrow> pc_pid p)"

definition getProcess :: "int \<Rightarrow> kernel \<Rightarrow> pcb option \<times> kernel" where
  "getProcess pid s = kfind (\<lambda>p. pid = pc_pid p) (procQueue s) s"

text \<open>Reading and writing through a \<open>pcb\<close> pointer.\<close>

definition lookupProc :: "int \<Rightarrow> kernel \<Rightarrow> pcb option" where
  "lookupProc pid s =
     (case currentProc s of
        Some p \<Rightarrow> (if pc_pid p = pid then Some p else Option.bind (procQueue s) (List.find (\<lambda>p. pc_pid p = pid)))
      | None \<Rightarrow> Option.bind (procQueue s) (List.find (\<lambda>p. pc_pid p = pid)))"

definition modProc :: "int \<Rightarrow> (pcb \<Rightarrow> pcb) \<Rightarrow> kernel \<Rightarrow> kernel" where
  "modProc pid f s =
     (if (\<exists>p. currentProc s = Some p \<and> pc_pid p = pid)
      then s\<lparr>currentProc := map_option f (currentProc s),
             idleProc := map_option (\<lambda>i. if pc_pid i = pid then f i else i) (idleProc s)\<rparr>
      else s\<lparr>procQueue := map_option (upd_first (\<lambda>p. pc_pid p = pid) f) (procQueue s)\<rparr>)"

section \<open>Changing the state of a process\<close>

text \<open>
  \<open>sendTaskToInit\<close>. The do-while visits the current process and then the queue without its last
  element, because \<open>hasNext\<close> is tested after \<open>next\<close>. The killed process is looked up in the queue
  only: when it is the current process, \<open>killedProcess\<close> is \<open>NULL\<close> and the first iteration reads
  through it.
\<close>

definition orphan_step :: "int \<Rightarrow> int \<Rightarrow> bool \<times> kernel \<Rightarrow> bool \<times> kernel" where
  "orphan_step pid v hs =
     (case (lookupProc v (snd hs), Option.bind (procQueue (snd hs)) (List.find (\<lambda>p. pc_pid p = pid))) of
        (Some p, Some k) \<Rightarrow>
          (fst hs \<or> (pc_pid p = pc_ppid k \<and> pc_state p \<noteq> TERMINATED \<and> pc_state p \<noteq> EXITED),
           if pc_ppid p = pid \<and> pc_state p \<noteq> TERMINATED
           then modProc v (pc_ppid_update (\<lambda>_. initPid (snd hs))) (snd hs) else snd hs)
      | _ \<Rightarrow> hs)"

definition sendTaskToInit :: "int \<Rightarrow> kernel \<Rightarrow> int kres" where
  "sendTaskToInit pid s =
     (let (it, s1) = (case procQueue s of None \<Rightarrow> (0, s) | Some _ \<Rightarrow> kmalloc 8 s);
          (killed, s2) = getProcess pid s1
      in case currentProc s2 of
           None \<Rightarrow> Ret (-1) s2
         | Some c \<Rightarrow>
             (if killed = None then Crash NullDeref
              else let visited = pc_pid c #
                         (if it = 0 then [] else map pc_pid (butlast (the (procQueue s2))));
                       (hasParent, s3) = fold (orphan_step pid) visited (False, s2)
                   in Ret 0 (if hasParent then s3
                             else modProc pid (pc_ppid_update (\<lambda>_. initPid s3)) s3)))"

text \<open>The end of \<open>changeState\<close>: the ready counter and the new state. The process is read again,
  \<open>semPost\<close> may have resumed it.\<close>

definition setState :: "int \<Rightarrow> process_state \<Rightarrow> kernel \<Rightarrow> kernel" where
  "setState pid newState s =
     (case lookupProc pid s of None \<Rightarrow> s
      | Some p \<Rightarrow>
          modProc pid (pc_state_update (\<lambda>_. newState))
            (s\<lparr>readyCount := readyCount s
                 + (if pc_state p \<noteq> READY \<and> newState = READY then 1 else 0)
                 - (if pc_state p = READY \<and> newState \<noteq> READY then 1 else 0)\<rparr>))"

text \<open>\<open>changeState\<close>, with the \<open>semPost\<close> it calls for \<open>EXITED\<close> as an argument: \<open>semPost\<close> calls
  \<open>resumeTask\<close>, which is \<open>changeState\<close> with \<open>READY\<close> and posts nothing.\<close>

definition changeState_with ::
  "(int \<Rightarrow> kernel \<Rightarrow> int kres) \<Rightarrow> int \<Rightarrow> process_state \<Rightarrow> kernel \<Rightarrow> int kres" where
  "changeState_with post pid newState s =
     (let (process, s1) = (if pid = curPid s then (currentProc s, s) else getProcess pid s)
      in case process of
           None \<Rightarrow> Ret (-1) s1
         | Some p \<Rightarrow>
             (if (pc_state p = EXITED \<and> newState \<noteq> TERMINATED) \<or> pc_state p = TERMINATED
              then Ret (-1) s1
              else kbind (if newState = EXITED then post (pc_semId p) s1 else Ret 0 s1) (\<lambda>_ s2.
                   kbind (if newState = TERMINATED then sendTaskToInit (pc_pid p) s2 else Ret 0 s2) (\<lambda>_ s3.
                   Ret (pc_pid p) (setState (pc_pid p) newState s3)))))"

definition resumeTask :: "int \<Rightarrow> kernel \<Rightarrow> int kres" where
  "resumeTask pid s = changeState_with (\<lambda>_ s. Ret 0 s) pid READY s"

lemma changeState_with_READY: "changeState_with post pid READY s = resumeTask pid s"
  by (simp add: changeState_with_def resumeTask_def split: prod.splits option.splits)

section \<open>The invariant of the process table\<close>

definition is_idle :: "kernel \<Rightarrow> pcb \<Rightarrow> bool" where
  "is_idle s p \<longleftrightarrow> (\<exists>i. idleProc s = Some i \<and> pc_pid p = pc_pid i)"

text \<open>The processes the ready counter counts: the queue and the current process unless it is the
  idle process.\<close>

definition liveProcs :: "kernel \<Rightarrow> pcb list" where
  "liveProcs s =
     (case procQueue s of None \<Rightarrow> [] | Some q \<Rightarrow> q) @
     (case currentProc s of None \<Rightarrow> [] | Some c \<Rightarrow> if is_idle s c then [] else [c])"

definition isReady :: "pcb \<Rightarrow> bool" where "isReady p \<longleftrightarrow> pc_state p = READY"

definition procs_ok :: "kernel \<Rightarrow> bool" where
  "procs_ok s \<longleftrightarrow>
     (\<exists>q i. procQueue s = Some q \<and> idleProc s = Some i \<and> pc_state i = READY \<and>
        distinct (pc_pid i # map pc_pid (liveProcs s)) \<and>
        pc_pid i < pidCounter s \<and> (\<forall>p \<in> set (liveProcs s). pc_pid p < pidCounter s) \<and>
        readyCount s = count_if isReady (liveProcs s) \<and>
        (\<forall>c. currentProc s = Some c \<longrightarrow> pc_pid c = pc_pid i \<longrightarrow> c = i))"

text \<open>The two shapes of a well-formed process table: the idle process (or nothing, before the first
  tick) runs, or a process that is not in the queue.\<close>

lemma procs_ok_idleI:
  assumes "procQueue s = Some q" "idleProc s = Some i" "currentProc s = None \<or> currentProc s = Some i"
    "pc_state i = READY" "distinct (map pc_pid q)" "pc_pid i \<notin> pc_pid ` set q"
    "pc_pid i < pidCounter s" "\<forall>p \<in> set q. pc_pid p < pidCounter s" "readyCount s = count_if isReady q"
  shows "procs_ok s"
proof -
  have "liveProcs s = q" using assms(1-3) by (auto simp: liveProcs_def is_idle_def)
  then show ?thesis using assms by (auto simp: procs_ok_def)
qed

lemma procs_ok_runI:
  assumes "procQueue s = Some q" "idleProc s = Some i" "currentProc s = Some c"
    "pc_pid c \<noteq> pc_pid i" "pc_pid c \<notin> pc_pid ` set q"
    "pc_state i = READY" "distinct (map pc_pid q)" "pc_pid i \<notin> pc_pid ` set q"
    "pc_pid i < pidCounter s" "pc_pid c < pidCounter s" "\<forall>p \<in> set q. pc_pid p < pidCounter s"
    "readyCount s = count_if isReady q + (if isReady c then 1 else 0)"
  shows "procs_ok s"
proof -
  have "liveProcs s = q @ [c]" using assms(1-4) by (auto simp: liveProcs_def is_idle_def)
  then show ?thesis using assms by (auto simp: procs_ok_def)
qed

lemma procs_okE:
  assumes "procs_ok s"
  obtains (idle) q i where "procQueue s = Some q" "idleProc s = Some i"
      "currentProc s = None \<or> currentProc s = Some i"
      "pc_state i = READY" "distinct (map pc_pid q)" "pc_pid i \<notin> pc_pid ` set q"
      "pc_pid i < pidCounter s" "\<forall>p \<in> set q. pc_pid p < pidCounter s" "readyCount s = count_if isReady q"
  | (run) q i c where "procQueue s = Some q" "idleProc s = Some i" "currentProc s = Some c"
      "pc_pid c \<noteq> pc_pid i" "pc_pid c \<notin> pc_pid ` set q"
      "pc_state i = READY" "distinct (map pc_pid q)" "pc_pid i \<notin> pc_pid ` set q"
      "pc_pid i < pidCounter s" "pc_pid c < pidCounter s" "\<forall>p \<in> set q. pc_pid p < pidCounter s"
      "readyCount s = count_if isReady q + (if isReady c then 1 else 0)"
proof -
  obtain q i where qi: "procQueue s = Some q" "idleProc s = Some i" "pc_state i = READY"
      "distinct (pc_pid i # map pc_pid (liveProcs s))" "pc_pid i < pidCounter s"
      "\<forall>p \<in> set (liveProcs s). pc_pid p < pidCounter s" "readyCount s = count_if isReady (liveProcs s)"
      "\<forall>c. currentProc s = Some c \<longrightarrow> pc_pid c = pc_pid i \<longrightarrow> c = i"
    using assms by (auto simp: procs_ok_def)
  show thesis
  proof (cases "currentProc s = None \<or> currentProc s = Some i")
    case True
    then have "liveProcs s = q" using qi(1,2) by (auto simp: liveProcs_def is_idle_def)
    then show thesis using idle [OF qi(1,2) True] qi by auto
  next
    case False
    then obtain c where c: "currentProc s = Some c" "pc_pid c \<noteq> pc_pid i" using qi(8) by auto
    then have "liveProcs s = q @ [c]" using qi(1,2) by (auto simp: liveProcs_def is_idle_def)
    then show thesis using run [OF qi(1,2) c] qi by auto
  qed
qed


lemma lookupProc_cases:
  assumes "lookupProc pid s = Some p"
  shows "currentProc s = Some p \<and> pc_pid p = pid \<or>
    (\<forall>c. currentProc s = Some c \<longrightarrow> pc_pid c \<noteq> pid) \<and>
      (\<exists>q. procQueue s = Some q \<and> List.find (\<lambda>p. pc_pid p = pid) q = Some p)"
  using assms by (cases "procQueue s") (auto simp: lookupProc_def split: option.splits if_splits)

lemma lookupProc_pid: "lookupProc pid s = Some p \<Longrightarrow> pc_pid p = pid"
  by (drule lookupProc_cases) (auto dest: find_Some_prop)

lemma procs_ok_modProc:
  assumes ok: "procs_ok s" and look: "lookupProc pid s = Some p"
    and f: "\<And>x. pc_pid (f x) = pc_pid x" "is_idle s p \<Longrightarrow> pc_state (f p) = READY"
    and n: "n = readyCount s - (if isReady p then 1 else 0) + (if isReady (f p) then 1 else 0)"
  shows "procs_ok (modProc pid f (s\<lparr>readyCount := n\<rparr>))"
  using ok
proof (cases rule: procs_okE)
  case (idle q i)
  from lookupProc_cases [OF look] show ?thesis
  proof
    assume "currentProc s = Some p \<and> pc_pid p = pid"
    moreover from this have "p = i" using idle by auto
    ultimately show ?thesis
      using idle f(1) f(2) n
      by (intro procs_ok_idleI [of _ q "f i"]) (auto simp: modProc_def is_idle_def isReady_def)
  next
    assume cur: "(\<forall>c. currentProc s = Some c \<longrightarrow> pc_pid c \<noteq> pid) \<and>
      (\<exists>q. procQueue s = Some q \<and> List.find (\<lambda>p. pc_pid p = pid) q = Some p)"
    then have fnd: "List.find (\<lambda>p. pc_pid p = pid) q = Some p" using idle by auto
    show ?thesis
      using idle f(1) n cur count_if_upd_first [OF fnd, of isReady f]
      by (intro procs_ok_idleI [of _ "upd_first (\<lambda>p. pc_pid p = pid) f q" i])
        (auto simp: modProc_def dest!: set_upd_first [THEN subsetD]
          simp flip: set_map)
  qed
next
  case (run q i c)
  from lookupProc_cases [OF look] show ?thesis
  proof
    assume "currentProc s = Some p \<and> pc_pid p = pid"
    moreover from this have "p = c" using run by auto
    ultimately show ?thesis
      using run f(1) n
      by (intro procs_ok_runI [of _ q i "f c"]) (auto simp: modProc_def)
  next
    assume cur: "(\<forall>c. currentProc s = Some c \<longrightarrow> pc_pid c \<noteq> pid) \<and>
      (\<exists>q. procQueue s = Some q \<and> List.find (\<lambda>p. pc_pid p = pid) q = Some p)"
    then have fnd: "List.find (\<lambda>p. pc_pid p = pid) q = Some p" using run by auto
    show ?thesis
      using run f(1) n cur count_if_upd_first [OF fnd, of isReady f]
      by (intro procs_ok_runI [of _ "upd_first (\<lambda>p. pc_pid p = pid) f q" i c])
        (auto simp: modProc_def dest!: set_upd_first [THEN subsetD]
          simp flip: set_map)
  qed
qed

lemma setState_ok:
  assumes "procs_ok s" "\<And>p. lookupProc pid s = Some p \<Longrightarrow> is_idle s p \<Longrightarrow> newState = READY"
  shows "procs_ok (setState pid newState s)"
proof (cases "lookupProc pid s")
  case None
  then show ?thesis using assms by (simp add: setState_def)
next
  case (Some p)
  show ?thesis
    unfolding setState_def Some option.case
    by (rule procs_ok_modProc [OF assms(1) Some]) (use assms(2) [OF Some] in \<open>auto simp: isReady_def\<close>)
qed


section \<open>What a wake-up may change\<close>

text \<open>\<open>only_procs\<close>: everything but the process table and the allocation count is untouched. \<open>wakes\<close>:
  in the process table, at most some blocked processes became ready, and no pid was handed out.\<close>

definition strip :: "kernel \<Rightarrow> kernel" where
  "strip s = s\<lparr>mcount := 0, procQueue := None, idleProc := None, currentProc := None, readyCount := 0\<rparr>"

definition only_procs :: "kernel \<Rightarrow> kernel \<Rightarrow> bool" where
  "only_procs s s' \<longleftrightarrow> strip s' = strip s"

lemma only_procs_refl [simp]: "only_procs s s"
  by (simp add: only_procs_def)

lemma only_procs_trans: "only_procs s s' \<Longrightarrow> only_procs s' s'' \<Longrightarrow> only_procs s s''"
  by (simp add: only_procs_def)

lemma strip_simps [simp]:
  "strip (s\<lparr>mcount := m\<rparr>) = strip s"
  "strip (s\<lparr>procQueue := q\<rparr>) = strip s"
  "strip (s\<lparr>idleProc := i\<rparr>) = strip s"
  "strip (s\<lparr>currentProc := i\<rparr>) = strip s"
  "strip (s\<lparr>readyCount := n\<rparr>) = strip s"
  by (simp_all add: strip_def)

lemma strip_modProc [simp]: "strip (modProc pid f s) = strip s"
  by (simp add: modProc_def)

lemma strip_fields:
  assumes "only_procs s s'"
  shows "semQueue s' = semQueue s" "nextSemId s' = nextSemId s" "allSemsLock s' = allSemsLock s"
    "pipeQueue s' = pipeQueue s" "cachedPipe s' = cachedPipe s" "con s' = con s"
    "mallocs s' = mallocs s" "pidCounter s' = pidCounter s" "initPid s' = initPid s"
    "userlandPid s' = userlandPid s" "currentCycles s' = currentCycles s" "ticks s' = ticks s"
    "allPipesSem s' = allPipesSem s" "stdinPipe s' = stdinPipe s" "low_word s' = low_word s"
    "frames s' = frames s" "registers s' = registers s"
proof -
  have "f (strip s') = f (strip s)" for f :: "kernel \<Rightarrow> 'b" using assms by (simp add: only_procs_def)
  note f = this
  show "semQueue s' = semQueue s" "nextSemId s' = nextSemId s" "allSemsLock s' = allSemsLock s"
    "pipeQueue s' = pipeQueue s" "cachedPipe s' = cachedPipe s" "con s' = con s"
    "mallocs s' = mallocs s" "pidCounter s' = pidCounter s" "initPid s' = initPid s"
    "userlandPid s' = userlandPid s" "currentCycles s' = currentCycles s" "ticks s' = ticks s"
    "allPipesSem s' = allPipesSem s" "stdinPipe s' = stdinPipe s" "low_word s' = low_word s"
    "frames s' = frames s" "registers s' = registers s"
    using f [of semQueue] f [of nextSemId] f [of allSemsLock] f [of pipeQueue] f [of cachedPipe]
      f [of con] f [of mallocs] f [of pidCounter] f [of initPid] f [of userlandPid]
      f [of currentCycles] f [of ticks] f [of allPipesSem] f [of stdinPipe] f [of low_word]
      f [of frames] f [of registers]
    by (simp_all add: strip_def)
qed

definition woken :: "pcb \<Rightarrow> pcb \<Rightarrow> bool" where
  "woken p p' \<longleftrightarrow> p' = p \<or> (pc_state p = BLOCKED \<and> p' = p\<lparr>pc_state := READY\<rparr>)"

lemma woken_refl [simp]: "woken p p"
  by (simp add: woken_def)

lemma woken_trans: "woken p p' \<Longrightarrow> woken p' p'' \<Longrightarrow> woken p p''"
  by (auto simp: woken_def)

lemma woken_pid: "woken p p' \<Longrightarrow> pc_pid p' = pc_pid p"
  by (auto simp: woken_def)

lemma woken_TERMINATED: "woken p p' \<Longrightarrow> pc_state p = TERMINATED \<Longrightarrow> p' = p"
  by (auto simp: woken_def)

lemma woken_READY: "woken p p' \<Longrightarrow> pc_state p = READY \<Longrightarrow> pc_state p' = READY"
  by (auto simp: woken_def)

definition wakes :: "kernel \<Rightarrow> kernel \<Rightarrow> bool" where
  "wakes s s' \<longleftrightarrow>
     rel_option (list_all2 woken) (procQueue s) (procQueue s') \<and>
     rel_option woken (currentProc s) (currentProc s') \<and>
     rel_option woken (idleProc s) (idleProc s') \<and>
     pidCounter s' = pidCounter s"

lemma list_all2_woken_refl [simp]: "list_all2 woken xs xs"
  by (rule list_all2_refl) simp

lemma rel_option_woken_refl [simp]: "rel_option woken a a" "rel_option (list_all2 woken) b b"
  by (cases a; simp) (cases b; simp)

lemma wakesI_same:
  "procQueue s' = procQueue s \<Longrightarrow> currentProc s' = currentProc s \<Longrightarrow> idleProc s' = idleProc s \<Longrightarrow>
     pidCounter s' = pidCounter s \<Longrightarrow> wakes s s'"
  by (simp add: wakes_def)

lemma wakes_trans: "wakes s s' \<Longrightarrow> wakes s' s'' \<Longrightarrow> wakes s s''"
proof -
  have 1: "rel_option woken a b \<Longrightarrow> rel_option woken b c \<Longrightarrow> rel_option woken a c" for a b c
    by (cases a; cases b; cases c) (auto intro: woken_trans)
  have 2: "list_all2 woken xs ys \<Longrightarrow> list_all2 woken ys zs \<Longrightarrow> list_all2 woken xs zs" for xs ys zs
    by (rule list_all2_trans [of woken woken woken]) (auto intro: woken_trans)
  have 3: "rel_option (list_all2 woken) a b \<Longrightarrow> rel_option (list_all2 woken) b c \<Longrightarrow>
      rel_option (list_all2 woken) a c" for a b c
    by (cases a; cases b; cases c) (auto intro: 2)
  assume w: "wakes s s'" "wakes s' s''"
  have "rel_option (list_all2 woken) (procQueue s) (procQueue s'')"
    by (rule 3 [of _ "procQueue s'"]) (use w in \<open>simp_all add: wakes_def\<close>)
  moreover have "rel_option woken (currentProc s) (currentProc s'')"
    by (rule 1 [of _ "currentProc s'"]) (use w in \<open>simp_all add: wakes_def\<close>)
  moreover have "rel_option woken (idleProc s) (idleProc s'')"
    by (rule 1 [of _ "idleProc s'"]) (use w in \<open>simp_all add: wakes_def\<close>)
  ultimately show "wakes s s''" using w by (simp add: wakes_def)
qed

lemma wakes_current: "wakes s s' \<Longrightarrow> currentProc s = Some c \<Longrightarrow> \<exists>c'. currentProc s' = Some c' \<and> woken c c'"
  by (cases "currentProc s'") (auto simp: wakes_def)

lemma wakes_getpid: "wakes s s' \<Longrightarrow> getpid s' = getpid s"
  by (cases "currentProc s"; cases "currentProc s'") (auto simp: wakes_def getpid_def woken_pid)

lemma list_all2_woken_upd:
  "List.find P xs = Some p \<Longrightarrow> woken p (f p) \<Longrightarrow> list_all2 woken xs (upd_first P f xs)"
  by (induction xs) (auto split: if_splits)

lemma wakes_modProc:
  assumes "lookupProc pid s = Some p" "woken p (f p)" "procs_ok s"
  shows "wakes s (modProc pid f (s\<lparr>readyCount := n\<rparr>))"
proof -
  from lookupProc_cases [OF assms(1)] show ?thesis
  proof
    assume c: "currentProc s = Some p \<and> pc_pid p = pid"
    then have "rel_option woken (idleProc s) (map_option (\<lambda>i. if pc_pid i = pid then f i else i) (idleProc s))"
      using assms(2,3) by (auto elim!: procs_okE)
    then show ?thesis
      using c assms(2) by (auto simp: wakes_def modProc_def)
  next
    assume "(\<forall>c. currentProc s = Some c \<longrightarrow> pc_pid c \<noteq> pid) \<and>
      (\<exists>q. procQueue s = Some q \<and> List.find (\<lambda>p. pc_pid p = pid) q = Some p)"
    then show ?thesis
      using assms(2) by (auto simp: wakes_def modProc_def intro!: list_all2_woken_upd)
  qed
qed


section \<open>Lookups with memory\<close>

lemma is_idle_cong: "idleProc s' = idleProc s \<Longrightarrow> is_idle s' = is_idle s"
  by (simp add: is_idle_def fun_eq_iff)

lemma procs_ok_cong:
  assumes "procQueue s' = procQueue s" "currentProc s' = currentProc s" "idleProc s' = idleProc s"
    "pidCounter s' = pidCounter s" "readyCount s' = readyCount s"
  shows "procs_ok s' = procs_ok s"
proof -
  have "liveProcs s' = liveProcs s"
    using assms(1,2) is_idle_cong [OF assms(3)] by (simp add: liveProcs_def cong: option.case_cong)
  then show ?thesis using assms by (simp add: procs_ok_def)
qed

lemma lookupProc_cong:
  "procQueue s' = procQueue s \<Longrightarrow> currentProc s' = currentProc s \<Longrightarrow> lookupProc pid s' = lookupProc pid s"
  by (simp add: lookupProc_def cong: option.case_cong if_cong)

text \<open>The rest of the kernel state does not matter to the process table.\<close>

lemma procs_ok_frame [simp]:
  "procs_ok (s\<lparr>mcount := x0\<rparr>) = procs_ok s"
  "procs_ok (s\<lparr>semQueue := x1\<rparr>) = procs_ok s"
  "procs_ok (s\<lparr>nextSemId := x2\<rparr>) = procs_ok s"
  "procs_ok (s\<lparr>allSemsLock := x3\<rparr>) = procs_ok s"
  "procs_ok (s\<lparr>currentCycles := x4\<rparr>) = procs_ok s"
  "procs_ok (s\<lparr>userlandPid := x5\<rparr>) = procs_ok s"
  "procs_ok (s\<lparr>initPid := x6\<rparr>) = procs_ok s"
  "procs_ok (s\<lparr>frames := x7\<rparr>) = procs_ok s"
  "procs_ok (s\<lparr>pipeQueue := x8\<rparr>) = procs_ok s"
  "procs_ok (s\<lparr>allPipesSem := x9\<rparr>) = procs_ok s"
  "procs_ok (s\<lparr>cachedPipe := x10\<rparr>) = procs_ok s"
  "procs_ok (s\<lparr>con := x11\<rparr>) = procs_ok s"
  "procs_ok (s\<lparr>ticks := x12\<rparr>) = procs_ok s"
  "procs_ok (s\<lparr>stdinPipe := x13\<rparr>) = procs_ok s"
  "procs_ok (s\<lparr>isSpecial := x14\<rparr>) = procs_ok s"
  "procs_ok (s\<lparr>shiftFlag := x15\<rparr>) = procs_ok s"
  "procs_ok (s\<lparr>controlFlag := x16\<rparr>) = procs_ok s"
  "procs_ok (s\<lparr>registers := x17\<rparr>) = procs_ok s"
  "procs_ok (s\<lparr>cpu_rsp := x18\<rparr>) = procs_ok s"
  by (rule procs_ok_cong; simp)+

lemma wakes_frame [simp]:
  "wakes s0 (s\<lparr>mcount := x0\<rparr>) = wakes s0 s"
  "wakes s0 (s\<lparr>semQueue := x1\<rparr>) = wakes s0 s"
  "wakes s0 (s\<lparr>nextSemId := x2\<rparr>) = wakes s0 s"
  "wakes s0 (s\<lparr>allSemsLock := x3\<rparr>) = wakes s0 s"
  "wakes s0 (s\<lparr>currentCycles := x4\<rparr>) = wakes s0 s"
  "wakes s0 (s\<lparr>userlandPid := x5\<rparr>) = wakes s0 s"
  "wakes s0 (s\<lparr>initPid := x6\<rparr>) = wakes s0 s"
  "wakes s0 (s\<lparr>frames := x7\<rparr>) = wakes s0 s"
  "wakes s0 (s\<lparr>pipeQueue := x8\<rparr>) = wakes s0 s"
  "wakes s0 (s\<lparr>allPipesSem := x9\<rparr>) = wakes s0 s"
  "wakes s0 (s\<lparr>cachedPipe := x10\<rparr>) = wakes s0 s"
  "wakes s0 (s\<lparr>con := x11\<rparr>) = wakes s0 s"
  "wakes s0 (s\<lparr>ticks := x12\<rparr>) = wakes s0 s"
  "wakes s0 (s\<lparr>stdinPipe := x13\<rparr>) = wakes s0 s"
  "wakes s0 (s\<lparr>isSpecial := x14\<rparr>) = wakes s0 s"
  "wakes s0 (s\<lparr>shiftFlag := x15\<rparr>) = wakes s0 s"
  "wakes s0 (s\<lparr>controlFlag := x16\<rparr>) = wakes s0 s"
  "wakes s0 (s\<lparr>registers := x17\<rparr>) = wakes s0 s"
  "wakes s0 (s\<lparr>cpu_rsp := x18\<rparr>) = wakes s0 s"
  by (simp_all add: wakes_def)

lemma wakes_frame_left [simp]:
  "wakes (s\<lparr>mcount := x0\<rparr>) s1 = wakes s s1"
  "wakes (s\<lparr>semQueue := x1\<rparr>) s1 = wakes s s1"
  "wakes (s\<lparr>nextSemId := x2\<rparr>) s1 = wakes s s1"
  "wakes (s\<lparr>allSemsLock := x3\<rparr>) s1 = wakes s s1"
  "wakes (s\<lparr>currentCycles := x4\<rparr>) s1 = wakes s s1"
  "wakes (s\<lparr>userlandPid := x5\<rparr>) s1 = wakes s s1"
  "wakes (s\<lparr>initPid := x6\<rparr>) s1 = wakes s s1"
  "wakes (s\<lparr>frames := x7\<rparr>) s1 = wakes s s1"
  "wakes (s\<lparr>pipeQueue := x8\<rparr>) s1 = wakes s s1"
  "wakes (s\<lparr>allPipesSem := x9\<rparr>) s1 = wakes s s1"
  "wakes (s\<lparr>cachedPipe := x10\<rparr>) s1 = wakes s s1"
  "wakes (s\<lparr>con := x11\<rparr>) s1 = wakes s s1"
  "wakes (s\<lparr>ticks := x12\<rparr>) s1 = wakes s s1"
  "wakes (s\<lparr>stdinPipe := x13\<rparr>) s1 = wakes s s1"
  "wakes (s\<lparr>isSpecial := x14\<rparr>) s1 = wakes s s1"
  "wakes (s\<lparr>shiftFlag := x15\<rparr>) s1 = wakes s s1"
  "wakes (s\<lparr>controlFlag := x16\<rparr>) s1 = wakes s s1"
  "wakes (s\<lparr>registers := x17\<rparr>) s1 = wakes s s1"
  "wakes (s\<lparr>cpu_rsp := x18\<rparr>) s1 = wakes s s1"
  by (simp_all add: wakes_def)

lemma field_mcount [simp]:
  "wakes (s\<lparr>mcount := m\<rparr>) s' = wakes s s'"
  "lookupProc pid (s\<lparr>mcount := m\<rparr>) = lookupProc pid s"
  "is_idle (s\<lparr>mcount := m\<rparr>) = is_idle s"
  "curPid (s\<lparr>mcount := m\<rparr>) = curPid s"
  "memory_ok (s\<lparr>mcount := m\<rparr>) = memory_ok s"
  by (simp add: wakes_def, rule lookupProc_cong, simp_all add: is_idle_def fun_eq_iff curPid_def memory_ok_def
      cong: option.case_cong)

lemma getpid_mcount [simp]: "getpid (s\<lparr>mcount := m\<rparr>) = getpid s"
  by (simp add: getpid_def cong: option.case_cong)

lemma kfind_ok: "memory_ok s \<Longrightarrow> kfind P (Some q) s = (List.find P q, s\<lparr>mcount := Suc (mcount s)\<rparr>)"
  by (simp add: kfind_def kmalloc_ok memory_ok_def)

lemma getProcess_ok:
  "memory_ok s \<Longrightarrow> procQueue s = Some q \<Longrightarrow>
     getProcess pid s = (List.find (\<lambda>p. pc_pid p = pid) q, s\<lparr>mcount := Suc (mcount s)\<rparr>)"
  by (simp add: getProcess_def kfind_ok eq_commute [of pid])

text \<open>The process \<open>changeState\<close> works on.\<close>

definition target :: "int \<Rightarrow> kernel \<Rightarrow> pcb option" where
  "target pid s = (if currentProc s = None \<and> pid = low_word s then None else lookupProc pid s)"

lemma target_lookup: "target pid s = Some p \<Longrightarrow> lookupProc pid s = Some p"
  by (simp add: target_def split: if_splits)

lemma changeState_target:
  assumes "memory_ok s" "procs_ok s"
  shows "\<exists>m. (if pid = curPid s then (currentProc s, s) else getProcess pid s) = (target pid s, s\<lparr>mcount := m\<rparr>)"
proof (cases "pid = curPid s")
  case True
  then have "target pid s = currentProc s"
    by (auto simp: target_def curPid_def lookupProc_def split: option.splits)
  then show ?thesis using True by (intro exI [of _ "mcount s"]) simp
next
  case False
  obtain q where q: "procQueue s = Some q" using assms(2) by (auto simp: procs_ok_def)
  have "target pid s = List.find (\<lambda>p. pc_pid p = pid) q"
    using False q by (auto simp: target_def curPid_def lookupProc_def split: option.splits)
  then show ?thesis using False getProcess_ok [OF assms(1) q] by auto
qed

lemma resumeTask_cases:
  assumes "memory_ok s" "procs_ok s"
  shows "\<exists>m. resumeTask pid s =
    (case target pid s of
       None \<Rightarrow> Ret (-1) (s\<lparr>mcount := m\<rparr>)
     | Some p \<Rightarrow> (if pc_state p = EXITED \<or> pc_state p = TERMINATED then Ret (-1) (s\<lparr>mcount := m\<rparr>)
                  else Ret pid (setState pid READY (s\<lparr>mcount := m\<rparr>))))"
proof -
  obtain m where m: "(if pid = curPid s then (currentProc s, s) else getProcess pid s) = (target pid s, s\<lparr>mcount := m\<rparr>)"
    using changeState_target [OF assms] by blast
  have "pc_pid p = pid" if "target pid s = Some p" for p
    using lookupProc_pid [OF target_lookup [OF that]] .
  then show ?thesis
    unfolding resumeTask_def changeState_with_def m by (intro exI [of _ m]) (auto split: option.splits)
qed

lemma strip_setState [simp]: "strip (setState pid st s) = strip s"
  by (simp add: setState_def split: option.splits)

lemma setState_READY_wakes:
  assumes "procs_ok s" "lookupProc pid s = Some p" "pc_state p \<noteq> EXITED" "pc_state p \<noteq> TERMINATED"
  shows "wakes s (setState pid READY s)"
proof -
  have "pc_state p = READY \<or> pc_state p = BLOCKED" using assms(3,4) by (cases "pc_state p") auto
  then have "woken p (p\<lparr>pc_state := READY\<rparr>)" by (auto simp: woken_def)
  then show ?thesis
    unfolding setState_def assms(2) option.case by (intro wakes_modProc [OF assms(2)] assms(1))
qed

lemma resumeTask_ok:
  assumes "memory_ok s" "procs_ok s"
  shows "kwp0 (resumeTask pid s) (\<lambda>r s'. procs_ok s' \<and> only_procs s s' \<and> wakes s s')"
proof -
  obtain m where m: "resumeTask pid s =
    (case target pid s of
       None \<Rightarrow> Ret (-1) (s\<lparr>mcount := m\<rparr>)
     | Some p \<Rightarrow> (if pc_state p = EXITED \<or> pc_state p = TERMINATED then Ret (-1) (s\<lparr>mcount := m\<rparr>)
                  else Ret pid (setState pid READY (s\<lparr>mcount := m\<rparr>))))"
    using resumeTask_cases [OF assms] by blast
  show ?thesis
  proof (cases "target pid s")
    case None
    then show ?thesis using m assms by (simp add: only_procs_def wakesI_same)
  next
    case (Some p)
    let ?s = "s\<lparr>mcount := m\<rparr>"
    have look: "lookupProc pid ?s = Some p" using target_lookup [OF Some] by simp
    have "wakes s ?s" by (rule wakesI_same) auto
    then show ?thesis
      using m Some assms setState_ok [of ?s pid READY] setState_READY_wakes [OF _ look]
      by (auto simp: only_procs_def intro: wakes_trans)
  qed
qed


section \<open>\<open>changeState\<close> preserves the process table\<close>

definition idlePid :: "kernel \<Rightarrow> int option" where
  "idlePid s = map_option pc_pid (idleProc s)"

lemma is_idle_pid: "is_idle s p \<longleftrightarrow> idlePid s = Some (pc_pid p)"
  by (auto simp: is_idle_def idlePid_def)

lemma wakes_idlePid: "wakes s s' \<Longrightarrow> idlePid s' = idlePid s"
  by (cases "idleProc s"; cases "idleProc s'") (auto simp: wakes_def idlePid_def woken_pid)

lemma idlePid_modProc: "(\<And>x. pc_pid (f x) = pc_pid x) \<Longrightarrow> idlePid (modProc pid f s) = idlePid s"
  by (cases "idleProc s") (auto simp: idlePid_def modProc_def)

lemma idlePid_mcount [simp]: "idlePid (s\<lparr>mcount := m\<rparr>) = idlePid s" "idlePid (s\<lparr>readyCount := n\<rparr>) = idlePid s"
  by (simp_all add: idlePid_def)

lemma modProc_absent: "lookupProc pid s = None \<Longrightarrow> modProc pid f s = s"
  by (cases "procQueue s")
    (auto simp: lookupProc_def modProc_def upd_first_notin find_None_prop split: option.splits if_splits)

lemma procs_idle_READY:
  assumes "procs_ok s" "lookupProc pid s = Some p" "is_idle s p"
  shows "pc_state p = READY"
proof -
  have p: "currentProc s = Some p \<or> (\<exists>q. procQueue s = Some q \<and> p \<in> set q)"
    using lookupProc_cases [OF assms(2)] by (metis find_Some_prop)
  from assms(1) show ?thesis
  proof (cases rule: procs_okE)
    case (idle q i)
    have "pc_pid p = pc_pid i" using assms(3) idle(2) by (simp add: is_idle_def)
    then have "p \<notin> set q" using idle(6) by (metis imageI)
    then have "p = i" using p idle(1,3) by auto
    then show ?thesis using idle(4) by simp
  next
    case (run q i c)
    have "pc_pid p = pc_pid i" using assms(3) run(2) by (simp add: is_idle_def)
    moreover from this have "p \<notin> set q" using run(8) by (metis imageI)
    ultimately show ?thesis using p run(1,3,4) by auto
  qed
qed

lemma procs_ok_modProc_same:
  assumes "procs_ok s" "\<And>x. pc_pid (f x) = pc_pid x" "\<And>x. pc_state (f x) = pc_state x"
  shows "procs_ok (modProc pid f s)"
proof (cases "lookupProc pid s")
  case None
  then show ?thesis using assms(1) by (simp add: modProc_absent)
next
  case (Some p)
  have "procs_ok (modProc pid f (s\<lparr>readyCount := readyCount s\<rparr>))"
    by (rule procs_ok_modProc [OF assms(1) Some])
      (use assms(2,3) procs_idle_READY [OF assms(1) Some] in \<open>simp_all add: isReady_def\<close>)
  then show ?thesis by simp
qed

definition same_table :: "kernel \<Rightarrow> kernel \<Rightarrow> bool" where
  "same_table s s' \<longleftrightarrow> only_procs s s' \<and> idlePid s' = idlePid s \<and> getpid s' = getpid s \<and>
     (currentProc s' = None \<longleftrightarrow> currentProc s = None)"

lemma same_table_refl [simp]: "same_table s s"
  by (simp add: same_table_def)

lemma same_table_trans: "same_table s s' \<Longrightarrow> same_table s' s'' \<Longrightarrow> same_table s s''"
  by (auto simp: same_table_def intro: only_procs_trans)

lemma same_table_modProc: "(\<And>x. pc_pid (f x) = pc_pid x) \<Longrightarrow> same_table s (modProc pid f s)"
  by (auto simp: same_table_def only_procs_def idlePid_modProc)
    (auto simp: getpid_def modProc_def split: option.splits if_splits)

lemma same_table_mcount: "same_table s (s\<lparr>mcount := m\<rparr>)" "same_table s (s\<lparr>readyCount := n\<rparr>)"
  by (simp_all add: same_table_def only_procs_def getpid_def cong: option.case_cong)

lemma same_table_setState: "same_table s (setState pid st s)"
proof (cases "lookupProc pid s")
  case None
  then show ?thesis by (simp add: setState_def)
next
  case (Some p)
  show ?thesis
    unfolding setState_def Some option.case
    by (rule same_table_trans [OF same_table_mcount(2) same_table_modProc]) simp
qed

lemma same_table_wakes: "only_procs s s' \<Longrightarrow> wakes s s' \<Longrightarrow> same_table s s'"
  by (auto simp: same_table_def wakes_idlePid wakes_getpid) (auto simp: wakes_def)

lemma orphan_step_ok:
  "procs_ok (snd hs) \<Longrightarrow> procs_ok (snd (orphan_step pid v hs)) \<and> same_table (snd hs) (snd (orphan_step pid v hs))"
  by (auto simp: orphan_step_def intro!: procs_ok_modProc_same same_table_modProc split: option.splits)

lemma orphan_steps_ok:
  "procs_ok (snd hs) \<Longrightarrow>
     procs_ok (snd (fold (orphan_step pid) vs hs)) \<and> same_table (snd hs) (snd (fold (orphan_step pid) vs hs))"
proof (induction vs arbitrary: hs)
  case Nil
  then show ?case by simp
next
  case (Cons v vs)
  from orphan_step_ok [OF Cons.prems] Cons.IH [of "orphan_step pid v hs"]
  show ?case by (auto intro: same_table_trans)
qed

text \<open>Sending the children of \<open>pid\<close> to init keeps the table well formed; it reads through \<open>NULL\<close>
  only when \<open>pid\<close> is not in the queue, which is the case for the current process.\<close>

definition inQueue :: "int \<Rightarrow> kernel \<Rightarrow> bool" where
  "inQueue pid s \<longleftrightarrow> (\<exists>p \<in> set (the (procQueue s)). pc_pid p = pid)"

lemma sendTaskToInit_ok:
  assumes "memory_ok s" "procs_ok s"
  shows "kwp (\<lambda>c. c = NullDeref \<and> \<not> inQueue pid s) (\<lambda>_. False) (\<lambda>_. False) (sendTaskToInit pid s)
     (\<lambda>r s'. procs_ok s' \<and> same_table s s')"
proof -
  obtain q where q: "procQueue s = Some q" using assms(2) by (auto simp: procs_ok_def)
  define s1 where "s1 = s\<lparr>mcount := Suc (mcount s)\<rparr>"
  define s2 where "s2 = s1\<lparr>mcount := Suc (mcount s1)\<rparr>"
  have mal: "kmalloc 8 s = (mallocs s (mcount s), s1)" "mallocs s (mcount s) \<noteq> 0"
    using kmalloc_ok [OF assms(1), of 8] by (simp_all add: s1_def)
  have get: "getProcess pid s1 = (List.find (\<lambda>p. pc_pid p = pid) q, s2)"
    unfolding s2_def by (rule getProcess_ok) (use assms q in \<open>simp_all add: s1_def\<close>)
  have ok2: "procs_ok s2" and st2: "same_table s s2"
    using assms(2) same_table_mcount(1) by (auto simp: s1_def s2_def intro: same_table_trans)
  show ?thesis
  proof (cases "currentProc s2")
    case None
    then show ?thesis using ok2 st2 by (simp add: sendTaskToInit_def q mal get)
  next
    case (Some c)
    show ?thesis
    proof (cases "List.find (\<lambda>p. pc_pid p = pid) q")
      case None
      then show ?thesis
        using Some by (auto simp: sendTaskToInit_def q mal get find_None_prop inQueue_def)
    next
      case found: (Some k)
      obtain hp s3 where s3: "fold (orphan_step pid) (pc_pid c # map pc_pid (butlast (the (procQueue s2)))) (False, s2) = (hp, s3)"
        by (metis surj_pair)
      have "procs_ok s3 \<and> same_table s2 s3"
        using orphan_steps_ok [of "(False, s2)" pid] ok2 s3 by (metis snd_conv)
      then have "procs_ok s3" "same_table s s3" using st2 by (auto intro: same_table_trans)
      then show ?thesis
        using s3 Some found mal
        by (auto simp: sendTaskToInit_def q get intro!: procs_ok_modProc_same
            intro: same_table_trans [OF _ same_table_modProc] simp del: fold.simps)
    qed
  qed
qed


definition running :: "kernel \<Rightarrow> bool" where
  "running s \<longleftrightarrow> currentProc s \<noteq> None \<and> idlePid s \<noteq> Some (getpid s)"

lemma running_same_table: "same_table s s' \<Longrightarrow> running s' = running s"
  by (auto simp: running_def same_table_def)

lemma running_not_idle:
  assumes "procs_ok s" "running s" "lookupProc pid s = Some p"
  shows "\<not> is_idle s p"
proof
  assume i: "is_idle s p"
  from assms(1) show False
  proof (cases rule: procs_okE)
    case (idle q i)
    then show False using assms(2) by (auto simp: running_def idlePid_def getpid_def)
  next
    case (run q i c)
    then have p: "pc_pid p = pc_pid i" "p \<notin> set q" using i by (auto simp: is_idle_def) (metis imageI)
    then show False
      using lookupProc_cases [OF assms(3)] run(1,3,4) by (auto dest: find_Some_prop)
  qed
qed

lemma changeState_with_ok:
  assumes J: "J s" "\<And>s. J s \<Longrightarrow> memory_ok s \<and> procs_ok s \<and> running s"
      "\<And>s s'. J s \<Longrightarrow> same_table s s' \<Longrightarrow> procs_ok s' \<Longrightarrow> J s'"
    and post: "\<And>s sid. J s \<Longrightarrow> kwp0 (post sid s) (\<lambda>_ s'. J s')"
  shows "kwp (\<lambda>c. c = NullDeref \<and> newState = TERMINATED \<and> \<not> inQueue pid s) (\<lambda>_. False) (\<lambda>_. False)
     (changeState_with post pid newState s) (\<lambda>_ s'. J s')"
proof -
  obtain m where m: "(if pid = curPid s then (currentProc s, s) else getProcess pid s) = (target pid s, s\<lparr>mcount := m\<rparr>)"
    using changeState_target J(1,2) by blast
  let ?s = "s\<lparr>mcount := m\<rparr>"
  have Js: "J ?s" using J(3) [OF J(1) same_table_mcount(1)] J(1,2) by simp
  have set: "J s' \<Longrightarrow> J (setState i newState s')" for i s'
    using J(3) [OF _ same_table_setState] J(2) [of s'] running_not_idle by (metis setState_ok)
  show ?thesis
  proof (cases "target pid s")
    case None
    then show ?thesis using Js by (simp add: changeState_with_def m)
  next
    case (Some p)
    have pid: "pc_pid p = pid" using lookupProc_pid [OF target_lookup [OF Some]] .
    have "kwp (\<lambda>c. c = NullDeref \<and> \<not> inQueue pid ?s) (\<lambda>_. False) (\<lambda>_. False) (sendTaskToInit pid ?s) (\<lambda>_ s'. J s')"
      by (rule kwp_mono [OF sendTaskToInit_ok]) (use J(2) [OF Js] J(3) [OF Js] in auto)
    then have "kwp (\<lambda>c. c = NullDeref \<and> \<not> inQueue pid s) (\<lambda>_. False) (\<lambda>_. False) (sendTaskToInit pid ?s)
        (\<lambda>_ s'. J (setState pid newState s'))"
      by (rule kwp_mono [where Q = "\<lambda>_ s'. J s'", OF kwp_mono_crash]) (auto simp: inQueue_def set)
    moreover have "kwp0 (post (pc_semId p) ?s) (\<lambda>_ s'. J (setState pid newState s'))"
      by (rule kwp_mono [OF post [OF Js]]) (rule set)
    ultimately show ?thesis
      using Js set [OF Js] pid Some
      by (cases newState) (auto simp: changeState_with_def m intro: kwp0_lift)
  qed
qed

end
