(* ===== verification/Sem.thy ===== *)
theory Sem
  imports Proc
begin

text \<open>
  \<open>Kernel/semaphores/sem.c\<close>. A pointer to a \<open>t_sem\<close> is the semaphore's id, ids are handed out once.
  A lock that is already taken is a \<open>SpinForever\<close> crash: system calls run with interrupts off, so
  nobody else can release it. \<open>semWait_with\<close> takes the routine that blocks the caller as an argument:
  \<open>blockTask\<close>, which itself changes process states through \<open>semPost\<close>, is defined later.
\<close>

section \<open>Locks and lookup\<close>

text \<open>\<open>acquire\<close> and \<open>release\<close> of the lock of a semaphore, and of the global one.\<close>

definition lookupSem :: "int \<Rightarrow> kernel \<Rightarrow> sem option" where
  "lookupSem sid s = Option.bind (semQueue s) (List.find (\<lambda>m. s_id m = sid))"

definition modSem :: "int \<Rightarrow> (sem \<Rightarrow> sem) \<Rightarrow> kernel \<Rightarrow> kernel" where
  "modSem sid f s = s\<lparr>semQueue := map_option (upd_first (\<lambda>m. s_id m = sid) f) (semQueue s)\<rparr>"

definition xchg :: "int \<Rightarrow> int \<Rightarrow> int \<times> int" where
  "xchg lock v = (lock, v)"

definition acquire :: "int \<Rightarrow> kernel \<Rightarrow> unit kres" where
  "acquire sid s =
     (case lookupSem sid s of
        None \<Rightarrow> Crash UseAfterFree
      | Some m \<Rightarrow> (let (old, new) = xchg (s_lock m) 1
                   in if old \<noteq> 0 then Crash SpinForever else Ret () (modSem sid (s_lock_update (\<lambda>_. new)) s)))"

definition release :: "int \<Rightarrow> kernel \<Rightarrow> kernel" where
  "release sid s = modSem sid (s_lock_update (\<lambda>l. snd (xchg l 0))) s"

definition acquireAll :: "kernel \<Rightarrow> unit kres" where
  "acquireAll s = (let (old, new) = xchg (allSemsLock s) 1
                   in if old \<noteq> 0 then Crash SpinForever else Ret () (s\<lparr>allSemsLock := new\<rparr>))"

definition releaseAll :: "kernel \<Rightarrow> kernel" where
  "releaseAll s = s\<lparr>allSemsLock := snd (xchg (allSemsLock s) 0)\<rparr>"

definition findSem :: "int \<Rightarrow> kernel \<Rightarrow> sem option \<times> kernel" where
  "findSem sid s = kfind (\<lambda>m. s_id m = sid) (semQueue s) s"

definition findSemName :: "u8 list \<Rightarrow> kernel \<Rightarrow> sem option \<times> kernel" where
  "findSemName name s = kfind (\<lambda>m. strcasecmp_list (s_name m) name = 0) (semQueue s) s"

section \<open>Creating and closing\<close>

definition getNextSemaphoreId :: "kernel \<Rightarrow> int \<times> kernel" where
  "getNextSemaphoreId s = (nextSemId s, s\<lparr>nextSemId := nextSemId s + 1\<rparr>)"

text \<open>\<open>initQueue\<close> as a call of the kernel: \<open>NULL\<close>, or an empty queue.\<close>

definition kinitQueue :: "kernel \<Rightarrow> 'a list option \<times> kernel" where
  "kinitQueue s = (let (m, s') = kmalloc 24 s in (if m = 0 then None else Some [], s'))"

definition initSemSystem :: "kernel \<Rightarrow> int kres" where
  "initSemSystem s =
     kbind (acquireAll s) (\<lambda>_ s.
       let s1 = (if semQueue s = None
                 then (let (q, s') = kinitQueue s in s'\<lparr>semQueue := q\<rparr>) else s)
       in Ret (if semQueue s1 \<noteq> None then 1 else 0) (releaseAll s1))"

text \<open>\<open>createSem\<close> returns the new semaphore's id. When the queue node cannot be allocated the
  semaphore exists but is in no queue, so no later call finds it.\<close>

definition createSem :: "int \<Rightarrow> u8 list \<Rightarrow> kernel \<Rightarrow> int option kres" where
  "createSem initialValue name s =
     (let (sem, s1) = kmalloc 32 s
      in if sem = 0 then Ret None s1
         else let (sid, s2) = getNextSemaphoreId s1;
                  (blocked, s3) = kinitQueue s2;
                  (nm, s4) = kmalloc (length name + 1) s3
              in if nm = 0 then Ret None s4
                 else case semQueue s4 of
                        None \<Rightarrow> Crash NullDeref
                      | Some q \<Rightarrow>
                          (let (q', s5) = kenqueue \<lparr>s_blocked = blocked, s_attached = 0, s_id = sid,
                                   s_value = initialValue, s_lock = 0, s_name = name\<rparr> q s4
                           in Ret (Some sid) (s5\<lparr>semQueue := Some q'\<rparr>)))"

definition semOpen :: "u8 list \<Rightarrow> int \<Rightarrow> kernel \<Rightarrow> int kres" where
  "semOpen semaphoreName initialValue s =
     (let (sem, s1) = findSemName semaphoreName s
      in kbind (acquireAll s1) (\<lambda>_ s2.
         kbind (case sem of
                  None \<Rightarrow> createSem initialValue semaphoreName s2
                | Some m \<Rightarrow> Ret (Some (s_id m)) s2) (\<lambda>r s3.
         case r of
           None \<Rightarrow> Ret (-1) (releaseAll s3)
         | Some sid \<Rightarrow> Ret sid (releaseAll (modSem sid (s_attached_update (\<lambda>n. n + 1)) s3)))))"

definition semInit :: "int \<Rightarrow> kernel \<Rightarrow> int kres" where
  "semInit initialValue s =
     kbind (acquireAll s) (\<lambda>_ s1.
     kbind (createSem initialValue [] s1) (\<lambda>r s2.
       let s3 = releaseAll s2
       in case r of
            None \<Rightarrow> Ret (-1) s3
          | Some sid \<Rightarrow> Ret sid (modSem sid (s_attached_update (\<lambda>n. n + 1)) s3)))"

text \<open>\<open>semClose\<close>; \<open>destroySem\<close> frees the queue of blocked pids with the semaphore.\<close>

definition semClose :: "int \<Rightarrow> kernel \<Rightarrow> int kres" where
  "semClose sid s =
     (let (sem, s1) = findSem sid s
      in case sem of
           None \<Rightarrow> Ret (-1) s1
         | Some m \<Rightarrow>
             kbind (acquireAll s1) (\<lambda>_ s2.
               let s3 = (if length (s_name m) = 0 \<or> s_attached m = 1
                         then s2\<lparr>semQueue := map_option (remove_first (\<lambda>m. s_id m = sid)) (semQueue s2)\<rparr>
                         else modSem sid (s_attached_update (\<lambda>n. n - 1)) s2)
               in Ret 0 (releaseAll s3)))"

section \<open>Wait and post\<close>

definition semWait_with :: "(int \<Rightarrow> kernel \<Rightarrow> int kres) \<Rightarrow> int \<Rightarrow> kernel \<Rightarrow> int kres" where
  "semWait_with blk sid s =
     (let (sem, s1) = findSem sid s
      in case sem of
           None \<Rightarrow> Ret (-1) s1
         | Some m \<Rightarrow>
             kbind (acquire sid s1) (\<lambda>_ s2.
               if s_value m > 0
               then Ret 0 (release sid (modSem sid (s_value_update (\<lambda>v. v - 1)) s2))
               else let (callerPID, s3) = kmalloc 4 s2
                    in if callerPID = 0 then Ret (-1) s3
                       else let pid = getpid s3
                            in case s_blocked m of
                                 None \<Rightarrow> (if fst (kmalloc 16 s3) = 0
                                          then kbind (blk pid (release sid (snd (kmalloc 16 s3)))) (\<lambda>_ s. Ret 0 s)
                                          else Crash NullDeref)
                               | Some b \<Rightarrow>
                                   (let (b', s4) = kenqueue pid b s3
                                    in kbind (blk pid (release sid (modSem sid (s_blocked_update (\<lambda>_. Some b')) s4)))
                                         (\<lambda>_ s. Ret 0 s))))"

text \<open>The loop of \<open>semPost\<close> over the blocked pids: it resumes the first that can be resumed, and
  counts up when there is none.\<close>

primrec semPost_loop :: "int \<Rightarrow> int list \<Rightarrow> kernel \<Rightarrow> unit kres" where
  "semPost_loop sid [] s = Ret () (modSem sid (s_value_update (\<lambda>v. v + 1)) s)"
| "semPost_loop sid (callerPID # rest) s =
     kbind (resumeTask callerPID (modSem sid (s_blocked_update (\<lambda>_. Some rest)) s)) (\<lambda>pid s'.
       if pid \<noteq> -1 then Ret () s' else semPost_loop sid rest s')"

definition semPost :: "int \<Rightarrow> kernel \<Rightarrow> int kres" where
  "semPost sid s =
     (let (sem, s1) = findSem sid s
      in case sem of
           None \<Rightarrow> Ret (-1) s1
         | Some m \<Rightarrow>
             kbind (acquire sid s1) (\<lambda>_ s2.
               case s_blocked m of
                 None \<Rightarrow> Crash NullDeref
               | Some b \<Rightarrow> kbind (semPost_loop sid b s2) (\<lambda>_ s3. Ret 0 (release sid s3))))"

definition semValue :: "int \<Rightarrow> kernel \<Rightarrow> int \<times> kernel" where
  "semValue sid s =
     (let (sem, s1) = findSem sid s in (case sem of None \<Rightarrow> -1 | Some m \<Rightarrow> s_value m, s1))"

section \<open>Information for user programs\<close>

text \<open>\<open>getBlockedPids\<close>, \<open>getSingleSem\<close> and \<open>getSemInfo\<close>: the structures of \<open>shared.h\<close>; \<open>None\<close> is
  \<open>NULL\<close>, and an array with length -1 is \<open>Inl ()\<close>.\<close>

record userlandSem =
  us_attached :: u16
  us_id :: int
  us_value :: int
  us_lock :: int
  us_name :: "u8 list"
  us_blocked :: "(unit + int list) option"

definition getBlockedPids :: "int \<Rightarrow> kernel \<Rightarrow> (unit + int list) option kres" where
  "getBlockedPids sid s =
     (let (sem, s1) = findSem sid s;
          (m1, s2) = kmalloc 16 s1
      in if m1 = 0 then Ret None s2
         else case sem of
                None \<Rightarrow> Ret (Some (Inl ())) s2
              | Some m \<Rightarrow>
                  (case s_blocked m of
                     None \<Rightarrow> Crash NullDeref
                   | Some b \<Rightarrow>
                       (let (arr, s3) = kmalloc (4 * length b) s2
                        in if arr = 0 then Ret None s3
                           else let (it, s4) = kmalloc 8 s3
                                in if it = 0 then Crash UninitRead else Ret (Some (Inr b)) s4)))"

definition userSem :: "sem \<Rightarrow> (unit + int list) option \<Rightarrow> userlandSem" where
  "userSem m b =
     \<lparr>us_attached = s_attached m, us_id = s_id m, us_value = s_value m, us_lock = s_lock m,
      us_name = s_name m, us_blocked = b\<rparr>"

definition getSingleSem :: "int \<Rightarrow> kernel \<Rightarrow> userlandSem option kres" where
  "getSingleSem sid s =
     (let (sem, s1) = findSem sid s
      in case sem of
           None \<Rightarrow> Ret None s1
         | Some m \<Rightarrow>
             (let (r, s2) = kmalloc 32 s1
              in if r = 0 then Ret None s2
                 else let (nm, s3) = kmalloc (length (s_name m) + 1) s2
                      in if nm = 0 then Ret None s3
                         else kbind (getBlockedPids (s_id m) s3) (\<lambda>b s4. Ret (Some (userSem m b)) s4)))"

primrec getSemInfo_loop :: "sem list \<Rightarrow> userlandSem list \<Rightarrow> kernel \<Rightarrow> userlandSem list option kres" where
  "getSemInfo_loop [] acc s = Ret (Some acc) s"
| "getSemInfo_loop (m # ms) acc s =
     (let (nm, s1) = kmalloc (length (s_name m) + 1) s
      in if nm = 0 then Ret None s1
         else kbind (getBlockedPids (s_id m) s1) (\<lambda>b s2. getSemInfo_loop ms (acc @ [userSem m b]) s2))"

definition getSemInfo :: "kernel \<Rightarrow> userlandSem list option kres" where
  "getSemInfo s =
     (let (it, s1) = (case semQueue s of None \<Rightarrow> (0, s) | Some _ \<Rightarrow> kmalloc 8 s);
          (info, s2) = kmalloc 16 s1
      in if info = 0 then Ret None s2
         else case semQueue s2 of
                None \<Rightarrow> Crash NullDeref
              | Some q \<Rightarrow>
                  (let (arr, s3) = kmalloc (32 * length q) s2
                   in if arr = 0 then Ret None s3
                      else if it = 0 then Crash UninitRead
                      else getSemInfo_loop q [] s3))"

end
