(* ===== verification/Kinv.thy ===== *)
theory Kinv
  imports Sem
begin

text \<open>
  The invariant of the whole kernel: memory answers every request, the process table, the
  semaphores and the pipes are well formed, and the console's position is on the screen. It is
  stated with the set of semaphore locks and the global lock that are held, so that it also
  describes the inside of a critical section; between calls no lock is held.
\<close>

section \<open>Semaphores and pipes\<close>

definition sem_ok :: "int set \<Rightarrow> int \<Rightarrow> sem \<Rightarrow> bool" where
  "sem_ok L n m \<longleftrightarrow> s_id m < n \<and> s_lock m = (if s_id m \<in> L then 1 else 0) \<and> s_blocked m \<noteq> None"

definition sems_inv :: "int set \<Rightarrow> int \<Rightarrow> kernel \<Rightarrow> bool" where
  "sems_inv L A s \<longleftrightarrow> allSemsLock s = A \<and> 0 \<le> nextSemId s \<and>
     (\<exists>q. semQueue s = Some q \<and> distinct (map s_id q) \<and> (\<forall>m \<in> set q. sem_ok L (nextSemId s) m))"

definition pipe_ok :: "pipe \<Rightarrow> bool" where
  "pipe_ok p \<longleftrightarrow> length (pi_buffer p) = 1024 \<and> 0 \<le> pi_writeIndex p \<and> pi_writeIndex p < PIPE_BUFFER_SIZE \<and>
     0 \<le> pi_readIndex p \<and> pi_readIndex p < PIPE_BUFFER_SIZE"

definition pipes_ok :: "kernel \<Rightarrow> bool" where
  "pipes_ok s \<longleftrightarrow>
     (\<exists>q. pipeQueue s = Some q \<and> distinct (map pi_id q) \<and> (\<forall>p \<in> set q. pipe_ok p) \<and>
        (\<forall>i. cachedPipe s = Some i \<longrightarrow> i \<in> pi_id ` set q))"

definition kinv_locked :: "int set \<Rightarrow> int \<Rightarrow> kernel \<Rightarrow> bool" where
  "kinv_locked L A s \<longleftrightarrow> memory_ok s \<and> procs_ok s \<and> sems_inv L A s \<and> pipes_ok s \<and> console_ok (con s)"

definition kinv :: "kernel \<Rightarrow> bool" where
  "kinv s \<longleftrightarrow> kinv_locked {} 0 s"

lemma kinvD:
  assumes "kinv s"
  shows "memory_ok s" "procs_ok s" "pipes_ok s" "sems_inv {} 0 s" "console_ok (con s)"
  using assms by (simp_all add: kinv_def kinv_locked_def)

section \<open>Frames\<close>

lemma sems_inv_frame [simp]:
  "sems_inv L A (s\<lparr>mcount := x0\<rparr>) = sems_inv L A s"
  "sems_inv L A (s\<lparr>currentCycles := x1\<rparr>) = sems_inv L A s"
  "sems_inv L A (s\<lparr>userlandPid := x2\<rparr>) = sems_inv L A s"
  "sems_inv L A (s\<lparr>initPid := x3\<rparr>) = sems_inv L A s"
  "sems_inv L A (s\<lparr>frames := x4\<rparr>) = sems_inv L A s"
  "sems_inv L A (s\<lparr>allPipesSem := x5\<rparr>) = sems_inv L A s"
  "sems_inv L A (s\<lparr>ticks := x6\<rparr>) = sems_inv L A s"
  "sems_inv L A (s\<lparr>stdinPipe := x7\<rparr>) = sems_inv L A s"
  "sems_inv L A (s\<lparr>isSpecial := x8\<rparr>) = sems_inv L A s"
  "sems_inv L A (s\<lparr>shiftFlag := x9\<rparr>) = sems_inv L A s"
  "sems_inv L A (s\<lparr>controlFlag := x10\<rparr>) = sems_inv L A s"
  "sems_inv L A (s\<lparr>registers := x11\<rparr>) = sems_inv L A s"
  "sems_inv L A (s\<lparr>cpu_rsp := x12\<rparr>) = sems_inv L A s"
  "sems_inv L A (s\<lparr>procQueue := x13\<rparr>) = sems_inv L A s"
  "sems_inv L A (s\<lparr>currentProc := x14\<rparr>) = sems_inv L A s"
  "sems_inv L A (s\<lparr>idleProc := x15\<rparr>) = sems_inv L A s"
  "sems_inv L A (s\<lparr>readyCount := x16\<rparr>) = sems_inv L A s"
  "sems_inv L A (s\<lparr>pidCounter := x17\<rparr>) = sems_inv L A s"
  "sems_inv L A (s\<lparr>pipeQueue := x18\<rparr>) = sems_inv L A s"
  "sems_inv L A (s\<lparr>cachedPipe := x19\<rparr>) = sems_inv L A s"
  "sems_inv L A (s\<lparr>con := x20\<rparr>) = sems_inv L A s"
  by (simp_all add: sems_inv_def)

lemma pipes_ok_frame [simp]:
  "pipes_ok (s\<lparr>mcount := x0\<rparr>) = pipes_ok s"
  "pipes_ok (s\<lparr>currentCycles := x1\<rparr>) = pipes_ok s"
  "pipes_ok (s\<lparr>userlandPid := x2\<rparr>) = pipes_ok s"
  "pipes_ok (s\<lparr>initPid := x3\<rparr>) = pipes_ok s"
  "pipes_ok (s\<lparr>frames := x4\<rparr>) = pipes_ok s"
  "pipes_ok (s\<lparr>allPipesSem := x5\<rparr>) = pipes_ok s"
  "pipes_ok (s\<lparr>ticks := x6\<rparr>) = pipes_ok s"
  "pipes_ok (s\<lparr>stdinPipe := x7\<rparr>) = pipes_ok s"
  "pipes_ok (s\<lparr>isSpecial := x8\<rparr>) = pipes_ok s"
  "pipes_ok (s\<lparr>shiftFlag := x9\<rparr>) = pipes_ok s"
  "pipes_ok (s\<lparr>controlFlag := x10\<rparr>) = pipes_ok s"
  "pipes_ok (s\<lparr>registers := x11\<rparr>) = pipes_ok s"
  "pipes_ok (s\<lparr>cpu_rsp := x12\<rparr>) = pipes_ok s"
  "pipes_ok (s\<lparr>procQueue := x13\<rparr>) = pipes_ok s"
  "pipes_ok (s\<lparr>currentProc := x14\<rparr>) = pipes_ok s"
  "pipes_ok (s\<lparr>idleProc := x15\<rparr>) = pipes_ok s"
  "pipes_ok (s\<lparr>readyCount := x16\<rparr>) = pipes_ok s"
  "pipes_ok (s\<lparr>pidCounter := x17\<rparr>) = pipes_ok s"
  "pipes_ok (s\<lparr>semQueue := x18\<rparr>) = pipes_ok s"
  "pipes_ok (s\<lparr>nextSemId := x19\<rparr>) = pipes_ok s"
  "pipes_ok (s\<lparr>allSemsLock := x20\<rparr>) = pipes_ok s"
  "pipes_ok (s\<lparr>con := x21\<rparr>) = pipes_ok s"
  by (simp_all add: pipes_ok_def)

lemma memory_ok_frame [simp]:
  "memory_ok (s\<lparr>currentCycles := x0\<rparr>) = memory_ok s"
  "memory_ok (s\<lparr>userlandPid := x1\<rparr>) = memory_ok s"
  "memory_ok (s\<lparr>initPid := x2\<rparr>) = memory_ok s"
  "memory_ok (s\<lparr>frames := x3\<rparr>) = memory_ok s"
  "memory_ok (s\<lparr>allPipesSem := x4\<rparr>) = memory_ok s"
  "memory_ok (s\<lparr>ticks := x5\<rparr>) = memory_ok s"
  "memory_ok (s\<lparr>stdinPipe := x6\<rparr>) = memory_ok s"
  "memory_ok (s\<lparr>isSpecial := x7\<rparr>) = memory_ok s"
  "memory_ok (s\<lparr>shiftFlag := x8\<rparr>) = memory_ok s"
  "memory_ok (s\<lparr>controlFlag := x9\<rparr>) = memory_ok s"
  "memory_ok (s\<lparr>registers := x10\<rparr>) = memory_ok s"
  "memory_ok (s\<lparr>cpu_rsp := x11\<rparr>) = memory_ok s"
  "memory_ok (s\<lparr>procQueue := x12\<rparr>) = memory_ok s"
  "memory_ok (s\<lparr>currentProc := x13\<rparr>) = memory_ok s"
  "memory_ok (s\<lparr>idleProc := x14\<rparr>) = memory_ok s"
  "memory_ok (s\<lparr>readyCount := x15\<rparr>) = memory_ok s"
  "memory_ok (s\<lparr>pidCounter := x16\<rparr>) = memory_ok s"
  "memory_ok (s\<lparr>semQueue := x17\<rparr>) = memory_ok s"
  "memory_ok (s\<lparr>nextSemId := x18\<rparr>) = memory_ok s"
  "memory_ok (s\<lparr>allSemsLock := x19\<rparr>) = memory_ok s"
  "memory_ok (s\<lparr>pipeQueue := x20\<rparr>) = memory_ok s"
  "memory_ok (s\<lparr>cachedPipe := x21\<rparr>) = memory_ok s"
  "memory_ok (s\<lparr>con := x22\<rparr>) = memory_ok s"
  by (simp_all add: memory_ok_def)

lemma kinv_locked_frame [simp]:
  "kinv_locked L A (s\<lparr>mcount := x0\<rparr>) = kinv_locked L A s"
  "kinv_locked L A (s\<lparr>currentCycles := x1\<rparr>) = kinv_locked L A s"
  "kinv_locked L A (s\<lparr>userlandPid := x2\<rparr>) = kinv_locked L A s"
  "kinv_locked L A (s\<lparr>initPid := x3\<rparr>) = kinv_locked L A s"
  "kinv_locked L A (s\<lparr>frames := x4\<rparr>) = kinv_locked L A s"
  "kinv_locked L A (s\<lparr>allPipesSem := x5\<rparr>) = kinv_locked L A s"
  "kinv_locked L A (s\<lparr>ticks := x6\<rparr>) = kinv_locked L A s"
  "kinv_locked L A (s\<lparr>stdinPipe := x7\<rparr>) = kinv_locked L A s"
  "kinv_locked L A (s\<lparr>isSpecial := x8\<rparr>) = kinv_locked L A s"
  "kinv_locked L A (s\<lparr>shiftFlag := x9\<rparr>) = kinv_locked L A s"
  "kinv_locked L A (s\<lparr>controlFlag := x10\<rparr>) = kinv_locked L A s"
  "kinv_locked L A (s\<lparr>registers := x11\<rparr>) = kinv_locked L A s"
  "kinv_locked L A (s\<lparr>cpu_rsp := x12\<rparr>) = kinv_locked L A s"
  by (simp_all add: kinv_locked_def)

lemma kinv_frame [simp]:
  "kinv (s\<lparr>mcount := x0\<rparr>) = kinv s"
  "kinv (s\<lparr>currentCycles := x1\<rparr>) = kinv s"
  "kinv (s\<lparr>userlandPid := x2\<rparr>) = kinv s"
  "kinv (s\<lparr>initPid := x3\<rparr>) = kinv s"
  "kinv (s\<lparr>frames := x4\<rparr>) = kinv s"
  "kinv (s\<lparr>allPipesSem := x5\<rparr>) = kinv s"
  "kinv (s\<lparr>ticks := x6\<rparr>) = kinv s"
  "kinv (s\<lparr>stdinPipe := x7\<rparr>) = kinv s"
  "kinv (s\<lparr>isSpecial := x8\<rparr>) = kinv s"
  "kinv (s\<lparr>shiftFlag := x9\<rparr>) = kinv s"
  "kinv (s\<lparr>controlFlag := x10\<rparr>) = kinv s"
  "kinv (s\<lparr>registers := x11\<rparr>) = kinv s"
  "kinv (s\<lparr>cpu_rsp := x12\<rparr>) = kinv s"
  by (simp_all add: kinv_def)

lemma procs_ok_modSem [simp]: "procs_ok (modSem i f s) = procs_ok s"
  by (simp add: modSem_def)

lemma wakes_modSem [simp]: "wakes s0 (modSem i f s) = wakes s0 s"
  by (simp add: modSem_def)

lemma getpid_modSem [simp]: "getpid (modSem i f s) = getpid s"
  by (simp add: modSem_def getpid_def cong: option.case_cong)

lemma kinv_locked_only_procs:
  assumes "kinv_locked L A s" "only_procs s s'" "procs_ok s'"
  shows "kinv_locked L A s'"
  using assms(1,3) strip_fields [OF assms(2)]
  by (simp add: kinv_locked_def memory_ok_def sems_inv_def pipes_ok_def)

lemma wakes_refl [simp]: "wakes s s"
  by (simp add: wakes_def)

section \<open>Updating one semaphore\<close>

lemma sems_inv_modSem:
  assumes "sems_inv L A s" "\<And>m. s_id (f m) = s_id m"
    "\<And>m. m \<in> set (the (semQueue s)) \<Longrightarrow> s_id m = i \<Longrightarrow> sem_ok L (nextSemId s) m \<Longrightarrow> sem_ok L' (nextSemId s) (f m)"
    "L - {i} = L' - {i}"
  shows "sems_inv L' A (modSem i f s)"
proof -
  obtain q where q: "semQueue s = Some q" "distinct (map s_id q)" "\<forall>m \<in> set q. sem_ok L (nextSemId s) m"
      "allSemsLock s = A" "0 \<le> nextSemId s"
    using assms(1) by (auto simp: sems_inv_def)
  have upd: "upd_first (\<lambda>m. s_id m = i) f q = map (\<lambda>m. if s_id m = i then f m else m) q"
    by (rule upd_first_distinct [OF q(2)])
  have ids: "map s_id (upd_first (\<lambda>m. s_id m = i) f q) = map s_id q"
    by (rule map_upd_first) (rule assms(2))
  have "sem_ok L' (nextSemId s) m" if "m \<in> set q" "s_id m \<noteq> i" for m
  proof -
    have "s_id m \<in> L \<longleftrightarrow> s_id m \<in> L'" using assms(4) that(2) by blast
    then show ?thesis using q(3) that(1) by (simp add: sem_ok_def)
  qed
  then have "\<forall>m \<in> set (upd_first (\<lambda>m. s_id m = i) f q). sem_ok L' (nextSemId s) m"
    using assms(3) q(1,3) by (auto simp: upd)
  then show ?thesis using q(1,2,4,5) ids by (simp add: sems_inv_def modSem_def)
qed

lemma kinv_locked_modSem:
  assumes "kinv_locked L A s" "\<And>m. s_id (f m) = s_id m" "\<And>m. s_lock (f m) = s_lock m"
    "\<And>m. s_blocked m \<noteq> None \<Longrightarrow> s_blocked (f m) \<noteq> None"
  shows "kinv_locked L A (modSem i f s)"
proof -
  have "sems_inv L A (modSem i f s)"
    using assms by (intro sems_inv_modSem [of L]) (auto simp: sem_ok_def kinv_locked_def)
  then show ?thesis using assms(1) by (simp add: kinv_locked_def modSem_def)
qed

lemma lookupSem_modSem:
  "(\<And>m. s_id (f m) = s_id m) \<Longrightarrow> lookupSem j (modSem i f s) =
     (if i = j then map_option f (lookupSem j s) else lookupSem j s)"
proof (cases "semQueue s")
  case None
  then show ?thesis by (simp add: lookupSem_def modSem_def)
next
  case (Some q)
  assume f: "\<And>m. s_id (f m) = s_id m"
  have "List.find (\<lambda>m. s_id m = j) (upd_first (\<lambda>m. s_id m = i) f q) =
      (if i = j then map_option f (List.find (\<lambda>m. s_id m = j) q) else List.find (\<lambda>m. s_id m = j) q)"
    by (auto simp: f intro!: find_upd_first find_upd_first_other)
  then show ?thesis using Some by (simp add: lookupSem_def modSem_def)
qed

lemma lookupSem_frame: "semQueue s' = semQueue s \<Longrightarrow> lookupSem i s' = lookupSem i s"
  by (simp add: lookupSem_def)

lemma lookupSem_ok:
  assumes "sems_inv L A s" "lookupSem i s = Some m"
  shows "s_id m = i" "sem_ok L (nextSemId s) m" "m \<in> set (the (semQueue s))"
proof -
  obtain q where q: "semQueue s = Some q" "\<forall>m \<in> set q. sem_ok L (nextSemId s) m"
    using assms(1) by (auto simp: sems_inv_def)
  then have "List.find (\<lambda>m. s_id m = i) q = Some m" using assms(2) by (simp add: lookupSem_def)
  from find_Some_prop [OF this] have "s_id m = i \<and> m \<in> set q" by simp
  then show "s_id m = i" "sem_ok L (nextSemId s) m" "m \<in> set (the (semQueue s))" using q by auto
qed

lemma findSem_ok:
  assumes "kinv_locked L A s"
  shows "findSem i s = (lookupSem i s, s\<lparr>mcount := Suc (mcount s)\<rparr>)"
  using assms by (auto simp: findSem_def lookupSem_def kinv_locked_def sems_inv_def kfind_ok)

lemma acquire_ok:
  assumes "kinv_locked L A s" "lookupSem i s = Some m" "i \<notin> L"
  shows "acquire i s = Ret () (modSem i (s_lock_update (\<lambda>_. 1)) s)"
    and "kinv_locked (insert i L) A (modSem i (s_lock_update (\<lambda>_. 1)) s)"
proof -
  have "s_lock m = 0"
    using lookupSem_ok [of L A s i m] assms by (auto simp: kinv_locked_def sem_ok_def)
  then show "acquire i s = Ret () (modSem i (s_lock_update (\<lambda>_. 1)) s)"
    using assms(2) by (simp add: acquire_def xchg_def)
  have "sems_inv (insert i L) A (modSem i (s_lock_update (\<lambda>_. 1)) s)"
    using assms(1) by (intro sems_inv_modSem [of L]) (auto simp: sem_ok_def kinv_locked_def)
  then show "kinv_locked (insert i L) A (modSem i (s_lock_update (\<lambda>_. 1)) s)"
    using assms(1) by (simp add: kinv_locked_def modSem_def)
qed

lemma release_ok:
  assumes "kinv_locked (insert i L) A s" "i \<notin> L"
  shows "kinv_locked L A (release i s)"
proof -
  have "sems_inv L A (release i s)"
    unfolding release_def
    using assms by (intro sems_inv_modSem [of "insert i L"]) (auto simp: sem_ok_def kinv_locked_def xchg_def)
  then show ?thesis using assms(1) by (simp add: kinv_locked_def release_def modSem_def)
qed

lemma wakes_release [simp]: "wakes s0 (release i s) = wakes s0 s"
  by (simp add: release_def)

lemma getpid_release [simp]: "getpid (release i s) = getpid s"
  by (simp add: release_def)

lemma acquireAll_ok:
  assumes "kinv_locked L 0 s"
  shows "acquireAll s = Ret () (s\<lparr>allSemsLock := 1\<rparr>)" "kinv_locked L 1 (s\<lparr>allSemsLock := 1\<rparr>)"
  using assms by (simp_all add: acquireAll_def xchg_def kinv_locked_def sems_inv_def)

lemma releaseAll_ok:
  assumes "kinv_locked L A s"
  shows "kinv_locked L 0 (releaseAll s)" "wakes s0 (releaseAll s) = wakes s0 s"
  using assms by (simp_all add: releaseAll_def xchg_def kinv_locked_def sems_inv_def)

end
