(* ===== verification/SemProps.thy ===== *)
theory SemProps
  imports Kinv
begin

text \<open>
  What the semaphore operations guarantee. Each keeps the kernel invariant and changes at most the
  state of woken processes (\<open>okcall\<close>). \<open>semWait\<close> relies on the routine that blocks the caller through
  the locale \<open>block_service\<close>, whose clients are also the pipe operations; it is interpreted twice,
  by \<open>blockTask\<close> for system calls and by \<open>blockTask\<close> as the scheduler's own clean-up runs it.
\<close>

definition okcall :: "kernel \<Rightarrow> 'a kres \<Rightarrow> bool" where
  "okcall s m \<longleftrightarrow> kwp0 m (\<lambda>_ s'. kinv s' \<and> wakes s s')"

text \<open>The semaphore operations do not touch the pipes.\<close>

definition same_pipes :: "kernel \<Rightarrow> kernel \<Rightarrow> bool" where
  "same_pipes s s' \<longleftrightarrow> pipeQueue s' = pipeQueue s \<and> cachedPipe s' = cachedPipe s \<and> allPipesSem s' = allPipesSem s"

definition semcall :: "kernel \<Rightarrow> 'a kres \<Rightarrow> bool" where
  "semcall s m \<longleftrightarrow> kwp0 m (\<lambda>_ s'. kinv s' \<and> wakes s s' \<and> same_pipes s s')"

lemma semcall_okcall: "semcall s m \<Longrightarrow> okcall s m"
  unfolding semcall_def okcall_def by (erule kwp_mono) simp

lemma same_pipes_refl [simp]: "same_pipes s s"
  by (simp add: same_pipes_def)

lemma same_pipes_trans: "same_pipes s s' \<Longrightarrow> same_pipes s' s'' \<Longrightarrow> same_pipes s s''"
  by (simp add: same_pipes_def)

lemma same_pipes_frame [simp]:
  "same_pipes s0 (modSem i f s) = same_pipes s0 s"
  "same_pipes s0 (release i s) = same_pipes s0 s"
  "same_pipes s0 (releaseAll s) = same_pipes s0 s"
  "same_pipes s0 (s\<lparr>mcount := c\<rparr>) = same_pipes s0 s"
  "same_pipes s0 (s\<lparr>allSemsLock := l\<rparr>) = same_pipes s0 s"
  "same_pipes s0 (s\<lparr>semQueue := q\<rparr>) = same_pipes s0 s"
  "same_pipes s0 (s\<lparr>nextSemId := n\<rparr>) = same_pipes s0 s"
  "same_pipes (s\<lparr>mcount := c\<rparr>) s1 = same_pipes s s1"
  "same_pipes (s\<lparr>allSemsLock := l\<rparr>) s1 = same_pipes s s1"
  "same_pipes (modSem i f s) s1 = same_pipes s s1"
  by (auto simp: same_pipes_def modSem_def release_def releaseAll_def)

lemma same_pipes_only_procs: "only_procs s s' \<Longrightarrow> same_pipes s s'"
  using strip_fields [of s s'] by (simp add: same_pipes_def)

section \<open>Creating and closing\<close>

lemma kmalloc_val: "memory_ok s \<Longrightarrow> 0 < n \<Longrightarrow> kmalloc n s = (mallocs s (mcount s), s\<lparr>mcount := Suc (mcount s)\<rparr>)"
  by (simp add: kmalloc_def)

lemma mallocs_nz: "memory_ok s \<Longrightarrow> mallocs s n \<noteq> 0"
  by (simp add: memory_ok_def)

lemma createSem_eq:
  assumes "memory_ok s" "semQueue s = Some q"
  shows "\<exists>c. createSem v name s =
    Ret (Some (nextSemId s))
      (s\<lparr>nextSemId := nextSemId s + 1, mcount := c,
         semQueue := Some (q @ [\<lparr>s_blocked = Some [], s_attached = 0, s_id = nextSemId s,
           s_value = v, s_lock = 0, s_name = name\<rparr>])\<rparr>)"
  using assms
  by (auto simp: createSem_def kmalloc_val mallocs_nz getNextSemaphoreId_def kinitQueue_def kenqueue_def Let_def
      intro!: exI)

lemma sems_inv_append:
  assumes "sems_inv {} A s" "semQueue s = Some q" "s_id m = nextSemId s" "s_lock m = 0" "s_blocked m \<noteq> None"
  shows "sems_inv {} A (s\<lparr>nextSemId := nextSemId s + 1, mcount := c, semQueue := Some (q @ [m])\<rparr>)"
  using assms by (force simp: sems_inv_def sem_ok_def)

text \<open>Existing semaphores are what they were.\<close>

definition keeps_sems :: "kernel \<Rightarrow> kernel \<Rightarrow> bool" where
  "keeps_sems s s' \<longleftrightarrow> (\<forall>j m. lookupSem j s = Some m \<longrightarrow> lookupSem j s' = Some m)"

lemma keeps_sems_trans: "keeps_sems s s' \<Longrightarrow> keeps_sems s' s'' \<Longrightarrow> keeps_sems s s''"
  by (simp add: keeps_sems_def)

lemma createSem_ok:
  assumes "kinv_locked {} A s"
  shows "kwp0 (createSem v name s)
     (\<lambda>r s'. r = Some (nextSemId s) \<and> kinv_locked {} A s' \<and> wakes s s' \<and> same_pipes s s' \<and>
        keeps_sems s s' \<and> lookupSem (nextSemId s) s' =
          Some \<lparr>s_blocked = Some [], s_attached = 0, s_id = nextSemId s, s_value = v, s_lock = 0, s_name = name\<rparr>)"
proof -
  obtain q where q: "semQueue s = Some q" and m: "memory_ok s" and inv: "sems_inv {} A s"
    using assms by (auto simp: kinv_locked_def sems_inv_def)
  let ?m = "\<lparr>s_blocked = Some [], s_attached = 0, s_id = nextSemId s, s_value = v, s_lock = 0, s_name = name\<rparr>"
  obtain c where c: "createSem v name s = Ret (Some (nextSemId s))
      (s\<lparr>nextSemId := nextSemId s + 1, mcount := c, semQueue := Some (q @ [?m])\<rparr>)"
    using createSem_eq [OF m q] by blast
  have "\<forall>x \<in> set q. s_id x \<noteq> nextSemId s" using inv q by (auto simp: sems_inv_def sem_ok_def)
  then have "List.find (\<lambda>x. s_id x = nextSemId s) (q @ [?m]) = Some ?m"
    by (induction q) auto
  then show ?thesis
    using sems_inv_append [OF inv q, of ?m c] assms
    by (simp add: c kinv_locked_def lookupSem_def keeps_sems_def q find_append_Some)
qed

lemma semInit_ok:
  assumes "kinv s"
  shows "kwp0 (semInit v s) (\<lambda>r s'. r = nextSemId s \<and> kinv s' \<and> wakes s s' \<and> same_pipes s s' \<and>
     keeps_sems s s' \<and> lookupSem r s' = Some \<lparr>s_blocked = Some [], s_attached = 1, s_id = r, s_value = v, s_lock = 0, s_name = []\<rparr>)"
proof -
  have k: "kinv_locked {} 0 s" using assms by (simp add: kinv_def)
  let ?s1 = "s\<lparr>allSemsLock := 1\<rparr>"
  let ?m = "\<lparr>s_blocked = Some [], s_attached = 0, s_id = nextSemId s, s_value = v, s_lock = 0, s_name = []\<rparr>"
  obtain s2 where c: "createSem v [] ?s1 = Ret (Some (nextSemId s)) s2" "kinv_locked {} 1 s2"
      "wakes ?s1 s2" "same_pipes ?s1 s2" "lookupSem (nextSemId s) s2 = Some ?m"
      "keeps_sems ?s1 s2"
    using createSem_ok [OF acquireAll_ok(2) [OF k], of v "[]"] by (auto simp: kwp0_iff)
  define s3 where "s3 = releaseAll s2"
  let ?f = "s_attached_update (\<lambda>n. n + 1)"
  have s3: "kinv_locked {} 0 s3" "wakes ?s1 s3" "lookupSem (nextSemId s) s3 = Some ?m" "same_pipes ?s1 s3"
    using c releaseAll_ok [OF c(2)] by (simp_all add: s3_def lookupSem_def releaseAll_def)
  have "kinv (modSem (nextSemId s) ?f s3)"
    unfolding kinv_def by (rule kinv_locked_modSem [OF s3(1)]) auto
  moreover have "wakes s (modSem (nextSemId s) ?f s3)"
    using s3(2) by simp
  moreover have "lookupSem (nextSemId s) (modSem (nextSemId s) ?f s3) = Some (?f ?m)"
    using s3(3) by (subst lookupSem_modSem) auto
  moreover have "semInit v s = Ret (nextSemId s) (modSem (nextSemId s) ?f s3)"
    unfolding semInit_def acquireAll_ok(1) [OF k] using c(1) by (simp add: s3_def)
  moreover have "keeps_sems s (modSem (nextSemId s) ?f s3)"
    unfolding keeps_sems_def
  proof (intro allI impI)
    fix j m assume j: "lookupSem j s = Some m"
    have "j \<noteq> nextSemId s" using lookupSem_ok(1,2) [OF kinvD(4) [OF assms] j] by (simp add: sem_ok_def)
    moreover have "lookupSem j s3 = Some m"
      using c(6) j by (simp add: keeps_sems_def s3_def lookupSem_def releaseAll_def)
    ultimately show "lookupSem j (modSem (nextSemId s) ?f s3) = Some m"
      by (subst lookupSem_modSem) auto
  qed
  ultimately show ?thesis using s3(4) by simp
qed

lemma semOpen_ok:
  assumes "kinv s"
  shows "semcall s (semOpen name v s)"
proof -
  have k: "kinv_locked {} 0 s" using assms by (simp add: kinv_def)
  obtain q where q: "semQueue s = Some q" using k by (auto simp: kinv_locked_def sems_inv_def)
  let ?s1 = "s\<lparr>mcount := Suc (mcount s)\<rparr>"
  let ?s2 = "?s1\<lparr>allSemsLock := 1\<rparr>"
  have k1: "kinv_locked {} 0 ?s1" using k by simp
  have fnd: "findSemName name s = (List.find (\<lambda>m. strcasecmp_list (s_name m) name = 0) q, ?s1)"
    using k q by (simp add: findSemName_def kfind_ok kinv_locked_def)
  have fin: "kinv (releaseAll (modSem i (s_attached_update (\<lambda>n. n + 1)) s3))"
    if "kinv_locked {} 1 s3" for i s3
    unfolding kinv_def by (rule releaseAll_ok(1)[OF kinv_locked_modSem [OF that]]) auto
  have rel: "wakes ?s2 s3 \<Longrightarrow> wakes s (releaseAll (modSem i f s3))" for i f s3
    by (simp add: wakes_def releaseAll_def modSem_def)
  show ?thesis
  proof (cases "List.find (\<lambda>m. strcasecmp_list (s_name m) name = 0) q")
    case None
    obtain s3 where c: "createSem v name ?s2 = Ret (Some (nextSemId s)) s3" "kinv_locked {} 1 s3" "wakes ?s2 s3" "same_pipes ?s2 s3"
      using createSem_ok [OF acquireAll_ok(2) [OF k1], of v name] by (auto simp: kwp0_iff)
    show ?thesis
      using fin [OF c(2)] rel [OF c(3)] c(1,4)
      by (simp add: semcall_def semOpen_def fnd None acquireAll_ok(1) [OF k1])
  next
    case (Some m)
    show ?thesis
      using fin [OF acquireAll_ok(2) [OF k1]] rel [OF wakes_refl]
      by (simp add: semcall_def semOpen_def fnd Some acquireAll_ok(1) [OF k1])
  qed
qed

lemma sems_inv_remove:
  "sems_inv L A s \<Longrightarrow> sems_inv L A (s\<lparr>semQueue := map_option (remove_first P) (semQueue s)\<rparr>)"
  by (auto simp: sems_inv_def dest: in_remove_first)

lemma semClose_ok:
  assumes "kinv s"
  shows "semcall s (semClose i s)"
proof -
  have k: "kinv_locked {} 0 s" using assms by (simp add: kinv_def)
  let ?s1 = "s\<lparr>mcount := Suc (mcount s)\<rparr>"
  let ?s2 = "?s1\<lparr>allSemsLock := 1\<rparr>"
  have k1: "kinv_locked {} 0 ?s1" using k by simp
  note k2 = acquireAll_ok(2) [OF k1]
  have close: "kinv_locked {} 1 (?s2\<lparr>semQueue := map_option (remove_first (\<lambda>m. s_id m = i)) (semQueue ?s2)\<rparr>)"
    using k2 sems_inv_remove [of "{}" 1 ?s2] by (simp add: kinv_locked_def)
  have dec: "kinv_locked {} 1 (modSem i (s_attached_update (\<lambda>n. n - 1)) ?s2)"
    by (rule kinv_locked_modSem [OF k2]) auto
  have w: "wakes s (releaseAll (?s2\<lparr>semQueue := x\<rparr>))" for x
    by (simp add: wakes_def releaseAll_def)
  show ?thesis
    using releaseAll_ok(1) [OF close] releaseAll_ok(1) [OF dec] w k1 w [of "map_option _ _"]
    by (cases "lookupSem i s")
      (auto simp: semcall_def semClose_def findSem_ok [OF k] acquireAll_ok(1) [OF k1] Let_def kinv_def
        modSem_def wakes_def)
qed


section \<open>Post\<close>

lemma semPost_loop_ok:
  "kinv_locked L A s \<Longrightarrow> kwp0 (semPost_loop i b s) (\<lambda>_ s'. kinv_locked L A s' \<and> wakes s s' \<and> same_pipes s s')"
proof (induction b arbitrary: s)
  case Nil
  then show ?case by (auto intro: kinv_locked_modSem)
next
  case (Cons x b)
  let ?s1 = "modSem i (s_blocked_update (\<lambda>_. Some b)) s"
  have k: "kinv_locked L A ?s1" by (rule kinv_locked_modSem [OF Cons.prems]) auto
  then have "memory_ok ?s1" "procs_ok ?s1" by (auto simp: kinv_locked_def)
  then obtain r s2 where r: "resumeTask x ?s1 = Ret r s2" "procs_ok s2" "only_procs ?s1 s2" "wakes ?s1 s2"
    using resumeTask_ok unfolding kwp0_iff by blast
  have k2: "kinv_locked L A s2" by (rule kinv_locked_only_procs [OF k r(3,2)])
  have w: "wakes s s2" using r(4) by (simp add: modSem_def)
  show ?case
    using r(1) k2 w kwp_mono [OF Cons.IH [OF k2], of "\<lambda>_ s'. kinv_locked L A s' \<and> wakes s s' \<and> same_pipes s s'"]
      same_pipes_only_procs [OF r(3)]
    by (auto intro: wakes_trans same_pipes_trans)
qed

lemma semPost_ok:
  assumes "kinv s"
  shows "semcall s (semPost i s)"
proof -
  have k: "kinv_locked {} 0 s" using assms by (simp add: kinv_def)
  let ?s1 = "s\<lparr>mcount := Suc (mcount s)\<rparr>"
  have k1: "kinv_locked {} 0 ?s1" using k by simp
  show ?thesis
  proof (cases "lookupSem i s")
    case None
    then show ?thesis using assms by (simp add: semcall_def semPost_def findSem_ok [OF k])
  next
    case (Some m)
    then have m: "lookupSem i ?s1 = Some m" by (simp add: lookupSem_def)
    obtain b where b: "s_blocked m = Some b"
      using lookupSem_ok(2) [OF _ Some] k by (auto simp: kinv_locked_def sem_ok_def)
    note a = acquire_ok [OF k1 m, simplified]
    let ?s2 = "modSem i (s_lock_update (\<lambda>_. 1)) ?s1"
    obtain s3 where s3: "semPost_loop i b ?s2 = Ret () s3" "kinv_locked {i} 0 s3" "wakes ?s2 s3" "same_pipes ?s2 s3"
      using semPost_loop_ok [OF a(2), of i b] by (auto simp: kwp0_iff)
    have "kinv (release i s3)" unfolding kinv_def by (rule release_ok) (use s3(2) in auto)
    moreover have "wakes s s3" using s3(3) by (simp add: modSem_def)
    ultimately show ?thesis
      using s3(1,4) by (simp add: semcall_def semPost_def findSem_ok [OF k] Some a(1) b)
  qed
qed

text \<open>Which blocked pid \<open>semPost\<close> wakes. \<open>resumable\<close> is what makes \<open>resumeTask\<close> succeed.\<close>

definition resumable :: "kernel \<Rightarrow> int \<Rightarrow> bool" where
  "resumable s pid \<longleftrightarrow> (\<exists>p. target pid s = Some p \<and> pc_state p \<noteq> EXITED \<and> pc_state p \<noteq> TERMINATED)"

lemma target_cong:
  "procQueue s' = procQueue s \<Longrightarrow> currentProc s' = currentProc s \<Longrightarrow> low_word s' = low_word s \<Longrightarrow>
     target pid s' = target pid s"
  using lookupProc_cong [of s' s pid] by (simp add: target_def)

lemma resumable_frame [simp]:
  "resumable (modSem i f s) pid = resumable s pid"
  "resumable (s\<lparr>mcount := c\<rparr>) pid = resumable s pid"
  "resumable (release i s) pid = resumable s pid"
  by (simp_all add: resumable_def modSem_def release_def target_cong [of "_\<lparr>semQueue := _\<rparr>" s]
      target_cong [of "_\<lparr>mcount := _\<rparr>" s])

lemma resumeTask_fails:
  "memory_ok s \<Longrightarrow> procs_ok s \<Longrightarrow> \<not> resumable s pid \<Longrightarrow> \<exists>c. resumeTask pid s = Ret (-1) (s\<lparr>mcount := c\<rparr>)"
  using resumeTask_cases [of s pid] by (auto simp: resumable_def split: option.splits)

lemma resumeTask_succeeds:
  "memory_ok s \<Longrightarrow> procs_ok s \<Longrightarrow> resumable s pid \<Longrightarrow>
     \<exists>c. resumeTask pid s = Ret pid (setState pid READY (s\<lparr>mcount := c\<rparr>))"
  using resumeTask_cases [of s pid] by (auto simp: resumable_def split: option.splits)

lemma modSem_mcount: "modSem i f (s\<lparr>mcount := c\<rparr>) = (modSem i f s)\<lparr>mcount := c\<rparr>"
  by (simp add: modSem_def)

lemma modSem_twice: "(\<And>m. s_id (f m) = s_id m) \<Longrightarrow> modSem i g (modSem i f s) = modSem i (g \<circ> f) s"
  by (cases "semQueue s") (simp_all add: modSem_def upd_first_compose)

lemma semPost_loop_skip:
  "kinv_locked L A s \<Longrightarrow> \<forall>x \<in> set pre. \<not> resumable s x \<Longrightarrow> pre \<noteq> [] \<Longrightarrow>
     \<exists>c. semPost_loop i (pre @ rest) s =
       semPost_loop i rest (modSem i (s_blocked_update (\<lambda>_. Some rest)) (s\<lparr>mcount := c\<rparr>))"
proof (induction pre arbitrary: s)
  case Nil
  then show ?case by simp
next
  case (Cons x pre)
  let ?s1 = "modSem i (s_blocked_update (\<lambda>_. Some (pre @ rest))) s"
  have k: "kinv_locked L A ?s1" by (rule kinv_locked_modSem [OF Cons.prems(1)]) auto
  then have "memory_ok ?s1" "procs_ok ?s1" by (auto simp: kinv_locked_def)
  then obtain c where c: "resumeTask x ?s1 = Ret (-1) (?s1\<lparr>mcount := c\<rparr>)"
    using resumeTask_fails [of ?s1 x] Cons.prems(2) by auto
  show ?case
  proof (cases "pre = []")
    case True
    then show ?thesis using c by (auto simp: modSem_mcount)
  next
    case False
    have "kinv_locked L A (?s1\<lparr>mcount := c\<rparr>)" using k by simp
    from Cons.IH [OF this _ False] obtain c' where
      "semPost_loop i (pre @ rest) (?s1\<lparr>mcount := c\<rparr>) =
         semPost_loop i rest (modSem i (s_blocked_update (\<lambda>_. Some rest)) (?s1\<lparr>mcount := c\<rparr>\<lparr>mcount := c'\<rparr>))"
      using Cons.prems(2) by auto
    moreover have "modSem i (s_blocked_update (\<lambda>_. Some rest)) (?s1\<lparr>mcount := c\<rparr>\<lparr>mcount := c'\<rparr>) =
        modSem i (s_blocked_update (\<lambda>_. Some rest)) (s\<lparr>mcount := c'\<rparr>)"
      by (simp add: modSem_mcount modSem_twice comp_def)
    ultimately show ?thesis using c by auto
  qed
qed


lemma lookupProc_modProc:
  assumes "lookupProc pid s = Some p" "\<And>x. pc_pid (f x) = pc_pid x"
  shows "lookupProc pid (modProc pid f s) = Some (f p)"
  using lookupProc_cases [OF assms(1)]
proof
  assume "currentProc s = Some p \<and> pc_pid p = pid"
  then show ?thesis using assms(2) by (auto simp: lookupProc_def modProc_def)
next
  assume c: "(\<forall>c. currentProc s = Some c \<longrightarrow> pc_pid c \<noteq> pid) \<and>
    (\<exists>q. procQueue s = Some q \<and> List.find (\<lambda>p. pc_pid p = pid) q = Some p)"
  then obtain q where q: "procQueue s = Some q" "List.find (\<lambda>p. pc_pid p = pid) q = Some p" by auto
  have "List.find (\<lambda>p. pc_pid p = pid) (upd_first (\<lambda>p. pc_pid p = pid) f q) = Some (f p)"
    using assms(2) q(2) by (subst find_upd_first) auto
  then show ?thesis using c q(1) by (auto simp: lookupProc_def modProc_def split: option.split)
qed

lemma lookupProc_setState:
  "lookupProc pid s = Some p \<Longrightarrow> lookupProc pid (setState pid st s) = Some (p\<lparr>pc_state := st\<rparr>)"
  by (auto simp: setState_def lookupProc_cong [of "s\<lparr>readyCount := _\<rparr>" s] intro!: lookupProc_modProc)

lemma semPost_found:
  assumes "kinv s" "lookupSem i s = Some m" "s_blocked m = Some b"
  defines "s2 \<equiv> modSem i (s_lock_update (\<lambda>_. 1)) (s\<lparr>mcount := Suc (mcount s)\<rparr>)"
  shows "semPost i s = kbind (semPost_loop i b s2) (\<lambda>_ s3. Ret 0 (release i s3))"
    and "kinv_locked {i} 0 s2" and "lookupSem i s2 = Some (m\<lparr>s_lock := 1\<rparr>)"
proof -
  have k: "kinv_locked {} 0 s" using assms(1) by (simp add: kinv_def)
  then have k1: "kinv_locked {} 0 (s\<lparr>mcount := Suc (mcount s)\<rparr>)" by simp
  have m: "lookupSem i (s\<lparr>mcount := Suc (mcount s)\<rparr>) = Some m" using assms(2) by (simp add: lookupSem_def)
  note a = acquire_ok [OF k1 m, simplified]
  show "semPost i s = kbind (semPost_loop i b s2) (\<lambda>_ s3. Ret 0 (release i s3))"
    using a(1) assms(2,3) by (simp add: semPost_def findSem_ok [OF k] s2_def)
  show "kinv_locked {i} 0 s2" using a(2) by (simp add: s2_def)
  show "lookupSem i s2 = Some (m\<lparr>s_lock := 1\<rparr>)" using m by (simp add: s2_def lookupSem_modSem)
qed

lemma lookupProc_modSem [simp]:
  "lookupProc pid (modSem i f s) = lookupProc pid s"
  "lookupProc pid (release i s) = lookupProc pid s"
  by (rule lookupProc_cong; simp add: modSem_def release_def)+

lemma modSem_fields [simp]:
  "procQueue (modSem i f s) = procQueue s"
  "currentProc (modSem i f s) = currentProc s"
  "idleProc (modSem i f s) = idleProc s"
  by (simp_all add: modSem_def)

lemma lookupSem_mcount [simp]: "lookupSem i (s\<lparr>mcount := c\<rparr>) = lookupSem i s"
  by (simp add: lookupSem_def)

text \<open>The loop past the pids that cannot be resumed.\<close>

lemma semPost_loop_past:
  assumes "kinv_locked {i} 0 s" "\<forall>x \<in> set pre. \<not> resumable s x" "lookupSem i s = Some m"
    "s_blocked m = Some (pre @ rest)"
  shows "\<exists>s3. semPost_loop i (pre @ rest) s = semPost_loop i rest s3 \<and> kinv_locked {i} 0 s3 \<and>
     resumable s3 = resumable s \<and> procQueue s3 = procQueue s \<and> currentProc s3 = currentProc s \<and>
     lookupSem i s3 = Some (m\<lparr>s_blocked := Some rest\<rparr>)"
proof (cases "pre = []")
  case True
  then show ?thesis using assms by (intro exI [of _ s]) simp
next
  case False
  obtain c where c: "semPost_loop i (pre @ rest) s =
       semPost_loop i rest (modSem i (s_blocked_update (\<lambda>_. Some rest)) (s\<lparr>mcount := c\<rparr>))"
    using semPost_loop_skip [OF assms(1,2) False, of i rest] by blast
  have "kinv_locked {i} 0 (modSem i (s_blocked_update (\<lambda>_. Some rest)) (s\<lparr>mcount := c\<rparr>))"
    using assms(1) by (intro kinv_locked_modSem) auto
  then show ?thesis
    using c assms(3)
    by (intro exI [of _ "modSem i (s_blocked_update (\<lambda>_. Some rest)) (s\<lparr>mcount := c\<rparr>)"])
      (auto simp: lookupSem_modSem fun_eq_iff)
qed

lemma lookupSem_setState [simp]: "lookupSem i (setState pid st s) = lookupSem i s"
  using strip_fields(1) [of s "setState pid st s"]
  by (intro lookupSem_frame) (simp add: only_procs_def)

lemma semPost_wakes:
  assumes "kinv s" "lookupSem i s = Some m" "s_blocked m = Some (pre @ pid # rest)"
    "\<forall>x \<in> set pre. \<not> resumable s x" "resumable s pid" "pid \<noteq> -1"
  shows "\<exists>s' p. semPost i s = Ret 0 s' \<and> lookupProc pid s' = Some p \<and> pc_state p = READY \<and>
     lookupSem i s' = Some (m\<lparr>s_blocked := Some rest\<rparr>)"
proof -
  note sp = semPost_found [OF assms(1-3)]
  let ?s2 = "modSem i (s_lock_update (\<lambda>_. 1)) (s\<lparr>mcount := Suc (mcount s)\<rparr>)"
  obtain s3 where s3: "semPost_loop i (pre @ pid # rest) ?s2 = semPost_loop i (pid # rest) s3"
      "kinv_locked {i} 0 s3" "resumable s3 = resumable s"
      "lookupSem i s3 = Some (m\<lparr>s_lock := 1, s_blocked := Some (pid # rest)\<rparr>)"
    using semPost_loop_past [OF sp(2) _ sp(3), of pre "pid # rest"] assms(3,4)
    by (auto simp: fun_eq_iff)
  let ?s4 = "modSem i (s_blocked_update (\<lambda>_. Some rest)) s3"
  have k4: "kinv_locked {i} 0 ?s4" by (rule kinv_locked_modSem [OF s3(2)]) auto
  have r4: "resumable ?s4 pid" using assms(5) s3(3) by simp
  obtain c where c: "resumeTask pid ?s4 = Ret pid (setState pid READY (?s4\<lparr>mcount := c\<rparr>))"
    using resumeTask_succeeds [of ?s4 pid] k4 r4 by (auto simp: kinv_locked_def)
  from r4 obtain p where "target pid ?s4 = Some p" by (auto simp: resumable_def)
  then have p: "lookupProc pid ?s4 = Some p" by (rule target_lookup)
  let ?s5 = "setState pid READY (?s4\<lparr>mcount := c\<rparr>)"
  have "lookupProc pid (release i ?s5) = Some (p\<lparr>pc_state := READY\<rparr>)"
    using lookupProc_setState [of pid "?s4\<lparr>mcount := c\<rparr>" p READY] p by simp
  moreover have "s_lock m = 0"
    using lookupSem_ok(2) [OF kinvD(4) [OF assms(1)] assms(2)] by (simp add: sem_ok_def)
  then have "lookupSem i (release i ?s5) = Some (m\<lparr>s_blocked := Some rest\<rparr>)"
    using s3(4) by (simp add: release_def lookupSem_modSem xchg_def)
  moreover have "semPost i s = Ret 0 (release i ?s5)"
    using sp(1) s3(1) c assms(6) by simp
  ultimately show ?thesis by simp
qed

lemma semPost_counts:
  assumes "kinv s" "lookupSem i s = Some m" "s_blocked m = Some b" "\<forall>x \<in> set b. \<not> resumable s x"
  shows "\<exists>s'. semPost i s = Ret 0 s' \<and> procQueue s' = procQueue s \<and> currentProc s' = currentProc s \<and>
     lookupSem i s' = Some (m\<lparr>s_blocked := Some [], s_value := s_value m + 1\<rparr>)"
proof -
  note sp = semPost_found [OF assms(1-3)]
  let ?s2 = "modSem i (s_lock_update (\<lambda>_. 1)) (s\<lparr>mcount := Suc (mcount s)\<rparr>)"
  obtain s3 where s3: "semPost_loop i b ?s2 = semPost_loop i [] s3"
      "procQueue s3 = procQueue s" "currentProc s3 = currentProc s"
      "lookupSem i s3 = Some (m\<lparr>s_lock := 1, s_blocked := Some []\<rparr>)"
    using semPost_loop_past [OF sp(2) _ sp(3), of b "[]"] assms(3,4)
    by auto
  have "s_lock m = 0"
    using lookupSem_ok(2) [OF kinvD(4) [OF assms(1)] assms(2)] by (simp add: sem_ok_def)
  then show ?thesis
    using sp(1) s3 by (auto simp: release_def lookupSem_modSem xchg_def)
qed


section \<open>Wait\<close>

text \<open>
  The contract of the routine that blocks the caller. \<open>P\<close> holds before and after, whatever the
  other processes do while the caller is away; it is at least the kernel invariant, and it
  survives every change that only wakes processes. Either the pipes are the same afterwards, or
  the contract allows that a pipe is gone when its user comes back (\<open>UseAfterFree\<close>).
\<close>

locale block_service =
  fixes blk :: "int \<Rightarrow> kernel \<Rightarrow> int kres"
    and E :: "crash \<Rightarrow> bool" and I R P :: "kernel \<Rightarrow> bool"
  assumes blk: "P s \<Longrightarrow>
      kwp E I R (blk (getpid s) s) (\<lambda>_ s'. P s' \<and> (E UseAfterFree \<or> pipeQueue s' = pipeQueue s))"
    and P_kinv: "P s \<Longrightarrow> kinv s"
    and P_wakes: "P s \<Longrightarrow> wakes s s' \<Longrightarrow> kinv s' \<Longrightarrow> P s'"
begin

lemma lift_okcall:
  assumes "P s" "okcall s m"
  shows "kwp E I R m (\<lambda>_ s'. P s')"
  using assms(2) unfolding okcall_def
  by (rule kwp0_lift) (use P_wakes [OF assms(1)] in auto)

lemma lift_okcall_bind:
  assumes "P s" "okcall s m" "\<And>a s'. P s' \<Longrightarrow> kwp E I R (f a s') Q"
  shows "kwp E I R (kbind m f) Q"
  unfolding kwp_bind by (rule kwp_mono [OF lift_okcall [OF assms(1,2)]]) (rule assms(3))

lemma semWait:
  assumes "P s"
  shows "kwp E I R (semWait_with blk i s)
     (\<lambda>_ s'. P s' \<and> (E UseAfterFree \<or> pipeQueue s' = pipeQueue s))"
proof -
  have ki: "kinv s" and k: "kinv_locked {} 0 s" using P_kinv [OF assms] by (simp_all add: kinv_def)
  let ?s1 = "s\<lparr>mcount := Suc (mcount s)\<rparr>"
  have k1: "kinv_locked {} 0 ?s1" using k by simp
  show ?thesis
  proof (cases "lookupSem i s")
    case None
    then show ?thesis using P_wakes [OF assms, of ?s1] ki by (simp add: semWait_with_def findSem_ok [OF k])
  next
    case (Some m)
    then have m: "lookupSem i ?s1 = Some m" by simp
    obtain b where b: "s_blocked m = Some b"
      using lookupSem_ok(2) [OF kinvD(4) [OF ki] Some] by (auto simp: sem_ok_def)
    note a = acquire_ok [OF k1 m, simplified]
    let ?s2 = "modSem i (s_lock_update (\<lambda>_. 1)) ?s1"
    have fin: "P (release i s')" if "kinv_locked {i} 0 s'" "wakes s s'" for s'
      using P_wakes [OF assms, of "release i s'"] release_ok [OF that(1)] that(2) by (simp add: kinv_def)
    show ?thesis
    proof (cases "s_value m > 0")
      case True
      have "kinv_locked {i} 0 (modSem i (s_value_update (\<lambda>v. v - 1)) ?s2)"
        by (rule kinv_locked_modSem [OF a(2)]) auto
      from fin [OF this] show ?thesis
        using True by (simp add: semWait_with_def findSem_ok [OF k] Some a(1) release_def modSem_def)
    next
      case False
      let ?s4 = "?s2\<lparr>mcount := Suc (Suc (Suc (mcount s)))\<rparr>"
      let ?s5 = "modSem i (s_blocked_update (\<lambda>_. Some (b @ [getpid s]))) ?s4"
      have "kinv_locked {i} 0 ?s5" using a(2) by (intro kinv_locked_modSem) auto
      from fin [OF this] have P5: "P (release i ?s5)" by simp
      have mem: "mallocs s n \<noteq> 0" for n using kinvD(1) [OF ki] by (simp add: memory_ok_def)
      have "semWait_with blk i s = kbind (blk (getpid s) (release i ?s5)) (\<lambda>_ s. Ret 0 s)"
        using False by (simp add: semWait_with_def findSem_ok [OF k] Some a(1) b kmalloc_def mem kenqueue_def Let_def
            modSem_def getpid_def cong: option.case_cong)
      moreover have "pipeQueue (release i ?s5) = pipeQueue s" by (simp add: release_def modSem_def)
      ultimately show ?thesis using blk [OF P5] by simp
    qed
  qed
qed

end

section \<open>What \<open>semWait\<close> does\<close>

lemma semWait_takes:
  assumes "kinv s" "lookupSem i s = Some m" "s_value m > 0"
  shows "\<exists>s'. semWait_with blk i s = Ret 0 s' \<and> kinv s' \<and> wakes s s' \<and> same_pipes s s' \<and>
     procQueue s' = procQueue s \<and> currentProc s' = currentProc s \<and>
     (\<forall>j. lookupSem j s' = (if j = i then Some (m\<lparr>s_value := s_value m - 1\<rparr>) else lookupSem j s))"
proof -
  have k: "kinv_locked {} 0 s" using assms(1) by (simp add: kinv_def)
  let ?s1 = "s\<lparr>mcount := Suc (mcount s)\<rparr>"
  have k1: "kinv_locked {} 0 ?s1" using k by simp
  have m: "lookupSem i ?s1 = Some m" using assms(2) by simp
  note a = acquire_ok [OF k1 m, simplified]
  let ?s2 = "modSem i (s_lock_update (\<lambda>_. 1)) ?s1"
  let ?s3 = "modSem i (s_value_update (\<lambda>v. v - 1)) ?s2"
  have "kinv_locked {i} 0 ?s3" by (rule kinv_locked_modSem [OF a(2)]) auto
  then have "kinv (release i ?s3)" unfolding kinv_def by (rule release_ok) simp
  moreover have "s_lock m = 0" using lookupSem_ok(2) [OF kinvD(4) [OF assms(1)] assms(2)] by (simp add: sem_ok_def)
  then have "lookupSem j (release i ?s3) = (if j = i then Some (m\<lparr>s_value := s_value m - 1\<rparr>) else lookupSem j s)" for j
    using assms(2) by (auto simp: release_def lookupSem_modSem xchg_def)
  moreover have "semWait_with blk i s = Ret 0 (release i ?s3)"
    using assms(2,3) a(1) by (simp add: semWait_with_def findSem_ok [OF k])
  ultimately show ?thesis by (auto simp: release_def)
qed

text \<open>Without a free place the caller is recorded as the last of the waiting, and then blocked.\<close>

lemma semWait_blocks:
  assumes "kinv s" "lookupSem i s = Some m" "s_value m \<le> 0" "s_blocked m = Some b"
  shows "\<exists>s'. semWait_with blk i s = kbind (blk (getpid s) s') (\<lambda>_ s. Ret 0 s) \<and> kinv s' \<and>
     procQueue s' = procQueue s \<and> currentProc s' = currentProc s \<and>
     (\<forall>j. lookupSem j s' = (if j = i then Some (m\<lparr>s_blocked := Some (b @ [getpid s])\<rparr>) else lookupSem j s))"
proof -
  have k: "kinv_locked {} 0 s" using assms(1) by (simp add: kinv_def)
  let ?s1 = "s\<lparr>mcount := Suc (mcount s)\<rparr>"
  have k1: "kinv_locked {} 0 ?s1" using k by simp
  have m: "lookupSem i ?s1 = Some m" using assms(2) by simp
  note a = acquire_ok [OF k1 m, simplified]
  let ?s2 = "modSem i (s_lock_update (\<lambda>_. 1)) ?s1"
  let ?s4 = "?s2\<lparr>mcount := Suc (Suc (Suc (mcount s)))\<rparr>"
  let ?s5 = "modSem i (s_blocked_update (\<lambda>_. Some (b @ [getpid s]))) ?s4"
  have "kinv_locked {i} 0 ?s5" using a(2) by (intro kinv_locked_modSem) auto
  then have "kinv (release i ?s5)" unfolding kinv_def by (rule release_ok) simp
  moreover have "s_lock m = 0" using lookupSem_ok(2) [OF kinvD(4) [OF assms(1)] assms(2)] by (simp add: sem_ok_def)
  then have "lookupSem j (release i ?s5) =
      (if j = i then Some (m\<lparr>s_blocked := Some (b @ [getpid s])\<rparr>) else lookupSem j s)" for j
    using assms(2) by (auto simp: release_def lookupSem_modSem xchg_def)
  moreover have mem: "mallocs s n \<noteq> 0" for n using kinvD(1) [OF assms(1)] by (simp add: memory_ok_def)
  have "semWait_with blk i s = kbind (blk (getpid s) (release i ?s5)) (\<lambda>_ s. Ret 0 s)"
    using assms(2-4) by (simp add: semWait_with_def findSem_ok [OF k] a(1) kmalloc_def mem kenqueue_def Let_def
        modSem_def getpid_def cong: option.case_cong)
  ultimately show ?thesis by (auto simp: release_def)
qed

end
