(* ===== verification/Pipes.thy ===== *)
theory Pipes
  imports SemProps
begin

text \<open>
  \<open>Kernel/pipes/pipes.c\<close>: bounded buffers of 1024 bytes, guarded by a semaphore that counts the free
  places and one that counts the bytes. A pointer to a \<open>t_pipe\<close> is the pipe's id. A write or a read
  through the pointer of a pipe that was closed while the caller was blocked is a \<open>UseAfterFree\<close>
  crash. The routine that blocks the caller is an argument, as in \<open>semWait_with\<close>.
\<close>

section \<open>Lookup\<close>

definition lookupPipe :: "int \<Rightarrow> kernel \<Rightarrow> pipe option" where
  "lookupPipe pid s = Option.bind (pipeQueue s) (List.find (\<lambda>p. pi_id p = pid))"

definition modPipe :: "int \<Rightarrow> (pipe \<Rightarrow> pipe) \<Rightarrow> kernel \<Rightarrow> kernel" where
  "modPipe pid f s = s\<lparr>pipeQueue := map_option (upd_first (\<lambda>p. pi_id p = pid) f) (pipeQueue s)\<rparr>"

text \<open>\<open>getPipe\<close> looks into its one-element cache first, and caches what it finds, \<open>NULL\<close> included.\<close>

definition getPipe :: "int \<Rightarrow> kernel \<Rightarrow> pipe option \<times> kernel" where
  "getPipe pid s =
     (if cachedPipe s = Some pid then (lookupPipe pid s, s)
      else let (p, s') = kfind (\<lambda>p. pi_id p = pid) (pipeQueue s) s
           in (p, s'\<lparr>cachedPipe := map_option pi_id p\<rparr>))"

section \<open>Operations\<close>

definition initPipeSystem :: "kernel \<Rightarrow> int kres" where
  "initPipeSystem s =
     (if pipeQueue s = None
      then let (q, s1) = kinitQueue s
           in kbind (semInit 1 (s1\<lparr>pipeQueue := q\<rparr>)) (\<lambda>i s2.
                Ret (if q \<noteq> None then 1 else 0) (s2\<lparr>allPipesSem := i\<rparr>))
      else Ret 1 s)"

definition createPipe :: "int \<Rightarrow> kernel \<Rightarrow> int option kres" where
  "createPipe pid s =
     (let (m, s1) = kmalloc 1048 s
      in if m = 0 then Ret None s1
         else kbind (semInit 0 s1) (\<lambda>rd s2.
              kbind (semInit PIPE_BUFFER_SIZE s2) (\<lambda>wr s3.
              if rd = -1 \<or> wr = -1
              then kbind (semClose rd s3) (\<lambda>_ s4. kbind (semClose wr s4) (\<lambda>_ s5. Ret None s5))
              else case pipeQueue s3 of
                     None \<Rightarrow> Crash NullDeref
                   | Some q \<Rightarrow>
                       (let (q', s4) = kenqueue \<lparr>pi_id = pid, pi_buffer = replicate 1024 (heap_junk s3),
                              pi_writeIndex = 0, pi_readIndex = 0, pi_totalProcesses = 0,
                              pi_writeSemId = wr, pi_readSemId = rd\<rparr> q s3
                        in Ret (Some pid) (s4\<lparr>pipeQueue := Some q'\<rparr>)))))"

definition pipeOpen_with :: "(int \<Rightarrow> kernel \<Rightarrow> int kres) \<Rightarrow> int \<Rightarrow> kernel \<Rightarrow> int kres" where
  "pipeOpen_with blk pid s =
     kbind (semWait_with blk (allPipesSem s) s) (\<lambda>_ s1.
       let (p, s2) = getPipe pid s1
       in kbind (case p of None \<Rightarrow> createPipe pid s2 | Some q \<Rightarrow> Ret (Some (pi_id q)) s2) (\<lambda>r s3.
            case r of
              None \<Rightarrow> Ret (-1) s3
            | Some i \<Rightarrow>
                kbind (semPost (allPipesSem s3) (modPipe i (pi_totalProcesses_update (\<lambda>n. n + 1)) s3))
                  (\<lambda>_ s4. Ret i s4)))"

text \<open>\<open>writeToPipe\<close>: the pipe is read again after \<open>semWait\<close>, which may have blocked the caller.\<close>

definition writeToPipe_with ::
  "(int \<Rightarrow> kernel \<Rightarrow> int kres) \<Rightarrow> pipe \<Rightarrow> u8 \<Rightarrow> kernel \<Rightarrow> unit kres" where
  "writeToPipe_with blk pipe c s =
     kbind (semWait_with blk (pi_writeSemId pipe) s) (\<lambda>_ s1.
       case lookupPipe (pi_id pipe) s1 of
         None \<Rightarrow> Crash UseAfterFree
       | Some p \<Rightarrow>
           kbind (semPost (pi_readSemId p)
                    (modPipe (pi_id pipe)
                       (\<lambda>p. p\<lparr>pi_buffer := (pi_buffer p)[nat (pi_writeIndex p) := c],
                              pi_writeIndex := (pi_writeIndex p + 1) mod PIPE_BUFFER_SIZE\<rparr>) s1))
             (\<lambda>_ s2. Ret () s2))"

text \<open>\<open>pipeWrite\<close> writes up to the terminator; the pipe pointer is fetched once.\<close>

primrec pipeWrite_loop ::
  "(int \<Rightarrow> kernel \<Rightarrow> int kres) \<Rightarrow> int \<Rightarrow> u8 list \<Rightarrow> kernel \<Rightarrow> int kres" where
  "pipeWrite_loop blk pid [] s = Ret 0 s"
| "pipeWrite_loop blk pid (c # cs) s =
     (case lookupPipe pid s of
        None \<Rightarrow> Crash UseAfterFree
      | Some p \<Rightarrow> kbind (writeToPipe_with blk p c s) (\<lambda>_ s'. pipeWrite_loop blk pid cs s'))"

definition pipeWrite_with :: "(int \<Rightarrow> kernel \<Rightarrow> int kres) \<Rightarrow> int \<Rightarrow> u8 list \<Rightarrow> kernel \<Rightarrow> int kres" where
  "pipeWrite_with blk pid str s =
     (let (p, s1) = getPipe pid s
      in case p of None \<Rightarrow> Ret (-1) s1 | Some _ \<Rightarrow> pipeWrite_loop blk pid str s1)"

definition pipePutchar_with :: "(int \<Rightarrow> kernel \<Rightarrow> int kres) \<Rightarrow> int \<Rightarrow> u8 \<Rightarrow> kernel \<Rightarrow> int kres" where
  "pipePutchar_with blk pid c s =
     (let (p, s1) = getPipe pid s
      in case p of None \<Rightarrow> Ret (-1) s1
         | Some q \<Rightarrow> kbind (writeToPipe_with blk q c s1) (\<lambda>_ s2. Ret 0 s2))"

text \<open>\<open>pipeRead\<close> returns the byte as a (signed) \<open>char\<close>.\<close>

definition pipeRead_with :: "(int \<Rightarrow> kernel \<Rightarrow> int kres) \<Rightarrow> int \<Rightarrow> kernel \<Rightarrow> int kres" where
  "pipeRead_with blk pid s =
     (let (p, s1) = getPipe pid s
      in case p of None \<Rightarrow> Ret (-1) s1
         | Some q \<Rightarrow>
             kbind (semWait_with blk (pi_readSemId q) s1) (\<lambda>_ s2.
               case lookupPipe pid s2 of
                 None \<Rightarrow> Crash UseAfterFree
               | Some p \<Rightarrow>
                   (let c = pi_buffer p ! nat (pi_readIndex p)
                    in kbind (semPost (pi_writeSemId p)
                                (modPipe pid (pi_readIndex_update (\<lambda>r. (r + 1) mod PIPE_BUFFER_SIZE)) s2))
                         (\<lambda>_ s3. Ret (sint c) s3))))"

text \<open>\<open>pipeClose\<close>; its second half, from the decrement on, is \<open>pipeClose_rest\<close>, and the destruction of
  a pipe nobody uses any more \<open>pipe_destroy\<close>.\<close>

definition pipe_destroy :: "int \<Rightarrow> pipe \<Rightarrow> kernel \<Rightarrow> unit kres" where
  "pipe_destroy pid p s =
     kbind (semClose (pi_readSemId p) s) (\<lambda>_ s1.
     kbind (semClose (pi_writeSemId p) s1) (\<lambda>_ s2.
       let s3 = s2\<lparr>pipeQueue := map_option (remove_first (\<lambda>p. pi_id p = pid)) (pipeQueue s2)\<rparr>
       in Ret () (if cachedPipe s3 = Some pid then s3\<lparr>cachedPipe := None\<rparr> else s3)))"

definition pipeClose_rest :: "int \<Rightarrow> pipe \<Rightarrow> kernel \<Rightarrow> int kres" where
  "pipeClose_rest pid p s =
     (let s1 = modPipe pid (pi_totalProcesses_update (\<lambda>n. n - 1)) s
      in kbind (if pi_totalProcesses p - 1 \<le> 0 then pipe_destroy pid p s1 else Ret () s1) (\<lambda>_ s2.
         kbind (semPost (allPipesSem s2) s2) (\<lambda>_ s3. Ret 0 s3)))"

definition pipeClose_with :: "(int \<Rightarrow> kernel \<Rightarrow> int kres) \<Rightarrow> int \<Rightarrow> kernel \<Rightarrow> int kres" where
  "pipeClose_with blk pid s =
     (let (p, s1) = getPipe pid s
      in case p of None \<Rightarrow> Ret (-1) s1
         | Some _ \<Rightarrow>
             kbind (semWait_with blk (allPipesSem s1) s1) (\<lambda>_ s2.
               case lookupPipe pid s2 of
                 None \<Rightarrow> Crash UseAfterFree
               | Some p \<Rightarrow> pipeClose_rest pid p s2))"

section \<open>Information for user programs\<close>

record userlandPipe =
  up_id :: int
  up_writeIndex :: int
  up_readIndex :: int
  up_totalProcesses :: int
  up_readSem :: "userlandSem option"
  up_writeSem :: "userlandSem option"

primrec getPipeInfo_loop :: "pipe list \<Rightarrow> userlandPipe list \<Rightarrow> kernel \<Rightarrow> userlandPipe list kres" where
  "getPipeInfo_loop [] acc s = Ret acc s"
| "getPipeInfo_loop (p # ps) acc s =
     kbind (getSingleSem (pi_readSemId p) s) (\<lambda>rd s1.
     kbind (getSingleSem (pi_writeSemId p) s1) (\<lambda>wr s2.
       getPipeInfo_loop ps (acc @ [\<lparr>up_id = pi_id p, up_writeIndex = pi_writeIndex p,
         up_readIndex = pi_readIndex p, up_totalProcesses = pi_totalProcesses p,
         up_readSem = rd, up_writeSem = wr\<rparr>]) s2))"

definition getPipeInfo_with ::
  "(int \<Rightarrow> kernel \<Rightarrow> int kres) \<Rightarrow> kernel \<Rightarrow> userlandPipe list option kres" where
  "getPipeInfo_with blk s =
     (let (m, s1) = kmalloc 16 s
      in if m = 0 then Ret None s1
         else kbind (semWait_with blk (allPipesSem s1) s1) (\<lambda>_ s2.
           case pipeQueue s2 of
             None \<Rightarrow> Crash NullDeref
           | Some q \<Rightarrow>
               (let (arr, s3) = kmalloc (32 * length q) s2
                in if arr = 0 then Ret None s3
                   else let (it, s4) = kmalloc 8 s3
                        in if it = 0 then Crash UninitRead
                           else kbind (getPipeInfo_loop q [] s4) (\<lambda>ps s5.
                                kbind (semPost (allPipesSem s5) s5) (\<lambda>_ s6. Ret (Some ps) s6)))))"

end
