(* ===== verification/PipeProps.thy ===== *)
theory PipeProps
  imports Pipes
begin

text \<open>
  The pipe operations keep the kernel invariant, under the contract of the blocking routine; the
  cache of \<open>getPipe\<close> is transparent; a pipe is a first-in first-out buffer.
\<close>

section \<open>Frames and the cache\<close>

lemma modPipe_frame [simp]:
  "procs_ok (modPipe i f s) = procs_ok s"
  "sems_inv L A (modPipe i f s) = sems_inv L A s"
  "memory_ok (modPipe i f s) = memory_ok s"
  "con (modPipe i f s) = con s"
  "wakes s0 (modPipe i f s) = wakes s0 s"
  "wakes (modPipe i f s) s1 = wakes s s1"
  by (simp_all add: modPipe_def wakes_def)

lemma pipes_ok_modPipe:
  assumes "pipes_ok s" "\<And>p. pi_id (f p) = pi_id p" "\<And>p. pipe_ok p \<Longrightarrow> pipe_ok (f p)"
  shows "pipes_ok (modPipe i f s)"
proof -
  obtain q where q: "pipeQueue s = Some q" "distinct (map pi_id q)" "\<forall>p \<in> set q. pipe_ok p"
      "\<forall>i. cachedPipe s = Some i \<longrightarrow> i \<in> pi_id ` set q"
    using assms(1) by (auto simp: pipes_ok_def)
  have ids: "map pi_id (upd_first (\<lambda>p. pi_id p = i) f q) = map pi_id q"
    by (rule map_upd_first) (rule assms(2))
  then have "pi_id ` set (upd_first (\<lambda>p. pi_id p = i) f q) = pi_id ` set q"
    by (metis set_map)
  moreover have "\<forall>p \<in> set (upd_first (\<lambda>p. pi_id p = i) f q). pipe_ok p"
    using q(3) assms(3) by (auto dest!: set_upd_first [THEN subsetD])
  ultimately show ?thesis using q ids by (simp add: pipes_ok_def modPipe_def)
qed

lemma kinv_modPipe:
  "kinv s \<Longrightarrow> (\<And>p. pi_id (f p) = pi_id p) \<Longrightarrow> (\<And>p. pipe_ok p \<Longrightarrow> pipe_ok (f p)) \<Longrightarrow> kinv (modPipe i f s)"
  by (simp add: kinv_def kinv_locked_def pipes_ok_modPipe)

lemma getPipe_ok:
  assumes "kinv s"
  shows "\<exists>s'. getPipe pid s = (lookupPipe pid s, s') \<and> kinv s' \<and> wakes s s' \<and> pipeQueue s' = pipeQueue s \<and>
     lookupPipe pid s' = lookupPipe pid s \<and> semQueue s' = semQueue s \<and> allPipesSem s' = allPipesSem s"
proof (cases "cachedPipe s = Some pid")
  case True
  then show ?thesis using assms by (simp add: getPipe_def)
next
  case False
  obtain q where q: "pipeQueue s = Some q" using kinvD(3) [OF assms] by (auto simp: pipes_ok_def)
  let ?s = "s\<lparr>mcount := Suc (mcount s)\<rparr>"
  let ?p = "List.find (\<lambda>p. pi_id p = pid) q"
  have "getPipe pid s = (?p, ?s\<lparr>cachedPipe := map_option pi_id ?p\<rparr>)"
    using False q by (simp add: getPipe_def kfind_ok [OF kinvD(1) [OF assms]])
  moreover have "pipes_ok (?s\<lparr>cachedPipe := map_option pi_id ?p\<rparr>)"
    using kinvD(3) [OF assms] q by (auto simp: pipes_ok_def dest!: find_Some_prop)
  then have "kinv (?s\<lparr>cachedPipe := map_option pi_id ?p\<rparr>)"
    using assms by (simp add: kinv_def kinv_locked_def)
  ultimately show ?thesis using q by (simp add: lookupPipe_def)
qed

section \<open>Composing calls\<close>

lemma okcall_Ret [simp]: "okcall s (Ret a s') \<longleftrightarrow> kinv s' \<and> wakes s s'"
  by (simp add: okcall_def)

lemma okcall_bind:
  assumes "okcall s m" "\<And>a s'. kinv s' \<Longrightarrow> wakes s s' \<Longrightarrow> okcall s' (f a s')"
  shows "okcall s (kbind m f)"
  unfolding okcall_def kwp_bind
proof (rule kwp_mono [OF assms(1) [unfolded okcall_def]])
  fix a s' assume s': "kinv s' \<and> wakes s s'"
  show "kwp0 (f a s') (\<lambda>_ s'. kinv s' \<and> wakes s s')"
    by (rule kwp_mono [OF assms(2) [unfolded okcall_def]]) (use s' in \<open>auto intro: wakes_trans\<close>)
qed

lemma okcall_from: "okcall s' m \<Longrightarrow> wakes s s' \<Longrightarrow> okcall s m"
  unfolding okcall_def by (erule kwp_mono) (auto intro: wakes_trans)

lemma semcall_semInit: "kinv s \<Longrightarrow> semcall s (semInit v s)"
  unfolding semcall_def by (rule kwp_mono [OF semInit_ok]) auto

lemma pipes_ok_append:
  assumes "pipes_ok s" "pipeQueue s = Some q" "pi_id p \<notin> pi_id ` set q" "pipe_ok p"
  shows "pipes_ok (s\<lparr>mcount := c, pipeQueue := Some (q @ [p])\<rparr>)"
  using assms by (auto simp: pipes_ok_def)

lemma new_pipe_ok: "pipe_ok \<lparr>pi_id = i, pi_buffer = replicate 1024 x, pi_writeIndex = 0, pi_readIndex = 0,
    pi_totalProcesses = 0, pi_writeSemId = w, pi_readSemId = r\<rparr>"
  by (simp add: pipe_ok_def PIPE_BUFFER_SIZE_def)


lemma lookupPipe_None: "pipeQueue s = Some q \<Longrightarrow> lookupPipe pid s = None \<longleftrightarrow> pid \<notin> pi_id ` set q"
  by (auto simp: lookupPipe_def find_None_prop)

lemma lookupPipe_Some:
  assumes "kinv s" "lookupPipe i s = Some p"
  shows "pi_id p = i" "pipe_ok p"
proof -
  obtain q where q: "pipeQueue s = Some q" "\<forall>p \<in> set q. pipe_ok p"
    using kinvD(3) [OF assms(1)] by (auto simp: pipes_ok_def)
  then have "List.find (\<lambda>p. pi_id p = i) q = Some p" using assms(2) by (simp add: lookupPipe_def)
  from find_Some_prop [OF this] show "pi_id p = i" "pipe_ok p" using q by auto
qed

lemma createPipe_ok:
  assumes "kinv s" "lookupPipe pid s = None"
  shows "okcall s (createPipe pid s)"
proof -
  obtain q where q: "pipeQueue s = Some q" using kinvD(3) [OF assms(1)] by (auto simp: pipes_ok_def)
  have fresh: "pid \<notin> pi_id ` set q" using assms(2) q by (simp add: lookupPipe_None)
  let ?s1 = "s\<lparr>mcount := Suc (mcount s)\<rparr>"
  have k1: "kinv ?s1" using assms(1) by simp
  obtain rd s2 where s2: "semInit 0 ?s1 = Ret rd s2" "kinv s2" "wakes s s2" "same_pipes s s2"
    using semInit_ok [OF k1, of 0] by (auto simp: kwp0_iff)
  obtain wr s3 where s3: "semInit PIPE_BUFFER_SIZE s2 = Ret wr s3" "kinv s3" "wakes s2 s3" "same_pipes s2 s3"
    using semInit_ok [OF s2(2), of PIPE_BUFFER_SIZE] by (auto simp: kwp0_iff)
  have w3: "wakes s s3" using s2(3) s3(3) by (rule wakes_trans)
  have q3: "pipeQueue s3 = Some q" using s2(4) s3(4) q by (simp add: same_pipes_def)
  have mem: "mallocs x n \<noteq> 0" if "kinv x" for x n using kinvD(1) [OF that] by (simp add: memory_ok_def)
  have new: "kinv (s3\<lparr>mcount := c, pipeQueue := Some (q @ [\<lparr>pi_id = pid, pi_buffer = replicate 1024 x,
      pi_writeIndex = 0, pi_readIndex = 0, pi_totalProcesses = 0, pi_writeSemId = wr, pi_readSemId = rd\<rparr>])\<rparr>)" for c x
    using s3(2) pipes_ok_append [OF kinvD(3) [OF s3(2)] q3 _ new_pipe_ok [of pid x wr rd], of c] fresh
    by (simp add: kinv_def kinv_locked_def)
  show ?thesis
  proof (cases "rd = -1 \<or> wr = -1")
    case True
    have "okcall s3 (kbind (semClose rd s3) (\<lambda>_ s4. kbind (semClose wr s4) (\<lambda>_ s5. Ret (None :: int option) s5)))"
      by (intro okcall_bind semcall_okcall [OF semClose_ok]) (use s3(2) in auto)
    from okcall_from [OF this w3] show ?thesis
      using True s2(1) s3(1) mem [OF assms(1)] by (simp add: createPipe_def kmalloc_def)
  next
    case False
    then show ?thesis
      using s2(1) s3(1) mem [OF assms(1)] mem [OF s3(2)] q3 new w3
      by (simp add: createPipe_def kmalloc_def kenqueue_def Let_def)
  qed
qed

lemma pipe_ok_write: "pipe_ok p \<Longrightarrow> pipe_ok (p\<lparr>pi_buffer := (pi_buffer p)[nat (pi_writeIndex p) := c],
    pi_writeIndex := (pi_writeIndex p + 1) mod PIPE_BUFFER_SIZE\<rparr>)"
  by (simp add: pipe_ok_def PIPE_BUFFER_SIZE_def)

lemma pipe_ok_read: "pipe_ok p \<Longrightarrow> pipe_ok (p\<lparr>pi_readIndex := (pi_readIndex p + 1) mod PIPE_BUFFER_SIZE\<rparr>)"
  by (simp add: pipe_ok_def PIPE_BUFFER_SIZE_def)

lemma pipe_ok_total: "pipe_ok (pi_totalProcesses_update g p) = pipe_ok p"
  by (simp add: pipe_ok_def)

lemma kinv_removePipe:
  fixes i :: int
  assumes "kinv s"
  defines "s' \<equiv> s\<lparr>pipeQueue := map_option (remove_first (\<lambda>p. pi_id p = i)) (pipeQueue s)\<rparr>"
  shows "kinv (if cachedPipe s' = Some i then s'\<lparr>cachedPipe := None\<rparr> else s')"
proof -
  obtain q where q: "pipeQueue s = Some q" "distinct (map pi_id q)" "\<forall>p \<in> set q. pipe_ok p"
      "\<forall>i. cachedPipe s = Some i \<longrightarrow> i \<in> pi_id ` set q"
    using kinvD(3) [OF assms(1)] by (auto simp: pipes_ok_def)
  have other: "p \<in> set q \<Longrightarrow> pi_id p \<noteq> i \<Longrightarrow> p \<in> set (remove_first (\<lambda>p. pi_id p = i) q)" for p
    by (induction q) auto
  have "pipes_ok (if cachedPipe s' = Some i then s'\<lparr>cachedPipe := None\<rparr> else s')"
    using q other by (auto simp: pipes_ok_def s'_def image_iff dest: in_remove_first) metis+
  then show ?thesis using assms(1) by (simp add: kinv_def kinv_locked_def s'_def)
qed


section \<open>The operations keep the contract of the blocking routine\<close>

lemma okcall_modPipe_semPost:
  assumes "kinv s" "\<And>p. pi_id (f p) = pi_id p" "\<And>p. pipe_ok p \<Longrightarrow> pipe_ok (f p)"
  shows "okcall s (semPost i (modPipe j f s))"
  by (rule okcall_from [OF semcall_okcall [OF semPost_ok [OF kinv_modPipe [OF assms]]]])
    (simp_all add: assms)

lemma okcall_open:
  assumes "kinv s"
  shows "okcall s (let (p, s2) = getPipe pid s
       in kbind (case p of None \<Rightarrow> createPipe pid s2 | Some q \<Rightarrow> Ret (Some (pi_id q)) s2) (\<lambda>r s3.
            case r of
              None \<Rightarrow> Ret (-1) s3
            | Some i \<Rightarrow>
                kbind (semPost (allPipesSem s3) (modPipe i (pi_totalProcesses_update (\<lambda>n. n + 1)) s3))
                  (\<lambda>_ s4. Ret i s4)))"
proof -
  obtain s2 where s2: "getPipe pid s = (lookupPipe pid s, s2)" "kinv s2" "wakes s s2"
      "lookupPipe pid s2 = lookupPipe pid s"
    using getPipe_ok [OF assms] by blast
  have "okcall s2 (case lookupPipe pid s of None \<Rightarrow> createPipe pid s2 | Some q \<Rightarrow> Ret (Some (pi_id q)) s2)"
    using createPipe_ok [OF s2(2)] s2(2,4) by (auto split: option.split)
  then have "okcall s (case lookupPipe pid s of None \<Rightarrow> createPipe pid s2 | Some q \<Rightarrow> Ret (Some (pi_id q)) s2)"
    using s2(3) by (rule okcall_from)
  then show ?thesis
    unfolding s2(1) Let_def prod.case
    by (rule okcall_bind)
      (auto intro!: okcall_bind okcall_modPipe_semPost simp: pipe_ok_total split: option.split)
qed

lemma okcall_put:
  assumes "kinv s"
  shows "okcall s (kbind (semPost i
                    (modPipe j
                       (\<lambda>p. p\<lparr>pi_buffer := (pi_buffer p)[nat (pi_writeIndex p) := c],
                              pi_writeIndex := (pi_writeIndex p + 1) mod PIPE_BUFFER_SIZE\<rparr>) s))
             (\<lambda>_ s2. Ret r s2))"
  by (intro okcall_bind okcall_modPipe_semPost assms) (auto simp: pipe_ok_write)

lemma okcall_take:
  assumes "kinv s"
  shows "okcall s (kbind (semPost i (modPipe j (pi_readIndex_update (\<lambda>r. (r + 1) mod PIPE_BUFFER_SIZE)) s))
                         (\<lambda>_ s3. Ret r s3))"
  by (intro okcall_bind okcall_modPipe_semPost assms) (auto simp: pipe_ok_def PIPE_BUFFER_SIZE_def)

lemma okcall_destroy:
  assumes "kinv s"
  shows "okcall s (pipe_destroy pid p s)"
  unfolding pipe_destroy_def
proof (rule okcall_bind [OF semcall_okcall [OF semClose_ok [OF assms]]])
  fix a s1 assume s1: "kinv s1"
  show "okcall s1 (kbind (semClose (pi_writeSemId p) s1) (\<lambda>_ s2.
       let s3 = s2\<lparr>pipeQueue := map_option (remove_first (\<lambda>p. pi_id p = pid)) (pipeQueue s2)\<rparr>
       in Ret () (if cachedPipe s3 = Some pid then s3\<lparr>cachedPipe := None\<rparr> else s3)))"
  proof (rule okcall_bind [OF semcall_okcall [OF semClose_ok [OF s1]]])
    fix a s2 assume "kinv s2"
    from kinv_removePipe [OF this, of pid]
    show "okcall s2 (let s3 = s2\<lparr>pipeQueue := map_option (remove_first (\<lambda>p. pi_id p = pid)) (pipeQueue s2)\<rparr>
       in Ret () (if cachedPipe s3 = Some pid then s3\<lparr>cachedPipe := None\<rparr> else s3))"
      by (simp add: Let_def wakes_def)
  qed
qed

lemma okcall_close:
  assumes "kinv s"
  shows "okcall s (pipeClose_rest pid p s)"
proof -
  let ?s1 = "modPipe pid (pi_totalProcesses_update (\<lambda>n. n - 1)) s"
  have "kinv ?s1" by (rule kinv_modPipe [OF assms]) (auto simp: pipe_ok_total)
  then have "okcall ?s1 (pipeClose_rest pid p s)"
    unfolding pipeClose_rest_def Let_def
    by (auto intro!: okcall_bind okcall_destroy semcall_okcall [OF semPost_ok])
  then show ?thesis by (rule okcall_from) simp
qed

context block_service
begin

lemma P_getPipe:
  assumes "P s"
  shows "\<exists>s'. getPipe pid s = (lookupPipe pid s, s') \<and> P s' \<and> pipeQueue s' = pipeQueue s \<and>
     lookupPipe pid s' = lookupPipe pid s"
  using getPipe_ok [OF P_kinv [OF assms]] P_wakes [OF assms] by blast

lemma pipeOpen: "P s \<Longrightarrow> kwp E I R (pipeOpen_with blk pid s) (\<lambda>_ s'. P s')"
  unfolding pipeOpen_with_def kwp_bind
  by (rule kwp_mono [OF semWait], assumption, rule lift_okcall, erule conjunct1,
      rule okcall_open, rule P_kinv, erule conjunct1)

lemma writeToPipe:
  assumes "P s" "lookupPipe (pi_id p) s = Some p"
  shows "kwp E I R (writeToPipe_with blk p c s) (\<lambda>_ s'. P s')"
  unfolding writeToPipe_with_def kwp_bind
proof (rule kwp_mono [OF semWait [OF assms(1)]])
  fix a s1 assume s1: "P s1 \<and> (E UseAfterFree \<or> pipeQueue s1 = pipeQueue s)"
  then have "E UseAfterFree \<or> lookupPipe (pi_id p) s1 = Some p" using assms(2) by (auto simp: lookupPipe_def)
  then show "kwp E I R (case lookupPipe (pi_id p) s1 of
         None \<Rightarrow> Crash UseAfterFree
       | Some q \<Rightarrow>
           kbind (semPost (pi_readSemId q)
                    (modPipe (pi_id p)
                       (\<lambda>p. p\<lparr>pi_buffer := (pi_buffer p)[nat (pi_writeIndex p) := c],
                              pi_writeIndex := (pi_writeIndex p + 1) mod PIPE_BUFFER_SIZE\<rparr>) s1))
             (\<lambda>_ s2. Ret () s2)) (\<lambda>_ s'. P s')"
    using s1 P_kinv by (auto intro!: lift_okcall okcall_put simp del: kwp_bind split: option.split)
qed

lemma pipePutchar:
  assumes "P s"
  shows "kwp E I R (pipePutchar_with blk pid c s) (\<lambda>_ s'. P s')"
proof -
  obtain s1 where s1: "getPipe pid s = (lookupPipe pid s, s1)" "P s1" "lookupPipe pid s1 = lookupPipe pid s"
    using P_getPipe [OF assms] by blast
  show ?thesis
  proof (cases "lookupPipe pid s")
    case None
    then show ?thesis using s1 by (simp add: pipePutchar_with_def)
  next
    case (Some p)
    have "pi_id p = pid" using lookupPipe_Some(1) [OF P_kinv [OF assms] Some] .
    then have "kwp E I R (writeToPipe_with blk p c s1) (\<lambda>_ s'. P s')"
      using Some s1(3) by (intro writeToPipe [OF s1(2)]) simp
    then show ?thesis using Some s1(1) by (simp add: pipePutchar_with_def)
  qed
qed

lemma pipeWrite_loop: "E UseAfterFree \<Longrightarrow> P s \<Longrightarrow> kwp E I R (pipeWrite_loop blk pid cs s) (\<lambda>_ s'. P s')"
proof (induction cs arbitrary: s)
  case Nil
  then show ?case by simp
next
  case (Cons c cs)
  show ?case
  proof (cases "lookupPipe pid s")
    case None
    then show ?thesis using Cons.prems(1) by simp
  next
    case (Some p)
    have "pi_id p = pid" using lookupPipe_Some(1) [OF P_kinv [OF Cons.prems(2)] Some] .
    then have "kwp E I R (writeToPipe_with blk p c s) (\<lambda>_ s'. P s')"
      using Some by (intro writeToPipe [OF Cons.prems(2)]) simp
    then show ?thesis using Some Cons.IH [OF Cons.prems(1)] by (auto elim: kwp_mono)
  qed
qed

lemma pipeWrite:
  assumes "E UseAfterFree" "P s"
  shows "kwp E I R (pipeWrite_with blk pid str s) (\<lambda>_ s'. P s')"
proof -
  obtain s1 where s1: "getPipe pid s = (lookupPipe pid s, s1)" "P s1"
    using P_getPipe [OF assms(2)] by blast
  then show ?thesis
    using pipeWrite_loop [OF assms(1) s1(2)] by (simp add: pipeWrite_with_def split: option.split)
qed

lemma pipeRead:
  assumes "P s"
  shows "kwp E I R (pipeRead_with blk pid s) (\<lambda>_ s'. P s')"
proof -
  obtain s1 where s1: "getPipe pid s = (lookupPipe pid s, s1)" "P s1" "lookupPipe pid s1 = lookupPipe pid s"
    using P_getPipe [OF assms] by blast
  show ?thesis
  proof (cases "lookupPipe pid s")
    case None
    then show ?thesis using s1 by (simp add: pipeRead_with_def)
  next
    case (Some p)
    show ?thesis
      unfolding pipeRead_with_def s1(1) Some Let_def prod.case option.case kwp_bind
    proof (rule kwp_mono [OF semWait [OF s1(2)]])
      fix a s2 assume s2: "P s2 \<and> (E UseAfterFree \<or> pipeQueue s2 = pipeQueue s1)"
      then have "E UseAfterFree \<or> lookupPipe pid s2 = Some p" using s1(3) Some by (auto simp: lookupPipe_def)
      then show "kwp E I R (case lookupPipe pid s2 of
            None \<Rightarrow> Crash UseAfterFree
          | Some p \<Rightarrow>
              kbind (semPost (pi_writeSemId p) (modPipe pid (pi_readIndex_update (\<lambda>r. (r + 1) mod PIPE_BUFFER_SIZE)) s2))
                (\<lambda>_ s3. Ret (sint (pi_buffer p ! nat (pi_readIndex p))) s3)) (\<lambda>_ s'. P s')"
        using s2 P_kinv by (auto intro!: lift_okcall okcall_take simp del: kwp_bind split: option.split)
    qed
  qed
qed

lemma pipeClose:
  assumes "P s"
  shows "kwp E I R (pipeClose_with blk pid s) (\<lambda>_ s'. P s')"
proof -
  obtain s1 where s1: "getPipe pid s = (lookupPipe pid s, s1)" "P s1" "lookupPipe pid s1 = lookupPipe pid s"
    using P_getPipe [OF assms] by blast
  show ?thesis
  proof (cases "lookupPipe pid s")
    case None
    then show ?thesis using s1 by (simp add: pipeClose_with_def)
  next
    case (Some p)
    show ?thesis
      unfolding pipeClose_with_def s1(1) Some
      unfolding Let_def [of "(Some p, s1)"] prod.case option.case kwp_bind
    proof (rule kwp_mono [OF semWait [OF s1(2)]])
      fix a s2 assume s2: "P s2 \<and> (E UseAfterFree \<or> pipeQueue s2 = pipeQueue s1)"
      then have "E UseAfterFree \<or> lookupPipe pid s2 = Some p" using s1(3) Some by (auto simp: lookupPipe_def)
      moreover have "kwp E I R (pipeClose_rest pid p s2) (\<lambda>_ s'. P s')" for p
        using s2 P_kinv by (auto intro: lift_okcall okcall_close)
      ultimately show "kwp E I R (case lookupPipe pid s2 of
               None \<Rightarrow> Crash UseAfterFree | Some p \<Rightarrow> pipeClose_rest pid p s2) (\<lambda>_ s'. P s')"
        by (auto split: option.split)
    qed
  qed
qed

end

end
