(* ===== verification/Sched.thy ===== *)
theory Sched
  imports PipeProps
begin

text \<open>
  The scheduler and the process operations of \<open>Kernel/scheduler/processManager.c\<close>. The scheduler
  runs in the timer interrupt; a call that gives up the processor (\<open>_callTimerTick\<close>, an \<open>int 20h\<close>)
  is a \<open>Switch\<close> after the scheduler has run. While the scheduler frees a terminated process it
  calls semaphore and pipe operations itself: there the routine that blocks the caller is
  \<open>nestedBlock\<close>, which crashes instead of entering the scheduler again.
\<close>

section \<open>State changes\<close>

definition changeState :: "int \<Rightarrow> process_state \<Rightarrow> kernel \<Rightarrow> int kres" where
  "changeState pid newState s = changeState_with semPost pid newState s"

definition blockTask_with :: "(kernel \<Rightarrow> unit kres) \<Rightarrow> int \<Rightarrow> kernel \<Rightarrow> int kres" where
  "blockTask_with tick pid s =
     kbind (changeState pid BLOCKED s) (\<lambda>i s1.
       if i = -1 then Ret (-1) s1
       else kbind (if i = curPid s1 then tick s1 else Ret () s1) (\<lambda>_ s2. Ret 0 s2))"

definition nestedBlock :: "int \<Rightarrow> kernel \<Rightarrow> int kres" where
  "nestedBlock pid s = blockTask_with (\<lambda>_. Crash NestedTick) pid s"

section \<open>Freeing a process\<close>

text \<open>\<open>freeProcess\<close> up to the pipes, and the whole of it: the pid of the process freed last is handed
  out again.\<close>

definition freeProcess_close :: "(int \<Rightarrow> kernel \<Rightarrow> int kres) \<Rightarrow> pcb \<Rightarrow> kernel \<Rightarrow> unit kres" where
  "freeProcess_close blk p s =
     (let (v, s1) = semValue (pc_semId p) s
      in kbind (if v = 0 then semPost (pc_semId p) s1 else Ret 0 s1) (\<lambda>_ s2.
         kbind (semClose (pc_semId p) s2) (\<lambda>_ s3.
         kbind (if pc_fd1 p \<noteq> STDOUT_PIPENO
                then kbind (pipePutchar_with blk (pc_fd1 p) (-1) s3) (\<lambda>_ s4.
                     pipeClose_with blk (pc_fd1 p) s4)
                else Ret 0 s3) (\<lambda>_ s5.
         kbind (if pc_fd0 p \<noteq> STDIN_PIPENO then pipeClose_with blk (pc_fd0 p) s5 else Ret 0 s5) (\<lambda>_ s6.
         Ret () s6)))))"

definition freeProcess_with :: "(int \<Rightarrow> kernel \<Rightarrow> int kres) \<Rightarrow> pcb \<Rightarrow> kernel \<Rightarrow> unit kres" where
  "freeProcess_with blk p s =
     kbind (freeProcess_close blk p s) (\<lambda>_ s1.
       Ret () (s1\<lparr>pidCounter := pidCounter s1 - (if curPid s1 = pidCounter s1 - 1 then 1 else 0)\<rparr>))"

section \<open>The scheduler\<close>

definition enqueueProc :: "pcb \<Rightarrow> kernel \<Rightarrow> kernel" where
  "enqueueProc p s =
     (case procQueue s of None \<Rightarrow> s
      | Some q \<Rightarrow> (let (q', s1) = kenqueue p q s in s1\<lparr>procQueue := Some q'\<rparr>))"

text \<open>\<open>currentProcessPCB = dequeue(queue)\<close>: \<open>NULL\<close> when the queue is empty.\<close>

definition dequeueCurrent :: "kernel \<Rightarrow> kernel" where
  "dequeueCurrent s =
     (case procQueue s of
        None \<Rightarrow> s\<lparr>currentProc := None\<rparr>
      | Some [] \<Rightarrow> s\<lparr>currentProc := None\<rparr>
      | Some (p # q) \<Rightarrow> s\<lparr>currentProc := Some p, procQueue := Some q\<rparr>)"

text \<open>The while loop of \<open>scheduleTask\<close>. The fuel is twice the number of processes: when a whole round
  finds no ready process, no later round does, and the loop would not end.\<close>

primrec pick :: "nat \<Rightarrow> kernel \<Rightarrow> unit kres" where
  "pick 0 s = Crash NoReadyProcess"
| "pick (Suc n) s =
     (case currentProc s of
        None \<Rightarrow> Crash NoReadyProcess
      | Some p \<Rightarrow>
          (if pc_state p = READY then Ret () s
           else kbind (if pc_state p = TERMINATED then freeProcess_with nestedBlock p s
                       else Ret () (enqueueProc p s))
                  (\<lambda>_ s1. pick n (dequeueCurrent s1))))"

definition startCycles :: "kernel \<Rightarrow> u64 kres" where
  "startCycles s =
     (case currentProc s of
        None \<Rightarrow> Crash NullDeref
      | Some p \<Rightarrow> Ret (pc_rsp p) (s\<lparr>currentCycles := pc_priority p\<rparr>))"

text \<open>Putting the current process away, before another is chosen.\<close>

definition saveCurrent :: "u64 \<Rightarrow> kernel \<Rightarrow> kernel kres" where
  "saveCurrent rsp s =
     (case currentProc s of
        None \<Rightarrow> Ret s s
      | Some c \<Rightarrow>
          (let s1 = modProc (pc_pid c) (pc_rsp_update (\<lambda>_. rsp)) s
           in case (idleProc s1, currentProc s1) of
                (Some i, Some c1) \<Rightarrow>
                  (let s2 = (if pc_pid c1 \<noteq> pc_pid i then enqueueProc c1 s1 else s1\<lparr>idleProc := Some c1\<rparr>)
                   in Ret s2 s2)
              | _ \<Rightarrow> Crash NullDeref))"

definition scheduleTask :: "u64 \<Rightarrow> kernel \<Rightarrow> u64 kres" where
  "scheduleTask rsp s =
     (if procQueue s = None then Ret rsp s
      else if (\<exists>c. currentProc s = Some c \<and> pc_state c = READY \<and> currentCycles s > 0)
      then Ret rsp (s\<lparr>currentCycles := currentCycles s - 1\<rparr>)
      else kbind (saveCurrent rsp s) (\<lambda>_ s1.
           kbind (if readyCount s1 > 0
                  then pick (2 * length (the (procQueue s1)) + 1) (dequeueCurrent s1)
                  else Ret () (s1\<lparr>currentProc := idleProc s1\<rparr>)) (\<lambda>_ s2.
           startCycles s2)))"

section \<open>The timer interrupt\<close>

definition ticks_elapsed :: "kernel \<Rightarrow> int" where
  "ticks_elapsed s = sint (ucast (ticks s) :: u32)"

definition seconds_elapsed :: "kernel \<Rightarrow> int" where
  "seconds_elapsed s = sint (ucast (ticks s div 18) :: u32)"

definition timer_handler :: "kernel \<Rightarrow> kernel" where
  "timer_handler s =
     (let s1 = s\<lparr>ticks := ticks s + 1\<rparr> in s1\<lparr>con := blinkCursor (ticks_elapsed s1) (con s1)\<rparr>)"

definition irq0 :: "kernel \<Rightarrow> unit kres" where
  "irq0 s = kbind (scheduleTask (cpu_rsp s) (timer_handler s)) (\<lambda>rsp s1. Ret () (s1\<lparr>cpu_rsp := rsp\<rparr>))"

definition callTimerTick :: "kernel \<Rightarrow> unit kres" where
  "callTimerTick s = kbind (irq0 s) (\<lambda>_ s1. Switch s1 (\<lambda>s2. Ret () s2))"

section \<open>Process operations\<close>

definition blockTask :: "int \<Rightarrow> kernel \<Rightarrow> int kres" where
  "blockTask pid s = blockTask_with callTimerTick pid s"

definition killTask :: "int \<Rightarrow> kernel \<Rightarrow> int kres" where
  "killTask pid s =
     (if pid = userlandPid s \<or> pid = initPid s then Ret (-1) s
      else kbind (changeState pid EXITED s) (\<lambda>i s1.
        if i = -1 then Ret (-1) s1
        else kbind (if i = curPid s1 then callTimerTick s1 else Ret () s1) (\<lambda>_ s2. Ret i s2)))"

definition nice :: "int \<Rightarrow> int \<Rightarrow> kernel \<Rightarrow> int \<times> kernel" where
  "nice pid newPriority s =
     (let n1 = (if newPriority < 0 then 0 else newPriority);
          n2 = (if n1 > MAX_PRIO then MAX_PRIO else n1);
          (process, s1) = getProcess pid s
      in case process of
           None \<Rightarrow> (-1, s1)
         | Some p \<Rightarrow>
             (0, s1\<lparr>procQueue := map_option (upd_first (\<lambda>p. pc_pid p = pid) (pc_priority_update (\<lambda>_. n2))) (procQueue s1)\<rparr>))"

definition yield :: "kernel \<Rightarrow> int kres" where
  "yield s = kbind (callTimerTick (s\<lparr>currentCycles := 0\<rparr>)) (\<lambda>_ s1. Ret 0 s1)"

definition setUserlandPid :: "int \<Rightarrow> kernel \<Rightarrow> int \<times> kernel" where
  "setUserlandPid pid s = (0, s\<lparr>userlandPid := pid\<rparr>)"

definition killCurrent :: "kernel \<Rightarrow> int kres" where
  "killCurrent s = killTask (curPid s) s"

definition semWait :: "int \<Rightarrow> kernel \<Rightarrow> int kres" where "semWait = semWait_with blockTask"
definition pipeOpen :: "int \<Rightarrow> kernel \<Rightarrow> int kres" where "pipeOpen = pipeOpen_with blockTask"
definition pipeWrite :: "int \<Rightarrow> u8 list \<Rightarrow> kernel \<Rightarrow> int kres" where "pipeWrite = pipeWrite_with blockTask"
definition pipePutchar :: "int \<Rightarrow> u8 \<Rightarrow> kernel \<Rightarrow> int kres" where "pipePutchar = pipePutchar_with blockTask"
definition pipeRead :: "int \<Rightarrow> kernel \<Rightarrow> int kres" where "pipeRead = pipeRead_with blockTask"
definition pipeClose :: "int \<Rightarrow> kernel \<Rightarrow> int kres" where "pipeClose = pipeClose_with blockTask"
definition getPipeInfo :: "kernel \<Rightarrow> userlandPipe list option kres" where "getPipeInfo = getPipeInfo_with blockTask"

text \<open>\<open>waitpid\<close> keeps the child's pointer while it waits; a child that is gone afterwards was freed.\<close>

definition waitpid :: "int \<Rightarrow> kernel \<Rightarrow> int kres" where
  "waitpid pid s =
     (let (child, s1) = (if curPid s = pid then (currentProc s, s) else getProcess pid s)
      in case child of
           None \<Rightarrow> Ret (-1) s1
         | Some p \<Rightarrow>
             kbind (semWait (pc_semId p) s1) (\<lambda>_ s2.
               case lookupProc pid s2 of
                 None \<Rightarrow> Crash UseAfterFree
               | Some p' \<Rightarrow> changeState (pc_pid p') TERMINATED s2))"

section \<open>Killing the foreground process\<close>

primrec terminate_loop :: "int \<Rightarrow> int list \<Rightarrow> kernel \<Rightarrow> unit kres" where
  "terminate_loop pid [] s = Ret () s"
| "terminate_loop pid (v # vs) s =
     (case lookupProc v s of
        None \<Rightarrow> terminate_loop pid vs s
      | Some p \<Rightarrow>
          (if pc_ppid p = pid
           then kbind (changeState (pc_pid p) TERMINATED s) (\<lambda>_ s1.
                terminate_loop pid vs (modProc v (pc_ppid_update (\<lambda>_. initPid s1)) s1))
           else terminate_loop pid vs s))"

text \<open>Like \<open>sendTaskToInit\<close>, the loop never looks at the last process of the queue.\<close>

definition terminateChildren :: "int \<Rightarrow> kernel \<Rightarrow> unit kres" where
  "terminateChildren pid s =
     (let (it, s1) = (case procQueue s of None \<Rightarrow> (0, s) | Some _ \<Rightarrow> kmalloc 8 s)
      in case currentProc s1 of
           None \<Rightarrow> Crash NullDeref
         | Some c \<Rightarrow>
             terminate_loop pid
               (pc_pid c # (if it = 0 then [] else map pc_pid (butlast (the (procQueue s1))))) s1)"

definition currentForegroundCondition :: "kernel \<Rightarrow> pcb \<Rightarrow> bool" where
  "currentForegroundCondition s p \<longleftrightarrow>
     pc_foreground p \<noteq> 0 \<and> pc_pid p \<noteq> initPid s \<and> pc_pid p \<noteq> userlandPid s"

definition killCurrentForeground :: "kernel \<Rightarrow> int kres" where
  "killCurrentForeground s =
     (case currentProc s of
        None \<Rightarrow> Crash NullDeref
      | Some c \<Rightarrow>
          (if pc_foreground c \<noteq> 0 \<and> pc_pid c \<noteq> userlandPid s \<and> pc_pid c \<noteq> initPid s
           then kbind (terminateChildren (pc_pid c) s) (\<lambda>_ s1. killCurrent s1)
           else let (fg, s1) = kfind (currentForegroundCondition s) (procQueue s) s
                in case fg of
                     None \<Rightarrow> Ret (-1) s1
                   | Some p \<Rightarrow>
                       kbind (terminateChildren (pc_pid p) s1) (\<lambda>_ s2. killTask (pc_pid p) s2)))"

end
