(* ===== verification/SchedProps.thy ===== *)
theory SchedProps
  imports Sched
begin

text \<open>
  The scheduler. Freeing a terminated process never blocks and never enters the scheduler again;
  the loop that picks the next process always ends, within one round, on a ready process; the
  scheduler keeps the kernel invariant and leaves a ready process running.
\<close>

section \<open>Cleaning up after a terminated process\<close>

definition dying :: "kernel \<Rightarrow> kernel \<Rightarrow> bool" where
  "dying s0 s \<longleftrightarrow> kinv s \<and> wakes s0 s \<and> running s \<and> (\<exists>c. currentProc s = Some c \<and> pc_state c = TERMINATED)"

lemma running_wakes:
  assumes "running s" "wakes s s'"
  shows "running s'"
  using assms wakes_idlePid [OF assms(2)] wakes_getpid [OF assms(2)]
  by (auto simp: running_def dest: wakes_current)

lemma dying_wakes:
  assumes "dying s0 s" "wakes s s'" "kinv s'"
  shows "dying s0 s'"
proof -
  obtain c where c: "currentProc s = Some c" "pc_state c = TERMINATED" using assms(1) by (auto simp: dying_def)
  obtain c' where c': "currentProc s' = Some c'" "woken c c'" using wakes_current [OF assms(2) c(1)] by blast
  have "wakes s0 s'" "running s'"
    using assms(1,2) by (auto simp: dying_def intro: wakes_trans running_wakes)
  then show ?thesis using c c' assms(3) woken_TERMINATED [OF c'(2) c(2)] by (simp add: dying_def)
qed

lemma nestedBlock_dying:
  assumes "currentProc s = Some c" "pc_state c = TERMINATED"
  shows "nestedBlock (getpid s) s = Ret (-1) s"
  using assms
  by (simp add: nestedBlock_def blockTask_with_def changeState_def changeState_with_def getpid_def curPid_def)

interpretation cleanup: block_service nestedBlock "\<lambda>_. False" "\<lambda>_. False" "\<lambda>_. False" "dying s0" for s0
proof unfold_locales
  fix s s'
  show "kwp (\<lambda>_. False) (\<lambda>_. False) (\<lambda>_. False) (nestedBlock (getpid s) s)
      (\<lambda>_ s'. dying s0 s' \<and> (False \<or> pipeQueue s' = pipeQueue s))" if "dying s0 s"
  proof -
    obtain c where "currentProc s = Some c" "pc_state c = TERMINATED" using \<open>dying s0 s\<close> by (auto simp: dying_def)
    from nestedBlock_dying [OF this] show ?thesis using that by simp
  qed
  show "kinv s" if "dying s0 s" using that by (simp add: dying_def)
  show "dying s0 s'" if "dying s0 s" "wakes s s'" "kinv s'" using that by (rule dying_wakes)
qed

lemma semValue_eq: "kinv s \<Longrightarrow> \<exists>v. semValue i s = (v, s\<lparr>mcount := Suc (mcount s)\<rparr>)"
  using findSem_ok [of "{}" 0 s i] by (simp add: semValue_def kinv_def)

context block_service
begin

lemma freeProcess_close:
  assumes "P s"
  shows "kwp E I R (freeProcess_close blk p s) (\<lambda>_ s'. P s')"
proof -
  let ?s1 = "s\<lparr>mcount := Suc (mcount s)\<rparr>"
  obtain v where v: "semValue (pc_semId p) s = (v, ?s1)" using semValue_eq [OF P_kinv [OF assms]] by blast
  have P1: "P ?s1" using P_wakes [OF assms, of ?s1] P_kinv [OF assms] by simp
  have post: "kwp E I R (if v = 0 then semPost (pc_semId p) ?s1 else Ret 0 ?s1) (\<lambda>_ s'. P s')"
    using lift_okcall [OF P1 semcall_okcall [OF semPost_ok [OF P_kinv [OF P1]]]] P1 by simp
  have close: "P s \<Longrightarrow> kwp E I R (semClose (pc_semId p) s) (\<lambda>_ s'. P s')" for s
    by (rule lift_okcall [OF _ semcall_okcall [OF semClose_ok [OF P_kinv]]])
  have out: "kwp E I R (if pc_fd1 p \<noteq> STDOUT_PIPENO
                then kbind (pipePutchar_with blk (pc_fd1 p) (-1) s) (\<lambda>_ s4.
                     pipeClose_with blk (pc_fd1 p) s4)
                else Ret 0 s) (\<lambda>_ s'. P s')" if "P s" for s
    using that by (auto intro: kwp_mono [OF pipePutchar] pipeClose)
  have inp: "kwp E I R (if pc_fd0 p \<noteq> STDIN_PIPENO then pipeClose_with blk (pc_fd0 p) s else Ret 0 s) (\<lambda>_ s'. P s')"
    if "P s" for s
    using that pipeClose by simp
  show ?thesis
    unfolding freeProcess_close_def v Let_def prod.case kwp_bind
    by (rule kwp_mono [OF post], rule kwp_mono [OF close], assumption, rule kwp_mono [OF out [unfolded kwp_bind]],
        assumption, rule kwp_mono [OF inp], assumption, simp)
qed

end


section \<open>The pool of processes\<close>

text \<open>What the process table looks like when the current process has been put away: all processes
  but the idle one are in one list.\<close>

definition pool_ok :: "pcb list \<Rightarrow> kernel \<Rightarrow> bool" where
  "pool_ok q s \<longleftrightarrow>
     (\<exists>i. idleProc s = Some i \<and> pc_state i = READY \<and> distinct (pc_pid i # map pc_pid q) \<and>
        pc_pid i < pidCounter s \<and> (\<forall>p \<in> set q. pc_pid p < pidCounter s) \<and>
        readyCount s = count_if isReady q)"

lemma procs_runE:
  assumes "procs_ok s" "running s"
  obtains q c where "procQueue s = Some q" "currentProc s = Some c" "pool_ok (q @ [c]) s"
  using assms(1)
proof (cases rule: procs_okE)
  case (idle q i)
  then show thesis using assms(2) by (auto simp: running_def idlePid_def getpid_def)
next
  case (run q i c)
  then have "pool_ok (q @ [c]) s" by (auto simp: pool_ok_def)
  then show thesis using that run(1,3) by blast
qed

lemma pool_run:
  assumes "pool_ok (x # q) s"
  shows "procs_ok (s\<lparr>currentProc := Some x, procQueue := Some q\<rparr>) \<and> running (s\<lparr>currentProc := Some x, procQueue := Some q\<rparr>)"
proof -
  obtain i where i: "idleProc s = Some i" "pc_state i = READY" "distinct (pc_pid i # map pc_pid (x # q))"
      "pc_pid i < pidCounter s" "\<forall>p \<in> set (x # q). pc_pid p < pidCounter s"
      "readyCount s = count_if isReady (x # q)"
    using assms by (auto simp: pool_ok_def)
  have "procs_ok (s\<lparr>currentProc := Some x, procQueue := Some q\<rparr>)"
    by (rule procs_ok_runI [of _ q i x]) (use i in auto)
  then show ?thesis using i by (auto simp: running_def idlePid_def getpid_def)
qed

lemma pool_rotate: "pool_ok (x # q) s \<Longrightarrow> pool_ok (q @ [x]) s" "pool_ok (q @ [x]) s \<Longrightarrow> pool_ok (x # q) s"
  by (auto simp: pool_ok_def)

lemma pool_cong: "idleProc s' = idleProc s \<Longrightarrow> pidCounter s' = pidCounter s \<Longrightarrow> readyCount s' = readyCount s \<Longrightarrow>
    pool_ok q s' = pool_ok q s"
  by (simp add: pool_ok_def)

lemma pool_drop:
  assumes "pool_ok (q @ [c]) s" "pc_state c \<noteq> READY"
  shows "pool_ok q (s\<lparr>pidCounter := pidCounter s - (if pc_pid c = pidCounter s - 1 then 1 else 0)\<rparr>)"
proof -
  obtain i where i: "idleProc s = Some i" "pc_state i = READY" "distinct (pc_pid i # map pc_pid (q @ [c]))"
      "pc_pid i < pidCounter s" "\<forall>p \<in> set (q @ [c]). pc_pid p < pidCounter s"
      "readyCount s = count_if isReady (q @ [c])"
    using assms(1) by (auto simp: pool_ok_def)
  have "pc_pid p < pidCounter s - 1" if "pc_pid c = pidCounter s - 1" "p \<in> set q" for p
  proof -
    have "pc_pid p \<noteq> pc_pid c" using i(3) that(2) by (auto simp: image_iff)
    then show ?thesis using i(5) that by fastforce
  qed
  moreover have "pc_pid i < pidCounter s - 1" if "pc_pid c = pidCounter s - 1"
    using i(3,4) that by auto
  ultimately show ?thesis
    using i assms(2) by (auto simp: pool_ok_def isReady_def)
qed

section \<open>Picking the next process\<close>

lemma kinv_table:
  assumes "kinv s" "procs_ok (s\<lparr>currentProc := c, procQueue := q\<rparr>)"
  shows "kinv (s\<lparr>currentProc := c, procQueue := q\<rparr>)"
  using assms by (simp add: kinv_def kinv_locked_def)

definition ready_within :: "nat \<Rightarrow> kernel \<Rightarrow> bool" where
  "ready_within n s \<longleftrightarrow>
     (\<exists>q c. procQueue s = Some q \<and> currentProc s = Some c \<and> (\<exists>x \<in> set (take n (c # q)). pc_state x = READY))"

lemma free_step:
  assumes "kinv s" "running s" "currentProc s = Some c" "pc_state c = TERMINATED" "ready_within (Suc n) s"
  shows "kwp0 (freeProcess_with nestedBlock c s)
     (\<lambda>_ s1. kinv (dequeueCurrent s1) \<and> running (dequeueCurrent s1) \<and> ready_within n (dequeueCurrent s1))"
proof -
  have "dying s s" using assms by (simp add: dying_def)
  from cleanup.freeProcess_close [OF this, of c] obtain s1 where
    s1: "freeProcess_close nestedBlock c s = Ret () s1" "dying s s1"
    by (auto simp: kwp0_iff)
  then have ok1: "kinv s1" "running s1" "wakes s s1" by (auto simp: dying_def)
  obtain q where q: "procQueue s = Some q" using kinvD(2) [OF assms(1)] by (auto simp: procs_ok_def)
  obtain c1 where c1: "currentProc s1 = Some c1" "woken c c1" using wakes_current [OF ok1(3) assms(3)] by blast
  have c1c: "c1 = c" using woken_TERMINATED [OF c1(2) assms(4)] .
  obtain q1 where q1: "procQueue s1 = Some q1" "list_all2 woken q q1"
    using ok1(3) q by (cases "procQueue s1") (auto simp: wakes_def)
  have pool: "pool_ok (q1 @ [c]) s1"
    using procs_runE [OF kinvD(2) [OF ok1(1)] ok1(2)] q1(1) c1(1) c1c by (metis option.inject)
  define s2 where "s2 = s1\<lparr>pidCounter := pidCounter s1 - (if pc_pid c = pidCounter s1 - 1 then 1 else 0)\<rparr>"
  have fp: "freeProcess_with nestedBlock c s = Ret () s2"
    using s1(1) c1(1) c1c by (simp add: freeProcess_with_def s2_def curPid_def)
  have pool2: "pool_ok q1 s2" unfolding s2_def by (rule pool_drop [OF pool]) (simp add: assms(4))
  obtain x where x: "x \<in> set (take n q)" "pc_state x = READY"
    using assms(3,4,5) q by (auto simp: ready_within_def)
  from list_all2_takeI [OF q1(2), of n] x obtain y where y: "y \<in> set (take n q1)" "pc_state y = READY"
    by (metis list_all2_lengthD in_set_conv_nth list_all2_conv_all_nth woken_READY)
  then obtain z r where zr: "q1 = z # r" by (cases q1) auto
  have deq: "dequeueCurrent s2 = s2\<lparr>currentProc := Some z, procQueue := Some r\<rparr>"
    using q1(1) zr by (simp add: dequeueCurrent_def s2_def)
  from pool_run [of z r s2] pool2 zr
  have run2: "procs_ok (dequeueCurrent s2)" "running (dequeueCurrent s2)" by (simp_all add: deq)
  have "memory_ok s2 \<and> sems_inv {} 0 s2 \<and> pipes_ok s2 \<and> console_ok (con s2)"
    using ok1(1) by (simp add: kinv_def kinv_locked_def s2_def)
  then have "kinv (dequeueCurrent s2)"
    using run2(1) by (simp add: kinv_def kinv_locked_def deq)
  moreover have "ready_within n (dequeueCurrent s2)"
    using y zr by (auto simp: ready_within_def deq)
  ultimately show ?thesis using fp run2(2) by simp
qed

lemma rotate_step:
  assumes "kinv s" "running s" "currentProc s = Some c" "pc_state c \<noteq> READY" "ready_within (Suc n) s"
    "Suc n \<le> Suc (length (the (procQueue s)))"
  shows "kinv (dequeueCurrent (enqueueProc c s)) \<and> running (dequeueCurrent (enqueueProc c s)) \<and>
     ready_within n (dequeueCurrent (enqueueProc c s))"
proof -
  obtain q where q: "procQueue s = Some q" "pool_ok (q @ [c]) s"
    using procs_runE [OF kinvD(2) [OF assms(1)] assms(2)] assms(3) by (metis option.inject)
  have mem: "mallocs s (mcount s) \<noteq> 0" using kinvD(1) [OF assms(1)] by (simp add: memory_ok_def)
  let ?s = "s\<lparr>mcount := Suc (mcount s)\<rparr>"
  obtain x where x: "x \<in> set (take n q)" "pc_state x = READY"
    using assms(3,4,5) q by (auto simp: ready_within_def)
  then obtain z r where zr: "q = z # r" by (cases q) auto
  have deq: "dequeueCurrent (enqueueProc c s) = ?s\<lparr>procQueue := Some (q @ [c]), currentProc := Some z, procQueue := Some (r @ [c])\<rparr>"
    using q(1) zr mem by (simp add: dequeueCurrent_def enqueueProc_def kenqueue_def kmalloc_def)
  have "pool_ok (z # r @ [c]) (?s\<lparr>procQueue := Some (q @ [c])\<rparr>)"
    using q(2) zr by (simp add: pool_ok_def)
  from pool_run [OF this]
  have run2: "procs_ok (dequeueCurrent (enqueueProc c s))" "running (dequeueCurrent (enqueueProc c s))"
    by (simp_all add: deq)
  have "kinv (dequeueCurrent (enqueueProc c s))"
    using assms(1) run2(1) by (simp add: kinv_def kinv_locked_def deq)
  moreover have "n \<le> length q" using assms(6) q(1) by simp
  then have "ready_within n (dequeueCurrent (enqueueProc c s))"
    using x zr by (auto simp: ready_within_def deq take_Cons' split: if_splits)
  ultimately show ?thesis using run2(2) by simp
qed


lemma length_queue_drop: "length (the (procQueue (dequeueCurrent s))) = length (the (procQueue s)) - 1"
  if "procQueue s \<noteq> None"
  using that by (auto simp: dequeueCurrent_def split: option.splits list.splits)

definition runs_ready :: "kernel \<Rightarrow> bool" where
  "runs_ready s \<longleftrightarrow> (\<exists>c. currentProc s = Some c \<and> pc_state c = READY)"

text \<open>The loop ends on a ready process within as many steps as it takes to reach the first one that
  is ready now.\<close>

lemma ready_within_mono: "ready_within m s \<Longrightarrow> m \<le> n \<Longrightarrow> ready_within n s"
  unfolding ready_within_def using set_take_subset_set_take by fast

lemma ready_within_cap:
  "ready_within n s \<Longrightarrow> ready_within (min n (Suc (length (the (procQueue s))))) s"
  by (auto simp: ready_within_def min_def)

lemma pick_ok:
  "kinv s \<Longrightarrow> running s \<Longrightarrow> ready_within m s \<Longrightarrow> m \<le> n \<Longrightarrow>
     kwp0 (pick n s) (\<lambda>_ s'. kinv s' \<and> running s' \<and> runs_ready s')"
proof (induction n arbitrary: s m)
  case 0
  then show ?case by (simp add: ready_within_def)
next
  case (Suc n)
  obtain c where c: "currentProc s = Some c" using Suc.prems(2) by (auto simp: running_def)
  define k where "k = min m (Suc (length (the (procQueue s))))"
  have k: "ready_within k s" "k \<le> Suc n" "k \<le> Suc (length (the (procQueue s)))"
    using ready_within_cap [OF Suc.prems(3)] Suc.prems(4) by (auto simp: k_def)
  then obtain j where j: "k = Suc j" by (cases k) (auto simp: ready_within_def)
  show ?case
  proof (cases "pc_state c = READY")
    case True
    then show ?thesis using c Suc.prems by (simp add: runs_ready_def)
  next
    case False
    show ?thesis
    proof (cases "pc_state c = TERMINATED")
      case True
      have "kwp0 (freeProcess_with nestedBlock c s)
         (\<lambda>_ s1. kwp0 (pick n (dequeueCurrent s1)) (\<lambda>_ s'. kinv s' \<and> running s' \<and> runs_ready s'))"
        by (rule kwp_mono [OF free_step [OF Suc.prems(1,2) c True k(1) [unfolded j]]])
          (rule Suc.IH [of _ j], use k j in auto)
      then show ?thesis using c True by simp
    next
      case not_term: False
      from rotate_step [OF Suc.prems(1,2) c False k(1) [unfolded j] k(3) [unfolded j]]
      have "kwp0 (pick n (dequeueCurrent (enqueueProc c s))) (\<lambda>_ s'. kinv s' \<and> running s' \<and> runs_ready s')"
        using k j by (intro Suc.IH [of _ j]) auto
      then show ?thesis using c False not_term by simp
    qed
  qed
qed

section \<open>One scheduler call\<close>

lemma modProc_rsp_kinv:
  assumes "kinv s"
  shows "kinv (modProc pid (pc_rsp_update f) s)"
proof -
  have "procs_ok (modProc pid (pc_rsp_update f) s)"
    by (rule procs_ok_modProc_same [OF kinvD(2) [OF assms]]) auto
  then show ?thesis
    using assms kinv_locked_only_procs [of "{}" 0 s "modProc pid (pc_rsp_update f) s"]
    by (simp add: kinv_def only_procs_def)
qed

text \<open>Putting the current process away leaves all processes but the idle one in the queue.\<close>

definition pooled :: "kernel \<Rightarrow> bool" where
  "pooled s \<longleftrightarrow> memory_ok s \<and> sems_inv {} 0 s \<and> pipes_ok s \<and> console_ok (con s) \<and>
     (\<exists>q. procQueue s = Some q \<and> pool_ok q s)"

lemma saveCurrent_idle:
  assumes "kinv s" "\<not> running s"
  shows "kwp0 (saveCurrent rsp s) (\<lambda>s1 s'. s1 = s' \<and> pooled s')"
  using kinvD(2) [OF assms(1)]
proof (cases rule: procs_okE)
  case (idle q i)
  have other: "memory_ok s" "sems_inv {} 0 s" "pipes_ok s" "console_ok (con s)" using kinvD [OF assms(1)] by auto
  from idle(3) show ?thesis
  proof
    assume n: "currentProc s = None"
    have "pool_ok q s" using idle by (auto simp: pool_ok_def)
    then show ?thesis using n other idle(1) by (simp add: saveCurrent_def pooled_def)
  next
    assume c: "currentProc s = Some i"
    let ?i = "pc_rsp_update (\<lambda>_. rsp) i"
    let ?s = "s\<lparr>currentProc := Some ?i, idleProc := Some ?i\<rparr>"
    have "pool_ok q ?s" using idle by (auto simp: pool_ok_def)
    moreover have "saveCurrent rsp s = Ret ?s ?s"
      using c idle(2) by (simp add: saveCurrent_def modProc_def Let_def)
    ultimately show ?thesis using other idle(1) by (simp add: pooled_def)
  qed
next
  case (run q i c)
  then show ?thesis using assms(2) by (auto simp: running_def idlePid_def getpid_def)
qed

lemma saveCurrent_run:
  assumes "kinv s" "running s"
  shows "kwp0 (saveCurrent rsp s) (\<lambda>s1 s'. s1 = s' \<and> pooled s')"
  using kinvD(2) [OF assms(1)]
proof (cases rule: procs_okE)
  case (idle q i)
  then show ?thesis using assms(2) by (auto simp: running_def idlePid_def getpid_def)
next
  case (run q i c)
  have other: "memory_ok s" "sems_inv {} 0 s" "pipes_ok s" "console_ok (con s)" using kinvD [OF assms(1)] by auto
  let ?c = "pc_rsp_update (\<lambda>_. rsp) c"
  have idle: "(if pc_pid i = pc_pid c then pc_rsp_update (\<lambda>_. rsp) i else i) = i" using run(4) by simp
  let ?s = "s\<lparr>currentProc := Some ?c, idleProc := Some i, mcount := Suc (mcount s), procQueue := Some (q @ [?c])\<rparr>"
  have "saveCurrent rsp s = Ret ?s ?s"
    using run(1-4) idle mallocs_nz [OF other(1)]
    by (simp add: saveCurrent_def modProc_def enqueueProc_def kenqueue_def kmalloc_def Let_def)
  moreover have "pool_ok (q @ [?c]) ?s" using run by (auto simp: pool_ok_def isReady_def)
  ultimately show ?thesis using other by (simp add: pooled_def)
qed

lemma saveCurrent_ok: "kinv s \<Longrightarrow> kwp0 (saveCurrent rsp s) (\<lambda>s1 s'. s1 = s' \<and> pooled s')"
  by (cases "running s") (simp_all add: saveCurrent_run saveCurrent_idle)

lemma pick_pooled:
  assumes "pooled s" "readyCount s > 0"
  shows "kwp0 (pick (2 * length (the (procQueue s)) + 1) (dequeueCurrent s))
     (\<lambda>_ s'. kinv s' \<and> running s' \<and> runs_ready s')"
proof -
  obtain q where q: "procQueue s = Some q" "pool_ok q s" using assms(1) by (auto simp: pooled_def)
  then have "0 < count_if isReady q" using assms(2) by (auto simp: pool_ok_def)
  then obtain y where y: "y \<in> set q" "isReady y" by (auto simp: count_if_pos_iff)
  then obtain x r where xr: "q = x # r" by (cases q) auto
  have deq: "dequeueCurrent s = s\<lparr>currentProc := Some x, procQueue := Some r\<rparr>"
    using q(1) xr by (simp add: dequeueCurrent_def)
  have run: "procs_ok (dequeueCurrent s)" "running (dequeueCurrent s)"
    using pool_run [of x r s] q(2) xr by (simp_all add: deq)
  have "kinv (dequeueCurrent s)"
    using assms(1) run(1) by (simp add: kinv_def kinv_locked_def pooled_def deq)
  moreover have "ready_within (length q) (dequeueCurrent s)"
    using y xr by (auto simp: ready_within_def deq isReady_def)
  ultimately show ?thesis by (rule pick_ok [OF _ run(2)]) (use q(1) in simp)
qed

lemma idle_pooled:
  assumes "pooled s"
  shows "kinv (s\<lparr>currentProc := idleProc s\<rparr>) \<and> runs_ready (s\<lparr>currentProc := idleProc s\<rparr>)"
proof -
  obtain q i where q: "procQueue s = Some q" "pool_ok q s" "idleProc s = Some i" "pc_state i = READY"
    using assms(1) by (auto simp: pooled_def pool_ok_def)
  have "procs_ok (s\<lparr>currentProc := idleProc s\<rparr>)"
    by (rule procs_ok_idleI [of _ q i]) (use q in \<open>auto simp: pool_ok_def\<close>)
  then show ?thesis
    using assms q by (simp add: kinv_def kinv_locked_def pooled_def runs_ready_def)
qed

text \<open>The scheduler always returns, with a ready process as the current one, and returns the stack
  pointer of that process.\<close>

definition switched :: "kernel \<Rightarrow> bool" where
  "switched s \<longleftrightarrow> kinv s \<and> runs_ready s"

lemma startCycles_ok:
  "kinv s \<Longrightarrow> runs_ready s \<Longrightarrow> kwp0 (startCycles s) (\<lambda>rsp s'. switched s' \<and>
     (\<exists>c. currentProc s' = Some c \<and> rsp = pc_rsp c \<and> currentCycles s' = pc_priority c))"
  by (auto simp: startCycles_def runs_ready_def switched_def)

lemma scheduleTask_ok:
  assumes "kinv s"
  shows "kwp0 (scheduleTask rsp s) (\<lambda>r s'. switched s')"
proof (cases "\<exists>c. currentProc s = Some c \<and> pc_state c = READY \<and> currentCycles s > 0")
  case True
  then show ?thesis
    using assms kinvD(2) [OF assms]
    by (auto simp: scheduleTask_def switched_def runs_ready_def procs_ok_def)
next
  case False
  have q: "procQueue s \<noteq> None" using kinvD(2) [OF assms] by (auto simp: procs_ok_def)
  obtain s1 where s1: "saveCurrent rsp s = Ret s1 s1" "pooled s1"
    using saveCurrent_ok [OF assms, of rsp] by (auto simp: kwp0_iff)
  have "kwp0 (if readyCount s1 > 0
         then pick (2 * length (the (procQueue s1)) + 1) (dequeueCurrent s1)
         else Ret () (s1\<lparr>currentProc := idleProc s1\<rparr>)) (\<lambda>_ s'. kinv s' \<and> runs_ready s')"
    using idle_pooled [OF s1(2)] kwp_mono [OF pick_pooled [OF s1(2)]] by auto
  then have "kwp0 (if readyCount s1 > 0
         then pick (2 * length (the (procQueue s1)) + 1) (dequeueCurrent s1)
         else Ret () (s1\<lparr>currentProc := idleProc s1\<rparr>))
       (\<lambda>_ s'. kwp0 (startCycles s') (\<lambda>r s'. switched s'))"
    by (rule kwp_mono) (auto intro: kwp_mono [OF startCycles_ok])
  moreover have "scheduleTask rsp s = kbind (saveCurrent rsp s) (\<lambda>_ s1.
           kbind (if readyCount s1 > 0
                  then pick (2 * length (the (procQueue s1)) + 1) (dequeueCurrent s1)
                  else Ret () (s1\<lparr>currentProc := idleProc s1\<rparr>)) (\<lambda>_ s2.
           startCycles s2))"
    unfolding scheduleTask_def using q False by (simp only: if_False)
  ultimately show ?thesis using s1(1) by simp
qed

section \<open>The timer interrupt and giving up the processor\<close>

lemma console_ok_blink: "console_ok c \<Longrightarrow> console_ok (blinkCursor n c)"
  by (auto simp: blinkCursor_def printCharColor_ok)

lemma kinv_con: "kinv s \<Longrightarrow> console_ok c \<Longrightarrow> kinv (s\<lparr>con := c\<rparr>)"
  by (simp add: kinv_def kinv_locked_def)

lemma timer_handler_ok: "kinv s \<Longrightarrow> kinv (timer_handler s)"
  using kinvD(5) [of s]
  by (auto simp: timer_handler_def Let_def intro!: kinv_con console_ok_blink)

lemma irq0_ok: "kinv s \<Longrightarrow> kwp0 (irq0 s) (\<lambda>_ s'. switched s')"
  unfolding irq0_def kwp_bind
  by (rule kwp_mono [OF scheduleTask_ok [OF timer_handler_ok]])
    (auto simp: switched_def runs_ready_def)

text \<open>The contract of a call that gives up the processor: the state it leaves is well formed, and it
  is resumed when the scheduler has chosen the caller again.\<close>

definition mine :: "int \<Rightarrow> kernel \<Rightarrow> bool" where
  "mine me s \<longleftrightarrow> kinv s \<and> running s \<and> getpid s = me"

abbreviation ucall :: "(crash \<Rightarrow> bool) \<Rightarrow> int \<Rightarrow> 'a kres \<Rightarrow> ('a \<Rightarrow> kernel \<Rightarrow> bool) \<Rightarrow> bool" where
  "ucall E me m Q \<equiv> kwp E switched (mine me) m Q"

lemma callTimerTick_ok: "kinv s \<Longrightarrow> ucall E me (callTimerTick s) (\<lambda>_ s'. mine me s')"
  unfolding callTimerTick_def kwp_bind
  by (rule kwp0_lift [OF irq0_ok]) auto

lemma mine_same_table: "mine me s \<Longrightarrow> same_table s s' \<Longrightarrow> procs_ok s' \<Longrightarrow> mine me s'"
  using running_same_table [of s s'] kinv_locked_only_procs [of "{}" 0 s s']
  by (simp add: mine_def kinv_def same_table_def)

lemma mine_wakes: "mine me s \<Longrightarrow> wakes s s' \<Longrightarrow> kinv s' \<Longrightarrow> mine me s'"
  by (auto simp: mine_def wakes_getpid intro: running_wakes)

lemma okcall_mine:
  assumes "mine me s" "okcall s m"
  shows "kwp E I R m (\<lambda>_ s'. mine me s')"
  using assms(2) unfolding okcall_def
  by (rule kwp0_lift) (use mine_wakes [OF assms(1)] in auto)

lemma mine_kinv: "mine me s \<Longrightarrow> kinv s"
  by (simp add: mine_def)

lemma callTimerTick_mine: "mine me s \<Longrightarrow> ucall E me (callTimerTick s) (\<lambda>_ s'. mine me s')"
  by (rule callTimerTick_ok [OF mine_kinv])

lemma changeState_mine:
  assumes "mine me s"
  shows "kwp (\<lambda>c. c = NullDeref \<and> newState = TERMINATED \<and> \<not> inQueue pid s) (\<lambda>_. False) (\<lambda>_. False)
     (changeState pid newState s) (\<lambda>_ s'. mine me s')"
  unfolding changeState_def
proof (rule changeState_with_ok [of "mine me"])
  show "mine me s" by (rule assms)
  show "memory_ok s \<and> procs_ok s \<and> running s" if "mine me s" for s
    using that kinvD by (simp add: mine_def)
  show "mine me s'" if "mine me s" "same_table s s'" "procs_ok s'" for s s'
    using that by (rule mine_same_table)
  show "kwp0 (semPost sid s) (\<lambda>_ s'. mine me s')" if "mine me s" for s sid
    by (rule okcall_mine [OF that semcall_okcall [OF semPost_ok [OF mine_kinv [OF that]]]])
qed

lemma blockTask_mine:
  assumes "mine me s"
  shows "ucall E me (blockTask pid s) (\<lambda>_ s'. mine me s')"
proof -
  have "kwp0 (changeState pid BLOCKED s) (\<lambda>_ s'. mine me s')"
    by (rule kwp_mono_crash [OF changeState_mine [OF assms]]) simp
  then have "ucall E me (changeState pid BLOCKED s)
      (\<lambda>i s1. ucall E me (if i = -1 then Ret (-1) s1
         else kbind (if i = curPid s1 then callTimerTick s1 else Ret () s1) (\<lambda>_ s2. Ret 0 s2)) (\<lambda>_ s'. mine me s'))"
    by (rule kwp0_lift) (auto intro: callTimerTick_mine)
  then show ?thesis by (simp add: blockTask_def blockTask_with_def)
qed

interpretation user: block_service blockTask "\<lambda>c. c = UseAfterFree" switched "mine me" "mine me" for me
proof unfold_locales
  fix s s'
  show "ucall (\<lambda>c. c = UseAfterFree) me (blockTask (getpid s) s)
      (\<lambda>_ s'. mine me s' \<and> (UseAfterFree = UseAfterFree \<or> pipeQueue s' = pipeQueue s))" if "mine me s"
    using blockTask_mine [OF that] by simp
  show "kinv s" if "mine me s" using that by (simp add: mine_def)
  show "mine me s'" if "mine me s" "wakes s s'" "kinv s'" using that by (rule mine_wakes)
qed

end
