(* ===== verification/Tasks.thy ===== *)
theory Tasks
  imports SchedProps
begin

text \<open>
  Starting processes (\<open>startTask\<close> and what it calls), the start of the scheduler, and what the kernel
  reports about processes, from \<open>Kernel/scheduler/processManager.c\<close>.
\<close>

section \<open>The initial stack\<close>

definition STACK_SIZE :: u64 where "STACK_SIZE = 4096"
definition FRAME_SIZE :: u64 where "FRAME_SIZE = 184"

text \<open>\<open>initializeStack\<close>: the frame lies directly below \<open>rbp\<close>; \<open>base\<close>, its last field, is 176 bytes
  into it.\<close>

definition initialFrame :: "u64 \<Rightarrow> u64 \<Rightarrow> int \<Rightarrow> u64 \<Rightarrow> u64 \<Rightarrow> stackFrame" where
  "initialFrame wrapper process argc argv sf =
     \<lparr>sf_gs = 1, sf_fs = 2, sf_r15 = 3, sf_r14 = 4, sf_r13 = 5, sf_r12 = 6, sf_r11 = 7, sf_r10 = 8,
      sf_r9 = 9, sf_r8 = 10, sf_rsi = word_of_int argc, sf_rdi = process, sf_rbp = 11, sf_rdx = argv,
      sf_rcx = 12, sf_rbx = 13, sf_rax = 14, sf_rip = wrapper, sf_cs = 8, sf_eflags = 0x202,
      sf_rsp = sf + 176, sf_ss = 0, sf_base = 0\<rparr>"

definition initializeStack :: "u64 \<Rightarrow> int \<Rightarrow> u64 \<Rightarrow> u64 \<Rightarrow> kernel \<Rightarrow> kernel" where
  "initializeStack process argc argv rbp s =
     (let sf = rbp - FRAME_SIZE
      in s\<lparr>frames := (frames s)(sf \<mapsto> initialFrame (wrapperAddr s) process argc argv sf)\<rparr>)"

text \<open>The words the timer interrupt's return pops, in order: \<open>gs\<close>, \<open>fs\<close>, the general registers of
  \<open>popState\<close>, and what \<open>iretq\<close> pops.\<close>

definition frameWords :: "stackFrame \<Rightarrow> u64 list" where
  "frameWords f =
     [sf_gs f, sf_fs f, sf_r15 f, sf_r14 f, sf_r13 f, sf_r12 f, sf_r11 f, sf_r10 f, sf_r9 f, sf_r8 f,
      sf_rsi f, sf_rdi f, sf_rbp f, sf_rdx f, sf_rcx f, sf_rbx f, sf_rax f,
      sf_rip f, sf_cs f, sf_eflags f, sf_rsp f, sf_ss f, sf_base f]"

section \<open>New processes\<close>

text \<open>\<open>initializeBlock\<close>; \<open>None\<close> is \<open>NULL\<close>. The name is copied into 30 bytes without a check.\<close>

definition initializeBlock ::
  "u8 list \<Rightarrow> int \<Rightarrow> int \<times> int \<Rightarrow> kernel \<Rightarrow> pcb option kres" where
  "initializeBlock name fg fd s =
     (if fg > 1 then Ret None s
      else let (m, s1) = kmalloc 104 s
           in if m = 0 then Ret None s1
              else let ppid = getpid s1
                   in if length name \<ge> 30 then Crash BufferOverflow
                      else let pid = pidCounter s1;
                               s2 = s1\<lparr>pidCounter := pid + 1\<rparr>;
                               priority = (if fg \<noteq> 0 then FOREGROUND_PRIORITY else BACKGROUND_PRIORITY);
                               (stk, s3) = kmalloc 4096 s2
                           in if stk = 0 then Ret None s3
                              else kbind (if fst fd \<noteq> STDIN_PIPENO then pipeOpen (fst fd) s3 else Ret 0 s3) (\<lambda>_ s4.
                                   kbind (if snd fd \<noteq> STDOUT_PIPENO then pipeOpen (snd fd) s4 else Ret 0 s4) (\<lambda>_ s5.
                                   kbind (semInit 0 s5) (\<lambda>i s6.
                                     if i = -1 then Ret None s6
                                     else let rbp = stk + STACK_SIZE - 1
                                          in Ret (Some \<lparr>pc_pid = pid, pc_ppid = ppid, pc_foreground = fg,
                                               pc_state = READY, pc_priority = priority, pc_name = name,
                                               pc_fd0 = fst fd, pc_fd1 = snd fd, pc_rsp = rbp - FRAME_SIZE,
                                               pc_rbp = rbp, pc_argc = 0, pc_argv = [], pc_semId = i\<rparr>) s6))))"

text \<open>\<open>cpyArgs\<close>: the copies, or \<open>None\<close> for -1. \<open>dest\<close> is \<open>NULL\<close> when its own allocation failed, which
  is not checked; \<open>count\<close> beyond the given strings reads a wild pointer.\<close>

primrec cpyArgs :: "nat \<Rightarrow> u64 \<Rightarrow> u8 list list \<Rightarrow> u8 list list \<Rightarrow> kernel \<Rightarrow> u8 list list option kres" where
  "cpyArgs 0 dst from done s = Ret (Some done) s"
| "cpyArgs (Suc n) dst from done s =
     (case from of
        [] \<Rightarrow> Crash NullDeref
      | a # rest \<Rightarrow>
          (let (m, s1) = kmalloc (length a + 1) s
           in if dst = 0 then Crash NullDeref
              else if m = 0 then Ret None s1
              else cpyArgs n dst rest (done @ [a]) s1))"

text \<open>The last steps of \<open>startTask\<close>: stack frame, queue, ready counter, and \<open>init\<close> as the parent of
  what the shell starts in the background.\<close>

definition launch :: "u64 \<Rightarrow> int \<Rightarrow> u64 \<Rightarrow> int \<Rightarrow> pcb \<Rightarrow> kernel \<Rightarrow> kernel" where
  "launch process argc args fg p s =
     (let s1 = initializeStack process argc args (pc_rbp p) s;
          s2 = enqueueProc p s1;
          s3 = s2\<lparr>readyCount := readyCount s2 + 1\<rparr>
      in if curPid s3 = userlandPid s3 \<and> fg = 0
         then modProc (pc_pid p) (pc_ppid_update (\<lambda>_. initPid s3)) s3 else s3)"

text \<open>What follows \<open>initializeBlock\<close>. When the arguments cannot be copied, \<open>freeProcess\<close> reads the
  \<open>argc\<close> and \<open>argv\<close> that were never written.\<close>

definition startTask_args :: "u64 \<Rightarrow> int \<Rightarrow> u8 list list \<Rightarrow> int \<Rightarrow> pcb option \<Rightarrow> kernel \<Rightarrow> int kres" where
  "startTask_args process argc argv fg r s =
     (case r of
        None \<Rightarrow> Ret (-1) s
      | Some p \<Rightarrow>
          (let (args, s1) = kmalloc (nat (8 * argc)) s
           in kbind (cpyArgs (nat argc) args argv [] s1) (\<lambda>copied s2.
                case copied of
                  None \<Rightarrow> Crash UninitRead
                | Some cs \<Rightarrow>
                    Ret (pc_pid p) (launch process argc args fg (p\<lparr>pc_argc := argc, pc_argv := cs\<rparr>) s2))))"

definition startTask ::
  "u64 \<Rightarrow> int \<Rightarrow> u8 list list \<Rightarrow> int \<Rightarrow> (int \<times> int) option \<Rightarrow> kernel \<Rightarrow> int kres" where
  "startTask process argc argv fg fd s =
     (if process = 0 then Ret (-1) s
      else case (argv, fd, currentProc s) of
             ([], _, _) \<Rightarrow> Crash NullDeref
           | (_, None, None) \<Rightarrow> Crash NullDeref
           | (name # _, _, cur) \<Rightarrow>
               kbind (initializeBlock name fg
                        (case fd of Some f \<Rightarrow> f | None \<Rightarrow> (pc_fd0 (the cur), pc_fd1 (the cur))) s)
                 (\<lambda>r s1. startTask_args process argc argv fg r s1))"

section \<open>Starting the scheduler\<close>

text \<open>\<open>initScheduler\<close> starts the idle process (code at \<open>idleAddr\<close>), takes it out of the queue, and
  starts \<open>init\<close>; both get the file descriptors \<open>{0, 0}\<close>.\<close>

definition initScheduler :: "u64 \<Rightarrow> u64 \<Rightarrow> kernel \<Rightarrow> unit kres" where
  "initScheduler idleAddr initAddr s =
     (let (q, s1) = kinitQueue s; s2 = s1\<lparr>procQueue := q\<rparr>
      in if q = None then Ret () s2
         else kbind (startTask idleAddr 1 [[105, 100, 108, 101]] 0 (Some (0, 0)) s2) (\<lambda>_ s3.
              kbind (startTask initAddr 1 [[73, 110, 105, 116]] 0 (Some (0, 0)) s3) (\<lambda>i s4.
                let s5 = s4\<lparr>initPid := i, readyCount := readyCount s4 - 1\<rparr>
                in case procQueue s5 of
                     Some (p # q) \<Rightarrow> Ret () (s5\<lparr>idleProc := Some p, procQueue := Some q\<rparr>)
                   | _ \<Rightarrow> Ret () (s5\<lparr>idleProc := None\<rparr>))))"

section \<open>Reports\<close>

definition stateToStr :: "process_state \<Rightarrow> string" where
  "stateToStr st =
     (case st of READY \<Rightarrow> ''READY'' | BLOCKED \<Rightarrow> ''BLOCKED'' | TERMINATED \<Rightarrow> ''TERMINATED'' | EXITED \<Rightarrow> ''EXITED'')"

record processInfo =
  in_name :: "u8 list"
  in_pid :: int
  in_ppid :: int
  in_foreground :: int
  in_rsp :: u64
  in_rbp :: u64
  in_state :: string
  in_priority :: int

definition toProcessInfo :: "pcb \<Rightarrow> processInfo" where
  "toProcessInfo p =
     \<lparr>in_name = pc_name p, in_pid = pc_pid p, in_ppid = pc_ppid p, in_foreground = pc_foreground p,
      in_rsp = pc_rsp p, in_rbp = pc_rbp p, in_state = stateToStr (pc_state p), in_priority = pc_priority p\<rparr>"

definition getSchedulerInfo :: "kernel \<Rightarrow> processInfo list option kres" where
  "getSchedulerInfo s =
     (let (m, s1) = kmalloc 16 s
      in if m = 0 then Ret None s1
         else case procQueue s1 of
                None \<Rightarrow> Crash NullDeref
              | Some q \<Rightarrow>
                  (let (arr, s2) = kmalloc (88 * (length q + 1)) s1
                   in if arr = 0 then Ret None s2
                      else let (it, s3) = kmalloc 8 s2
                           in case currentProc s3 of
                                None \<Rightarrow> Crash NullDeref
                              | Some c \<Rightarrow> (if it = 0 then Crash UninitRead
                                           else Ret (Some (map toProcessInfo (c # q))) s3)))"

text \<open>\<open>processWrapper\<close>, in which every process starts: it ends the process when the program returns.\<close>

definition processWrapper :: "(int \<Rightarrow> u64 \<Rightarrow> kernel \<Rightarrow> unit kres) \<Rightarrow> int \<Rightarrow> u64 \<Rightarrow> kernel \<Rightarrow> int kres" where
  "processWrapper process argc argv s = kbind (process argc argv s) (\<lambda>_ s1. killCurrent s1)"

end
