(* ===== verification/TaskProps.thy ===== *)
theory TaskProps
  imports Tasks
begin

text \<open>
  The process operations keep the kernel invariant for the process that calls them. Where the code
  can go wrong the contract names how: \<open>waitpid\<close> and the killing of children can read through
  \<open>NULL\<close> (\<open>sendTaskToInit\<close> on the current process) and through a freed process.
\<close>

section \<open>Killing, yielding, waiting\<close>

definition badPointer :: "crash \<Rightarrow> bool" where
  "badPointer c \<longleftrightarrow> c = NullDeref \<or> c = UseAfterFree"

lemma changeState_user:
  assumes "mine me s" "newState \<noteq> TERMINATED"
  shows "kwp E I R (changeState pid newState s) (\<lambda>_ s'. mine me s')"
proof -
  have "kwp0 (changeState pid newState s) (\<lambda>_ s'. mine me s')"
    by (rule kwp_mono_crash [OF changeState_mine [OF assms(1)]]) (simp add: assms(2))
  then show ?thesis by (rule kwp0_lift)
qed

lemma killTask_mine:
  assumes "mine me s"
  shows "ucall E me (killTask pid s) (\<lambda>_ s'. mine me s')"
proof -
  have "ucall E me (changeState pid EXITED s)
      (\<lambda>i s1. ucall E me (if i = -1 then Ret (-1) s1
         else kbind (if i = curPid s1 then callTimerTick s1 else Ret () s1) (\<lambda>_ s2. Ret i s2)) (\<lambda>_ s'. mine me s'))"
    by (rule kwp_mono [OF changeState_user [OF assms]]) (auto intro: callTimerTick_mine)
  then show ?thesis using assms by (simp add: killTask_def)
qed

lemma killCurrent_mine: "mine me s \<Longrightarrow> ucall E me (killCurrent s) (\<lambda>_ s'. mine me s')"
  unfolding killCurrent_def by (rule killTask_mine)

lemma mine_cycles: "mine me (s\<lparr>currentCycles := n\<rparr>) = mine me s"
  by (simp add: mine_def running_def idlePid_def getpid_def cong: option.case_cong)

lemma yield_mine: "mine me s \<Longrightarrow> ucall E me (yield s) (\<lambda>_ s'. mine me s')"
  unfolding yield_def using callTimerTick_mine [of me "s\<lparr>currentCycles := 0\<rparr>"] by (simp add: mine_cycles)

lemma running_mcount [simp]: "running (s\<lparr>mcount := m\<rparr>) = running s"
  by (simp add: running_def)

lemma mine_mcount [simp]: "mine me (s\<lparr>mcount := m\<rparr>) = mine me s"
  by (simp add: mine_def running_def)

lemma semWait_mine: "mine me s \<Longrightarrow> ucall (\<lambda>c. c = UseAfterFree) me (semWait i s) (\<lambda>_ s'. mine me s')"
  unfolding semWait_def by (rule kwp_mono [OF user.semWait]) auto

lemma changeState_bad:
  assumes "mine me s"
  shows "kwp badPointer I R (changeState pid newState s) (\<lambda>_ s'. mine me s')"
  by (rule kwp_noswitch, rule kwp_mono_crash [OF changeState_mine [OF assms]]) (auto simp: badPointer_def)

lemma waitpid_mine:
  assumes "mine me s"
  shows "ucall badPointer me (waitpid pid s) (\<lambda>_ s'. mine me s')"
proof -
  have "memory_ok s" "procs_ok s" using assms kinvD by (auto simp: mine_def)
  then obtain m where m: "(if pid = curPid s then (currentProc s, s) else getProcess pid s) = (target pid s, s\<lparr>mcount := m\<rparr>)"
    using changeState_target by blast
  have m': "(if curPid s = pid then (currentProc s, s) else getProcess pid s) = (target pid s, s\<lparr>mcount := m\<rparr>)"
    using m by (simp add: eq_commute [of pid])
  have m1: "mine me (s\<lparr>mcount := m\<rparr>)" using assms by simp
  show ?thesis
  proof (cases "target pid s")
    case None
    then show ?thesis using m1 by (simp add: waitpid_def m')
  next
    case (Some p)
    have "ucall badPointer me (semWait (pc_semId p) (s\<lparr>mcount := m\<rparr>))
        (\<lambda>_ s2. ucall badPointer me (case lookupProc pid s2 of
                 None \<Rightarrow> Crash UseAfterFree
               | Some p' \<Rightarrow> changeState (pc_pid p') TERMINATED s2) (\<lambda>_ s'. mine me s'))"
      by (rule kwp_mono [OF kwp_mono_crash [OF semWait_mine [OF m1]]])
        (auto simp: badPointer_def intro: changeState_bad split: option.split)
    then show ?thesis by (simp add: waitpid_def m' Some)
  qed
qed

section \<open>The foreground process\<close>

lemma mine_modProc:
  assumes "mine me s" "\<And>p. pc_pid (f p) = pc_pid p" "\<And>p. pc_state (f p) = pc_state p"
  shows "mine me (modProc pid f s)"
  using assms kinvD(2) [OF mine_kinv [OF assms(1)]]
  by (intro mine_same_table [OF assms(1) same_table_modProc] procs_ok_modProc_same) auto

lemma terminate_loop_mine:
  "mine me s \<Longrightarrow> kwp badPointer I R (terminate_loop pid vs s) (\<lambda>_ s'. mine me s')"
proof (induction vs arbitrary: s)
  case Nil
  then show ?case by simp
next
  case (Cons v vs)
  have step: "kwp badPointer I R (changeState i TERMINATED s)
      (\<lambda>_ s1. kwp badPointer I R (terminate_loop pid vs (modProc v (pc_ppid_update (\<lambda>_. initPid s1)) s1))
         (\<lambda>_ s'. mine me s'))" for i
    by (rule kwp_mono [OF changeState_bad [OF Cons.prems]]) (rule Cons.IH, rule mine_modProc, auto)
  show ?case
    using step Cons.IH [OF Cons.prems] by (auto split: option.split)
qed

lemma terminateChildren_mine:
  assumes "mine me s"
  shows "kwp badPointer I R (terminateChildren pid s) (\<lambda>_ s'. mine me s')"
proof -
  obtain q where "procQueue s = Some q" using kinvD(2) [OF mine_kinv [OF assms]] by (auto simp: procs_ok_def)
  then show ?thesis
    using assms terminate_loop_mine [of me "s\<lparr>mcount := Suc (mcount s)\<rparr>"]
    by (auto simp: terminateChildren_def kmalloc_def badPointer_def [of NullDeref] simp del: terminate_loop.simps
        split: option.splits)
qed

lemma killCurrentForeground_mine:
  assumes "mine me s"
  shows "ucall badPointer me (killCurrentForeground s) (\<lambda>_ s'. mine me s')"
proof -
  obtain q where q: "procQueue s = Some q" "memory_ok s"
    using kinvD(1,2) [OF mine_kinv [OF assms]] by (auto simp: procs_ok_def)
  let ?s1 = "s\<lparr>mcount := Suc (mcount s)\<rparr>"
  have kill: "ucall badPointer me (terminateChildren i s') (\<lambda>_ s1. ucall badPointer me (killTask j s1) (\<lambda>_ s'. mine me s'))"
      "ucall badPointer me (terminateChildren i s') (\<lambda>_ s1. ucall badPointer me (killCurrent s1) (\<lambda>_ s'. mine me s'))"
    if "mine me s'" for i j s'
    by (rule kwp_mono [OF terminateChildren_mine [OF that]], erule killTask_mine)
      (rule kwp_mono [OF terminateChildren_mine [OF that]], erule killCurrent_mine)
  obtain c where c: "currentProc s = Some c" using assms by (auto simp: mine_def running_def)
  show ?thesis
    using assms q kill
    by (auto simp: killCurrentForeground_def c kfind_ok split: option.split)
qed

lemma nice_mine:
  assumes "mine me s"
  shows "mine me (snd (nice pid n s))"
proof -
  obtain q where q: "procQueue s = Some q" "memory_ok s" "procs_ok s"
    using kinvD(1,2) [OF mine_kinv [OF assms]] by (auto simp: procs_ok_def)
  show ?thesis
  proof (cases "List.find (\<lambda>p. pc_pid p = pid) q")
    case None
    then show ?thesis using assms q by (simp add: nice_def getProcess_ok Let_def)
  next
    case (Some p)
    let ?s1 = "s\<lparr>mcount := Suc (mcount s)\<rparr>"
    have ne: "\<not> (\<exists>c. currentProc ?s1 = Some c \<and> pc_pid c = pid)"
    proof
      assume "\<exists>c. currentProc ?s1 = Some c \<and> pc_pid c = pid"
      then obtain c where c: "currentProc s = Some c" "pc_pid c = pid" by auto
      have p: "p \<in> set q" "pc_pid p = pid" using find_Some_prop [OF Some] by auto
      have "running s" using assms by (simp add: mine_def)
      with q(3) obtain q' c' where "procQueue s = Some q'" "currentProc s = Some c'" "pool_ok (q' @ [c']) s"
        by (rule procs_runE)
      then have "pc_pid c \<notin> pc_pid ` set q" using q(1) c(1) by (auto simp: pool_ok_def)
      with p c(2) show False by (metis imageI)
    qed
    have "mine me (modProc pid (pc_priority_update f) ?s1)" for f
      by (rule mine_modProc) (use assms in auto)
    moreover have "modProc pid g ?s1 = ?s1\<lparr>procQueue := Some (upd_first (\<lambda>p. pc_pid p = pid) g q)\<rparr>" for g
      unfolding modProc_def using ne q(1) by (simp only: if_False) simp
    ultimately have "mine me (?s1\<lparr>procQueue := Some (upd_first (\<lambda>p. pc_pid p = pid) (pc_priority_update f) q)\<rparr>)" for f
      by simp
    then show ?thesis using Some q by (simp add: nice_def getProcess_ok Let_def)
  qed
qed


section \<open>Starting a process\<close>

text \<open>The semaphore of all pipes is free: nobody is inside \<open>pipeOpen\<close> or \<open>pipeClose\<close>. These never
  keep it across a switch, so it is only taken when a program waits on the kernel's own semaphore.\<close>

definition pipes_free :: "kernel \<Rightarrow> bool" where
  "pipes_free s \<longleftrightarrow> (\<exists>m. lookupSem (allPipesSem s) s = Some m \<and> s_value m > 0 \<and> s_blocked m = Some [])"

definition quietcall :: "kernel \<Rightarrow> 'a kres \<Rightarrow> bool" where
  "quietcall s m \<longleftrightarrow> kwp0 m (\<lambda>_ s'. kinv s' \<and> wakes s s' \<and> pipes_free s')"

lemma createPipe_keeps:
  assumes "kinv s" "lookupPipe pid s = None"
  shows "kwp0 (createPipe pid s) (\<lambda>r s'. r = Some pid \<and> keeps_sems s s' \<and> allPipesSem s' = allPipesSem s)"
proof -
  obtain q where q: "pipeQueue s = Some q" using kinvD(3) [OF assms(1)] by (auto simp: pipes_ok_def)
  have mem: "mallocs x n \<noteq> 0" if "kinv x" for x n using kinvD(1) [OF that] by (simp add: memory_ok_def)
  have nn: "0 \<le> nextSemId x" if "kinv x" for x using kinvD(4) [OF that] by (simp add: sems_inv_def)
  let ?s1 = "s\<lparr>mcount := Suc (mcount s)\<rparr>"
  have k1: "kinv ?s1" using assms(1) by simp
  obtain rd s2 where s2: "semInit 0 ?s1 = Ret rd s2" "rd = nextSemId s" "kinv s2" "same_pipes s s2" "keeps_sems s s2"
    using semInit_ok [OF k1, of 0] by (auto simp: kwp0_iff keeps_sems_def)
  obtain wr s3 where s3: "semInit PIPE_BUFFER_SIZE s2 = Ret wr s3" "wr = nextSemId s2" "kinv s3" "same_pipes s2 s3"
      "keeps_sems s2 s3"
    using semInit_ok [OF s2(3), of PIPE_BUFFER_SIZE] by (auto simp: kwp0_iff)
  have q3: "pipeQueue s3 = Some q" "allPipesSem s3 = allPipesSem s"
    using s2(4) s3(4) q by (simp_all add: same_pipes_def)
  have keep: "keeps_sems s s3" using s2(5) s3(5) by (rule keeps_sems_trans)
  have "rd \<noteq> -1" "wr \<noteq> -1" using nn [OF assms(1)] nn [OF s2(3)] s2(2) s3(2) by auto
  then show ?thesis
    using s2(1) s3(1) mem [OF assms(1)] mem [OF s3(3)] q3 keep
    by (simp add: createPipe_def kmalloc_def kenqueue_def Let_def keeps_sems_def lookupSem_def)
qed

lemma pipes_free_keeps: "pipes_free s \<Longrightarrow> keeps_sems s s' \<Longrightarrow> allPipesSem s' = allPipesSem s \<Longrightarrow> pipes_free s'"
  by (auto simp: pipes_free_def keeps_sems_def)

text \<open>Opening a pipe then never blocks.\<close>

lemma pipeOpen_free:
  assumes "kinv s" "pipes_free s"
  shows "quietcall s (pipeOpen pid s)"
proof -
  obtain m where m: "lookupSem (allPipesSem s) s = Some m" "s_value m > 0" "s_blocked m = Some []"
    using assms(2) by (auto simp: pipes_free_def)
  obtain s1 where s1: "semWait_with blockTask (allPipesSem s) s = Ret 0 s1" "kinv s1" "wakes s s1" "same_pipes s s1"
      "lookupSem (allPipesSem s) s1 = Some (m\<lparr>s_value := s_value m - 1\<rparr>)"
    using semWait_takes [OF assms(1) m(1,2)] by metis
  obtain s2 where s2: "getPipe pid s1 = (lookupPipe pid s1, s2)" "kinv s2" "wakes s1 s2"
      "lookupPipe pid s2 = lookupPipe pid s1" "semQueue s2 = semQueue s1" "allPipesSem s2 = allPipesSem s1"
    using getPipe_ok [OF s1(2)] by blast
  obtain i s3 where s3: "(case lookupPipe pid s1 of None \<Rightarrow> createPipe pid s2 | Some q \<Rightarrow> Ret (Some (pi_id q)) s2) = Ret (Some i) s3"
      "kinv s3" "wakes s2 s3" "keeps_sems s2 s3" "allPipesSem s3 = allPipesSem s2"
  proof (cases "lookupPipe pid s1")
    case None
    with s2(4) have n: "lookupPipe pid s2 = None" by simp
    from kwp_conj [OF createPipe_ok [OF s2(2) n, unfolded okcall_def] createPipe_keeps [OF s2(2) n]]
    show thesis using that None by (auto simp: kwp0_iff)
  next
    case (Some p)
    then show thesis using that [of "pi_id p" s2] s2(2) by (simp add: keeps_sems_def)
  qed
  let ?f = "pi_totalProcesses_update (\<lambda>n. n + 1)"
  let ?s4 = "modPipe i ?f s3"
  have k4: "kinv ?s4" by (rule kinv_modPipe [OF s3(2)]) (auto simp: pipe_ok_total)
  have sem: "allPipesSem s3 = allPipesSem s" using s1(4) s2(6) s3(5) by (simp add: same_pipes_def)
  have "lookupSem (allPipesSem s) s3 = Some (m\<lparr>s_value := s_value m - 1\<rparr>)"
    using s1(5) s2(5) s3(4) by (simp add: keeps_sems_def lookupSem_def)
  then have m4: "lookupSem (allPipesSem s) ?s4 = Some (m\<lparr>s_value := s_value m - 1\<rparr>)"
    by (simp add: lookupSem_def modPipe_def)
  obtain s5 where s5: "semPost (allPipesSem s) ?s4 = Ret 0 s5" "kinv s5" "wakes ?s4 s5" "same_pipes ?s4 s5"
      "lookupSem (allPipesSem s) s5 = Some m"
    using semPost_ok [OF k4, of "allPipesSem s"] semPost_counts [OF k4 m4, of "[]"] m(3)
    by (auto simp: semcall_def kwp0_iff)
  have "pipes_free s5"
    using s5(4,5) sem m by (simp add: pipes_free_def same_pipes_def modPipe_def)
  moreover have "wakes s s5" using s1(3) s2(3) s3(3) s5(3) by (auto intro: wakes_trans)
  moreover have "pipeOpen pid s = Ret i s5"
    using s1(1) s2(1) s3(1) s5(1) sem by (simp add: pipeOpen_def pipeOpen_with_def)
  ultimately show ?thesis using s5(2) by (simp add: quietcall_def)
qed


text \<open>The pids of the table are the same after a wake-up.\<close>

lemma wakes_pids:
  assumes "wakes s s'"
  shows "map pc_pid (liveProcs s') = map pc_pid (liveProcs s)" "idlePid s' = idlePid s"
proof -
  have q: "list_all2 woken xs ys \<Longrightarrow> map pc_pid ys = map pc_pid xs" for xs ys
    by (induction rule: list_all2_induct) (auto simp: woken_pid)
  have a: "map pc_pid (case procQueue s' of None \<Rightarrow> [] | Some q \<Rightarrow> q) =
      map pc_pid (case procQueue s of None \<Rightarrow> [] | Some q \<Rightarrow> q)"
    using assms q by (cases "procQueue s"; cases "procQueue s'") (auto simp: wakes_def)
  show i: "idlePid s' = idlePid s" using assms by (rule wakes_idlePid)
  have b: "map pc_pid (case currentProc s' of None \<Rightarrow> [] | Some c \<Rightarrow> if is_idle s' c then [] else [c]) =
      map pc_pid (case currentProc s of None \<Rightarrow> [] | Some c \<Rightarrow> if is_idle s c then [] else [c])"
    using assms i by (cases "currentProc s"; cases "currentProc s'") (auto simp: wakes_def is_idle_pid woken_pid)
  show "map pc_pid (liveProcs s') = map pc_pid (liveProcs s)"
    using a b by (simp add: liveProcs_def)
qed

lemma procs_ok_bound:
  assumes "procs_ok s" "procs_ok s'" "wakes (s\<lparr>pidCounter := n\<rparr>) s'"
  shows "procs_ok (s'\<lparr>pidCounter := pidCounter s\<rparr>)"
proof -
  have live: "liveProcs (t\<lparr>pidCounter := n\<rparr>) = liveProcs t" "idlePid (t\<lparr>pidCounter := n\<rparr>) = idlePid t" for t n
    by (simp_all add: liveProcs_def is_idle_def fun_eq_iff idlePid_def cong: option.case_cong)
  have pids: "map pc_pid (liveProcs s') = map pc_pid (liveProcs s)" "idlePid s' = idlePid s"
    using wakes_pids [OF assms(3)] by (simp_all add: live)
  have "\<forall>x \<in> set (map pc_pid (liveProcs s)). x < pidCounter s" "\<forall>x. idlePid s = Some x \<longrightarrow> x < pidCounter s"
    using assms(1) by (auto simp: procs_ok_def idlePid_def)
  then have "\<forall>x \<in> set (map pc_pid (liveProcs s')). x < pidCounter s" "\<forall>x. idlePid s' = Some x \<longrightarrow> x < pidCounter s"
    unfolding pids by auto
  then show ?thesis
    using assms(2) live(1) by (auto simp: procs_ok_def idlePid_def)
qed

lemma procs_ok_add:
  assumes "procs_ok (s\<lparr>pidCounter := pc_pid p\<rparr>)" "pidCounter s = pc_pid p + 1" "pc_state p = READY"
    "procQueue s = Some q"
  shows "procs_ok (s\<lparr>procQueue := Some (q @ [p]), readyCount := readyCount s + 1\<rparr>)"
  using assms(1)
proof (cases rule: procs_okE)
  case (idle q' i)
  then show ?thesis using assms(2-4)
    by (intro procs_ok_idleI [of _ "q @ [p]" i]) (auto simp: isReady_def)
next
  case (run q' i c)
  then show ?thesis using assms(2-4)
    by (intro procs_ok_runI [of _ "q @ [p]" i c]) (auto simp: isReady_def)
qed

definition mayOverflow :: "crash \<Rightarrow> bool" where
  "mayOverflow c \<longleftrightarrow> c = BufferOverflow \<or> c = NullDeref"

lemma kinv_pidCounter: "kinv s \<Longrightarrow> kinv (s\<lparr>pidCounter := pidCounter s + 1\<rparr>)"
proof -
  assume k: "kinv s"
  have "procs_ok (s\<lparr>pidCounter := pidCounter s + 1\<rparr>)"
    using kinvD(2) [OF k]
  proof (cases rule: procs_okE)
    case (idle q i)
    then show ?thesis by (intro procs_ok_idleI [of _ q i]) force+
  next
    case (run q i c)
    then show ?thesis by (intro procs_ok_runI [of _ q i c]) force+
  qed
  then show ?thesis using k by (simp add: kinv_def kinv_locked_def)
qed

lemma initializeBlock_succeeds:
  assumes "kinv s" "pipes_free s" "fg \<le> 1" "length name < 30"
  shows "\<exists>p s'. initializeBlock name fg fd s = Ret (Some p) s' \<and> kinv s' \<and>
     wakes (s\<lparr>pidCounter := pidCounter s + 1\<rparr>) s' \<and> pc_pid p = pidCounter s \<and> pc_state p = READY \<and>
     pc_rsp p = pc_rbp p - FRAME_SIZE \<and> pc_fd0 p = fst fd \<and> pc_fd1 p = snd fd \<and> pc_ppid p = getpid s"
proof -
  let ?s3 = "s\<lparr>pidCounter := pidCounter s + 1, mcount := Suc (Suc (mcount s))\<rparr>"
  have mem: "mallocs s n \<noteq> 0" for n using kinvD(1) [OF assms(1)] by (simp add: memory_ok_def)
  have k3: "kinv ?s3" "pipes_free ?s3"
    using kinv_pidCounter [OF assms(1)] assms by (simp_all add: pipes_free_def lookupSem_def)
  have opn: "quietcall s1 (if P then pipeOpen i s1 else Ret 0 s1)" if "kinv s1" "pipes_free s1" for s1 P i
    using that pipeOpen_free [OF that] by (simp add: quietcall_def)
  obtain a s4 where s4: "(if fst fd \<noteq> STDIN_PIPENO then pipeOpen (fst fd) ?s3 else Ret 0 ?s3) = Ret a s4"
      "kinv s4" "wakes ?s3 s4" "pipes_free s4"
    using opn [OF k3, of "fst fd \<noteq> STDIN_PIPENO" "fst fd"] unfolding quietcall_def kwp0_iff by blast
  obtain b s5 where s5: "(if snd fd \<noteq> STDOUT_PIPENO then pipeOpen (snd fd) s4 else Ret 0 s4) = Ret b s5"
      "kinv s5" "wakes s4 s5" "pipes_free s5"
    using opn [OF s4(2,4), of "snd fd \<noteq> STDOUT_PIPENO" "snd fd"] unfolding quietcall_def kwp0_iff by blast
  obtain i s6 where s6: "semInit 0 s5 = Ret i s6" "kinv s6" "wakes s5 s6"
    using semInit_ok [OF s5(2), of 0] by (auto simp: kwp0_iff)
  have "i = nextSemId s5" using semInit_ok [OF s5(2), of 0] s6(1) by (simp add: kwp0_iff)
  then have i: "i \<noteq> -1" using kinvD(4) [OF s5(2)] by (simp add: sems_inv_def)
  have w: "wakes (s\<lparr>pidCounter := pidCounter s + 1\<rparr>) s6"
    using wakes_trans [OF wakes_trans [OF s4(3) s5(3)] s6(3)] by (simp add: wakes_def)
  show ?thesis
    using s4(1) s5(1) s6(1,2) i w assms(3,4)
    by (simp add: initializeBlock_def kmalloc_def mem Let_def split del: if_split cong: if_cong)
qed

lemma initializeBlock_ok:
  assumes "kinv s" "pipes_free s"
  shows "kwp mayOverflow I R (initializeBlock name fg fd s)
     (\<lambda>r s'. kinv s' \<and> (case r of None \<Rightarrow> wakes s s'
        | Some p \<Rightarrow> pc_pid p = pidCounter s \<and> pc_state p = READY \<and>
            wakes (s\<lparr>pidCounter := pidCounter s + 1\<rparr>) s'))"
proof (cases "fg > 1 \<or> length name \<ge> 30")
  case True
  then show ?thesis
    using assms(1) kinvD(1) [OF assms(1)]
    by (auto simp: initializeBlock_def kmalloc_def memory_ok_def mayOverflow_def Let_def)
next
  case False
  then show ?thesis using initializeBlock_succeeds [OF assms, of fg name fd] by auto
qed

lemma cpyArgs_ok:
  "memory_ok s \<Longrightarrow> kwp mayOverflow I R (cpyArgs n dst from acc s)
     (\<lambda>r s'. r \<noteq> None \<and> (\<exists>m. s' = s\<lparr>mcount := m\<rparr>))"
proof (induction n arbitrary: "from" acc s)
  case 0
  then show ?case by (auto intro!: exI [of _ "mcount s"])
next
  case (Suc n)
  show ?case
  proof (cases "from")
    case Nil
    then show ?thesis by (simp add: mayOverflow_def)
  next
    case (Cons a rest)
    have "memory_ok (s\<lparr>mcount := Suc (mcount s)\<rparr>)" using Suc.prems by simp
    from kwp_mono [OF Suc.IH [OF this, of rest "acc @ [a]"], of "\<lambda>r s'. r \<noteq> None \<and> (\<exists>m. s' = s\<lparr>mcount := m\<rparr>)"]
    show ?thesis
      using Cons mallocs_nz [OF Suc.prems] by (simp add: kmalloc_val [OF Suc.prems] mayOverflow_def)
  qed
qed


lemma launch_ok:
  assumes "kinv s" "procs_ok (s\<lparr>pidCounter := pc_pid p\<rparr>)" "pidCounter s = pc_pid p + 1" "pc_state p = READY"
  shows "kinv (launch process argc args fg p s)" "getpid (launch process argc args fg p s) = getpid s"
    "running (launch process argc args fg p s) = running s"
    "\<exists>x \<in> set (the (procQueue (launch process argc args fg p s))). pc_pid x = pc_pid p \<and> pc_state x = READY"
proof -
  obtain q where q: "procQueue s = Some q" using kinvD(2) [OF assms(1)] by (auto simp: procs_ok_def)
  have mem: "mallocs s n \<noteq> 0" for n using kinvD(1) [OF assms(1)] by (simp add: memory_ok_def)
  define f where "f = frames (initializeStack process argc args (pc_rbp p) s)"
  let ?s6 = "s\<lparr>frames := f, mcount := Suc (mcount s), procQueue := Some (q @ [p]), readyCount := readyCount s + 1\<rparr>"
  have st: "initializeStack process argc args (pc_rbp p) s = s\<lparr>frames := f\<rparr>"
    by (simp add: f_def initializeStack_def Let_def)
  have enq: "enqueueProc p (s\<lparr>frames := f\<rparr>) = s\<lparr>frames := f, mcount := Suc (mcount s), procQueue := Some (q @ [p])\<rparr>"
    using q mem by (simp add: enqueueProc_def kenqueue_def kmalloc_def)
  have launch: "launch process argc args fg p s = ?s6 \<or>
      launch process argc args fg p s = modProc (pc_pid p) (pc_ppid_update (\<lambda>_. initPid ?s6)) ?s6"
    unfolding launch_def st Let_def enq by simp
  have "procs_ok ((s\<lparr>frames := f, mcount := Suc (mcount s)\<rparr>)\<lparr>procQueue := Some (q @ [p]),
      readyCount := readyCount (s\<lparr>frames := f, mcount := Suc (mcount s)\<rparr>) + 1\<rparr>)"
    by (rule procs_ok_add) (use assms q procs_ok_cong [of "s\<lparr>frames := f, mcount := Suc (mcount s), pidCounter := pc_pid p\<rparr>"
        "s\<lparr>pidCounter := pc_pid p\<rparr>"] in simp_all)
  then have ok6: "procs_ok ?s6" by simp
  have k6: "kinv ?s6" using assms(1) ok6 by (simp add: kinv_def kinv_locked_def)
  let ?m = "modProc (pc_pid p) (pc_ppid_update (\<lambda>_. initPid ?s6)) ?s6"
  have okm: "procs_ok ?m" by (rule procs_ok_modProc_same [OF ok6]) auto
  have tab: "same_table ?s6 ?m" by (rule same_table_modProc) simp
  have km: "kinv ?m"
    using kinv_locked_only_procs [of "{}" 0 ?s6 ?m] k6 okm tab by (simp add: kinv_def same_table_def)
  show "kinv (launch process argc args fg p s)" using launch k6 km by auto
  have g6: "getpid ?s6 = getpid s" "running ?s6 = running s"
    by (simp_all add: getpid_def running_def idlePid_def cong: option.case_cong)
  then show "getpid (launch process argc args fg p s) = getpid s"
      "running (launch process argc args fg p s) = running s"
    using launch tab running_same_table [OF tab] by (auto simp: same_table_def)
  have "\<exists>x \<in> set (the (procQueue ?m)). pc_pid x = pc_pid p \<and> pc_state x = READY"
  proof (cases "\<exists>c. currentProc ?s6 = Some c \<and> pc_pid c = pc_pid p")
    case True
    then show ?thesis using assms(4) by (auto simp: modProc_def)
  next
    case False
    have "p \<in> set (q @ [p])" by simp
    then have "\<exists>x \<in> set (upd_first (\<lambda>x. pc_pid x = pc_pid p) (pc_ppid_update (\<lambda>_. initPid ?s6)) (q @ [p])).
        pc_pid x = pc_pid p \<and> pc_state x = READY"
    proof -
      have "\<forall>y \<in> set (liveProcs (s\<lparr>pidCounter := pc_pid p\<rparr>)). pc_pid y < pc_pid p"
        using assms(2) by (auto simp: procs_ok_def)
      moreover have "set q \<subseteq> set (liveProcs (s\<lparr>pidCounter := pc_pid p\<rparr>))" using q by (simp add: liveProcs_def)
      ultimately have "\<forall>y \<in> set q. pc_pid y \<noteq> pc_pid p" by fastforce
      then show ?thesis using assms(4) by (simp add: upd_first_append2)
    qed
    moreover have "procQueue ?m = Some (upd_first (\<lambda>x. pc_pid x = pc_pid p) (pc_ppid_update (\<lambda>_. initPid ?s6)) (q @ [p]))"
      unfolding modProc_def using False by (simp only: if_False) simp
    ultimately show ?thesis by simp
  qed
  then show "\<exists>x \<in> set (the (procQueue (launch process argc args fg p s))). pc_pid x = pc_pid p \<and> pc_state x = READY"
    using launch assms(4) by auto
qed

lemma startTask_ok:
  assumes "kinv s" "pipes_free s"
  shows "kwp mayOverflow I R (startTask process argc argv fg fd s)
     (\<lambda>r s'. kinv s' \<and> getpid s' = getpid s \<and> running s' = running s \<and>
        (r \<noteq> -1 \<longrightarrow> (\<exists>x \<in> set (the (procQueue s')). pc_pid x = r \<and> pc_state x = READY)))"
    (is "kwp _ _ _ _ ?Q")
proof -
  have run: "running s' = running s \<and> getpid s' = getpid s" if "wakes (s\<lparr>pidCounter := n\<rparr>) s'" for n s'
  proof -
    have "currentProc s' = None \<longleftrightarrow> currentProc s = None" using that by (auto simp: wakes_def)
    then show ?thesis using wakes_getpid [OF that] wakes_idlePid [OF that]
      by (simp add: running_def getpid_def idlePid_def cong: option.case_cong)
  qed
  have after: "kwp mayOverflow I R (startTask_args process argc argv fg r s1) ?Q"
    if "kinv s1 \<and> (case r of None \<Rightarrow> wakes s s1
        | Some p \<Rightarrow> pc_pid p = pidCounter s \<and> pc_state p = READY \<and>
            wakes (s\<lparr>pidCounter := pidCounter s + 1\<rparr>) s1)" for r s1
  proof (cases r)
    case None
    have "s\<lparr>pidCounter := pidCounter s\<rparr> = s" by simp
    then show ?thesis using None that run [of "pidCounter s" s1] by (simp add: startTask_args_def)
  next
    case (Some p)
    have p: "pc_pid p = pidCounter s" "pc_state p = READY" and w: "wakes (s\<lparr>pidCounter := pidCounter s + 1\<rparr>) s1"
      and k1: "kinv s1" using that Some by auto
    have bound: "procs_ok (s1\<lparr>pidCounter := pidCounter s\<rparr>)"
      by (rule procs_ok_bound [OF kinvD(2) [OF assms(1)] kinvD(2) [OF k1] w])
    have pc: "pidCounter s1 = pidCounter s + 1" using w by (simp add: wakes_def)
    obtain args m where m: "kmalloc (nat (8 * argc)) s1 = (args, s1\<lparr>mcount := m\<rparr>)"
      by (cases "nat (8 * argc) = 0") (auto simp: kmalloc_def intro: that [of _ "mcount s1"])
    have "memory_ok (s1\<lparr>mcount := m\<rparr>)" using kinvD(1) [OF k1] by simp
    from cpyArgs_ok [OF this, of I R "nat argc" args argv "[]"]
    have "kwp mayOverflow I R (cpyArgs (nat argc) args argv [] (s1\<lparr>mcount := m\<rparr>))
      (\<lambda>copied s3. kwp mayOverflow I R (case copied of None \<Rightarrow> Crash UninitRead
         | Some cs \<Rightarrow> Ret (pc_pid p) (launch process argc args fg (p\<lparr>pc_argc := argc, pc_argv := cs\<rparr>) s3)) ?Q)"
    proof (rule kwp_mono)
      fix copied :: "u8 list list option" and s3
      assume c: "copied \<noteq> None \<and> (\<exists>n. s3 = s1\<lparr>mcount := m\<rparr>\<lparr>mcount := n\<rparr>)"
      then obtain cs n where cs: "copied = Some cs" "s3 = s1\<lparr>mcount := n\<rparr>" by auto
      let ?p = "p\<lparr>pc_argc := argc, pc_argv := cs\<rparr>"
      have "procs_ok (s3\<lparr>pidCounter := pc_pid ?p\<rparr>)"
        using bound p(1) cs(2) procs_ok_cong [of "s3\<lparr>pidCounter := pc_pid ?p\<rparr>" "s1\<lparr>pidCounter := pidCounter s\<rparr>"] by simp
      moreover have "kinv s3" "pidCounter s3 = pc_pid ?p + 1" using k1 pc p(1) cs(2) by simp_all
      ultimately show "kwp mayOverflow I R (case copied of None \<Rightarrow> Crash UninitRead
         | Some cs \<Rightarrow> Ret (pc_pid p) (launch process argc args fg (p\<lparr>pc_argc := argc, pc_argv := cs\<rparr>) s3)) ?Q"
        using launch_ok [of s3 ?p process argc args fg] cs run [OF w] p(2)
        by simp
    qed
    then show ?thesis using Some m by (simp add: startTask_args_def)
  qed
  have go: "kwp mayOverflow I R (initializeBlock name fg fd' s)
      (\<lambda>r s1. kwp mayOverflow I R (startTask_args process argc argv fg r s1) ?Q)" for name fd'
    by (rule kwp_mono [OF initializeBlock_ok [OF assms]]) (rule after)
  show ?thesis
    using assms(1) go by (auto simp: startTask_def mayOverflow_def [of NullDeref] split: list.split option.split)
qed

end
