(* ===== verification/Syscalls.thy ===== *)
theory Syscalls
  imports TaskProps
begin

text \<open>
  The two ways into the kernel besides the timer: the keyboard interrupt
  (\<open>Kernel/drivers/keyboard.c\<close>, \<open>Kernel/interruptions/snapshot.c\<close>) and the system calls
  (\<open>Kernel/interruptions/syscalls.c\<close>, with \<open>sysRead\<close> and \<open>sysWrite\<close> of \<open>Kernel/lib/stdio.c\<close>).
  What the hardware answers (the key, the saved registers, the clock chip) is an argument.
\<close>

section \<open>Keyboard\<close>

definition kbd_US :: "u8 list" where
  "kbd_US =
     [0, 0, 49, 50, 51, 52, 53, 54, 55, 56, 57, 48, 45, 61, 8, 9,
      113, 119, 101, 114, 116, 121, 117, 105, 111, 112, 91, 93, 10, 0, 97, 115,
      100, 102, 103, 104, 106, 107, 108, 59, 39, 96, 0, 92, 122, 120, 99, 118,
      98, 110, 109, 44, 46, 47, 0, 42, 0, 32, 0, 0, 0, 0, 0, 0,
      0, 0, 0, 0, 0, 0, 0, 0, 0, 0, 45, 0, 0, 0, 43, 0,
      0, 0, 0, 0, 0, 0, 0, 0, 0, 0, 0, 0, 0, 0, 0, 0,
      0, 0, 0, 0, 0, 0, 0, 0, 0, 0, 0, 0, 0, 0, 0, 0,
      0, 0, 0, 0, 0, 0, 0, 0, 0, 0, 0, 0, 0, 0, 0, 0]"

definition shift_kbd_US :: "u8 list" where
  "shift_kbd_US =
     [0, 0, 33, 64, 35, 36, 37, 94, 38, 42, 40, 41, 95, 43, 8, 9,
      81, 87, 69, 82, 84, 89, 85, 73, 79, 80, 123, 125, 10, 0, 65, 83,
      68, 70, 71, 72, 74, 75, 76, 58, 34, 96, 0, 124, 90, 88, 67, 86,
      66, 78, 77, 60, 62, 63, 0, 42, 0, 32, 0, 0, 0, 0, 0, 0,
      0, 0, 0, 0, 0, 0, 0, 0, 0, 0, 45, 0, 0, 0, 43, 0,
      0, 0, 0, 0, 0, 0, 0, 0, 0, 0, 0, 0, 0, 0, 0, 0,
      0, 0, 0, 0, 0, 0, 0, 0, 0, 0, 0, 0, 0, 0, 0, 0,
      0, 0, 0, 0, 0, 0, 0, 0, 0, 0, 0, 0, 0, 0, 0, 0]"

definition RELEASE :: u8 where "RELEASE = 128"
definition LSHIFT :: u8 where "LSHIFT = 42"
definition RSHIFT :: u8 where "RSHIFT = 54"
definition LCTRL :: u8 where "LCTRL = 29"

definition initKeyboardSystem :: "kernel \<Rightarrow> int kres" where
  "initKeyboardSystem s = kbind (pipeOpen STDIN_PIPENO s) (\<lambda>i s1. Ret i (s1\<lparr>stdinPipe := i\<rparr>))"

definition isPrintable :: "u8 \<Rightarrow> bool" where
  "isPrintable k \<longleftrightarrow> k < RELEASE \<and> kbd_US ! unat k \<noteq> 0"

text \<open>\<open>snapshotRegisters\<close> copies 17 words of the saved registers; the last comes from two words
  further up.\<close>

definition snapshotRegisters :: "(nat \<Rightarrow> u64) \<Rightarrow> kernel \<Rightarrow> kernel" where
  "snapshotRegisters rsp s = s\<lparr>registers := map (\<lambda>i. if i = 16 then rsp (i + 2) else rsp i) [0 ..< 17]\<rparr>"

definition loadRegisters :: "kernel \<Rightarrow> u64 list" where
  "loadRegisters s = registers s"

definition writeStdin :: "u8 \<Rightarrow> kernel \<Rightarrow> unit kres" where
  "writeStdin c s = kbind (pipePutchar STDIN_PIPENO c s) (\<lambda>_ s1. Ret () s1)"

text \<open>What a key does when it is no modifier. With Ctrl held the table is read at the scan code, without
  a check that it is below 128.\<close>

definition plainKey :: "u8 \<Rightarrow> (nat \<Rightarrow> u64) \<Rightarrow> kernel \<Rightarrow> unit kres" where
  "plainKey k rsp s =
     (if controlFlag s \<noteq> 0
      then if k \<ge> RELEASE then Crash BufferOverflow
           else if kbd_US ! unat k = 114 then Ret () (snapshotRegisters rsp s)
           else if kbd_US ! unat k = 99 then kbind (killCurrentForeground s) (\<lambda>_ s1. Ret () s1)
           else if kbd_US ! unat k = 100 then writeStdin (-1) s
           else Ret () s
      else if shiftFlag s \<noteq> 0 \<and> isPrintable k then writeStdin (shift_kbd_US ! unat k) s
      else if isPrintable k then writeStdin (kbd_US ! unat k) s
      else Ret () s)"

text \<open>\<open>keyboardHandler\<close>; \<open>has\<close>, \<open>key1\<close> and \<open>key2\<close> are what \<open>_hasKey\<close> and two calls of \<open>_getKey\<close>
  return.\<close>

definition keyboardHandler :: "bool \<Rightarrow> u8 \<Rightarrow> u8 \<Rightarrow> (nat \<Rightarrow> u64) \<Rightarrow> kernel \<Rightarrow> unit kres" where
  "keyboardHandler has key1 key2 rsp s =
     (if \<not> has then Ret () s
      else let s1 = (if key1 = 0xE0 then s\<lparr>isSpecial := 1\<rparr> else s);
               k = (if isSpecial s1 \<noteq> 0 then key2 else key1);
               s2 = (if isSpecial s1 \<noteq> 0 then s1\<lparr>isSpecial := 0\<rparr> else s1)
           in if k = 0xE0 then Ret () s2
              else if k = RSHIFT \<or> k = LSHIFT then Ret () (s2\<lparr>shiftFlag := 1\<rparr>)
              else if k = RSHIFT + RELEASE \<or> k = LSHIFT + RELEASE then Ret () (s2\<lparr>shiftFlag := 0\<rparr>)
              else if k = LCTRL then Ret () (s2\<lparr>controlFlag := 1\<rparr>)
              else if k = LCTRL + RELEASE then Ret () (s2\<lparr>controlFlag := 0\<rparr>)
              else plainKey k rsp s2)"

definition readStdin :: "kernel \<Rightarrow> int kres" where
  "readStdin s =
     kbind (pipeRead STDIN_PIPENO (s\<lparr>con := setCursor 1 (con s)\<rparr>)) (\<lambda>c s1.
       Ret c (s1\<lparr>con := setCursor 0 (con s1)\<rparr>))"

section \<open>Reading and writing\<close>

text \<open>The loop of \<open>sysWrite\<close>: at most \<open>n\<close> more bytes, up to a zero byte.\<close>

primrec sysWrite_loop :: "int \<Rightarrow> u8 \<Rightarrow> u8 \<Rightarrow> nat \<Rightarrow> int \<Rightarrow> u8 list \<Rightarrow> kernel \<Rightarrow> int kres" where
  "sysWrite_loop fd1 fg bg n i [] s = Ret i s"
| "sysWrite_loop fd1 fg bg n i (c # cs) s =
     (if n = 0 \<or> c = 0 then Ret i s
      else if fd1 = STDOUT_PIPENO
      then sysWrite_loop fd1 fg bg (n - 1) (i + 1) cs (s\<lparr>con := printCharColor c fg bg True (con s)\<rparr>)
      else kbind (pipePutchar fd1 c s) (\<lambda>written s1.
             if written = -1 then Ret (-1) s1 else sysWrite_loop fd1 fg bg (n - 1) (i + 1) cs s1))"

definition sysWrite :: "u8 list option \<Rightarrow> nat \<Rightarrow> (u8 \<times> u8) option \<Rightarrow> kernel \<Rightarrow> int kres" where
  "sysWrite buffer n colors s =
     (case buffer of
        None \<Rightarrow> Ret (-1) s
      | Some cs \<Rightarrow>
          (if n = 0 then Ret (-1) s
           else case currentProc s of
                  None \<Rightarrow> Crash NullDeref
                | Some p \<Rightarrow>
                    (let (fg, bg) = (case colors of None \<Rightarrow> (LGREY, BLACK) | Some c \<Rightarrow> c)
                     in sysWrite_loop (pc_fd1 p) fg bg n 0 cs s)))"

definition sysRead :: "kernel \<Rightarrow> int kres" where
  "sysRead s =
     (case currentProc s of
        None \<Rightarrow> Crash NullDeref
      | Some p \<Rightarrow>
          (if pc_fd0 p = 0 then if pc_foreground p \<noteq> 0 then readStdin s else Ret (-1) s
           else pipeRead (pc_fd0 p) s))"

section \<open>Clock and memory\<close>

text \<open>\<open>getRTC\<close> of the byte the clock chip returned (packed BCD).\<close>

definition getRTC :: "u8 \<Rightarrow> u8" where
  "getRTC x = (x div 16) * 10 + (x AND 0xf)"

text \<open>\<open>getMem\<close> counts its bytes in eight bits; fuel for the loop, \<open>None\<close> when it is not enough.\<close>

primrec getMem_loop :: "nat \<Rightarrow> (u64 \<Rightarrow> u8) \<Rightarrow> u64 \<Rightarrow> u64 \<Rightarrow> u8 \<Rightarrow> (u8 \<Rightarrow> u8) \<Rightarrow> (u8 \<Rightarrow> u8) option" where
  "getMem_loop 0 mem direc n i buf = None"
| "getMem_loop (Suc k) mem direc n i buf =
     (if ucast i < n then getMem_loop k mem direc n (i + 1) (buf(i := mem (direc + ucast i))) else Some buf)"

definition getMem :: "nat \<Rightarrow> (u64 \<Rightarrow> u8) \<Rightarrow> u64 \<Rightarrow> u64 \<Rightarrow> (u8 \<Rightarrow> u8) \<Rightarrow> (u8 \<Rightarrow> u8) option" where
  "getMem fuel mem direc n buf = getMem_loop fuel mem direc n 0 buf"

text \<open>\<open>sleep\<close>: yields and halts until the seconds have passed; the halt ends with the next timer
  interrupt. The number of rounds is bounded by fuel, \<open>OutOfFuel\<close> when it is used up.\<close>

primrec sleep_loop :: "nat \<Rightarrow> int \<Rightarrow> u64 \<Rightarrow> kernel \<Rightarrow> unit kres" where
  "sleep_loop 0 start seconds s = Crash OutOfFuel"
| "sleep_loop (Suc k) start seconds s =
     (if (word_of_int (seconds_elapsed s - start) :: u64) \<le> seconds
      then kbind (yield s) (\<lambda>_ s1. kbind (callTimerTick s1) (\<lambda>_ s2. sleep_loop k start seconds s2))
      else Ret () s)"

definition sleep :: "nat \<Rightarrow> u64 \<Rightarrow> kernel \<Rightarrow> unit kres" where
  "sleep fuel seconds s = sleep_loop fuel (seconds_elapsed s) seconds s"

section \<open>The system calls\<close>

text \<open>One constructor per number of \<open>syscodes.h\<close>, with the arguments its case uses, already converted
  as the case converts them. \<open>SYS_PRINTMEM\<close> and \<open>SYS_WAIT\<close> carry their loop bound.\<close>

datatype syscall =
  SYS_READ
| SYS_WRITE "u8 list option" nat "(u8 \<times> u8) option"
| SYS_CLEAN_SCREEN
| SYS_INFOREG
| SYS_DATENTIME u8
| SYS_PRINTMEM nat "u64 \<Rightarrow> u8" u64 u64
| SYS_SET_CURSOR int
| SYS_WAIT nat u64
| SYS_MALLOC nat
| SYS_FREE u64
| SYS_GETMEMINFO
| SYS_CREATE_PROCESS u64 int "u8 list list" int "(int \<times> int) option"
| SYS_GETPID
| SYS_GETPROCESSESINFO
| SYS_KILL int
| SYS_EXIT
| SYS_NICE int int
| SYS_BLOCK int
| SYS_RESUME int
| SYS_YIELD
| SYS_WAITPID int
| SYS_SEMOPEN "u8 list" int
| SYS_SEMINIT int
| SYS_SEMWAIT int
| SYS_SEMPOST int
| SYS_SEMCLOSE int
| SYS_SEMPRINT
| SYS_PIPEOPEN int
| SYS_PIPECLOSE int
| SYS_PIPEREAD int
| SYS_PIPEWRITE int "u8 list"
| SYS_PIPEPRINT

text \<open>What a call returns: an \<open>int\<close>, a pointer, or one of the structures it allocates and fills.\<close>

datatype sysret =
  RInt int
| RPtr u64
| RRegs "u64 list"
| RBytes "u8 \<Rightarrow> u8"
| RProcs "processInfo list option"
| RSems "userlandSem list option"
| RPipes "userlandPipe list option"

definition ret :: "('a \<Rightarrow> sysret) \<Rightarrow> 'a kres \<Rightarrow> sysret kres" where
  "ret f m = kbind m (\<lambda>a s. Ret (f a) s)"

definition zero :: "'a kres \<Rightarrow> sysret kres" where
  "zero m = kbind m (\<lambda>_ s. Ret (RInt 0) s)"

fun syscallHandler :: "syscall \<Rightarrow> kernel \<Rightarrow> sysret kres" where
  "syscallHandler SYS_READ s = ret RInt (sysRead s)"
| "syscallHandler (SYS_WRITE b n c) s = ret RInt (sysWrite b n c s)"
| "syscallHandler SYS_CLEAN_SCREEN s = Ret (RInt 0) (s\<lparr>con := clearScreen (con s)\<rparr>)"
| "syscallHandler SYS_INFOREG s = Ret (RRegs (loadRegisters s)) s"
| "syscallHandler (SYS_DATENTIME x) s = Ret (RInt (uint (getRTC x))) s"
| "syscallHandler (SYS_PRINTMEM k mem d n) s =
     (case getMem k mem d n (\<lambda>_. 0) of None \<Rightarrow> Crash OutOfFuel | Some b \<Rightarrow> Ret (RBytes b) s)"
| "syscallHandler (SYS_SET_CURSOR a) s = Ret (RInt 0) (s\<lparr>con := setCursor a (con s)\<rparr>)"
| "syscallHandler (SYS_WAIT k n) s = zero (sleep k n s)"
| "syscallHandler (SYS_MALLOC n) s = (let (m, s1) = kmalloc n s in Ret (RPtr m) s1)"
| "syscallHandler (SYS_FREE p) s = Ret (RInt 0) s"
| "syscallHandler SYS_GETMEMINFO s = (let (m, s1) = kmalloc 16 s in Ret (RPtr m) s1)"
| "syscallHandler (SYS_CREATE_PROCESS f argc argv fg fd) s = ret RInt (startTask f argc argv fg fd s)"
| "syscallHandler SYS_GETPID s = Ret (RInt (getpid s)) s"
| "syscallHandler SYS_GETPROCESSESINFO s = ret RProcs (getSchedulerInfo s)"
| "syscallHandler (SYS_KILL pid) s = ret RInt (killTask pid s)"
| "syscallHandler SYS_EXIT s = ret RInt (killCurrent s)"
| "syscallHandler (SYS_NICE pid n) s = Ret (RInt 0) (snd (nice pid n s))"
| "syscallHandler (SYS_BLOCK pid) s = zero (blockTask pid s)"
| "syscallHandler (SYS_RESUME pid) s = zero (resumeTask pid s)"
| "syscallHandler SYS_YIELD s = zero (yield s)"
| "syscallHandler (SYS_WAITPID pid) s = ret RInt (waitpid pid s)"
| "syscallHandler (SYS_SEMOPEN name v) s = ret RInt (semOpen name v s)"
| "syscallHandler (SYS_SEMINIT v) s = ret RInt (semInit v s)"
| "syscallHandler (SYS_SEMWAIT i) s = ret RInt (semWait i s)"
| "syscallHandler (SYS_SEMPOST i) s = ret RInt (semPost i s)"
| "syscallHandler (SYS_SEMCLOSE i) s = ret RInt (semClose i s)"
| "syscallHandler SYS_SEMPRINT s = ret RSems (getSemInfo s)"
| "syscallHandler (SYS_PIPEOPEN i) s = ret RInt (pipeOpen i s)"
| "syscallHandler (SYS_PIPECLOSE i) s = ret RInt (pipeClose i s)"
| "syscallHandler (SYS_PIPEREAD i) s = ret RInt (pipeRead i s)"
| "syscallHandler (SYS_PIPEWRITE i str) s = ret RInt (pipeWrite i str s)"
| "syscallHandler SYS_PIPEPRINT s = ret RPipes (getPipeInfo s)"

end
