(* ===== verification/SyscallProps.thy ===== *)
theory SyscallProps
  imports Syscalls
begin

text \<open>
  Every system call and every key keeps the kernel invariant for the process it interrupts. The
  only crashes left are the ones the code really has: a bad pointer (\<open>waitpid\<close>, killing children,
  a pipe closed under its user), a process name of 30 bytes or more, Ctrl held while a key goes up,
  and the fuel of the two bounded loops.
\<close>

section \<open>Calls that only change the screen\<close>

lemma mine_con: "mine me s \<Longrightarrow> console_ok c \<Longrightarrow> mine me (s\<lparr>con := c\<rparr>)"
proof -
  have "running (s\<lparr>con := c\<rparr>) = running s" "getpid (s\<lparr>con := c\<rparr>) = getpid s"
    by (simp_all add: running_def idlePid_def getpid_def cong: option.case_cong)
  then show "mine me s \<Longrightarrow> console_ok c \<Longrightarrow> mine me (s\<lparr>con := c\<rparr>)" by (simp add: mine_def kinv_con)
qed

lemma mine_console: "mine me s \<Longrightarrow> console_ok (con s)"
  using kinvD(5) by (simp add: mine_def)

lemma console_ok_setCursor: "console_ok c \<Longrightarrow> console_ok (setCursor a c)"
proof -
  assume "console_ok c"
  then have "console_ok (c\<lparr>cursorActive := a\<rparr>)" by (simp add: console_ok_def)
  then show ?thesis by (auto simp: setCursor_def Let_def stopCursor_def printCharColor_ok)
qed

lemma console_ok_clearScreen: "console_ok c \<Longrightarrow> console_ok (clearScreen c)"
proof -
  have "console_ok c \<Longrightarrow> console_ok ((newLine ^^ n) c)" for n c
    by (induction n) (auto simp: newLine_ok)
  then show "console_ok c \<Longrightarrow> console_ok (clearScreen c)" by (simp add: clearScreen_def)
qed

section \<open>Calls that only allocate\<close>

definition readonly :: "kernel \<Rightarrow> 'a kres \<Rightarrow> bool" where
  "readonly s m \<longleftrightarrow> (\<exists>a n. m = Ret a (s\<lparr>mcount := n\<rparr>))"

lemma readonly_mine: "readonly s m \<Longrightarrow> mine me s \<Longrightarrow> kwp E I R m (\<lambda>_ s'. mine me s')"
  by (auto simp: readonly_def)

lemma readonly_Ret [simp]: "readonly s (Ret a s)" "readonly s (Ret a (s\<lparr>mcount := n\<rparr>))"
  unfolding readonly_def by (metis kernel.surjective kernel.update_convs(2), blast)

lemma kmalloc_cases: "\<exists>a n. kmalloc k s = (a, s\<lparr>mcount := n\<rparr>)"
proof (cases "k = 0")
  case True
  then show ?thesis by (intro exI [of _ 0] exI [of _ "mcount s"]) (simp add: kmalloc_def)
qed (auto simp: kmalloc_def)

lemma getBlockedPids_readonly:
  assumes "kinv s"
  shows "readonly s (getBlockedPids i s)"
proof -
  have k: "kinv_locked {} 0 s" using assms by (simp add: kinv_def)
  have mem: "mallocs s n \<noteq> 0" for n using kinvD(1) [OF assms] by (simp add: memory_ok_def)
  have "lookupSem i s = Some m \<Longrightarrow> s_blocked m \<noteq> None" for m
    using lookupSem_ok(2) [OF kinvD(4) [OF assms]] by (simp add: sem_ok_def)
  then show ?thesis
    by (auto simp: getBlockedPids_def findSem_ok [OF k] kmalloc_def mem Let_def split: option.split)
qed

lemma readonly_bind:
  assumes "readonly s m" "\<And>a n. readonly (s\<lparr>mcount := n\<rparr>) (f a (s\<lparr>mcount := n\<rparr>))"
  shows "readonly s (kbind m f)"
proof -
  obtain a n where m: "m = Ret a (s\<lparr>mcount := n\<rparr>)" using assms(1) by (auto simp: readonly_def)
  from assms(2) [of n a] obtain b k where "f a (s\<lparr>mcount := n\<rparr>) = Ret b (s\<lparr>mcount := k\<rparr>)"
    by (auto simp: readonly_def)
  then show ?thesis using m by (auto simp: readonly_def)
qed

lemma readonly_from: "readonly (s\<lparr>mcount := n\<rparr>) m \<Longrightarrow> readonly s m"
  by (auto simp: readonly_def)

lemma getSingleSem_readonly:
  assumes "kinv s"
  shows "readonly s (getSingleSem i s)"
proof -
  have k: "kinv_locked {} 0 s" using assms by (simp add: kinv_def)
  have mem: "mallocs s n \<noteq> 0" for n using kinvD(1) [OF assms] by (simp add: memory_ok_def)
  have "readonly s (kbind (getBlockedPids j (s\<lparr>mcount := n\<rparr>)) (\<lambda>b s4. Ret (f b) s4))" for j n and f :: "_ \<Rightarrow> userlandSem option"
    by (rule readonly_from [where n = n], rule readonly_bind [OF getBlockedPids_readonly]) (use assms in auto)
  then show ?thesis
    by (auto simp: getSingleSem_def findSem_ok [OF k] kmalloc_def mem Let_def split: option.split)
qed

lemma getSemInfo_loop_readonly: "kinv s \<Longrightarrow> readonly s (getSemInfo_loop ms acc s)"
proof (induction ms arbitrary: s acc)
  case Nil
  then show ?case by simp
next
  case (Cons m ms)
  obtain a n where a: "kmalloc (length (s_name m) + 1) s = (a, s\<lparr>mcount := n\<rparr>)" using kmalloc_cases by blast
  have "readonly s (kbind (getBlockedPids (s_id m) (s\<lparr>mcount := n\<rparr>)) (\<lambda>b s2. getSemInfo_loop ms (acc @ [userSem m b]) s2))"
    by (rule readonly_from [where n = n], rule readonly_bind [OF getBlockedPids_readonly])
      (use Cons in auto)
  then show ?case using a by simp
qed

lemma getSemInfo_readonly:
  assumes "kinv s"
  shows "readonly s (getSemInfo s)"
proof -
  obtain q where q: "semQueue s = Some q" using kinvD(4) [OF assms] by (auto simp: sems_inv_def)
  have mem: "mallocs s n \<noteq> 0" for n using kinvD(1) [OF assms] by (simp add: memory_ok_def)
  have "readonly s (getSemInfo_loop q [] (s\<lparr>mcount := n\<rparr>))" for n
    by (rule readonly_from [where n = n], rule getSemInfo_loop_readonly) (use assms in simp)
  then show ?thesis using q by (auto simp: getSemInfo_def kmalloc_def mem Let_def)
qed

lemma getSchedulerInfo_readonly:
  assumes "mine me s"
  shows "readonly s (getSchedulerInfo s)"
proof -
  obtain q where q: "procQueue s = Some q" using kinvD(2) [OF mine_kinv [OF assms]] by (auto simp: procs_ok_def)
  obtain c where c: "currentProc s = Some c" using assms by (auto simp: mine_def running_def)
  have mem: "mallocs s n \<noteq> 0" for n using kinvD(1) [OF mine_kinv [OF assms]] by (simp add: memory_ok_def)
  show ?thesis using q c by (simp add: getSchedulerInfo_def kmalloc_def mem Let_def)
qed

lemma getPipeInfo_loop_readonly: "kinv s \<Longrightarrow> readonly s (getPipeInfo_loop ps acc s)"
proof (induction ps arbitrary: s acc)
  case Nil
  then show ?case by simp
next
  case (Cons p ps)
  show ?case
    unfolding getPipeInfo_loop.simps
    by (intro readonly_bind getSingleSem_readonly) (use Cons in \<open>auto intro!: getSingleSem_readonly readonly_bind\<close>)
qed


section \<open>Every system call\<close>

definition syscallCrash :: "crash \<Rightarrow> bool" where
  "syscallCrash c \<longleftrightarrow> c = NullDeref \<or> c = UseAfterFree \<or> c = BufferOverflow \<or> c = OutOfFuel"

abbreviation keeps :: "int \<Rightarrow> 'a kres \<Rightarrow> bool" where
  "keeps me m \<equiv> ucall syscallCrash me m (\<lambda>_ s'. mine me s')"

lemma keeps_uaf: "ucall (\<lambda>c. c = UseAfterFree) me m (\<lambda>_ s'. mine me s') \<Longrightarrow> keeps me m"
  by (erule kwp_mono_crash) (simp add: syscallCrash_def)

lemma keeps_bad: "ucall badPointer me m (\<lambda>_ s'. mine me s') \<Longrightarrow> keeps me m"
  by (erule kwp_mono_crash) (auto simp: syscallCrash_def badPointer_def)

lemma keeps_bind: "keeps me m \<Longrightarrow> (\<And>a s'. mine me s' \<Longrightarrow> keeps me (f a s')) \<Longrightarrow> keeps me (kbind m f)"
  unfolding kwp_bind by (erule kwp_mono) simp

lemma keeps_semcall: "mine me s \<Longrightarrow> semcall s m \<Longrightarrow> keeps me m"
  by (rule okcall_mine [OF _ semcall_okcall])

lemma keeps_pipeOpen: "mine me s \<Longrightarrow> keeps me (pipeOpen i s)"
  unfolding pipeOpen_def by (rule keeps_uaf, rule user.pipeOpen)

lemma keeps_pipeClose: "mine me s \<Longrightarrow> keeps me (pipeClose i s)"
  unfolding pipeClose_def by (rule keeps_uaf, rule user.pipeClose)

lemma keeps_pipeRead: "mine me s \<Longrightarrow> keeps me (pipeRead i s)"
  unfolding pipeRead_def by (rule keeps_uaf, rule user.pipeRead)

lemma keeps_pipePutchar: "mine me s \<Longrightarrow> keeps me (pipePutchar i c s)"
  unfolding pipePutchar_def by (rule keeps_uaf, rule user.pipePutchar)

lemma keeps_pipeWrite: "mine me s \<Longrightarrow> keeps me (pipeWrite i str s)"
  unfolding pipeWrite_def by (rule keeps_uaf, rule user.pipeWrite) simp

lemma keeps_sysWrite_loop: "mine me s \<Longrightarrow> keeps me (sysWrite_loop fd1 fg bg n i cs s)"
proof (induction cs arbitrary: n i s)
  case Nil
  then show ?case by simp
next
  case (Cons c cs)
  have "mine me (s\<lparr>con := printCharColor c fg bg True (con s)\<rparr>)"
    using Cons.prems by (intro mine_con) (auto simp: printCharColor_ok mine_console)
  moreover have "keeps me (kbind (pipePutchar fd1 c s) (\<lambda>written s1.
             if written = -1 then Ret (-1) s1 else sysWrite_loop fd1 fg bg (n - 1) (i + 1) cs s1))"
    by (rule keeps_bind [OF keeps_pipePutchar [OF Cons.prems]]) (simp add: Cons.IH)
  ultimately show ?case using Cons.prems Cons.IH by (auto simp del: kwp_bind)
qed

lemma keeps_sysWrite: "mine me s \<Longrightarrow> keeps me (sysWrite b n c s)"
  by (auto simp: sysWrite_def syscallCrash_def [of NullDeref] keeps_sysWrite_loop split: option.split prod.split)

lemma keeps_readStdin:
  assumes "mine me s"
  shows "keeps me (readStdin s)"
  unfolding readStdin_def
  by (rule keeps_bind [OF keeps_pipeRead])
    (use assms in \<open>auto intro!: mine_con console_ok_setCursor simp: mine_console\<close>)

lemma keeps_sysRead: "mine me s \<Longrightarrow> keeps me (sysRead s)"
  by (auto simp: sysRead_def syscallCrash_def [of NullDeref] keeps_readStdin keeps_pipeRead split: option.split)

lemma keeps_sleep_loop: "mine me s \<Longrightarrow> keeps me (sleep_loop k start n s)"
proof (induction k arbitrary: s)
  case 0
  then show ?case by (simp add: syscallCrash_def)
next
  case (Suc k)
  have "keeps me (kbind (yield s) (\<lambda>_ s1. kbind (callTimerTick s1) (\<lambda>_ s2. sleep_loop k start n s2)))"
    by (intro keeps_bind yield_mine callTimerTick_mine Suc)
  then show ?case using Suc.prems by (simp del: kwp_bind)
qed

lemma keeps_getPipeInfo:
  assumes "mine me s"
  shows "keeps me (getPipeInfo s)"
proof -
  have mem: "mallocs s n \<noteq> 0" for n using kinvD(1) [OF mine_kinv [OF assms]] by (simp add: memory_ok_def)
  have rest: "keeps me (case pipeQueue s2 of
             None \<Rightarrow> Crash NullDeref
           | Some q \<Rightarrow>
               (let (arr, s3) = kmalloc (32 * length q) s2
                in if arr = 0 then Ret None s3
                   else let (it, s4) = kmalloc 8 s3
                        in if it = 0 then Crash UninitRead
                           else kbind (getPipeInfo_loop q [] s4) (\<lambda>ps s5.
                                kbind (semPost (allPipesSem s5) s5) (\<lambda>_ s6. Ret (Some ps) s6))))"
    if m: "mine me s2" for s2
  proof -
    have mem2: "mallocs s2 n \<noteq> 0" for n using kinvD(1) [OF mine_kinv [OF m]] by (simp add: memory_ok_def)
    have "keeps me (kbind (getPipeInfo_loop q [] (s2\<lparr>mcount := n\<rparr>)) (\<lambda>ps s5.
        kbind (semPost (allPipesSem s5) s5) (\<lambda>_ s6. Ret (Some ps) s6)))" for q n
    proof (rule keeps_bind)
      show "keeps me (getPipeInfo_loop q [] (s2\<lparr>mcount := n\<rparr>))"
        by (rule readonly_mine [OF getPipeInfo_loop_readonly]) (use m mine_kinv in auto)
      show "keeps me (kbind (semPost (allPipesSem s5) s5) (\<lambda>_ s6. Ret (Some ps) s6))" if "mine me s5" for ps s5
        by (rule keeps_bind [OF keeps_semcall [OF that semPost_ok]]) (use that mine_kinv in auto)
    qed
    then show ?thesis
      using m by (auto simp: kmalloc_def mem2 Let_def syscallCrash_def [of NullDeref] simp del: kwp_bind split: option.split)
  qed
  have "keeps me (kbind (semWait_with blockTask (allPipesSem s) (s\<lparr>mcount := Suc (mcount s)\<rparr>)) (\<lambda>_ s2.
      case pipeQueue s2 of
             None \<Rightarrow> Crash NullDeref
           | Some q \<Rightarrow>
               (let (arr, s3) = kmalloc (32 * length q) s2
                in if arr = 0 then Ret None s3
                   else let (it, s4) = kmalloc 8 s3
                        in if it = 0 then Crash UninitRead
                           else kbind (getPipeInfo_loop q [] s4) (\<lambda>ps s5.
                                kbind (semPost (allPipesSem s5) s5) (\<lambda>_ s6. Ret (Some ps) s6)))))"
    by (rule keeps_bind [OF keeps_uaf [OF semWait_mine [unfolded semWait_def]]]) (use assms rest in auto)
  then show ?thesis by (simp add: getPipeInfo_def getPipeInfo_with_def kmalloc_def mem Let_def del: kwp_bind)
qed

lemma keeps_startTask:
  assumes "mine me s" "pipes_free s"
  shows "keeps me (startTask f argc argv fg fd s)"
  by (rule kwp_mono [OF kwp_mono_crash [OF startTask_ok [OF mine_kinv [OF assms(1)] assms(2)]]])
    (use assms(1) in \<open>auto simp: syscallCrash_def mayOverflow_def mine_def\<close>)

lemma keeps_ret: "keeps me m \<Longrightarrow> keeps me (ret f m)" "keeps me n \<Longrightarrow> keeps me (zero n)"
  by (auto simp: ret_def zero_def elim: kwp_mono)

lemma mine_resume: "mine me s \<Longrightarrow> keeps me (resumeTask pid s)"
  using resumeTask_ok [of s pid] kinvD(1,2) [of s] mine_same_table same_table_wakes
  by (auto simp: mine_def [of me s] kwp0_iff) (metis mine_def)

text \<open>Starting a process is covered while the semaphore of all pipes is free.\<close>

lemma syscallHandler_ok:
  assumes m: "mine me s"
    and "\<And>f argc argv fg fd. c = SYS_CREATE_PROCESS f argc argv fg fd \<Longrightarrow> pipes_free s"
  shows "keeps me (syscallHandler c s)"
proof (cases c)
  case (SYS_PRINTMEM k mem d n)
  then show ?thesis using m by (simp add: syscallCrash_def split: option.split)
next
  case (SYS_CREATE_PROCESS f argc argv fg fd)
  then show ?thesis using assms by (simp add: keeps_ret keeps_startTask)
next
  case (SYS_MALLOC n)
  then show ?thesis using m kmalloc_cases [of n s] by auto
next
  case SYS_GETMEMINFO
  then show ?thesis using m kmalloc_cases [of 16 s] by auto
next
  case SYS_GETPROCESSESINFO
  then show ?thesis using m by (simp add: keeps_ret readonly_mine [OF getSchedulerInfo_readonly])
next
  case SYS_SEMPRINT
  then show ?thesis using m by (simp add: keeps_ret readonly_mine [OF getSemInfo_readonly] mine_kinv)
next
  case (SYS_SEMOPEN x y)
  then show ?thesis using keeps_semcall [OF m semOpen_ok] m by (simp add: keeps_ret mine_kinv)
next
  case (SYS_SEMINIT x)
  then show ?thesis using keeps_semcall [OF m semcall_semInit] m by (simp add: keeps_ret mine_kinv)
next
  case (SYS_SEMPOST x)
  then show ?thesis using keeps_semcall [OF m semPost_ok] m by (simp add: keeps_ret mine_kinv)
next
  case (SYS_SEMCLOSE x)
  then show ?thesis using keeps_semcall [OF m semClose_ok] m by (simp add: keeps_ret mine_kinv)
next
  case (SYS_CLEAN_SCREEN)
  then show ?thesis using m by (simp add: mine_con mine_console console_ok_clearScreen)
next
  case (SYS_SET_CURSOR a)
  then show ?thesis using m by (simp add: mine_con mine_console console_ok_setCursor)
qed (simp_all add: m keeps_ret keeps_sysRead keeps_sysWrite sleep_def keeps_sleep_loop killTask_mine killCurrent_mine
    nice_mine blockTask_mine mine_resume yield_mine keeps_bad [OF waitpid_mine] keeps_uaf [OF semWait_mine]
    keeps_pipeOpen keeps_pipeClose keeps_pipeRead keeps_pipeWrite keeps_getPipeInfo)

section \<open>Every key\<close>

lemma mine_flags [simp]:
  "mine me (s\<lparr>isSpecial := x\<rparr>) = mine me s" "mine me (s\<lparr>shiftFlag := x\<rparr>) = mine me s"
  "mine me (s\<lparr>controlFlag := x\<rparr>) = mine me s" "mine me (s\<lparr>registers := r\<rparr>) = mine me s"
  by (simp_all add: mine_def running_def idlePid_def getpid_def cong: option.case_cong)

lemma keyboardHandler_ok:
  assumes "mine me s"
  shows "keeps me (keyboardHandler has k1 k2 rsp s)"
proof -
  have w: "mine me s1 \<Longrightarrow> keeps me (writeStdin c s1)" for c s1
    unfolding writeStdin_def by (rule keeps_bind [OF keeps_pipePutchar]) auto
  have k: "mine me s1 \<Longrightarrow> keeps me (kbind (killCurrentForeground s1) (\<lambda>_ s2. Ret () s2))" for s1
    by (rule keeps_bind [OF keeps_bad [OF killCurrentForeground_mine]]) auto
  have "mine me s1 \<Longrightarrow> keeps me (plainKey c rsp s1)" for c s1
    using w k by (simp add: plainKey_def snapshotRegisters_def syscallCrash_def [of BufferOverflow] del: kwp_bind kbind_Ret_right)
  then show ?thesis using assms by (simp add: keyboardHandler_def Let_def)
qed

end
