(* ===== verification/System.thy ===== *)
theory System
  imports SyscallProps
begin

text \<open>
  The kernel as a state machine: user programs make system calls, calls that were switched away
  from go on when the scheduler has chosen their process again, timer ticks and keys arrive between
  instructions of user programs. Interrupts are off inside a call, so a call is one step up to its
  next switch. The invariant of all reachable states follows by rule induction from the theorems
  about the single calls.
\<close>

section \<open>States and steps\<close>

text \<open>\<open>pend p\<close> is the rest of the call process \<open>p\<close> is in the middle of. It is dropped when the process
  is freed, before its pid can be handed out again.\<close>

record system =
  kern :: kernel
  pend :: "int \<Rightarrow> (kernel \<Rightarrow> unit kres) option"

definition prune :: "kernel \<Rightarrow> (int \<Rightarrow> (kernel \<Rightarrow> unit kres) option) \<Rightarrow> int \<Rightarrow> (kernel \<Rightarrow> unit kres) option" where
  "prune s f p = (if p \<in> set (map pc_pid (liveProcs s)) then f p else None)"

text \<open>What is left after a call of process \<open>me\<close> ran up to its return or its next switch.\<close>

definition settle :: "int \<Rightarrow> unit kres \<Rightarrow> system \<Rightarrow> system option" where
  "settle me m \<sigma> =
     (case m of
        Ret _ s \<Rightarrow> Some \<lparr>kern = s, pend = prune s ((pend \<sigma>)(me := None))\<rparr>
      | Switch s k \<Rightarrow> Some \<lparr>kern = s, pend = prune s ((pend \<sigma>)(me := Some k))\<rparr>
      | Crash c \<Rightarrow> None)"

definition forget :: "'a kres \<Rightarrow> unit kres" where
  "forget m = kbind m (\<lambda>_ s. Ret () s)"

text \<open>A key can arrive while the idle process runs. It is modelled there for keys without Ctrl, while
  the standard input pipe has a free place: the handler would otherwise block the idle process.\<close>

definition stdin_free :: "kernel \<Rightarrow> bool" where
  "stdin_free s \<longleftrightarrow> (\<exists>p m. lookupPipe STDIN_PIPENO s = Some p \<and> lookupSem (pi_writeSemId p) s = Some m \<and> s_value m > 0)"

definition creates :: "syscall \<Rightarrow> bool" where
  "creates c \<longleftrightarrow> (\<exists>f argc argv fg fd. c = SYS_CREATE_PROCESS f argc argv fg fd)"

inductive sys_step :: "system \<Rightarrow> system \<Rightarrow> bool" where
  call: "running (kern \<sigma>) \<Longrightarrow> pend \<sigma> (getpid (kern \<sigma>)) = None \<Longrightarrow> (creates c \<Longrightarrow> pipes_free (kern \<sigma>)) \<Longrightarrow>
     settle (getpid (kern \<sigma>)) (forget (syscallHandler c (kern \<sigma>))) \<sigma> = Some \<sigma>' \<Longrightarrow> sys_step \<sigma> \<sigma>'"
| resume: "running (kern \<sigma>) \<Longrightarrow> pend \<sigma> (getpid (kern \<sigma>)) = Some k \<Longrightarrow>
     settle (getpid (kern \<sigma>)) (k (kern \<sigma>)) \<sigma> = Some \<sigma>' \<Longrightarrow> sys_step \<sigma> \<sigma>'"
| key: "running (kern \<sigma>) \<Longrightarrow> pend \<sigma> (getpid (kern \<sigma>)) = None \<Longrightarrow>
     settle (getpid (kern \<sigma>)) (keyboardHandler has k1 k2 rsp (kern \<sigma>)) \<sigma> = Some \<sigma>' \<Longrightarrow> sys_step \<sigma> \<sigma>'"
| idle_key: "\<not> running (kern \<sigma>) \<Longrightarrow> controlFlag (kern \<sigma>) = 0 \<Longrightarrow> stdin_free (kern \<sigma>) \<Longrightarrow>
     keyboardHandler has k1 k2 rsp (kern \<sigma>) = Ret () s \<Longrightarrow> sys_step \<sigma> \<lparr>kern = s, pend = prune s (pend \<sigma>)\<rparr>"
| tick: "\<not> running (kern \<sigma>) \<or> pend \<sigma> (getpid (kern \<sigma>)) = None \<Longrightarrow>
     irq0 (kern \<sigma>) = Ret () s \<Longrightarrow> sys_step \<sigma> \<lparr>kern = s, pend = prune s (pend \<sigma>)\<rparr>"

inductive_cases sys_step_cases: "sys_step \<sigma> \<sigma>'"

definition start :: "kernel \<Rightarrow> system" where
  "start s = \<lparr>kern = s, pend = (\<lambda>_. None)\<rparr>"

inductive reachable :: "kernel \<Rightarrow> system \<Rightarrow> bool" for s0 where
  init: "reachable s0 (start s0)"
| step: "reachable s0 \<sigma> \<Longrightarrow> sys_step \<sigma> \<sigma>' \<Longrightarrow> reachable s0 \<sigma>'"

section \<open>The invariant\<close>

definition sys_inv :: "system \<Rightarrow> bool" where
  "sys_inv \<sigma> \<longleftrightarrow> kinv (kern \<sigma>) \<and> (\<forall>p k s. pend \<sigma> p = Some k \<longrightarrow> mine p s \<longrightarrow> keeps p (k s))"

lemma sys_invD: "sys_inv \<sigma> \<Longrightarrow> pend \<sigma> p = Some k \<Longrightarrow> mine p s \<Longrightarrow> keeps p (k s)"
  unfolding sys_inv_def by blast

lemma running_mine: "kinv s \<Longrightarrow> running s \<Longrightarrow> mine (getpid s) s"
  by (simp add: mine_def)

lemma settle_inv:
  assumes "sys_inv \<sigma>" "keeps me m" "settle me m \<sigma> = Some \<sigma>'"
  shows "sys_inv \<sigma>'"
proof (cases m)
  case (Ret a s)
  then show ?thesis
    using assms by (auto simp: settle_def sys_inv_def prune_def mine_def [of me s] split: if_splits)
next
  case (Switch s k)
  then have k: "\<forall>s'. mine me s' \<longrightarrow> keeps me (k s')" "kinv s"
    using assms(2) by (auto simp: switched_def)
  then show ?thesis
    using assms(1,3) Switch by (auto simp: settle_def sys_inv_def prune_def split: if_splits)
next
  case (Crash c)
  then show ?thesis using assms(3) by (simp add: settle_def)
qed

lemma keeps_forget: "keeps me m \<Longrightarrow> keeps me (forget m)"
  by (auto simp: forget_def elim: kwp_mono)

lemma pipePutchar_free:
  assumes "kinv s" "stdin_free s"
  shows "okcall s (pipePutchar STDIN_PIPENO c s)"
proof -
  obtain p m where pm: "lookupPipe STDIN_PIPENO s = Some p" "lookupSem (pi_writeSemId p) s = Some m" "s_value m > 0"
    using assms(2) by (auto simp: stdin_free_def)
  obtain s1 where s1: "getPipe STDIN_PIPENO s = (Some p, s1)" "kinv s1" "wakes s s1"
      "lookupPipe STDIN_PIPENO s1 = Some p" "semQueue s1 = semQueue s"
    using getPipe_ok [OF assms(1), of STDIN_PIPENO] pm(1) by auto
  have "lookupSem (pi_writeSemId p) s1 = Some m" using pm(2) s1(5) by (simp add: lookupSem_def)
  then obtain s2 where s2: "semWait_with blockTask (pi_writeSemId p) s1 = Ret 0 s2" "kinv s2" "wakes s1 s2" "same_pipes s1 s2"
    using semWait_takes [OF s1(2) _ pm(3)] by metis
  have id: "pi_id p = STDIN_PIPENO" using lookupPipe_Some(1) [OF s1(2,4)] .
  have "lookupPipe STDIN_PIPENO s2 = Some p" using s1(4) s2(4) by (simp add: lookupPipe_def same_pipes_def)
  then have "writeToPipe_with blockTask p c s1 =
      kbind (semPost (pi_readSemId p) (modPipe STDIN_PIPENO
           (\<lambda>p. p\<lparr>pi_buffer := (pi_buffer p)[nat (pi_writeIndex p) := c],
                  pi_writeIndex := (pi_writeIndex p + 1) mod PIPE_BUFFER_SIZE\<rparr>) s2)) (\<lambda>_ s2. Ret () s2)"
    using s2(1) id by (simp add: writeToPipe_with_def del: kbind_Ret_right)
  then have "okcall s2 (writeToPipe_with blockTask p c s1)" using okcall_put [OF s2(2)] by simp
  then have "okcall s (writeToPipe_with blockTask p c s1)"
    using wakes_trans [OF s1(3) s2(3)] by (rule okcall_from)
  then have "okcall s (kbind (writeToPipe_with blockTask p c s1) (\<lambda>_ s2. Ret (0 :: int) s2))"
    by (rule okcall_bind) simp
  then show ?thesis using s1(1) by (simp add: pipePutchar_def pipePutchar_with_def)
qed

lemma writeStdin_free:
  assumes "kinv u" "stdin_free u" "writeStdin c u = Ret () t"
  shows "kinv t"
proof -
  have "okcall u (writeStdin c u)"
    unfolding writeStdin_def by (rule okcall_bind [OF pipePutchar_free [OF assms(1,2)]]) simp
  then show ?thesis using assms(3) by simp
qed

lemma plainKey_free:
  assumes "kinv u" "stdin_free u" "controlFlag u = 0" "plainKey k rsp u = Ret () t"
  shows "kinv t"
proof -
  have "plainKey k rsp u \<in> {Ret () u} \<union> range (\<lambda>c. writeStdin c u)"
    using assms(3) by (simp add: plainKey_def)
  then have "t = u \<or> (\<exists>c. writeStdin c u = Ret () t)" using assms(4) by auto
  then show ?thesis using writeStdin_free [OF assms(1,2)] assms(1) by blast
qed

lemma if_in: "x \<in> A \<Longrightarrow> y \<in> A \<Longrightarrow> (if b then x else y) \<in> A"
  by simp

lemma idle_key_kinv:
  assumes "kinv s" "controlFlag s = 0" "stdin_free s" "keyboardHandler has k1 k2 rsp s = Ret () s'"
  shows "kinv s'"
proof -
  have free: "stdin_free (s\<lparr>isSpecial := x\<rparr>) = stdin_free s" for x
    by (simp add: stdin_free_def lookupPipe_def lookupSem_def)
  define s1 where "s1 = (if k1 = 0xE0 then s\<lparr>isSpecial := 1\<rparr> else s)"
  define s2 where "s2 = (if isSpecial s1 \<noteq> 0 then s1\<lparr>isSpecial := 0\<rparr> else s1)"
  define k where "k = (if isSpecial s1 \<noteq> 0 then k2 else k1)"
  have s2: "kinv s2" "stdin_free s2" "controlFlag s2 = 0"
    using assms(1-3) free by (simp_all add: s2_def s1_def)
  have "keyboardHandler has k1 k2 rsp s =
     (if \<not> has then Ret () s
      else if k = 0xE0 then Ret () s2
      else if k = RSHIFT \<or> k = LSHIFT then Ret () (s2\<lparr>shiftFlag := 1\<rparr>)
      else if k = RSHIFT + RELEASE \<or> k = LSHIFT + RELEASE then Ret () (s2\<lparr>shiftFlag := 0\<rparr>)
      else if k = LCTRL then Ret () (s2\<lparr>controlFlag := 1\<rparr>)
      else if k = LCTRL + RELEASE then Ret () (s2\<lparr>controlFlag := 0\<rparr>)
      else plainKey k rsp s2)"
    unfolding keyboardHandler_def Let_def s1_def [symmetric] s2_def [symmetric] k_def [symmetric] by (rule refl)
  note eq = this
  have "keyboardHandler has k1 k2 rsp s \<in> {Ret () s, Ret () s2, plainKey k rsp s2} \<union>
      range (\<lambda>x. Ret () (s2\<lparr>shiftFlag := x\<rparr>)) \<union> range (\<lambda>x. Ret () (s2\<lparr>controlFlag := x\<rparr>))"
    unfolding eq by (intro if_in) auto
  then have "s' = s \<or> s' = s2 \<or> (\<exists>x. s' = s2\<lparr>shiftFlag := x\<rparr>) \<or> (\<exists>x. s' = s2\<lparr>controlFlag := x\<rparr>) \<or>
      plainKey k rsp s2 = Ret () s'"
    using assms(4) by fastforce
  then show ?thesis using assms(1) s2(1) plainKey_free [OF s2] by auto
qed

lemma sys_inv_kinv: "sys_inv \<sigma> \<Longrightarrow> kinv (kern \<sigma>)"
  unfolding sys_inv_def by blast

lemma sys_inv_mine: "sys_inv \<sigma> \<Longrightarrow> running (kern \<sigma>) \<Longrightarrow> mine (getpid (kern \<sigma>)) (kern \<sigma>)"
  by (rule running_mine [OF sys_inv_kinv])

lemma sys_inv_pruned: "sys_inv \<sigma> \<Longrightarrow> kinv s \<Longrightarrow> sys_inv \<lparr>kern = s, pend = prune s (pend \<sigma>)\<rparr>"
  unfolding sys_inv_def prune_def by simp

lemma sys_step_inv: "sys_step \<sigma> \<sigma>' \<Longrightarrow> sys_inv \<sigma> \<Longrightarrow> sys_inv \<sigma>'"
proof (induction rule: sys_step.induct)
  case (call \<sigma> c \<sigma>')
  have "keeps (getpid (kern \<sigma>)) (syscallHandler c (kern \<sigma>))"
    by (rule syscallHandler_ok [OF sys_inv_mine [OF call.prems call.hyps(1)]])
       (use call.hyps(3) in \<open>auto simp: creates_def\<close>)
  then show ?case by (rule settle_inv [OF call.prems keeps_forget call.hyps(4)])
next
  case (resume \<sigma> k \<sigma>')
  have "keeps (getpid (kern \<sigma>)) (k (kern \<sigma>))"
    by (rule sys_invD [OF resume.prems resume.hyps(2) sys_inv_mine [OF resume.prems resume.hyps(1)]])
  then show ?case by (rule settle_inv [OF resume.prems _ resume.hyps(3)])
next
  case (key \<sigma> has k1 k2 rsp \<sigma>')
  have "keeps (getpid (kern \<sigma>)) (keyboardHandler has k1 k2 rsp (kern \<sigma>))"
    by (rule keyboardHandler_ok [OF sys_inv_mine [OF key.prems key.hyps(1)]])
  then show ?case by (rule settle_inv [OF key.prems _ key.hyps(3)])
next
  case (idle_key \<sigma> has k1 k2 rsp s)
  show ?case
    by (rule sys_inv_pruned [OF idle_key.prems idle_key_kinv [OF sys_inv_kinv [OF idle_key.prems]]])
       (rule idle_key.hyps)+
next
  case (tick \<sigma> s)
  have "kinv s" using irq0_ok [OF sys_inv_kinv [OF tick.prems]] tick.hyps(2) by (simp add: switched_def)
  then show ?case by (rule sys_inv_pruned [OF tick.prems])
qed

lemma reachable_inv: "reachable s0 \<sigma> \<Longrightarrow> kinv s0 \<Longrightarrow> sys_inv \<sigma>"
proof (induction rule: reachable.induct)
  case init
  then show ?case by (simp add: sys_inv_def start_def)
next
  case (step \<sigma> \<sigma>')
  then show ?case using sys_step_inv by blast
qed

end
