(* ===== verification/Sample.thy ===== *)
theory Sample
  imports System
begin

text \<open>
  A concrete kernel state, at which the theorems about the kernel are applied: the idle process
  (pid 1), \<open>init\<close> (2), the shell (3, running), a process blocked on semaphore 5 (4), a ready one (5)
  and one that has exited and is not waited for yet (6); the standard input pipe with its two
  semaphores, and a memory manager that answers every request.
\<close>

definition sampleMalloc :: "nat \<Rightarrow> u64" where
  "sampleMalloc n = word_of_nat (0x600000 + n mod 256 * 0x1000)"

lemma sampleMalloc_nonzero: "sampleMalloc n \<noteq> 0"
proof
  assume "sampleMalloc n = 0"
  then have "2 ^ 64 dvd 0x600000 + n mod 256 * 0x1000"
    unfolding sampleMalloc_def word_of_nat_eq_0_iff by simp
  then have "2 ^ 64 \<le> 0x600000 + n mod 256 * 0x1000" by (rule dvd_imp_le) simp
  moreover have "n mod 256 < 256" by simp
  ultimately show False by simp
qed

definition samplePcb :: "int \<Rightarrow> int \<Rightarrow> int \<Rightarrow> process_state \<Rightarrow> u64 \<Rightarrow> int \<Rightarrow> pcb" where
  "samplePcb pid ppid fg st rsp sid =
     \<lparr>pc_pid = pid, pc_ppid = ppid, pc_foreground = fg, pc_state = st,
      pc_priority = (if fg \<noteq> 0 then FOREGROUND_PRIORITY else BACKGROUND_PRIORITY), pc_name = [112, 114],
      pc_fd0 = 0, pc_fd1 = 1, pc_rsp = rsp, pc_rbp = rsp + FRAME_SIZE, pc_argc = 1,
      pc_argv = [[112, 114]], pc_semId = sid\<rparr>"

definition sampleSem :: "int \<Rightarrow> int \<Rightarrow> int list \<Rightarrow> u8 list \<Rightarrow> sem" where
  "sampleSem sid v b nm =
     \<lparr>s_blocked = Some b, s_attached = 1, s_id = sid, s_value = v, s_lock = 0, s_name = nm\<rparr>"

definition samplePipe :: pipe where
  "samplePipe = \<lparr>pi_id = 0, pi_buffer = replicate 1024 0, pi_writeIndex = 0, pi_readIndex = 0,
     pi_totalProcesses = 1, pi_writeSemId = 2, pi_readSemId = 1\<rparr>"

definition sample :: kernel where
  "sample =
     \<lparr>mallocs = sampleMalloc, mcount = 0, heap_junk = 0, low_word = 0, cpu_rsp = 0x7000,
      semQueue = Some [sampleSem 0 1 [] [], sampleSem 1 0 [] [], sampleSem 2 1024 [] [],
        sampleSem 3 0 [] [], sampleSem 4 0 [] [], sampleSem 5 0 [4] [115], sampleSem 6 0 [] [],
        sampleSem 7 0 [] [], sampleSem 8 1 [] []],
      nextSemId = 9, allSemsLock = 0, pidCounter = 7,
      procQueue = Some [samplePcb 4 3 0 BLOCKED 0x4000 6, samplePcb 5 3 0 READY 0x5000 7,
        samplePcb 6 2 0 EXITED 0x6000 8, samplePcb 2 1 0 READY 0x2000 3],
      currentCycles = 0, idleProc = Some (samplePcb 1 0 0 READY 0x1000 0),
      currentProc = Some (samplePcb 3 0 1 READY 0x3000 4), readyCount = 3, userlandPid = 3, initPid = 2,
      frames = (\<lambda>_. None), wrapperAddr = 0x100000,
      pipeQueue = Some [samplePipe], allPipesSem = 0, cachedPipe = Some 0,
      con = init_console (\<lambda>_. 0), ticks = 17, stdinPipe = 0, isSpecial = 0, shiftFlag = 0, controlFlag = 0,
      registers = replicate 17 0\<rparr>"

lemmas sample_simps = samplePcb_def sampleSem_def samplePipe_def sample_def

lemma sample_kinv [simp]: "kinv sample"
proof -
  have "memory_ok sample"
    by (simp add: memory_ok_def sample_def sampleMalloc_nonzero)
  moreover have "procs_ok sample"
    by (rule procs_ok_runI [where q = "the (procQueue sample)" and i = "the (idleProc sample)"
        and c = "the (currentProc sample)"])
       (simp_all add: sample_def samplePcb_def isReady_def)
  moreover have "sems_inv {} 0 sample"
    by (simp add: sems_inv_def sem_ok_def sample_def sampleSem_def)
  moreover have "pipes_ok sample"
    by (simp add: pipes_ok_def pipe_ok_def sample_def samplePipe_def PIPE_BUFFER_SIZE_def)
  moreover have "console_ok (con sample)"
    by (simp add: sample_def console_ok_def init_console_def)
  ultimately show ?thesis by (simp add: kinv_def kinv_locked_def)
qed

lemma sample_running [simp]: "running sample"
  by (simp add: running_def idlePid_def getpid_def sample_def samplePcb_def)

lemma sample_mine [simp]: "mine 3 sample"
  by (simp add: mine_def getpid_def) (simp add: sample_def samplePcb_def)

lemma sample_pipes_free [simp]: "pipes_free sample"
  by (simp add: pipes_free_def lookupSem_def sample_def sampleSem_def)

end
