(* ===== verification/Numerals.thy ===== *)
theory Numerals
  imports Prelude "HOL-Library.Signed_Division"
begin

text \<open>
  Numbers and their decimal, hexadecimal and binary notation: \<open>uintToBase\<close> of
  \<open>Kernel/naiveConsole.c\<close> and \<open>Kernel/drivers/console.c\<close> (the same code twice), \<open>intToStr\<close> of
  \<open>Kernel/lib/stdio.c\<close>, and \<open>_itoa\<close>, \<open>_atoi\<close>, \<open>strToHex\<close>, \<open>isNumber\<close> of the user library
  \<open>ustdlib.c\<close>. A buffer is the list of its cells, a write outside of it gives \<open>None\<close>; a string that is
  only read is the list of its characters before the terminator.
\<close>

section \<open>Buffers\<close>

definition put :: "nat \<Rightarrow> u8 \<Rightarrow> u8 list \<Rightarrow> u8 list option" where
  "put i c b = (if i < length b then Some (b[i := c]) else None)"

definition swap :: "u8 list \<Rightarrow> nat \<Rightarrow> nat \<Rightarrow> u8 list" where
  "swap b i j = (let t = b ! i in (b[i := b ! j])[j := t])"

function reverse_loop :: "u8 list \<Rightarrow> nat \<Rightarrow> nat \<Rightarrow> u8 list" where
  "reverse_loop b i j = (if i < j then reverse_loop (swap b i j) (i + 1) (j - 1) else b)"
  by auto
termination by (relation "measure (\<lambda>(b, i, j). j - i)") auto

declare reverse_loop.simps [simp del]

section \<open>Printing\<close>

text \<open>The character of a digit, as \<open>uintToBase\<close> and \<open>intToStr\<close> compute it.\<close>

definition digitChar :: "u32 \<Rightarrow> u8" where
  "digitChar r = ucast (if r < 10 then r + 48 else r + 65 - 10)"

text \<open>The do-while of \<open>uintToBase\<close>: \<open>p\<close> is the next cell; dividing by base 0 traps.\<close>

partial_function (option) uintToBase_loop :: "u8 list \<Rightarrow> nat \<Rightarrow> u64 \<Rightarrow> u32 \<Rightarrow> (u8 list \<times> nat) option" where
  "uintToBase_loop b p value base =
     (if base = 0 then None
      else Option.bind (put p (digitChar (ucast (value mod ucast base))) b) (\<lambda>b'.
           if value div ucast base \<noteq> 0 then uintToBase_loop b' (p + 1) (value div ucast base) base
           else Some (b', p + 1)))"

definition uintToBase :: "u64 \<Rightarrow> u8 list \<Rightarrow> u32 \<Rightarrow> (u8 list \<times> nat) option" where
  "uintToBase value buffer base =
     Option.bind (uintToBase_loop buffer 0 value base) (\<lambda>(b, p).
     Option.bind (put p 0 b) (\<lambda>b. Some (reverse_loop b 0 (p - 1), p)))"

text \<open>\<open>intToStr\<close>. \<open>abs\<close> of the least \<open>int\<close> is that \<open>int\<close> again on the machine; the remainders of a
  negative number are negative.\<close>

definition abs_int :: "int \<Rightarrow> int" where
  "abs_int num = (if num = - (2 ^ 31) then num else if num < 0 then - num else num)"

definition intDigit :: "int \<Rightarrow> u8" where
  "intDigit r = (if r \<ge> 10 then word_of_int (65 + (r - 10)) else word_of_int (48 + r))"

partial_function (option) intToStr_loop :: "u8 list \<Rightarrow> nat \<Rightarrow> int \<Rightarrow> int \<Rightarrow> (u8 list \<times> nat) option" where
  "intToStr_loop b i n base =
     (if n = 0 then Some (b, i)
      else Option.bind (put i (intDigit (n smod base)) b) (\<lambda>b'. intToStr_loop b' (i + 1) (n sdiv base) base))"

definition intToStr :: "int \<Rightarrow> u8 list \<Rightarrow> int \<Rightarrow> u8 list option" where
  "intToStr value buffer base =
     (if base < 2 \<or> base > 32 then Some buffer
      else Option.bind (intToStr_loop buffer 0 (abs_int value) base) (\<lambda>(b, i).
           Option.bind (if i = 0 then map_option (\<lambda>b. (b, i + 1)) (put i 48 b) else Some (b, i)) (\<lambda>(b, i).
           Option.bind (if value < 0 \<and> base = 10 then map_option (\<lambda>b. (b, i + 1)) (put i 45 b) else Some (b, i))
             (\<lambda>(b, i).
           map_option (\<lambda>b. reverse_loop b 0 (i - 1)) (put i 0 b)))))"

text \<open>\<open>_itoa\<close> fills its static buffer from the end; \<open>acc\<close> is the string from \<open>ptr\<close> on. The terminator
  goes to \<open>buffer[128]\<close>, one byte past the array.\<close>

definition Representation :: "u8 list" where
  "Representation = [48, 49, 50, 51, 52, 53, 54, 55, 56, 57, 65, 66, 67, 68, 69, 70, 0]"

partial_function (option) itoa_loop :: "u64 \<Rightarrow> u64 \<Rightarrow> u8 list \<Rightarrow> u8 list option" where
  "itoa_loop num base acc =
     (if base = 0 \<or> unat (num mod base) \<ge> length Representation \<or> length acc \<ge> 128 then None
      else let acc' = Representation ! unat (num mod base) # acc
           in if num div base \<noteq> 0 then itoa_loop (num div base) base acc' else Some acc')"

definition itoa :: "u64 \<Rightarrow> int \<Rightarrow> u8 list option" where
  "itoa num base = itoa_loop num (word_of_int base) []"

section \<open>Reading\<close>

definition is_digit :: "u8 \<Rightarrow> bool" where "is_digit c \<longleftrightarrow> sint c \<ge> 48 \<and> sint c \<le> 57"

definition is_hexdigit :: "u8 \<Rightarrow> bool" where
  "is_hexdigit c \<longleftrightarrow> is_digit c \<or> (sint c \<ge> 65 \<and> sint c \<le> 70) \<or> (sint c \<ge> 97 \<and> sint c \<le> 102)"

primrec atoi_digits :: "int \<Rightarrow> u8 list \<Rightarrow> int" where
  "atoi_digits res [] = res"
| "atoi_digits res (c # cs) = (if is_digit c then atoi_digits (res * 10 + (sint c - 48)) cs else res)"

definition atoi :: "u8 list \<Rightarrow> int" where
  "atoi str = atoi_digits 0 (dropWhile (\<lambda>c. c = 32) str)"

definition isNumber :: "u8 list option \<Rightarrow> bool" where
  "isNumber str = (case str of None \<Rightarrow> False | Some cs \<Rightarrow> list_all is_digit cs)"

primrec strToHex_loop :: "int \<Rightarrow> u8 list \<Rightarrow> int" where
  "strToHex_loop val [] = val"
| "strToHex_loop val (c # cs) =
     (if \<not> is_hexdigit c then -1
      else if is_digit c then strToHex_loop (val * 16 + sint c - 48) cs
      else if sint c \<ge> 65 \<and> sint c \<le> 70 then strToHex_loop (val * 16 + sint c - 65 + 10) cs
      else strToHex_loop (val * 16 + sint c - 97 + 10) cs)"

definition strToHex :: "u8 list \<Rightarrow> int" where "strToHex str = strToHex_loop 0 str"

section \<open>Digits of a number\<close>

text \<open>The digits of \<open>n\<close>, the least significant first.\<close>

function lsd :: "nat \<Rightarrow> nat \<Rightarrow> nat list" where
  "lsd b n = (if b < 2 \<or> n < b then [n] else n mod b # lsd b (n div b))"
  by auto
termination by (relation "measure snd") auto

declare lsd.simps [simp del]

definition undigits :: "nat \<Rightarrow> nat list \<Rightarrow> nat" where
  "undigits b ds = foldl (\<lambda>a d. a * b + d) 0 ds"

lemma undigits_snoc [simp]: "undigits b (ds @ [d]) = undigits b ds * b + d"
  by (simp add: undigits_def)

lemma undigits_lsd: "2 \<le> b \<Longrightarrow> undigits b (rev (lsd b n)) = n"
proof (induction b n rule: lsd.induct)
  case (1 b n)
  show ?case
  proof (cases "n < b")
    case True
    then show ?thesis by (simp add: lsd.simps [of b n] undigits_def)
  next
    case False
    then show ?thesis using 1 by (subst lsd.simps) (simp add: mult.commute)
  qed
qed

lemma lsd_bounded: "2 \<le> b \<Longrightarrow> d \<in> set (lsd b n) \<Longrightarrow> d < b"
proof (induction b n rule: lsd.induct)
  case (1 b n)
  show ?case using 1 by (cases "n < b") (auto simp: lsd.simps [of b n])
qed

lemma lsd_not_Nil [simp]: "lsd b n \<noteq> []"
  by (subst lsd.simps) simp

lemma length_lsd: "2 \<le> b \<Longrightarrow> 0 < k \<Longrightarrow> length (lsd b n) \<le> k \<longleftrightarrow> n < b ^ k"
proof (induction b n arbitrary: k rule: lsd.induct)
  case (1 b n)
  show ?case
  proof (cases "n < b")
    case True
    have "b \<le> b ^ k" using 1 by (intro self_le_power) auto
    then show ?thesis using True 1 by (simp add: lsd.simps [of b n])
  next
    case False
    then obtain j where k: "k = Suc j" using 1 by (cases k) auto
    have div: "n div b < b ^ j \<longleftrightarrow> n < b ^ Suc j" using 1(2) by (simp add: div_less_iff_less_mult mult.commute)
    show ?thesis
    proof (cases "j = 0")
      case True
      then show ?thesis using False k 1 by (simp add: lsd.simps [of b n])
    next
      case nz: False
      then have "length (lsd b (n div b)) \<le> j \<longleftrightarrow> n div b < b ^ j" using 1 False by simp
      then show ?thesis using False k div 1(2) by (subst lsd.simps) simp
    qed
  qed
qed

section \<open>What the functions compute\<close>

definition dchar :: "nat \<Rightarrow> u8" where "dchar d = digitChar (word_of_nat d)"

lemma put_at: "p < length b \<Longrightarrow> put p c b = Some (take p b @ c # drop (Suc p) b)"
  by (simp add: put_def upd_conv_take_nth_drop)

lemma unat_ucast_base [simp]: "unat (ucast (base :: u32) :: u64) = unat base"
proof -
  have "unat base < 2 ^ LENGTH(32)" by (rule unsigned_less)
  then show ?thesis by (simp add: unsigned_ucast_eq take_bit_nat_eq_self)
qed

lemma unat_step:
  fixes num :: u64 and base :: u32
  shows "unat (num div ucast base) = unat num div unat base"
    "unat (num mod ucast base) = unat num mod unat base"
  by (simp_all add: unat_div_distrib unat_mod_distrib)

lemma uintToBase_loop_eq:
  fixes num :: u64 and base :: u32
  assumes "2 \<le> unat base"
  defines "ds x \<equiv> lsd (unat base) (unat (x :: u64))"
  shows "uintToBase_loop b p num base =
    (if p + length (ds num) \<le> length b
     then Some (take p b @ map dchar (ds num) @ drop (p + length (ds num)) b, p + length (ds num))
     else None)"
proof (induction "unat num" arbitrary: num b p rule: less_induct)
  case less
  let ?v = "num div ucast base"
  have nz: "base \<noteq> 0" using assms(1) by auto
  have dig: "digitChar (ucast (num mod ucast base)) = dchar (unat num mod unat base)"
    unfolding dchar_def unat_step(2) [symmetric] of_nat_unat ..
  show ?case
  proof (cases "unat num < unat base")
    case True
    then have zero: "?v = 0" by (metis div_less unat_eq_zero unat_step(1))
    have "ds num = [unat num]" using True by (simp add: ds_def lsd.simps)
    then show ?thesis
      using nz zero dig True by (subst uintToBase_loop.simps) (auto simp: put_at, simp add: put_def)
  next
    case False
    have v: "unat ?v = unat num div unat base" by (rule unat_step(1))
    have "unat ?v < unat num" using False assms(1) unfolding v by (intro div_less_dividend) auto
    note IH = less.hyps [OF this]
    have "unat ?v \<noteq> 0" unfolding v using False assms(1) by (simp add: div_eq_0_iff)
    then have nonzero: "?v \<noteq> 0" by auto
    have ds: "ds num = (unat num mod unat base) # ds ?v"
      using False assms(1) unfolding ds_def v by (subst lsd.simps) simp
    show ?thesis
    proof (cases "p < length b")
      case True
      show ?thesis
        using nz nonzero dig True IH [of "take p b @ dchar (unat num mod unat base) # drop (Suc p) b" "p + 1"]
        by (subst uintToBase_loop.simps) (auto simp: put_at ds add.commute [of "length _"])
    next
      case False
      then show ?thesis using nz by (subst uintToBase_loop.simps) (simp add: put_def ds)
    qed
  qed
qed

lemma swap_nth:
  "i < length b \<Longrightarrow> j < length b \<Longrightarrow> k < length b \<Longrightarrow>
     swap b i j ! k = (if k = i then b ! j else if k = j then b ! i else b ! k)"
  by (auto simp: swap_def Let_def nth_list_update)

lemma reverse_loop_nth:
  "j < length b \<Longrightarrow> length (reverse_loop b i j) = length b \<and>
     (\<forall>k < length b. reverse_loop b i j ! k = (if i \<le> k \<and> k \<le> j then b ! (i + j - k) else b ! k))"
proof (induction b i j rule: reverse_loop.induct)
  case (1 b i j)
  show ?case
  proof (cases "i < j")
    case False
    then have "i + j - k = k" if "i \<le> k" "k \<le> j" for k using that by linarith
    then show ?thesis using False by (simp add: reverse_loop.simps [of b i j])
  next
    case True
    have len: "length (swap b i j) = length b" by (simp add: swap_def Let_def)
    then have IH: "length (reverse_loop (swap b i j) (i + 1) (j - 1)) = length b"
      "\<forall>k < length b. reverse_loop (swap b i j) (i + 1) (j - 1) ! k =
         (if i + 1 \<le> k \<and> k \<le> j - 1 then swap b i j ! (i + 1 + (j - 1) - k) else swap b i j ! k)"
      using 1 True by auto
    have "reverse_loop b i j ! k = (if i \<le> k \<and> k \<le> j then b ! (i + j - k) else b ! k)" if k: "k < length b" for k
    proof (cases "i < k \<and> k < j")
      case inner: True
      then have "i + 1 + (j - 1) - k = i + j - k" "i + j - k < length b" "i + j - k \<noteq> i" "i + j - k \<noteq> j"
        using True 1 by auto
      then show ?thesis using IH(2) k True inner 1(2)
        by (subst reverse_loop.simps) (auto simp: swap_nth)
    next
      case False
      then have "reverse_loop (swap b i j) (i + 1) (j - 1) ! k = swap b i j ! k"
        using IH(2) k True by auto
      then show ?thesis using k True 1(2) False
        by (subst reverse_loop.simps) (auto simp: swap_nth)
    qed
    then show ?thesis using IH(1) True by (simp add: reverse_loop.simps [of b i j])
  qed
qed

lemma reverse_loop_all:
  assumes "xs \<noteq> []"
  shows "reverse_loop (xs @ ys) 0 (length xs - 1) = rev xs @ ys"
proof -
  have pos: "0 < length xs" using assms by simp
  then have "length xs - 1 < length (xs @ ys)" by (simp del: length_greater_0_conv)
  note r = reverse_loop_nth [OF this, of 0]
  have cut: "k \<le> length xs - Suc 0 \<longleftrightarrow> k < length xs" for k using pos by linarith
  show ?thesis
  proof (rule nth_equalityI)
    fix k assume "k < length (reverse_loop (xs @ ys) 0 (length xs - 1))"
    then have "k < length xs + length ys" using r by simp
    then show "reverse_loop (xs @ ys) 0 (length xs - 1) ! k = (rev xs @ ys) ! k"
      using r by (cases "k < length xs") (auto simp: nth_append rev_nth cut)
  qed (use r in simp)
qed

lemma uintToBase_eq:
  fixes num :: u64 and base :: u32
  assumes "2 \<le> unat base"
  defines "ds \<equiv> lsd (unat base) (unat num)"
  shows "uintToBase num buffer base =
    (if length ds < length buffer
     then Some (rev (map dchar ds) @ 0 # drop (Suc (length ds)) buffer, length ds)
     else None)"
proof (cases "length ds < length buffer")
  case True
  let ?b = "map dchar ds @ drop (length ds) buffer"
  have "put (length ds) 0 ?b = Some (map dchar ds @ 0 # drop (Suc (length ds)) buffer)"
    using True by (subst put_at) (simp_all add: min_def)
  moreover have "reverse_loop (map dchar ds @ 0 # drop (Suc (length ds)) buffer) 0 (length ds - 1) =
      rev (map dchar ds) @ 0 # drop (Suc (length ds)) buffer"
    using reverse_loop_all [of "map dchar ds" "0 # drop (Suc (length ds)) buffer"] by (simp add: ds_def)
  ultimately show ?thesis
    using True by (simp add: uintToBase_def uintToBase_loop_eq [OF assms(1)] ds_def [symmetric])
next
  case False
  then show ?thesis
    by (auto simp: uintToBase_def uintToBase_loop_eq [OF assms(1)] ds_def [symmetric] put_def)
qed

lemma itoa_loop_eq:
  fixes num base :: u64
  assumes "2 \<le> unat base" "unat base \<le> 16" "length acc + length (lsd (unat base) (unat num)) \<le> 128"
  shows "itoa_loop num base acc =
    Some (rev (map (nth Representation) (lsd (unat base) (unat num))) @ acc)"
  using assms(3)
proof (induction "unat num" arbitrary: num acc rule: less_induct)
  case less
  have nz: "base \<noteq> 0" using assms(1) by auto
  have rep: "unat (num mod base) < length Representation"
    using assms(1,2) by (simp add: Representation_def unat_mod_distrib less_le_trans [OF mod_less_divisor])
  have space: "length acc < 128" using less.prems by (cases "lsd (unat base) (unat num)") auto
  show ?case
  proof (cases "unat num < unat base")
    case True
    then have zero: "num div base = 0" by (metis div_less unat_div_distrib unat_eq_zero)
    then show ?thesis
      using True nz rep space by (subst itoa_loop.simps) (simp add: Let_def unat_mod_distrib lsd.simps)
  next
    case False
    have v: "unat (num div base) = unat num div unat base" by (rule unat_div_distrib)
    have "unat (num div base) < unat num" using False assms(1) unfolding v by (intro div_less_dividend) auto
    note IH = less.hyps [OF this]
    have "unat (num div base) \<noteq> 0" unfolding v using False assms(1) by (simp add: div_eq_0_iff)
    then have nonzero: "num div base \<noteq> 0" by auto
    have ds: "lsd (unat base) (unat num) = (unat num mod unat base) # lsd (unat base) (unat (num div base))"
      using False assms(1) unfolding v by (subst lsd.simps) simp
    then show ?thesis
      using IH [of "Representation ! unat (num mod base) # acc"] less.prems nz rep space nonzero
      by (subst itoa_loop.simps) (simp add: Let_def unat_mod_distrib)
  qed
qed

lemma lsd_10_length: "length (lsd 10 (unat (x :: u64))) \<le> 20"
proof -
  have "unat x < 2 ^ LENGTH(64)" by (rule unsigned_less)
  then have "unat x < 10 ^ 20" by simp
  then show ?thesis by (subst length_lsd) auto
qed

section \<open>Reading back\<close>

lemma digit_cases: "d < 10 \<Longrightarrow> P 0 \<Longrightarrow> P 1 \<Longrightarrow> P 2 \<Longrightarrow> P 3 \<Longrightarrow> P 4 \<Longrightarrow> P 5 \<Longrightarrow> P 6 \<Longrightarrow> P 7 \<Longrightarrow> P 8 \<Longrightarrow>
    P 9 \<Longrightarrow> P (d :: nat)"
  by (auto simp: numeral_eq_Suc less_Suc_eq)

lemma hexdigit_cases: "d < 16 \<Longrightarrow> (\<And>e. e < 10 \<Longrightarrow> P e) \<Longrightarrow> P 10 \<Longrightarrow> P 11 \<Longrightarrow> P 12 \<Longrightarrow> P 13 \<Longrightarrow> P 14 \<Longrightarrow>
    P 15 \<Longrightarrow> P (d :: nat)"
  by (auto simp: numeral_eq_Suc less_Suc_eq)

lemma Representation_digit:
  "d < 10 \<Longrightarrow> is_digit (Representation ! d) \<and> sint (Representation ! d) - 48 = int d \<and> Representation ! d \<noteq> 32"
  by (erule digit_cases) (simp_all add: Representation_def is_digit_def)

lemma dchar_value:
  "d < 16 \<Longrightarrow> is_digit (dchar d) \<and> sint (dchar d) = 48 + int d \<or>
     \<not> is_digit (dchar d) \<and> sint (dchar d) = 55 + int d \<and> 10 \<le> d"
  by (erule hexdigit_cases, erule digit_cases) (simp_all add: dchar_def digitChar_def is_digit_def)

lemma dchar_hex:
  assumes "d < 16"
  shows "strToHex_loop v (dchar d # cs) = strToHex_loop (v * 16 + int d) cs"
  using dchar_value [OF assms] assms by (auto simp: is_hexdigit_def)

lemma atoi_digits_rep:
  "\<forall>d \<in> set ds. d < 10 \<Longrightarrow>
     atoi_digits (int a) (map (nth Representation) ds) = int (foldl (\<lambda>a d. a * 10 + d) a ds)"
proof (induction ds arbitrary: a)
  case Nil
  then show ?case by simp
next
  case (Cons d ds)
  then show ?case using Cons.IH [of "a * 10 + d"] Representation_digit [of d] by simp
qed

lemma strToHex_dchars:
  "\<forall>d \<in> set ds. d < 16 \<Longrightarrow>
     strToHex_loop (int a) (map dchar ds) = int (foldl (\<lambda>a d. a * 16 + d) a ds)"
proof (induction ds arbitrary: a)
  case Nil
  then show ?case by simp
next
  case (Cons d ds)
  then show ?case using Cons.IH [of "a * 16 + d"] dchar_hex [of d "int a"]
    by (simp del: strToHex_loop.simps)
qed

section \<open>\<open>intToStr\<close>\<close>

lemma intDigit_dchar: "d < 10 \<Longrightarrow> intDigit (int d) = dchar d \<and> dchar d = Representation ! d"
  by (erule digit_cases) (simp_all add: intDigit_def dchar_def digitChar_def Representation_def)

lemma intToStr_loop_eq:
  "0 < n \<Longrightarrow> p + length (lsd 10 n) \<le> length b \<Longrightarrow>
     intToStr_loop b p (int n) 10 =
       Some (take p b @ map dchar (lsd 10 n) @ drop (p + length (lsd 10 n)) b, p + length (lsd 10 n))"
proof (induction n arbitrary: b p rule: less_induct)
  case (less n)
  have sd: "int n smod 10 = int (n mod 10)" "int n sdiv 10 = int (n div 10)"
    using less.prems(1) by (simp_all add: signed_modulo_int_def signed_divide_int_def zdiv_int zmod_int)
  have dig: "intDigit (int (n mod 10)) = dchar (n mod 10)" using intDigit_dchar [of "n mod 10"] by simp
  have p: "p < length b" using less.prems(2) by (cases "lsd 10 n") auto
  show ?case
  proof (cases "n < 10")
    case True
    then have "intToStr_loop b' q (int (n div 10)) 10 = Some (b', q)" for b' q
      by (subst intToStr_loop.simps) simp
    then show ?thesis
      using True less.prems sd dig p by (subst intToStr_loop.simps) (simp add: put_at lsd.simps)
  next
    case False
    have ds: "lsd 10 n = n mod 10 # lsd 10 (n div 10)" using False by (subst lsd.simps) simp
    have "n div 10 < n" "0 < n div 10" using False by auto
    note IH = less.IH [OF this, of "p + 1" "take p b @ dchar (n mod 10) # drop (Suc p) b"]
    show ?thesis
      using less.prems sd dig p IH ds
      by (subst intToStr_loop.simps) (simp add: put_at add.commute [of "length _"])
  qed
qed

text \<open>The decimal notation \<open>intToStr\<close> writes, for every \<open>int\<close> but the least one.\<close>

definition decimal :: "int \<Rightarrow> u8 list" where
  "decimal v = (if v < 0 then [45] else []) @ map dchar (rev (lsd 10 (nat \<bar>v\<bar>)))"

lemma intToStr_decimal:
  assumes "v \<noteq> - (2 ^ 31)" "length (decimal v) < length b"
  shows "\<exists>rest. intToStr v b 10 = Some (decimal v @ 0 # rest)"
proof -
  let ?ds = "lsd 10 (nat \<bar>v\<bar>)"
  let ?cs = "map dchar ?ds @ (if v < 0 then [45] else [])"
  have abs: "abs_int v = int (nat \<bar>v\<bar>)" using assms(1) by (simp add: abs_int_def)
  have len: "length ?ds < length b" using assms(2) by (auto simp: decimal_def split: if_splits)
  obtain b1 i where b1: "intToStr_loop b 0 (abs_int v) 10 = Some (b1, i)"
      "Option.bind (if i = 0 then map_option (\<lambda>b. (b, i + 1)) (put i 48 b1) else Some (b1, i)) f =
         f (map dchar ?ds @ drop (length ?ds) b, length ?ds)" for f :: "u8 list \<times> nat \<Rightarrow> u8 list option"
  proof (cases "v = 0")
    case True
    have "dchar 0 = 48" by (simp add: dchar_def digitChar_def)
    moreover have "intToStr_loop b 0 0 10 = Some (b, 0)" by (subst intToStr_loop.simps) simp
    moreover have "put 0 48 b = Some (48 # drop 1 b)" using len put_at [of 0 b 48] by (cases b) auto
    ultimately show thesis using that [of b 0] True by (simp add: abs_int_def lsd.simps)
  next
    case False
    then have "0 < nat \<bar>v\<bar>" by simp
    from intToStr_loop_eq [OF this, of 0 b] show thesis
      using that [of "map dchar ?ds @ drop (length ?ds) b" "length ?ds"] len abs by auto
  qed
  define cs where "cs = ?cs"
  have sign: "(if v < 0
        then map_option (\<lambda>b. (b, length ?ds + 1)) (put (length ?ds) 45 (map dchar ?ds @ drop (length ?ds) b))
        else Some (map dchar ?ds @ drop (length ?ds) b, length ?ds)) = Some (cs @ drop (length cs) b, length cs)"
    using len by (auto simp: put_at cs_def)
  have "length cs < length b" using assms(2) by (auto simp: decimal_def cs_def)
  then have fin: "put (length cs) 0 (cs @ drop (length cs) b) = Some (cs @ 0 # drop (Suc (length cs)) b)"
    by (subst put_at) auto
  have ne: "cs \<noteq> []" by (simp add: cs_def)
  have "intToStr v b 10 = Some (rev cs @ 0 # drop (Suc (length cs)) b)"
    using sign fin reverse_loop_all [OF ne] unfolding intToStr_def by (simp add: b1 split del: if_split)
  moreover have "rev cs = decimal v" by (simp add: decimal_def cs_def rev_map)
  ultimately show ?thesis by auto
qed

section \<open>Properties\<close>

text \<open>\<open>uintToBase\<close> with a base from 2 to 16 and a buffer that is longer than the number has digits
  writes the digits, the most significant first, and the terminator, and returns their number; \<open>value\<close>
  is recovered from them, for base 16 by the user library's own \<open>strToHex\<close>.\<close>

theorem uintToBase_strToHex:
  fixes v :: u64
  assumes "length (lsd 16 (unat v)) < length buffer"
  shows "\<exists>cs rest. uintToBase v buffer 16 = Some (cs @ 0 # rest, length cs) \<and> strToHex cs = int (unat v)"
proof -
  let ?cs = "rev (map dchar (lsd 16 (unat v)))"
  have "strToHex ?cs = int (undigits 16 (rev (lsd 16 (unat v))))"
    using strToHex_dchars [of "rev (lsd 16 (unat v))" 0] lsd_bounded [of 16]
    by (simp add: strToHex_def undigits_def rev_map)
  then have "strToHex ?cs = int (unat v)" by (simp add: undigits_lsd)
  moreover have "uintToBase v buffer 16 = Some (?cs @ 0 # drop (Suc (length (lsd 16 (unat v)))) buffer, length ?cs)"
    using uintToBase_eq [of 16 v buffer] assms by simp
  ultimately show ?thesis by blast
qed

theorem uintToBase_strToHex_witness:
  "\<exists>cs rest. uintToBase 0x4F (replicate 64 48) 16 = Some (cs @ 0 # rest, length cs) \<and> strToHex cs = 0x4F"
proof -
  have "lsd 16 79 = [15, 4]" by (simp add: lsd.simps)
  then show ?thesis using uintToBase_strToHex [of "0x4F" "replicate 64 48"] by simp
qed

text \<open>The 64-byte buffer of \<open>uintToBase\<close> is long enough for every number in every base above 2, and in
  base 2 for the numbers below \<open>2\<^sup>6\<^sup>3\<close>; \<open>ncPrintBin\<close> of a larger number writes its terminator past the end.\<close>

theorem uintToBase_fits:
  fixes v :: u64
  assumes "length buffer = 64" "2 \<le> unat base"
  shows "uintToBase v buffer base = None \<longleftrightarrow> unat base = 2 \<and> 2 ^ 63 \<le> unat v"
proof -
  have v: "unat v < 2 ^ LENGTH(64)" by (rule unsigned_less)
  have "uintToBase v buffer base = None \<longleftrightarrow> \<not> unat v < unat base ^ 63"
    using uintToBase_eq [OF assms(2), of v buffer] length_lsd [OF assms(2), of 63 "unat v"] assms(1)
    by (auto split: if_splits)
  moreover have "unat v < unat base ^ 63" if "unat base \<noteq> 2"
  proof -
    have "unat v < 3 ^ 63" using v by simp
    also have "3 ^ 63 \<le> unat base ^ 63" using that assms(2) by (intro power_mono) auto
    finally show ?thesis .
  qed
  ultimately show ?thesis by (cases "unat base = 2") auto
qed

theorem uintToBase_fits_witness:
  "uintToBase (2 ^ 63) (replicate 64 0) 2 = None"
  using uintToBase_fits [of "replicate 64 0" 2 "2 ^ 63"] by simp

text \<open>The decimal digits of a number, as \<open>_itoa\<close> writes and \<open>_atoi\<close> reads them.\<close>

definition dec_text :: "nat \<Rightarrow> u8 list" where
  "dec_text n = map (nth Representation) (rev (lsd 10 n))"

lemma itoa_dec_text: "itoa num 10 = Some (dec_text (unat num))"
  using itoa_loop_eq [of 10 "[]" num] lsd_10_length [of num] by (simp add: itoa_def dec_text_def rev_map)

lemma atoi_dec_text: "atoi (dec_text n) = int n"
proof -
  let ?ds = "rev (lsd 10 n)"
  have b: "\<forall>d \<in> set ?ds. d < 10" using lsd_bounded [of 10] by auto
  have "hd (map (nth Representation) ?ds) \<noteq> 32"
    using b Representation_digit by (cases ?ds) auto
  then have "dropWhile (\<lambda>c. c = 32) (map (nth Representation) ?ds) = map (nth Representation) ?ds"
    by (cases ?ds) auto
  then show ?thesis
    using atoi_digits_rep [OF b, of 0] undigits_lsd [of 10 n] by (simp add: dec_text_def atoi_def undigits_def)
qed


text \<open>\<open>intToStr\<close> in base 10 writes the decimal notation with a minus sign for a negative number, and
  \<open>_atoi\<close> of the part after the sign is its absolute value, for every \<open>int\<close> but the least one.\<close>

theorem intToStr_atoi:
  assumes "v \<noteq> - (2 ^ 31)" "length (decimal v) < length b"
  shows "\<exists>cs rest. intToStr v b 10 = Some ((if v < 0 then [45] else []) @ cs @ 0 # rest) \<and> atoi cs = \<bar>v\<bar>"
proof -
  let ?ds = "rev (lsd 10 (nat \<bar>v\<bar>))"
  have b: "\<forall>d \<in> set ?ds. d < 10" using lsd_bounded [of 10] by auto
  have eq: "map dchar ?ds = map (nth Representation) ?ds" using b intDigit_dchar by (intro map_cong) auto
  have "dropWhile (\<lambda>c. c = 32) (map (nth Representation) ?ds) = map (nth Representation) ?ds"
    using b Representation_digit by (cases ?ds) auto
  then have "atoi (map dchar ?ds) = \<bar>v\<bar>"
    using atoi_digits_rep [OF b, of 0] undigits_lsd [of 10 "nat \<bar>v\<bar>"]
    unfolding eq by (simp add: atoi_def undigits_def)
  moreover obtain rest where "intToStr v b 10 = Some (decimal v @ 0 # rest)"
    using intToStr_decimal [OF assms] by blast
  ultimately show ?thesis
    by (intro exI [of _ "map dchar ?ds"] exI [of _ rest]) (simp add: decimal_def)
qed

theorem intToStr_atoi_witness:
  "\<exists>cs rest. intToStr (-42) (replicate 512 0) 10 = Some ([45] @ cs @ 0 # rest) \<and> atoi cs = 42"
proof -
  have "lsd 10 42 = [2, 4]" by (simp add: lsd.simps)
  then show ?thesis using intToStr_atoi [of "-42" "replicate 512 0"] by (simp add: decimal_def)
qed

end
