(* ===== verification/KPrintf.thy ===== *)
theory KPrintf
  imports Sample Numerals
begin

text \<open>
  \<open>printf\<close> of the kernel, \<open>Kernel/lib/stdio.c\<close>, over \<open>sysWrite\<close>: the text goes to the console or to the
  output pipe of the running process.
\<close>

datatype parg = PInt int | PStr "u8 list"

definition cstring :: "u8 list \<Rightarrow> u8 list" where
  "cstring b = takeWhile (\<lambda>c. c \<noteq> 0) b"

text \<open>One number: \<open>intToStr\<close> into the local buffer of 512 bytes, then \<open>sysWrite\<close> of its length.\<close>

definition scan_number :: "int \<Rightarrow> int \<Rightarrow> kernel \<Rightarrow> int kres" where
  "scan_number v base s =
     (case intToStr v (replicate 512 (heap_junk s)) base of
        None \<Rightarrow> Crash BufferOverflow
      | Some b \<Rightarrow>
          (let thisLength = length (cstring b)
           in kbind (sysWrite (Some (cstring b)) thisLength None s) (\<lambda>_ s1. Ret (int thisLength) s1)))"

text \<open>\<open>scan\<close>: a format that ends after a percent sign is read past its end, a missing argument is
  whatever the stack holds. \<open>%s\<close> writes \<open>length\<close> bytes, the number written so far.\<close>

fun scan :: "u8 list \<Rightarrow> parg list \<Rightarrow> int \<Rightarrow> kernel \<Rightarrow> int kres" where
  "scan [] arg len s = Ret len s"
| "scan (ch # fs) arg len s =
     (if ch = 37
      then case fs of
             [] \<Rightarrow> Crash BufferOverflow
           | d # fs' \<Rightarrow>
               (if d = 37
                then kbind (sysWrite (Some [37]) 1 None s) (\<lambda>_ s1. scan fs' arg (len + 1) s1)
                else if d = 99
                then case arg of PInt v # rest \<Rightarrow>
                       kbind (sysWrite (Some [word_of_int v]) 1 None s) (\<lambda>_ s1. scan fs' rest (len + 1) s1)
                     | _ \<Rightarrow> Crash UninitRead
                else if d = 115
                then case arg of PStr str # rest \<Rightarrow>
                       kbind (sysWrite (Some str) (nat len) None s) (\<lambda>_ s1. scan fs' rest (len + int (length str)) s1)
                     | _ \<Rightarrow> Crash UninitRead
                else if d = 100
                then case arg of PInt v # rest \<Rightarrow>
                       kbind (scan_number v 10 s) (\<lambda>n s1. scan fs' rest (len + n) s1)
                     | _ \<Rightarrow> Crash UninitRead
                else if d = 120
                then case arg of PInt v # rest \<Rightarrow>
                       kbind (sysWrite (Some [48, 120]) 2 None s) (\<lambda>_ s1.
                       kbind (scan_number v 16 s1) (\<lambda>n s2. scan fs' rest (len + n) s2))
                     | _ \<Rightarrow> Crash UninitRead
                else scan fs' arg len s)
      else kbind (sysWrite (Some [ch]) 1 None s) (\<lambda>_ s1. scan fs arg (len + 1) s1))"

definition printf :: "u8 list \<Rightarrow> parg list \<Rightarrow> kernel \<Rightarrow> int kres" where
  "printf format arg s = scan format arg 0 s"

section \<open>Output on the console\<close>

definition shown :: "u8 list \<Rightarrow> kernel \<Rightarrow> kernel" where
  "shown cs s = s\<lparr>con := fold (\<lambda>c. printCharColor c LGREY BLACK True) cs (con s)\<rparr>"

lemma shown_simps [simp]:
  "shown [] s = s" "currentProc (shown cs s) = currentProc s" "shown ys (shown xs s) = shown (xs @ ys) s"
  by (simp_all add: shown_def)

lemma sysWrite_loop_stdout:
  "0 \<notin> set cs \<Longrightarrow> sysWrite_loop STDOUT_PIPENO LGREY BLACK n i cs s =
     Ret (i + int (min n (length cs))) (shown (take n cs) s)"
proof (induction cs arbitrary: n i s)
  case Nil
  then show ?case by simp
next
  case (Cons c cs)
  show ?case
  proof (cases n)
    case 0
    then show ?thesis by simp
  next
    case (Suc k)
    have "c \<noteq> 0" using Cons.prems by auto
    then show ?thesis using Suc Cons by (simp add: shown_def)
  qed
qed

lemma sysWrite_stdout:
  assumes "currentProc s = Some p" "pc_fd1 p = STDOUT_PIPENO" "0 \<notin> set cs"
  shows "\<exists>r. sysWrite (Some cs) n None s = Ret r (shown (take n cs) s)"
  using assms by (simp add: sysWrite_def sysWrite_loop_stdout)

lemma scan_plain:
  "currentProc s = Some p \<Longrightarrow> pc_fd1 p = STDOUT_PIPENO \<Longrightarrow> 37 \<notin> set pre \<Longrightarrow> 0 \<notin> set pre \<Longrightarrow>
     scan (pre @ fs) arg n s = scan fs arg (n + int (length pre)) (shown pre s)"
proof (induction pre arbitrary: n s)
  case Nil
  then show ?case by simp
next
  case (Cons c pre)
  obtain r where r: "sysWrite (Some [c]) 1 None s = Ret r (shown (take 1 [c]) s)"
    using sysWrite_stdout [OF Cons.prems(1,2), of "[c]" 1] Cons.prems(4) by auto
  have "scan (c # pre @ fs) arg n s = scan (pre @ fs) arg (n + 1) (shown [c] s)"
    using r Cons.prems(3) by (subst scan.simps) auto
  also have "\<dots> = scan fs arg (n + 1 + int (length pre)) (shown pre (shown [c] s))"
    using Cons.prems by (intro Cons.IH) auto
  finally show ?case by (simp add: add.assoc)
qed

section \<open>Properties\<close>

text \<open>C13. \<open>printf\<close> of a text without a percent sign, by a process whose output is the console, shows exactly
  this text and returns its length. A \<open>%s\<close> directive behind it shows only as many bytes of its
  string as the text has (none when the format begins with it), though the length of the whole
  string is returned: the code passes \<open>length\<close> where it means \<open>thisLength\<close>.\<close>

theorem printf_text_and_string:
  assumes "currentProc s = Some p" "pc_fd1 p = STDOUT_PIPENO" "37 \<notin> set pre" "0 \<notin> set pre" "0 \<notin> set str"
  shows "printf pre [] s = Ret (int (length pre)) (shown pre s) \<and>
     printf (pre @ [37, 115]) [PStr str] s =
       Ret (int (length pre) + int (length str)) (shown (pre @ take (length pre) str) s)"
proof -
  have "currentProc (shown pre s) = Some p" using assms(1) by simp
  then obtain r where "sysWrite (Some str) (length pre) None (shown pre s) = Ret r (shown (take (length pre) str) (shown pre s))"
    using sysWrite_stdout [OF _ assms(2,5)] by blast
  then show ?thesis
    using scan_plain [OF assms(1-4), of "[]" "[]" 0] scan_plain [OF assms(1-4), of "[37, 115]" "[PStr str]" 0]
    by (simp add: printf_def)
qed

theorem printf_text_and_string_witness:
  "printf [72, 105] [] sample = Ret 2 (shown [72, 105] sample) \<and>
     printf [72, 105, 37, 115] [PStr [97, 98, 99]] sample = Ret 5 (shown [72, 105, 97, 98] sample)"
proof -
  have "currentProc sample = Some (samplePcb 3 0 1 READY 0x3000 4)" "pc_fd1 (samplePcb 3 0 1 READY 0x3000 4) = STDOUT_PIPENO"
    by (simp_all add: sample_def samplePcb_def STDOUT_PIPENO_def)
  from printf_text_and_string [OF this, of "[72, 105]" "[97, 98, 99]"] show ?thesis by simp
qed

end
