(* ===== verification/NaiveConsole.thy ===== *)
theory NaiveConsole
  imports Numerals
begin

text \<open>
  \<open>Kernel/naiveConsole.c\<close>, the console of the boot: it writes characters to the video memory from a
  running position and never scrolls. \<open>nv\<close> is the memory from the start of the screen on, \<open>npos\<close> the
  number of two-byte cells \<open>currentVideo\<close> is behind it, \<open>nbuf\<close> the static buffer of numbers.
\<close>

record nconsole =
  nv :: "nat \<Rightarrow> u8"
  npos :: nat
  nbuf :: "u8 list"

definition ncPrintChar :: "u8 \<Rightarrow> nconsole \<Rightarrow> nconsole" where
  "ncPrintChar c n = n\<lparr>nv := (nv n)(2 * npos n := c), npos := npos n + 1\<rparr>"

primrec ncPrint :: "u8 list \<Rightarrow> nconsole \<Rightarrow> nconsole" where
  "ncPrint [] n = n"
| "ncPrint (c # cs) n = (if c = 0 then n else ncPrint cs (ncPrintChar c n))"

function ncNewline :: "nconsole \<Rightarrow> nconsole" where
  "ncNewline n = (let n1 = ncPrintChar 32 n in if (2 * npos n1) mod 160 \<noteq> 0 then ncNewline n1 else n1)"
  by pat_completeness auto

lemma line_step:
  assumes "(2 * Suc p) mod 160 \<noteq> 0"
  shows "Suc p mod 80 = Suc (p mod 80)" "Suc p div 80 = p div 80"
proof -
  have "Suc p mod 80 \<noteq> 0" using assms mod_mult_mult1 [of 2 "Suc p" 80] by auto
  then show "Suc p mod 80 = Suc (p mod 80)" by (auto simp: mod_Suc split: if_splits)
  then show "Suc p div 80 = p div 80" by (simp add: div_Suc)
qed

termination ncNewline
proof (relation "measure (\<lambda>n. 80 - npos n mod 80)")
  fix n x assume "x = ncPrintChar 32 n" "(2 * npos x) mod 160 \<noteq> 0"
  then have "npos x mod 80 = Suc (npos n mod 80)" by (simp add: ncPrintChar_def line_step del: mult_Suc_right)
  moreover have "npos x mod 80 < 80" by simp
  ultimately show "(x, n) \<in> measure (\<lambda>n. 80 - npos n mod 80)" by simp
qed simp

declare ncNewline.simps [simp del]

definition debug :: "u8 list \<Rightarrow> nconsole \<Rightarrow> nconsole" where
  "debug str n = n\<lparr>nv := fold (\<lambda>(i, c) v. v(160 * 24 + i * 2 := c)) (enumerate 0 (takeWhile (\<lambda>c. c \<noteq> 0) str)) (nv n)\<rparr>"

definition ncPrintBase :: "u64 \<Rightarrow> u32 \<Rightarrow> nconsole \<Rightarrow> nconsole option" where
  "ncPrintBase num base n =
     map_option (\<lambda>(b, _). ncPrint b (n\<lparr>nbuf := b\<rparr>)) (uintToBase num (nbuf n) base)"

definition ncPrintDec :: "u64 \<Rightarrow> nconsole \<Rightarrow> nconsole option" where "ncPrintDec num = ncPrintBase num 10"
definition ncPrintHex :: "u64 \<Rightarrow> nconsole \<Rightarrow> nconsole option" where "ncPrintHex num = ncPrintBase num 16"
definition ncPrintBin :: "u64 \<Rightarrow> nconsole \<Rightarrow> nconsole option" where "ncPrintBin num = ncPrintBase num 2"

definition debugBase :: "u64 \<Rightarrow> u32 \<Rightarrow> nconsole \<Rightarrow> nconsole option" where
  "debugBase num base n = map_option (\<lambda>(b, _). debug b (n\<lparr>nbuf := b\<rparr>)) (uintToBase num (nbuf n) base)"

definition ncClear :: "nconsole \<Rightarrow> nconsole" where
  "ncClear n = n\<lparr>nv := fold (\<lambda>i v. v(i * 2 := 32)) [0 ..< 25 * 80] (nv n), npos := 0\<rparr>"

section \<open>What they do\<close>

lemma uintToBase_total:
  fixes num :: u64
  assumes "length b = 64" "unat base = 10 \<or> unat base = 16"
  shows "\<exists>b' k. uintToBase num b base = Some (b', k) \<and> length b' = 64"
proof -
  have base: "2 \<le> unat base" "unat base \<noteq> 2" using assms(2) by auto
  have "\<not> (unat base = 2 \<and> 2 ^ 63 \<le> unat num)" using base by simp
  have "unat num < 2 ^ LENGTH(64)" by (rule unsigned_less)
  also have "(2 :: nat) ^ LENGTH(64) \<le> unat base ^ 63"
    using power_mono [of 10 "unat base" 63] assms(2) by auto
  finally have "length (lsd (unat base) (unat num)) \<le> 63" using base by (simp add: length_lsd)
  then show ?thesis using uintToBase_eq [OF base(1), of num b] assms(1) by simp
qed

lemma ncPrintBase_total:
  assumes "length (nbuf n) = 64" "unat base = 10 \<or> unat base = 16"
  shows "\<exists>n'. ncPrintBase num base n = Some n' \<and> length (nbuf n') = 64"
proof -
  have "nbuf (ncPrint cs m) = nbuf m" for cs m
    by (induction cs arbitrary: m) (simp_all add: ncPrintChar_def)
  then show ?thesis using uintToBase_total [OF assms, of num] by (auto simp: ncPrintBase_def)
qed

text \<open>\<open>ncNewline\<close> fills the rest of the line and goes to the start of the next one.\<close>

lemma ncNewline_spec:
  "npos (ncNewline n) = (npos n div 80 + 1) * 80 \<and> nbuf (ncNewline n) = nbuf n \<and>
     (\<forall>k. nv (ncNewline n) k =
        (if 2 * npos n \<le> k \<and> k < 2 * ((npos n div 80 + 1) * 80) \<and> even k then 32 else nv n k))"
proof (induction n rule: ncNewline.induct)
  case (1 n)
  let ?n = "ncPrintChar 32 n"
  have n1: "npos ?n = Suc (npos n)" "nbuf ?n = nbuf n" "nv ?n = (nv n)(2 * npos n := 32)" by (simp_all add: ncPrintChar_def)
  have cell: "k = 2 * npos n \<or> 2 * Suc (npos n) \<le> k" if "2 * npos n \<le> k" "even k" for k
    using that by (auto elim!: evenE)
  have row: "npos n < (npos n div 80 + 1) * 80" using div_mult_mod_eq [of "npos n" 80] mod_less_divisor [of 80 "npos n"] by simp
  show ?case
  proof (cases "(2 * npos ?n) mod 160 = 0")
    case True
    then have "80 dvd Suc (npos n)" using mod_mult_mult1 [of 2 "Suc (npos n)" 80] n1(1) by auto
    then obtain k where k: "Suc (npos n) = 80 * k" by (elim dvdE)
    then have "npos n div 80 < k" by (simp add: div_less_iff_less_mult)
    then have "(npos n div 80 + 1) * 80 = Suc (npos n)" using k row by simp
    then show ?thesis using True n1 cell by (subst (1 2 3) ncNewline.simps) (force simp: Let_def)
  next
    case False
    have div: "npos ?n div 80 = npos n div 80" using False n1(1) line_step(2) by simp
    have eq: "ncNewline n = ncNewline ?n" using False by (subst ncNewline.simps) (simp add: Let_def)
    from 1 [OF refl False] show ?thesis unfolding eq div using n1 cell row by fastforce
  qed
qed

lemma ncClear_cells: "k < 4000 \<Longrightarrow> nv (ncClear n) k = (if even k then 32 else nv n k)"
proof -
  have "fold (\<lambda>i v. v(i * 2 := 32)) [0 ..< m] v k = (if even k \<and> k < 2 * m then 32 else v k)" for m and v :: "nat \<Rightarrow> u8"
    by (induction m) (auto elim!: evenE)
  from this [of "25 * 80" "nv n"] show "k < 4000 \<Longrightarrow> ?thesis" by (auto simp: ncClear_def)
qed

end
