(* ===== verification/Loader.thy ===== *)
theory Loader
  imports NaiveConsole CString
begin

text \<open>
  From the build to the running kernel: \<open>Toolchain/ModulePacker/main.c\<close> appends the user modules to the
  kernel's binary, and \<open>loadModules\<close> of \<open>Kernel/moduleLoader.c\<close> copies them to their addresses with
  \<open>memcpy\<close> of \<open>Kernel/lib.c\<close>. Files are lists of bytes; what the file system holds is an argument.
\<close>

section \<open>Memory\<close>

definition read32 :: "memory \<Rightarrow> u64 \<Rightarrow> u32" where
  "read32 m a = ucast (m a) OR push_bit 8 (ucast (m (a + 1))) OR push_bit 16 (ucast (m (a + 2)))
     OR push_bit 24 (ucast (m (a + 3)))"

definition le32 :: "u32 \<Rightarrow> u8 list" where
  "le32 w = [ucast w, ucast (drop_bit 8 w), ucast (drop_bit 16 w), ucast (drop_bit 24 w)]"

definition write32 :: "memory \<Rightarrow> u64 \<Rightarrow> u32 \<Rightarrow> memory" where
  "write32 m a w = m(a := ucast w, a + 1 := ucast (drop_bit 8 w), a + 2 := ucast (drop_bit 16 w),
     a + 3 := ucast (drop_bit 24 w))"

text \<open>\<open>memset\<close> fills from the end; \<open>memcpy\<close> copies forwards, by 32-bit words when everything is aligned.\<close>

primrec memset_loop :: "nat \<Rightarrow> u8 \<Rightarrow> u64 \<Rightarrow> memory \<Rightarrow> memory" where
  "memset_loop 0 chr dst m = m"
| "memset_loop (Suc n) chr dst m = memset_loop n chr dst (m(dst + of_nat n := chr))"

definition memset :: "u64 \<Rightarrow> int \<Rightarrow> u64 \<Rightarrow> memory \<Rightarrow> memory" where
  "memset destination c len m = memset_loop (unat len) (word_of_int c) destination m"

definition copyBytes :: "u64 \<Rightarrow> u64 \<Rightarrow> nat \<Rightarrow> memory \<Rightarrow> memory" where
  "copyBytes d s n m = fold (\<lambda>i m. m(d + of_nat i := m (s + of_nat i))) [0 ..< n] m"

definition copyWords :: "u64 \<Rightarrow> u64 \<Rightarrow> nat \<Rightarrow> memory \<Rightarrow> memory" where
  "copyWords d s n m = fold (\<lambda>i m. write32 m (d + 4 * of_nat i) (read32 m (s + 4 * of_nat i))) [0 ..< n] m"

definition memcpy :: "u64 \<Rightarrow> u64 \<Rightarrow> u64 \<Rightarrow> memory \<Rightarrow> memory" where
  "memcpy destination source len m =
     (if destination mod 4 = 0 \<and> source mod 4 = 0 \<and> len mod 4 = 0
      then copyWords destination source (unat (len div 4)) m
      else copyBytes destination source (unat len) m)"

section \<open>Loading\<close>

definition readUint32 :: "memory \<Rightarrow> u64 \<Rightarrow> u32 \<times> u64" where
  "readUint32 m address = (read32 m address, address + 4)"

text \<open>\<open>loadModule\<close> with its messages; what it loads from and to is memory, the screen is apart from it.\<close>

definition loadModule :: "u64 \<Rightarrow> u64 \<Rightarrow> memory \<times> nconsole \<Rightarrow> (u64 \<times> memory \<times> nconsole) option" where
  "loadModule address target st =
     (let (m, n) = st; (moduleSize, address) = readUint32 m address;
          n = ncPrint [32, 32, 87, 105, 108, 108, 32, 99, 111, 112, 121, 32, 109, 111, 100, 117, 108, 101,
                       32, 97, 116, 32, 48, 120] n
      in Option.bind (ncPrintHex address n) (\<lambda>n.
         Option.bind (ncPrintHex target (ncPrint [32, 116, 111, 32, 48, 120] n)) (\<lambda>n.
         Option.bind (ncPrintDec (ucast moduleSize) (ncPrint [32, 40] n)) (\<lambda>n.
           let n = ncPrint [32, 98, 121, 116, 101, 115, 41] n;
               m = memcpy target address (ucast moduleSize) m
           in Some (address + ucast moduleSize, m,
                    ncNewline (ncPrint [32, 91, 68, 111, 110, 101, 93] n))))))"

text \<open>The loop of \<open>loadModules\<close>; the array of target addresses ends where the code's array ends.\<close>

primrec loadModules_loop :: "nat \<Rightarrow> u64 \<Rightarrow> u64 list \<Rightarrow> memory \<times> nconsole \<Rightarrow> (memory \<times> nconsole) option" where
  "loadModules_loop 0 address targets st = Some st"
| "loadModules_loop (Suc k) address targets st =
     (case targets of
        [] \<Rightarrow> None
      | t # ts \<Rightarrow> Option.bind (loadModule address t st) (\<lambda>(a, st). loadModules_loop k a ts st))"

definition loadModules :: "u64 \<Rightarrow> u64 list \<Rightarrow> memory \<times> nconsole \<Rightarrow> (memory \<times> nconsole) option" where
  "loadModules payloadStart targets st =
     (let (moduleCount, a) = readUint32 (fst st) payloadStart
      in loadModules_loop (unat moduleCount) a targets st)"

section \<open>Packing\<close>

definition BUFFER_SIZE :: nat where "BUFFER_SIZE = 128"

text \<open>\<open>write_file\<close>: full buffers until a read comes short.\<close>

function write_file :: "u8 list \<Rightarrow> u8 list \<Rightarrow> u8 list" where
  "write_file target source =
     (let chunk = take BUFFER_SIZE source
      in if length chunk < BUFFER_SIZE then target @ chunk
         else write_file (target @ chunk) (drop BUFFER_SIZE source))"
  by pat_completeness auto
termination by (relation "measure (\<lambda>(t, s). length s)") (auto simp: BUFFER_SIZE_def)

declare write_file.simps [simp del]

definition write_size :: "u8 list \<Rightarrow> u8 list \<Rightarrow> u8 list" where
  "write_size target file = target @ le32 (of_nat (length file))"

definition checkFiles :: "(string \<Rightarrow> u8 list option) \<Rightarrow> string list \<Rightarrow> bool" where
  "checkFiles fs names = list_all (\<lambda>f. fs f \<noteq> None) names"

definition buildImage :: "(string \<Rightarrow> u8 list option) \<Rightarrow> string list \<Rightarrow> u8 list" where
  "buildImage fs names =
     fold (\<lambda>f target. write_file (write_size target (the (fs f))) (the (fs f))) (tl names)
       (write_file [] (the (fs (hd names))) @ le32 (of_nat (length names - 1)))"

text \<open>
  \<open>main\<close> of the packer: the exit status, and the image unless a file cannot be read or the image cannot be
  created (\<open>creat\<close>).
\<close>

definition packer :: "bool \<Rightarrow> (string \<Rightarrow> u8 list option) \<Rightarrow> string list \<Rightarrow> int \<times> u8 list option" where
  "packer creat fs names =
     (if \<not> checkFiles fs names then (1, None) else if \<not> creat then (1, None) else (0, Some (buildImage fs names)))"

section \<open>Copying\<close>

definition holds :: "memory \<Rightarrow> u64 \<Rightarrow> u8 list \<Rightarrow> bool" where
  "holds m a xs \<longleftrightarrow> (\<forall>i < length xs. m (a + of_nat i) = xs ! i)"

definition span :: "u64 \<Rightarrow> nat \<Rightarrow> u64 set" where
  "span a n = (\<lambda>i. a + of_nat i) ` {..< n}"

lemma memset_loop_at: "memset_loop n c d m x = (if x \<in> span d n then c else m x)"
proof (induction n arbitrary: m)
  case 0
  then show ?case by (simp add: span_def)
next
  case (Suc n)
  then show ?case by (auto simp: span_def lessThan_Suc)
qed

lemma of_nat_inj: "i < 2 ^ 64 \<Longrightarrow> j < 2 ^ 64 \<Longrightarrow> (of_nat i :: u64) = of_nat j \<Longrightarrow> i = j"
  by (simp add: word_of_nat_eq_iff take_bit_nat_eq_self)

lemma read32_le32:
  assumes "holds m a (le32 w)"
  shows "read32 m a = w"
proof -
  have "m a = ucast w" "m (a + 1) = ucast (drop_bit 8 w)" "m (a + 2) = ucast (drop_bit 16 w)"
    "m (a + 3) = ucast (drop_bit 24 w)"
    using assms by (auto simp: holds_def le32_def numeral_eq_Suc less_Suc_eq all_conj_distrib)
  note bytes = this
  show ?thesis
  proof (rule bit_word_eqI)
    fix n assume n: "n < LENGTH(32)"
    consider "n < 8" | "8 \<le> n" "n < 16" | "16 \<le> n" "n < 24" | "24 \<le> n" by linarith
    then show "bit (read32 m a) n = bit w n"
      using n by cases (auto simp: read32_def bytes bit_simps less_diff_conv2)
  qed
qed

lemma span_mono: "n \<le> k \<Longrightarrow> span a n \<subseteq> span a k"
  by (auto simp: span_def)

lemma fold_copy:
  assumes "\<And>i j. i < n \<Longrightarrow> j < n \<Longrightarrow> (d :: u64) + of_nat i \<noteq> s + of_nat j" "n \<le> 2 ^ 64"
  shows "(\<forall>a. a \<notin> span d n \<longrightarrow> copyBytes d s n m a = m a) \<and>
     (\<forall>i < n. copyBytes d s n m (d + of_nat i) = m (s + of_nat i))"
  using assms
proof (induction n)
  case 0
  then show ?case by (simp add: copyBytes_def)
next
  case (Suc n)
  have IH: "\<forall>a. a \<notin> span d n \<longrightarrow> copyBytes d s n m a = m a"
    "\<forall>i < n. copyBytes d s n m (d + of_nat i) = m (s + of_nat i)"
    using Suc.IH Suc.prems by auto
  have step: "copyBytes d s (Suc n) m = (copyBytes d s n m)(d + of_nat n := copyBytes d s n m (s + of_nat n))"
    by (simp add: copyBytes_def)
  have "s + of_nat n \<notin> span d n"
    using Suc.prems(1) by (auto simp: span_def dest: sym)
  then have src: "copyBytes d s n m (s + of_nat n) = m (s + of_nat n)" using IH(1) by simp
  have "span d n \<subseteq> span d (Suc n)" "d + of_nat n \<in> span d (Suc n)" by (auto simp: span_def)
  moreover have "(d + of_nat i = d + of_nat n) = (i = n)" if "i < n" for i
    using of_nat_inj [of i n] that Suc.prems(2) by auto
  ultimately show ?case
    unfolding step using IH src by (auto simp: less_Suc_eq)
qed

lemma read32_bytes:
  "ucast (read32 m a) = m a" "ucast (drop_bit 8 (read32 m a)) = m (a + 1)"
  "ucast (drop_bit 16 (read32 m a)) = m (a + 2)" "ucast (drop_bit 24 (read32 m a)) = m (a + 3)"
  by (rule bit_word_eqI, auto simp: read32_def bit_simps dest: bit_imp_le_length)+

lemma write32_read32:
  assumes "\<And>i j. i < 4 \<Longrightarrow> j < 4 \<Longrightarrow> (d :: u64) + of_nat i \<noteq> s + of_nat j"
  shows "write32 m d (read32 m s) = copyBytes d s 4 m"
proof -
  have "[0 ..< 4] = [0, 1, 2, 3 :: nat]" by (simp add: upt_rec)
  then show ?thesis
    using assms [of 0 1] assms [of 0 2] assms [of 0 3] assms [of 1 2] assms [of 1 3] assms [of 2 3]
    by (simp add: write32_def read32_bytes copyBytes_def)
qed

lemma copyBytes_add:
  "copyBytes d s (k + n) m = copyBytes (d + of_nat k) (s + of_nat k) n (copyBytes d s k m)"
proof (induction n)
  case 0
  then show ?case by (simp add: copyBytes_def)
next
  case (Suc n)
  have "copyBytes d s (k + Suc n) m = (copyBytes d s (k + n) m)(d + of_nat (k + n) := copyBytes d s (k + n) m (s + of_nat (k + n)))"
    by (simp add: copyBytes_def)
  also have "\<dots> = copyBytes (d + of_nat k) (s + of_nat k) (Suc n) (copyBytes d s k m)"
    unfolding Suc by (simp add: copyBytes_def add.assoc)
  finally show ?case .
qed

lemma copyWords_bytes:
  assumes "\<And>i j. i < 4 * n \<Longrightarrow> j < 4 * n \<Longrightarrow> (d :: u64) + of_nat i \<noteq> s + of_nat j"
  shows "copyWords d s n m = copyBytes d s (4 * n) m"
  using assms
proof (induction n)
  case 0
  then show ?case by (simp add: copyBytes_def copyWords_def)
next
  case (Suc n)
  let ?m = "copyBytes d s (4 * n) m"
  let ?d = "d + 4 * of_nat n" and ?s = "s + 4 * of_nat n"
  have ne: "?d + of_nat i \<noteq> ?s + of_nat j" if "i < 4" "j < 4" for i j
    using Suc.prems [of "4 * n + i" "4 * n + j"] that by (simp add: add.assoc)
  have "copyWords d s (Suc n) m = write32 ?m ?d (read32 ?m ?s)"
    using Suc by (simp add: copyWords_def)
  also have "\<dots> = copyBytes ?d ?s 4 ?m"
    by (rule write32_read32) (rule ne)
  also have "\<dots> = copyBytes d s (4 * Suc n) m"
    using copyBytes_add [of d s "4 * n" 4 m] by (simp add: add.commute)
  finally show ?case .
qed

text \<open>\<open>memcpy\<close> between areas that do not overlap, whichever loop it takes.\<close>

lemma memcpy_copies:
  assumes "\<And>i j. i < unat len \<Longrightarrow> j < unat len \<Longrightarrow> (d :: u64) + of_nat i \<noteq> s + of_nat j"
  shows "memcpy d s len m = copyBytes d s (unat len) m"
proof (cases "d mod 4 = 0 \<and> s mod 4 = 0 \<and> len mod 4 = 0")
  case True
  have "unat (len mod 4) = unat len mod 4" by (simp add: unat_mod_distrib)
  then have "unat len mod 4 = 0" using True by simp
  then have len: "4 * unat (len div 4) = unat len" by (auto simp: unat_div_distrib)
  then show ?thesis using True copyWords_bytes [of "unat (len div 4)" d s m] assms by (simp add: memcpy_def)
next
  case False
  then show ?thesis by (simp only: memcpy_def if_False)
qed

section \<open>One module\<close>

lemma holds_append:
  "holds m a (xs @ ys) \<longleftrightarrow> holds m a xs \<and> holds m (a + of_nat (length xs)) ys"
proof
  assume "holds m a (xs @ ys)"
  then have h: "m (a + of_nat i) = (xs @ ys) ! i" if "i < length xs + length ys" for i using that by (simp add: holds_def)
  have "m (a + of_nat (length xs) + of_nat i) = ys ! i" if "i < length ys" for i
    using h [of "length xs + i"] that by (simp add: add.assoc)
  then show "holds m a xs \<and> holds m (a + of_nat (length xs)) ys"
    using h by (auto simp: holds_def nth_append)
next
  assume *: "holds m a xs \<and> holds m (a + of_nat (length xs)) ys"
  have "m (a + of_nat i) = (xs @ ys) ! i" if "i < length xs + length ys" for i
  proof (cases "i < length xs")
    case True
    then show ?thesis using * by (simp add: holds_def nth_append)
  next
    case False
    have "\<forall>j < length ys. m (a + of_nat (length xs) + of_nat j) = ys ! j" using * by (simp add: holds_def)
    then have "m (a + of_nat (length xs) + of_nat (i - length xs)) = ys ! (i - length xs)"
      by (rule allE [of _ "i - length xs"]) (use False that in \<open>auto simp del: of_nat_diff\<close>)
    moreover have "a + of_nat (length xs) + of_nat (i - length xs) = a + of_nat i"
      using False by (simp add: of_nat_diff)
    ultimately show ?thesis using False by (simp add: nth_append del: of_nat_diff)
  qed
  then show "holds m a (xs @ ys)" by (simp add: holds_def)
qed

lemma holds_outside: "holds m a xs \<Longrightarrow> (\<And>x. x \<in> span a (length xs) \<Longrightarrow> m' x = m x) \<Longrightarrow> holds m' a xs"
  by (auto simp: holds_def span_def)

lemma in_span: "i < n \<Longrightarrow> a + of_nat i \<in> span a n"
  by (auto simp: span_def)

lemma span_part: "k + n \<le> l \<Longrightarrow> span (a + of_nat k) n \<subseteq> span a l"
proof
  fix x assume "k + n \<le> l" "x \<in> span (a + of_nat k) n"
  then obtain i where "i < n" "x = a + of_nat k + of_nat i" by (auto simp: span_def)
  then show "x \<in> span a l" using \<open>k + n \<le> l\<close> by (auto simp: span_def add.assoc intro!: image_eqI [of _ _ "k + i"])
qed

lemma copy_module:
  assumes "holds m s f" "span d (length f) \<inter> span s (length f) = {}" "length f < 2 ^ 32"
  shows "holds (copyBytes d s (length f) m) d f" "\<forall>x. x \<notin> span d (length f) \<longrightarrow> copyBytes d s (length f) m x = m x"
proof -
  have "d + of_nat i \<noteq> s + of_nat j" if "i < length f" "j < length f" for i j
    using in_span [OF that(1), of d] in_span [OF that(2), of s] assms(2) by auto
  from fold_copy [OF this, of "length f" m]
  show "holds (copyBytes d s (length f) m) d f" "\<forall>x. x \<notin> span d (length f) \<longrightarrow> copyBytes d s (length f) m x = m x"
    using assms(1,3) by (auto simp: holds_def)
qed

lemma nbuf_ncPrint [simp]: "nbuf (ncPrint cs n) = nbuf n"
  by (induction cs arbitrary: n) (simp_all add: ncPrintChar_def)

lemma nbuf_ncNewline [simp]: "nbuf (ncNewline n) = nbuf n"
  using ncNewline_spec [of n] by simp

lemma size_word: "k < 2 ^ 32 \<Longrightarrow> unat (ucast (of_nat k :: u32) :: u64) = k" "k < 2 ^ 32 \<Longrightarrow> (ucast (of_nat k :: u32) :: u64) = of_nat k"
proof -
  assume k: "k < 2 ^ 32"
  have "unat (of_nat k :: u32) = k" using k by (simp add: unat_of_nat take_bit_nat_eq_self)
  then show u: "unat (ucast (of_nat k :: u32) :: u64) = k" by simp
  have "unat (of_nat k :: u64) = k" using k by (simp add: unat_of_nat)
  then show "(ucast (of_nat k :: u32) :: u64) = of_nat k" using u by (metis word_unat_eq_iff)
qed

lemma loadModule_ok:
  assumes "holds m a (le32 (of_nat (length f)) @ f)" "span t (length f) \<inter> span (a + 4) (length f) = {}"
    "length f < 2 ^ 32" "length (nbuf n) = 64"
  shows "\<exists>n'. loadModule a t (m, n) = Some (a + 4 + of_nat (length f), copyBytes t (a + 4) (length f) m, n') \<and>
     length (nbuf n') = 64"
proof -
  have sz: "read32 m a = of_nat (length f)" using assms(1) by (intro read32_le32) (simp add: holds_append)
  have "t + of_nat i \<noteq> a + 4 + of_nat j" if "i < length f" "j < length f" for i j
    using in_span [OF that(1), of t] in_span [OF that(2), of "a + 4"] assms(2) by auto
  then have cp: "memcpy t (a + 4) (ucast (read32 m a)) m = copyBytes t (a + 4) (length f) m"
    using memcpy_copies [of "ucast (read32 m a)" t "a + 4" m] size_word [OF assms(3)] sz by simp
  have hex: "\<exists>n'. ncPrintHex x k = Some n' \<and> length (nbuf n') = 64" if "length (nbuf k) = 64" for x k
    using ncPrintBase_total [OF that, of 16] by (simp add: ncPrintHex_def)
  have dec: "\<exists>n'. ncPrintDec x k = Some n' \<and> length (nbuf n') = 64" if "length (nbuf k) = 64" for x k
    using ncPrintBase_total [OF that, of 10] by (simp add: ncPrintDec_def)
  obtain n1 where n1: "ncPrintHex (a + 4) (ncPrint [32, 32, 87, 105, 108, 108, 32, 99, 111, 112, 121, 32, 109, 111, 100,
      117, 108, 101, 32, 97, 116, 32, 48, 120] n) = Some n1" "length (nbuf n1) = 64"
    using hex assms(4) by (metis nbuf_ncPrint)
  obtain n2 where n2: "ncPrintHex t (ncPrint [32, 116, 111, 32, 48, 120] n1) = Some n2" "length (nbuf n2) = 64"
    using hex n1(2) by (metis nbuf_ncPrint)
  obtain n3 where n3: "ncPrintDec (ucast (read32 m a)) (ncPrint [32, 40] n2) = Some n3" "length (nbuf n3) = 64"
    using dec n2(2) by (metis nbuf_ncPrint)
  have ad: "a + 4 + ucast (read32 m a) = a + 4 + of_nat (length f)" using size_word(2) [OF assms(3)] sz by simp
  show ?thesis
    unfolding loadModule_def readUint32_def Let_def prod.case n1 n2 n3 Option.bind.bind_lunit cp ad
    using n3(2) by (simp del: ncPrint.simps)
qed

section \<open>The payload\<close>

text \<open>A module in the image: its size in four little-endian bytes, and its bytes.\<close>

definition packed :: "u8 list \<Rightarrow> u8 list" where
  "packed f = le32 (of_nat (length f)) @ f"

definition payload :: "u8 list list \<Rightarrow> u8 list" where
  "payload fl = le32 (of_nat (length fl)) @ concat (map packed fl)"

lemma length_le32 [simp]: "length (le32 w) = 4"
  by (simp add: le32_def)

lemma write_file_eq [simp]: "write_file t s = t @ s"
  by (induction t s rule: write_file.induct) (subst write_file.simps, simp add: Let_def min_less_iff_disj)

lemma buildImage_eq:
  "buildImage fs (k # mods) = the (fs k) @ payload (map (\<lambda>f. the (fs f)) mods)"
proof -
  have "fold (\<lambda>f target. write_file (write_size target (the (fs f))) (the (fs f))) mods t =
      t @ concat (map packed (map (\<lambda>f. the (fs f)) mods))" for t
    by (induction mods arbitrary: t) (simp_all add: write_size_def packed_def)
  then show ?thesis by (simp add: buildImage_def payload_def)
qed

text \<open>Areas that modules are copied to: away from the payload and from each other.\<close>

definition apart :: "u64 \<Rightarrow> nat \<Rightarrow> u64 list \<Rightarrow> u8 list list \<Rightarrow> bool" where
  "apart a n ts fl \<longleftrightarrow> length fl \<le> length ts \<and>
     (\<forall>i < length fl. span (ts ! i) (length (fl ! i)) \<inter> span a n = {}) \<and>
     (\<forall>i < length fl. \<forall>j < length fl. i \<noteq> j \<longrightarrow> span (ts ! i) (length (fl ! i)) \<inter> span (ts ! j) (length (fl ! j)) = {})"

lemma apart_Cons:
  assumes "apart a n (t # ts) (f # fl)" "k + l \<le> n"
  shows "apart (a + of_nat k) l ts fl"
  using assms(1) span_part [OF assms(2), of a]
  unfolding apart_def by (simp add: All_less_Suc2) blast

lemma loadModules_loop_ok:
  assumes "holds m a (concat (map packed fl))" "apart a (length (concat (map packed fl))) ts fl"
    "\<forall>f \<in> set fl. length f < 2 ^ 32" "length (nbuf n) = 64"
  shows "\<exists>m' n'. loadModules_loop (length fl) a ts (m, n) = Some (m', n') \<and> length (nbuf n') = 64 \<and>
     (\<forall>i < length fl. holds m' (ts ! i) (fl ! i)) \<and>
     (\<forall>x. (\<forall>i < length fl. x \<notin> span (ts ! i) (length (fl ! i))) \<longrightarrow> m' x = m x)"
  using assms
proof (induction fl arbitrary: a ts m n)
  case Nil
  then show ?case by simp
next
  case (Cons f fl)
  obtain t ts' where ts: "ts = t # ts'" using Cons.prems(2) by (cases ts) (auto simp: apart_def)
  let ?rest = "concat (map packed fl)"
  have all: "concat (map packed (f # fl)) = packed f @ ?rest" by simp
  have lp: "length (packed f) = 4 + length f" by (simp add: packed_def)
  have next_a: "a + of_nat (length (packed f)) = a + 4 + of_nat (length f)" by (simp add: lp add.assoc)
  let ?m = "copyBytes t (a + 4) (length f) m"
  have off: "span t (length f) \<inter> span a (length (packed f) + length ?rest) = {}"
    using Cons.prems(2) unfolding ts all by (force simp: apart_def)
  have "span (a + 4) (length f) \<subseteq> span a (length (packed f) + length ?rest)"
    using span_part [of 4 "length f" _ a] lp by simp
  then have dis: "span t (length f) \<inter> span (a + 4) (length f) = {}" using off by blast
  have f: "holds m a (packed f)" "holds m (a + 4 + of_nat (length f)) ?rest"
    using Cons.prems(1) unfolding all holds_append next_a by auto
  have "holds m (a + 4) f" using f(1) by (simp add: packed_def holds_append)
  note copy = copy_module [OF this dis] 
  have lf: "length f < 2 ^ 32" using Cons.prems(3) by simp
  obtain n' where n': "loadModule a t (m, n) = Some (a + 4 + of_nat (length f), ?m, n')" "length (nbuf n') = 64"
    using loadModule_ok [OF f(1) [unfolded packed_def] dis lf Cons.prems(4)] by blast
  have "span (a + 4 + of_nat (length f)) (length ?rest) \<subseteq> span a (length (packed f) + length ?rest)"
    using span_part [of "length (packed f)" "length ?rest" _ a] unfolding next_a by simp
  then have r: "holds ?m (a + 4 + of_nat (length f)) ?rest"
    using copy(2) [OF lf] off by (intro holds_outside [OF f(2)]) blast
  have ap: "apart (a + 4 + of_nat (length f)) (length ?rest) ts' fl"
    using apart_Cons [OF Cons.prems(2) [unfolded ts], of "length (packed f)" "length ?rest"] next_a by simp
  have small: "\<forall>f \<in> set fl. length f < 2 ^ 32" using Cons.prems(3) by simp
  obtain m' k where IH: "loadModules_loop (length fl) (a + 4 + of_nat (length f)) ts' (?m, n') = Some (m', k)" "length (nbuf k) = 64"
    "\<forall>i < length fl. holds m' (ts' ! i) (fl ! i)"
    "\<forall>x. (\<forall>i < length fl. x \<notin> span (ts' ! i) (length (fl ! i))) \<longrightarrow> m' x = ?m x"
    using Cons.IH [OF r ap small n'(2)] by blast
  have away: "\<forall>i < length fl. x \<notin> span (ts' ! i) (length (fl ! i))" if "x \<in> span t (length f)" for x
    using Cons.prems(2) that unfolding ts by (auto simp: apart_def All_less_Suc2)
  have "holds m' t f" by (rule holds_outside [OF copy(1) [OF lf]]) (use IH(4) away in blast)
  moreover have "m' x = m x" if "x \<notin> span t (length f)" "\<forall>i < length fl. x \<notin> span (ts' ! i) (length (fl ! i))" for x
    using IH(4) copy(2) [OF lf] that by simp
  ultimately show ?case
    using n'(1) IH(1-3) by (simp add: ts All_less_Suc2)
qed

section \<open>What is packed is loaded\<close>

lemma pack_load:
  assumes "packer True fs (kf # mods) = (0, Some img)"
    and "holds m a (drop (length (the (fs kf))) img)"
    and "apart a (length img - length (the (fs kf))) ts (map (\<lambda>f. the (fs f)) mods)"
    and "length mods < 2 ^ 32" and "\<forall>f \<in> set mods. length (the (fs f)) < 2 ^ 32" and "length (nbuf n) = 64"
  shows "\<exists>m' n'. loadModules a ts (m, n) = Some (m', n') \<and> length (nbuf n') = 64 \<and>
     (\<forall>i < length mods. fs (mods ! i) \<noteq> None \<and> holds m' (ts ! i) (the (fs (mods ! i))))"
proof -
  let ?fl = "map (\<lambda>f. the (fs f)) mods"
  have "checkFiles fs (kf # mods)" using assms(1) by (simp add: packer_def split: if_splits)
  then have ok: "\<forall>i < length mods. fs (mods ! i) \<noteq> None" by (auto simp: checkFiles_def list_all_length)
  have im: "img = the (fs kf) @ payload ?fl"
    using assms(1) buildImage_eq [of fs kf mods] by (simp add: packer_def split: if_splits)
  have "holds m a (payload ?fl)" using assms(2) by (simp add: im)
  then have h: "holds m a (le32 (of_nat (length mods)))" "holds m (a + 4) (concat (map packed ?fl))"
    by (simp_all add: payload_def holds_append)
  have "span (a + of_nat 4) (length (concat (map packed ?fl))) \<subseteq> span a (length img - length (the (fs kf)))"
    by (rule span_part) (simp add: im payload_def)
  with assms(3) have ap: "apart (a + 4) (length (concat (map packed ?fl))) ts ?fl"
    unfolding apart_def of_nat_numeral by blast
  have "unat (of_nat (length mods) :: u32) = length mods" using assms(4) by (simp add: unat_of_nat take_bit_nat_eq_self)
  then have "loadModules a ts (m, n) = loadModules_loop (length ?fl) (a + 4) ts (m, n)"
    using read32_le32 [OF h(1)] by (simp add: loadModules_def readUint32_def)
  moreover have "\<forall>f \<in> set ?fl. length f < 2 ^ 32" using assms(5) by simp
  note loadModules_loop_ok [OF h(2) ap this assms(6)]
  ultimately obtain m' n' where "loadModules a ts (m, n) = Some (m', n')" "length (nbuf n') = 64" "\<forall>i < length ?fl. holds m' (ts ! i) (?fl ! i)"
    by metis
  then show ?thesis using ok by auto
qed

text \<open>
  Round trip of the build: when the bytes of the image after the kernel's are in memory at
  \<open>payloadStart\<close>, \<open>loadModules\<close> returns and puts the bytes of every module file at the address given for
  it, whatever the alignment (so by either loop of \<open>memcpy\<close>), if the modules' places do not overlap the
  payload or each other.
\<close>

theorem pack_load_roundtrip:
  assumes "packer True fs (kf # mods) = (0, Some img)"
    and "holds m a (drop (length (the (fs kf))) img)"
    and "apart a (length img - length (the (fs kf))) ts (map (\<lambda>f. the (fs f)) mods)"
    and "length mods < 2 ^ 32" and "\<forall>f \<in> set mods. length (the (fs f)) < 2 ^ 32" and "length (nbuf n) = 64"
  shows "\<exists>m' n'. loadModules a ts (m, n) = Some (m', n') \<and>
     (\<forall>i < length mods. fs (mods ! i) \<noteq> None \<and> holds m' (ts ! i) (the (fs (mods ! i))))"
  using pack_load [OF assms] by blast

definition sampleFiles :: "string \<Rightarrow> u8 list option" where
  "sampleFiles = [''kernel'' \<mapsto> [1, 2, 3], ''code'' \<mapsto> [7, 8, 9, 10], ''data'' \<mapsto> [5]]"

definition place :: "u64 \<Rightarrow> u8 list \<Rightarrow> memory" where
  "place a xs x = (if unat (x - a) < length xs then xs ! unat (x - a) else 0)"

lemma unat_of_nat64: "i < 2 ^ 64 \<Longrightarrow> unat (of_nat i :: u64) = i"
  by (simp add: unat_of_nat take_bit_nat_eq_self)

lemma holds_place: "length xs < 2 ^ 64 \<Longrightarrow> holds (place a xs) a xs"
  by (simp add: holds_def place_def unat_of_nat64)

lemma span_disjoint:
  assumes "unat a + n \<le> unat b" "unat b + k < 2 ^ 64"
  shows "span a n \<inter> span b k = {}" "span b k \<inter> span a n = {}"
proof -
  have "unat (a + of_nat i) = unat a + i" if "i < n" for i
    using that assms unat_of_nat64 [of "unat a + i"] by simp
  moreover have "unat (b + of_nat i) = unat b + i" if "i < k" for i
    using that assms unat_of_nat64 [of "unat b + i"] by simp
  ultimately show "span a n \<inter> span b k = {}"
    using assms(1) unfolding span_def by (fastforce dest: arg_cong [of _ _ unat])
  then show "span b k \<inter> span a n = {}" by blast
qed

theorem pack_load_roundtrip_witness:
  "\<exists>m' n'. loadModules 4096 [0x400000, 0x500000] ((place 4096 [2, 0, 0, 0, 4, 0, 0, 0, 7, 8, 9, 10, 1, 0, 0, 0, 5]), \<lparr>nv = \<lambda>_. 0, npos = 0, nbuf = replicate 64 48\<rparr>) = Some (m', n') \<and>
     (\<forall>i < Suc (Suc 0). sampleFiles ([''code'', ''data''] ! i) \<noteq> None \<and>
       holds m' ([0x400000, 0x500000] ! i) (the (sampleFiles ([''code'', ''data''] ! i))))"
proof -
  let ?img = "[1, 2, 3, 2, 0, 0, 0, 4, 0, 0, 0, 7, 8, 9, 10, 1, 0, 0, 0, 5]"
  have img: "packer True sampleFiles (''kernel'' # [''code'', ''data'']) = (0, Some ?img)"
    by (simp add: packer_def checkFiles_def sampleFiles_def buildImage_def write_size_def le32_def)
  have h: "holds (place 4096 [2, 0, 0, 0, 4, 0, 0, 0, 7, 8, 9, 10, 1, 0, 0, 0, 5]) 4096 (drop (length (the (sampleFiles ''kernel''))) ?img)"
    by (simp add: sampleFiles_def holds_place)
  have a: "apart 4096 (length ?img - length (the (sampleFiles ''kernel''))) [0x400000, 0x500000]
      (map (\<lambda>f. the (sampleFiles f)) [''code'', ''data''])"
    by (simp add: apart_def sampleFiles_def All_less_Suc2 span_disjoint)
  have small: "\<forall>f \<in> set [''code'', ''data'']. length (the (sampleFiles f)) < 2 ^ 32"
    by (simp add: sampleFiles_def)
  show ?thesis
    using pack_load_roundtrip [OF img h a _ small, of "\<lparr>nv = \<lambda>_. 0, npos = 0, nbuf = replicate 64 48\<rparr>"]
    by simp
qed

end
