(* ===== verification/Boot.thy ===== *)
theory Boot
  imports KPrintf Loader
begin

text \<open>
  How the kernel starts and takes its interrupts: \<open>Kernel/kernel.c\<close> (\<open>initializeKernelBinary\<close> and
  \<open>main\<close>), the interrupt descriptor table of \<open>Kernel/interruptions/idtLoader.c\<close>, \<open>irqDispatcher.c\<close>
  and \<open>exceptions.c\<close>.
\<close>

section \<open>Interrupt descriptors\<close>

record descr_int =
  offset_l :: u16
  selector :: u16
  cero :: u8
  access :: u8
  offset_m :: u16
  offset_h :: u32
  other_cero :: u32

definition ACS_INT :: u8 where "ACS_INT = 0x80 OR 0x0E"

definition setup_IDT_entry :: "nat \<Rightarrow> u64 \<Rightarrow> (nat \<Rightarrow> descr_int) \<Rightarrow> (nat \<Rightarrow> descr_int)" where
  "setup_IDT_entry index offset idt =
     idt(index :=
       \<lparr>offset_l = ucast (offset AND 0xFFFF), selector = 0x08, cero = 0, access = ACS_INT,
        offset_m = ucast (drop_bit 16 offset AND 0xFFFF),
        offset_h = ucast (drop_bit 32 offset AND 0xFFFFFFFF), other_cero = 0\<rparr>)"

text \<open>The handlers of \<open>interrupts.asm\<close> by their addresses: timer, keyboard, division by zero, invalid opcode,
  system call.\<close>

record handlers =
  irq00 :: u64
  irq01 :: u64
  exception0 :: u64
  exception6 :: u64
  irq80 :: u64

definition load_idt :: "handlers \<Rightarrow> (nat \<Rightarrow> descr_int) \<Rightarrow> (nat \<Rightarrow> descr_int)" where
  "load_idt h idt =
     setup_IDT_entry 0x80 (irq80 h)
       (setup_IDT_entry 0x06 (exception6 h)
         (setup_IDT_entry 0x00 (exception0 h)
           (setup_IDT_entry 0x21 (irq01 h)
             (setup_IDT_entry 0x20 (irq00 h) idt))))"

text \<open>Where the processor jumps: the three parts of the offset put together.\<close>

definition target_of :: "descr_int \<Rightarrow> u64" where
  "target_of d = ucast (offset_l d) OR push_bit 16 (ucast (offset_m d)) OR push_bit 32 (ucast (offset_h d))"

lemma split_offset:
  "(ucast (ucast (a AND 0xFFFF) :: u16) :: u64) OR push_bit 16 (ucast (ucast (drop_bit 16 a AND 0xFFFF) :: u16))
     OR push_bit 32 (ucast (ucast (drop_bit 32 a AND 0xFFFFFFFF) :: u32)) = a"
proof -
  have mask: "(0xFFFF :: u64) = mask 16" "(0xFFFFFFFF :: u64) = mask 32" by (simp_all add: mask_eq_exp_minus_1)
  show ?thesis
  proof (rule bit_word_eqI)
    fix n assume n: "n < LENGTH(64)"
    consider "n < 16" | "16 \<le> n" "n < 32" | "32 \<le> n" by linarith
    then show "bit ((ucast (ucast (a AND 0xFFFF) :: u16) :: u64) OR
        push_bit 16 (ucast (ucast (drop_bit 16 a AND 0xFFFF) :: u16)) OR
        push_bit 32 (ucast (ucast (drop_bit 32 a AND 0xFFFFFFFF) :: u32))) n = bit a n"
      using n unfolding mask by cases (auto simp: bit_simps less_diff_conv2)
  qed
qed

lemma target_setup: "target_of (setup_IDT_entry i a idt i) = a"
  using split_offset [of a] by (simp add: setup_IDT_entry_def target_of_def)

lemma setup_other: "j \<noteq> i \<Longrightarrow> setup_IDT_entry i a idt j = idt j"
  by (simp add: setup_IDT_entry_def)

text \<open>After \<open>load_idt\<close> the processor enters every handler at its full 64-bit address, through the kernel's
  code segment and with interrupts off, and no other descriptor has changed.\<close>

theorem load_idt_targets:
  "(map (\<lambda>i. target_of (load_idt h idt i)) [0x20, 0x21, 0x00, 0x06, 0x80] =
      [irq00 h, irq01 h, exception0 h, exception6 h, irq80 h] \<and>
    list_all (\<lambda>i. selector (load_idt h idt i) = 0x08 \<and> access (load_idt h idt i) = 0x8E) [0x20, 0x21, 0x00, 0x06, 0x80]) \<and>
    map (load_idt h idt) (filter (\<lambda>i. i \<notin> {0x20, 0x21, 0x00, 0x06, 0x80}) is) =
      map idt (filter (\<lambda>i. i \<notin> {0x20, 0x21, 0x00, 0x06, 0x80}) is)"
proof -
  have "ACS_INT = 0x8E" by (simp add: ACS_INT_def)
  then have "list_all (\<lambda>i. selector (load_idt h idt i) = 0x08 \<and> access (load_idt h idt i) = 0x8E) [0x20, 0x21, 0x00, 0x06, 0x80]"
    by (simp add: load_idt_def setup_IDT_entry_def)
  moreover have "map (\<lambda>i. target_of (load_idt h idt i)) [0x20, 0x21, 0x00, 0x06, 0x80] =
      [irq00 h, irq01 h, exception0 h, exception6 h, irq80 h]"
    unfolding load_idt_def by (simp add: setup_other target_setup)
  moreover have "load_idt h idt i = idt i" if "i \<notin> {0x20, 0x21, 0x00, 0x06, 0x80}" for i
    using that unfolding load_idt_def by (simp add: setup_other)
  ultimately show ?thesis by (auto intro!: map_cong)
qed

section \<open>Interrupts and exceptions\<close>

definition irqDispatcher :: "nat \<Rightarrow> bool \<Rightarrow> u8 \<Rightarrow> u8 \<Rightarrow> (nat \<Rightarrow> u64) \<Rightarrow> kernel \<Rightarrow> unit kres" where
  "irqDispatcher irq has key1 key2 rsp s =
     (if irq = 0 then Ret () (timer_handler s)
      else if irq = 1 then keyboardHandler has key1 key2 rsp s
      else Ret () s)"

definition RED :: u8 where "RED = 4"

text \<open>\<open>strlen\<close> of the two messages is the length of the literal.\<close>

definition exception_msg :: "u8 list \<Rightarrow> kernel \<Rightarrow> int kres" where
  "exception_msg msg s = sysWrite (Some msg) (length msg) (Some (RED, BLACK)) s"

definition zero_division :: "kernel \<Rightarrow> int kres" where
  "zero_division = exception_msg
     [10, 69, 120, 99, 101, 112, 116, 105, 111, 110, 58, 32, 100, 105, 118, 105, 115, 105, 111, 110, 32, 98, 121, 32,
      122, 101, 114, 111, 46, 10]"

definition invalid_opcode :: "kernel \<Rightarrow> int kres" where
  "invalid_opcode = exception_msg
     [10, 69, 120, 99, 101, 112, 116, 105, 111, 110, 58, 32, 105, 110, 118, 97, 108, 105, 100, 32, 111, 112, 101, 114,
      97, 110, 100, 32, 99, 111, 100, 101, 46, 10]"

text \<open>
  \<open>printRegisters\<close> prints \<open>registerNames[i]\<close> as a hexadecimal number: the address of the name, not the
  register. \<open>names\<close> are these 17 addresses; \<open>rsp\<close> is not used.
\<close>

primrec printRegisters_loop :: "u64 list \<Rightarrow> kernel \<Rightarrow> unit kres" where
  "printRegisters_loop [] s = Ret () s"
| "printRegisters_loop (a # as) s =
     kbind (printf [37, 120, 10] [PInt (sint (ucast a :: u32))] s) (\<lambda>_ s1. printRegisters_loop as s1)"

definition printRegisters :: "u64 list \<Rightarrow> (nat \<Rightarrow> u64) \<Rightarrow> kernel \<Rightarrow> unit kres" where
  "printRegisters names rsp s =
     kbind (printRegisters_loop (take 17 names) s) (\<lambda>_ s1. Ret () (s1\<lparr>con := printChar 10 (con s1)\<rparr>))"

definition exceptionDispatcher :: "nat \<Rightarrow> u64 list \<Rightarrow> (nat \<Rightarrow> u64) \<Rightarrow> kernel \<Rightarrow> int kres" where
  "exceptionDispatcher exception names rsp s =
     kbind (if exception = 0 then zero_division s
            else if exception = 6 then invalid_opcode s else Ret 0 s) (\<lambda>_ s1.
     kbind (printRegisters names rsp s1) (\<lambda>_ s2. killCurrent s2))"

section \<open>Kernel main\<close>

text \<open>The kernel's memory layout: the linker's symbols and the modules' addresses.\<close>

record layout =
  text_at :: u64
  rodata_at :: u64
  data_at :: u64
  bss_at :: u64
  endOfKernelBinary :: u64
  endOfKernel :: u64

definition sampleCodeModuleAddress :: u64 where "sampleCodeModuleAddress = 0x400000"
definition sampleDataModuleAddress :: u64 where "sampleDataModuleAddress = 0x500000"
definition PageSize :: u64 where "PageSize = 0x1000"

definition clearBSS :: "u64 \<Rightarrow> u64 \<Rightarrow> memory \<Rightarrow> memory" where
  "clearBSS bssAddress bssSize m = memset bssAddress 0 bssSize m"

definition getStackBase :: "layout \<Rightarrow> u64" where
  "getStackBase l = endOfKernel l + PageSize * 8 - 8"

text \<open>One line of \<open>initializeKernelBinary\<close> about a section.\<close>

definition sectionLine :: "u8 list \<Rightarrow> u64 \<Rightarrow> nconsole \<Rightarrow> nconsole option" where
  "sectionLine label a n = map_option ncNewline (ncPrintHex a (ncPrint label n))"

text \<open>\<open>initializeKernelBinary\<close>; \<open>vendor\<close> is what \<open>_cpuVendor\<close> answers. The screen is apart from the memory
  the modules are copied in.\<close>

definition initializeKernelBinary :: "layout \<Rightarrow> u8 list \<Rightarrow> memory \<times> nconsole \<Rightarrow> (u64 \<times> memory \<times> nconsole) option" where
  "initializeKernelBinary l vendor st =
     (let (m, n) = st;
          n = ncNewline (ncPrint [91, 120, 54, 52, 66, 97, 114, 101, 66, 111, 110, 101, 115, 93] n);
          n = ncNewline (ncPrint vendor (ncPrint [67, 80, 85, 32, 86, 101, 110, 100, 111, 114, 58] n));
          n = ncNewline (ncPrint [91, 76, 111, 97, 100, 105, 110, 103, 32, 109, 111, 100, 117, 108, 101, 115, 93] n)
      in Option.bind (loadModules (endOfKernelBinary l) [sampleCodeModuleAddress, sampleDataModuleAddress] (m, n))
        (\<lambda>(m, n).
           let n = ncNewline (ncNewline (ncPrint [91, 68, 111, 110, 101, 93] n));
               n = ncNewline (ncPrint [91, 73, 110, 105, 116, 105, 97, 108, 105, 122, 105, 110, 103, 32, 107, 101, 114,
                     110, 101, 108, 39, 115, 32, 98, 105, 110, 97, 114, 121, 93] n);
               m = clearBSS (bss_at l) (endOfKernel l - bss_at l) m
           in Option.bind (sectionLine [32, 32, 116, 101, 120, 116, 58, 32, 48, 120] (text_at l) n) (\<lambda>n.
              Option.bind (sectionLine [32, 32, 114, 111, 100, 97, 116, 97, 58, 32, 48, 120] (rodata_at l) n) (\<lambda>n.
              Option.bind (sectionLine [32, 32, 100, 97, 116, 97, 58, 32, 48, 120] (data_at l) n) (\<lambda>n.
              Option.bind (sectionLine [32, 32, 98, 115, 115, 58, 32, 48, 120] (bss_at l) n) (\<lambda>n.
                Some (getStackBase l, m, ncNewline (ncNewline (ncPrint [91, 68, 111, 110, 101, 93] n)))))))))"

text \<open>
  \<open>main\<close> up to the first interrupt: the tables of the subsystems, the two processes of the scheduler and the
  user program. \<open>idleAddr\<close> and \<open>initAddr\<close> are the addresses of the code of \<open>idleProcess\<close> and \<open>init\<close>. The
  memory manager is the stream \<open>mallocs\<close>. After \<open>load_idt\<close> and \<open>_hlt\<close> the timer interrupt enters the
  scheduler, which never comes back here: no process has the stack of \<open>main\<close>.
\<close>

definition ncClear_screen :: "kernel \<Rightarrow> kernel" where
  "ncClear_screen s =
     s\<lparr>con := (con s)\<lparr>video := nv (ncClear \<lparr>nv = video (con s), npos = 0, nbuf = []\<rparr>)\<rparr>\<rparr>"

definition kernel_main :: "u64 \<Rightarrow> u64 \<Rightarrow> kernel \<Rightarrow> unit kres" where
  "kernel_main idleAddr initAddr s =
     kbind (initSemSystem s) (\<lambda>_ s.
     kbind (initPipeSystem s) (\<lambda>_ s.
     kbind (initKeyboardSystem s) (\<lambda>_ s.
     kbind (initScheduler idleAddr initAddr s) (\<lambda>_ s.
     kbind (startTask sampleCodeModuleAddress 1
              [[73, 110, 105, 116, 32, 117, 115, 101, 114, 108, 97, 110, 100]] 1 (Some (0, 1)) (ncClear_screen s))
       (\<lambda>pid s. Ret () (snd (setUserlandPid pid s)))))))"

text \<open>The static variables as the image of the kernel has them.\<close>

definition powerOn :: "(nat \<Rightarrow> u64) \<Rightarrow> u8 \<Rightarrow> int \<Rightarrow> u64 \<Rightarrow> u64 \<Rightarrow> (nat \<Rightarrow> u8) \<Rightarrow> kernel" where
  "powerOn M junk low rsp wrapper screen =
     \<lparr>mallocs = M, mcount = 0, heap_junk = junk, low_word = low, cpu_rsp = rsp, semQueue = None, nextSemId = 0,
      allSemsLock = 0, pidCounter = 1, procQueue = None, currentCycles = 0, idleProc = None, currentProc = None,
      readyCount = 0, userlandPid = -1, initPid = -1, frames = (\<lambda>_. None), wrapperAddr = wrapper,
      pipeQueue = None, allPipesSem = 0, cachedPipe = None, con = init_console screen, ticks = 0, stdinPipe = 0,
      isSpecial = 0, shiftFlag = 0, controlFlag = 0, registers = replicate 17 0\<rparr>"

section \<open>Loading and clearing\<close>

lemma sectionLine_ok:
  assumes "length (nbuf n) = 64"
  shows "\<exists>n'. sectionLine label a n = Some n' \<and> length (nbuf n') = 64"
  using ncPrintBase_total [of "ncPrint label n" 16 a] assms by (auto simp: sectionLine_def ncPrintHex_def)

text \<open>The four lines that list the sections.\<close>

lemma sectionLines_ok:
  assumes "length (nbuf n) = 64"
  shows "\<exists>n3 n4 n5 n6. sectionLine [32, 32, 116, 101, 120, 116, 58, 32, 48, 120] (text_at l) n = Some n3 \<and>
    sectionLine [32, 32, 114, 111, 100, 97, 116, 97, 58, 32, 48, 120] (rodata_at l) n3 = Some n4 \<and>
    sectionLine [32, 32, 100, 97, 116, 97, 58, 32, 48, 120] (data_at l) n4 = Some n5 \<and>
    sectionLine [32, 32, 98, 115, 115, 58, 32, 48, 120] (bss_at l) n5 = Some n6"
  using assms by (metis sectionLine_ok)

text \<open>The boot sequence keeps the modules: with the packed image behind the kernel's binary,
  \<open>initializeKernelBinary\<close> returns the top of a 32 KiB stack, the code and data modules are at 0x400000 and
  0x500000 byte for byte, and the whole BSS section is zero, although the payload it was loaded from may lie inside
  the BSS section: the modules are copied before it is cleared.\<close>

theorem initializeKernelBinary_modules:
  assumes "packer True fs (kf # mods) = (0, Some img)"
    and "holds m (endOfKernelBinary l) (drop (length (the (fs kf))) img)"
    and "apart (endOfKernelBinary l) (length img - length (the (fs kf)))
          [sampleCodeModuleAddress, sampleDataModuleAddress] (map (\<lambda>f. the (fs f)) mods)"
    and "length mods < 2 ^ 32" and "\<forall>f \<in> set mods. length (the (fs f)) < 2 ^ 32"
    and "length (nbuf n) = 64"
    and "\<forall>i < length mods. span ([sampleCodeModuleAddress, sampleDataModuleAddress] ! i) (length (the (fs (mods ! i))))
          \<inter> span (bss_at l) (unat (endOfKernel l - bss_at l)) = {}"
  shows "\<exists>m' n'. initializeKernelBinary l vendor (m, n) = Some (endOfKernel l + 0x7FF8, m', n') \<and>
     (\<forall>i < length mods. holds m' ([sampleCodeModuleAddress, sampleDataModuleAddress] ! i) (the (fs (mods ! i)))) \<and>
     (\<forall>a \<in> span (bss_at l) (unat (endOfKernel l - bss_at l)). m' a = 0)"
proof -
  let ?ts = "[sampleCodeModuleAddress, sampleDataModuleAddress]"
  define n0 where "n0 = ncNewline (ncPrint [91, 76, 111, 97, 100, 105, 110, 103, 32, 109, 111, 100, 117, 108, 101, 115, 93]
    (ncNewline (ncPrint vendor (ncPrint [67, 80, 85, 32, 86, 101, 110, 100, 111, 114, 58]
      (ncNewline (ncPrint [91, 120, 54, 52, 66, 97, 114, 101, 66, 111, 110, 101, 115, 93] n))))))"
  have nb: "length (nbuf n0) = 64" unfolding n0_def nbuf_ncNewline nbuf_ncPrint by (rule assms(6))
  obtain m1 n1 where l: "loadModules (endOfKernelBinary l) ?ts (m, n0) = Some (m1, n1)" "length (nbuf n1) = 64"
    and held: "\<forall>i < length mods. holds m1 (?ts ! i) (the (fs (mods ! i)))"
    using pack_load [OF assms(1-5) nb] by (elim exE conjE) (rule that, assumption, assumption, blast)
  define m2 where "m2 = clearBSS (bss_at l) (endOfKernel l - bss_at l) m1"
  have m2: "m2 a = (if a \<in> span (bss_at l) (unat (endOfKernel l - bss_at l)) then 0 else m1 a)" for a
    by (simp add: m2_def clearBSS_def memset_def memset_loop_at)
  define n2 where "n2 = ncNewline (ncPrint [91, 73, 110, 105, 116, 105, 97, 108, 105, 122, 105, 110, 103, 32, 107, 101, 114,
      110, 101, 108, 39, 115, 32, 98, 105, 110, 97, 114, 121, 93]
      (ncNewline (ncNewline (ncPrint [91, 68, 111, 110, 101, 93] n1))))"
  have nb2: "length (nbuf n2) = 64" unfolding n2_def nbuf_ncNewline nbuf_ncPrint by (rule l(2))
  obtain n3 n4 n5 n6 where
    n6: "sectionLine [32, 32, 116, 101, 120, 116, 58, 32, 48, 120] (text_at l) n2 = Some n3"
      "sectionLine [32, 32, 114, 111, 100, 97, 116, 97, 58, 32, 48, 120] (rodata_at l) n3 = Some n4"
      "sectionLine [32, 32, 100, 97, 116, 97, 58, 32, 48, 120] (data_at l) n4 = Some n5"
      "sectionLine [32, 32, 98, 115, 115, 58, 32, 48, 120] (bss_at l) n5 = Some n6"
    using sectionLines_ok [OF nb2] by blast
  have stack: "getStackBase l = endOfKernel l + 0x7FF8" by (simp add: getStackBase_def PageSize_def)
  have "initializeKernelBinary l vendor (m, n) =
      Some (endOfKernel l + 0x7FF8, m2, ncNewline (ncNewline (ncPrint [91, 68, 111, 110, 101, 93] n6)))"
    unfolding initializeKernelBinary_def Let_def prod.case n0_def [symmetric] l(1) Option.bind.bind_lunit
      n2_def [symmetric] n6 m2_def [symmetric]
    by (simp only: stack)
  moreover have "\<forall>i < length mods. holds m2 (?ts ! i) (the (fs (mods ! i)))"
  proof (intro allI impI)
    fix i assume i: "i < length mods"
    show "holds m2 (?ts ! i) (the (fs (mods ! i)))"
    proof (rule holds_outside)
      show "holds m1 (?ts ! i) (the (fs (mods ! i)))" using held i by blast
      fix x assume "x \<in> span (?ts ! i) (length (the (fs (mods ! i))))"
      then have "x \<notin> span (bss_at l) (unat (endOfKernel l - bss_at l))" using assms(7) i by blast
      then show "m2 x = m1 x" by (simp only: m2 if_False)
    qed
  qed
  moreover have "\<forall>a \<in> span (bss_at l) (unat (endOfKernel l - bss_at l)). m2 a = 0" by (simp add: m2)
  ultimately show ?thesis by (intro exI conjI)
qed

definition sampleLayout :: layout where
  "sampleLayout = \<lparr>text_at = 0x100000, rodata_at = 0x101000, data_at = 0x102000, bss_at = 0x103000,
     endOfKernelBinary = 0x103004, endOfKernel = 0x104000\<rparr>"

theorem initializeKernelBinary_modules_witness:
  "\<exists>m' n'. initializeKernelBinary sampleLayout [73]
       (place 0x103004 [2, 0, 0, 0, 4, 0, 0, 0, 7, 8, 9, 10, 1, 0, 0, 0, 5],
        \<lparr>nv = \<lambda>_. 0, npos = 0, nbuf = replicate 64 48\<rparr>) = Some (0x10BFF8, m', n') \<and>
     holds m' 0x400000 [7, 8, 9, 10] \<and> holds m' 0x500000 [5] \<and> m' 0x103004 = 0"
proof -
  let ?img = "[1, 2, 3, 2, 0, 0, 0, 4, 0, 0, 0, 7, 8, 9, 10, 1, 0, 0, 0, 5]"
  have img: "packer True sampleFiles (''kernel'' # [''code'', ''data'']) = (0, Some ?img)"
    by (simp add: packer_def checkFiles_def sampleFiles_def buildImage_def write_size_def le32_def)
  have h: "holds (place 0x103004 [2, 0, 0, 0, 4, 0, 0, 0, 7, 8, 9, 10, 1, 0, 0, 0, 5]) (endOfKernelBinary sampleLayout)
      (drop (length (the (sampleFiles ''kernel''))) ?img)"
    by (simp add: sampleFiles_def sampleLayout_def holds_place)
  have a: "apart (endOfKernelBinary sampleLayout) (length ?img - length (the (sampleFiles ''kernel'')))
      [sampleCodeModuleAddress, sampleDataModuleAddress] (map (\<lambda>f. the (sampleFiles f)) [''code'', ''data''])"
    by (simp add: apart_def sampleFiles_def sampleLayout_def sampleCodeModuleAddress_def sampleDataModuleAddress_def
        All_less_Suc2 span_disjoint)
  have small: "\<forall>f \<in> set [''code'', ''data'']. length (the (sampleFiles f)) < 2 ^ 32"
    by (simp add: sampleFiles_def)
  have b: "\<forall>i < length [''code'', ''data'']. span ([sampleCodeModuleAddress, sampleDataModuleAddress] ! i)
      (length (the (sampleFiles ([''code'', ''data''] ! i)))) \<inter>
      span (bss_at sampleLayout) (unat (endOfKernel sampleLayout - bss_at sampleLayout)) = {}"
    by (simp add: sampleFiles_def sampleLayout_def sampleCodeModuleAddress_def sampleDataModuleAddress_def
        All_less_Suc2 span_disjoint)
  have in_bss: "(0x103004 :: u64) \<in> span (bss_at sampleLayout) (unat (endOfKernel sampleLayout - bss_at sampleLayout))"
    using in_span [of 4 4096 "0x103000"] by (simp add: sampleLayout_def)
  obtain m' n' where r: "initializeKernelBinary sampleLayout [73]
       (place 0x103004 [2, 0, 0, 0, 4, 0, 0, 0, 7, 8, 9, 10, 1, 0, 0, 0, 5],
        \<lparr>nv = \<lambda>_. 0, npos = 0, nbuf = replicate 64 48\<rparr>) = Some (endOfKernel sampleLayout + 0x7FF8, m', n')"
    "\<forall>i < length [''code'', ''data'']. holds m' ([sampleCodeModuleAddress, sampleDataModuleAddress] ! i)
        (the (sampleFiles ([''code'', ''data''] ! i)))"
    "\<forall>a \<in> span (bss_at sampleLayout) (unat (endOfKernel sampleLayout - bss_at sampleLayout)). m' a = 0"
    using initializeKernelBinary_modules [OF img h a _ small _ b, of "\<lparr>nv = \<lambda>_. 0, npos = 0, nbuf = replicate 64 48\<rparr>" "[73]"]
    by auto
  have "endOfKernel sampleLayout + 0x7FF8 = 0x10BFF8" by (simp add: sampleLayout_def)
  moreover have "holds m' 0x400000 [7, 8, 9, 10]" "holds m' 0x500000 [5]"
    using spec [OF r(2), of 0] spec [OF r(2), of 1]
    by (simp_all add: sampleFiles_def sampleCodeModuleAddress_def sampleDataModuleAddress_def)
  ultimately show ?thesis using r(1) bspec [OF r(3) in_bss] by metis
qed

lemmas boot_simps = kmalloc_def kfind_def kenqueue_def kinitQueue_def acquireAll_def releaseAll_def acquire_def release_def
  xchg_def lookupSem_def modSem_def findSem_def createSem_def semInit_def semPost_def semWait_def semWait_with_def
  getNextSemaphoreId_def getPipe_def lookupPipe_def modPipe_def createPipe_def pipeOpen_def pipeOpen_with_def
  STDIN_PIPENO_def STDOUT_PIPENO_def initSemSystem_def initPipeSystem_def initKeyboardSystem_def

definition bootSem :: "int \<Rightarrow> int \<Rightarrow> sem" where
  "bootSem i v = \<lparr>s_blocked = Some [], s_attached = 1, s_id = i, s_value = v, s_lock = 0, s_name = []\<rparr>"

lemma bootSem_simps [simp]: "s_blocked (bootSem i v) = Some []" "s_id (bootSem i v) = i" "s_lock (bootSem i v) = 0"
  by (simp_all add: bootSem_def)

definition bootPipe :: "u8 \<Rightarrow> int \<Rightarrow> pipe" where
  "bootPipe junk n = \<lparr>pi_id = 0, pi_buffer = replicate 1024 junk, pi_writeIndex = 0, pi_readIndex = 0,
     pi_totalProcesses = n, pi_writeSemId = 2, pi_readSemId = 1\<rparr>"

text \<open>The kernel once the tables exist: the semaphore of the pipe system and the two of the standard input
  pipe, and no process yet.\<close>

definition tables :: "kernel \<Rightarrow> kernel" where
  "tables s = s\<lparr>mcount := 19, semQueue := Some [bootSem 0 1, bootSem 1 0, bootSem 2 PIPE_BUFFER_SIZE], nextSemId := 3,
     pipeQueue := Some [bootPipe (heap_junk s) 1]\<rparr>"

lemma boot_tables:
  assumes [simp]: "\<And>n. M n \<noteq> 0"
  shows "kbind (initSemSystem (powerOn M junk low rsp w screen)) (\<lambda>_ s. kbind (initPipeSystem s) (\<lambda>_ s.
     kbind (initKeyboardSystem s) f)) = f 0 (tables (powerOn M junk low rsp w screen))"
  by (simp add: powerOn_def boot_simps tables_def bootSem_def bootPipe_def numeral_2_eq_2 [symmetric])

lemma memory_okD: "memory_ok s \<Longrightarrow> (mallocs s n = 0) = False"
  by (simp add: memory_ok_def)

lemma pipeOpen_boot:
  assumes "memory_ok s" "allPipesSem s = 0" "semQueue s = Some (bootSem 0 1 # q)" "pipeQueue s = Some [bootPipe j n]"
  shows "\<exists>k. pipeOpen 0 s = Ret 0 (s\<lparr>mcount := k, cachedPipe := Some 0, pipeQueue := Some [bootPipe j (n + 1)]\<rparr>)"
proof (cases "cachedPipe s = Some 0")
  case True
  have "pipeOpen 0 s = Ret 0 (s\<lparr>mcount := Suc (Suc (mcount s)), cachedPipe := Some 0,
      pipeQueue := Some [bootPipe j (n + 1)]\<rparr>)"
    by (simp add: boot_simps assms(2-4) True memory_okD [OF assms(1)] bootSem_def bootPipe_def)
  then show ?thesis by blast
next
  case False
  have "pipeOpen 0 s = Ret 0 (s\<lparr>mcount := Suc (Suc (Suc (mcount s))), cachedPipe := Some 0,
      pipeQueue := Some [bootPipe j (n + 1)]\<rparr>)"
    by (simp add: boot_simps assms(2-4) False memory_okD [OF assms(1)] bootSem_def bootPipe_def)
  then show ?thesis by blast
qed

lemma semInit_boot:
  assumes "memory_ok s" "allSemsLock s = 0" "semQueue s = Some q" "nextSemId s \<notin> s_id ` set q"
  shows "\<exists>k. semInit 0 s = Ret (nextSemId s)
     (s\<lparr>mcount := k, nextSemId := nextSemId s + 1, semQueue := Some (q @ [bootSem (nextSemId s) 0])\<rparr>)"
proof -
  have "upd_first (\<lambda>m. s_id m = nextSemId s) (s_attached_update (\<lambda>n. n + 1)) (q @ [(bootSem (nextSemId s) 0)\<lparr>s_attached := 0\<rparr>]) =
      q @ [bootSem (nextSemId s) 0]"
    using assms(4) by (induction q) (auto simp: bootSem_def)
  then have "semInit 0 s = Ret (nextSemId s) (s\<lparr>mcount := Suc (Suc (Suc (Suc (mcount s)))),
      nextSemId := nextSemId s + 1, semQueue := Some (q @ [bootSem (nextSemId s) 0])\<rparr>)"
    by (simp add: boot_simps assms(2,3) memory_okD [OF assms(1)] bootSem_def)
  then show ?thesis by blast
qed


text \<open>\<open>startTask\<close> with the file descriptors the boot uses, before the scheduler runs.\<close>

lemma initializeBlock_boot:
  assumes "memory_ok s" "allSemsLock s = 0" "allPipesSem s = 0" "semQueue s = Some (bootSem 0 1 # q)"
    "nextSemId s \<notin> s_id ` set (bootSem 0 1 # q)" "pipeQueue s = Some [bootPipe j n]"
    "fg \<le> 1" "length name < 30" "f = 0 \<or> f = 1" "0 \<le> nextSemId s"
  shows "\<exists>k c n' p. initializeBlock name fg (0, f) s = Ret (Some p)
      (s\<lparr>mcount := k, pidCounter := pidCounter s + 1, cachedPipe := c, pipeQueue := Some [bootPipe j n'],
         nextSemId := nextSemId s + 1, semQueue := Some (bootSem 0 1 # q @ [bootSem (nextSemId s) 0])\<rparr>) \<and>
     pc_pid p = pidCounter s \<and> pc_state p = READY \<and> pc_foreground p = fg \<and> pc_fd0 p = 0 \<and> pc_fd1 p = f \<and>
     pc_semId p = nextSemId s \<and> pc_name p = name \<and> pc_rsp p = pc_rbp p - FRAME_SIZE \<and>
     (c = cachedPipe s \<or> c = Some 0)"
proof -
  define t where "t = s\<lparr>mcount := Suc (Suc (mcount s)), pidCounter := pidCounter s + 1\<rparr>"
  have t: "memory_ok t" "allPipesSem t = 0" "semQueue t = Some (bootSem 0 1 # q)" "pipeQueue t = Some [bootPipe j n]"
    using assms(1,3,4,6) by (simp_all add: t_def memory_ok_def)
  obtain k c n' where o: "(if f \<noteq> 1 then pipeOpen 0 t else Ret 0 t) =
      Ret 0 (t\<lparr>mcount := k, cachedPipe := c, pipeQueue := Some [bootPipe j n']\<rparr>)" "c = cachedPipe s \<or> c = Some 0"
  proof (cases "f = 1")
    case True
    have "t = t\<lparr>mcount := mcount t, cachedPipe := cachedPipe s, pipeQueue := Some [bootPipe j n]\<rparr>"
      by (rule kernel.equality) (simp_all add: t_def assms(6))
    then show thesis using that [where k = "mcount t" and c = "cachedPipe s" and n' = n] True by simp
  next
    case False
    then show thesis using that [where c = "Some 0" and n' = "n + 1"] pipeOpen_boot [OF t] by auto
  qed
  define u where "u = t\<lparr>mcount := k, cachedPipe := c, pipeQueue := Some [bootPipe j n']\<rparr>"
  have u: "memory_ok u" "allSemsLock u = 0" "semQueue u = Some (bootSem 0 1 # q)" "nextSemId u = nextSemId s"
    using assms(1,2,4) by (simp_all add: u_def t_def memory_ok_def)
  obtain k' where i: "semInit 0 u = Ret (nextSemId s) (u\<lparr>mcount := k', nextSemId := nextSemId s + 1,
      semQueue := Some (bootSem 0 1 # q @ [bootSem (nextSemId s) 0])\<rparr>)"
    using semInit_boot [OF u(1-3)] assms(5) u(4) by auto
  have v: "u\<lparr>mcount := k', nextSemId := nextSemId s + 1, semQueue := Some (bootSem 0 1 # q @ [bootSem (nextSemId s) 0])\<rparr> =
      s\<lparr>mcount := k', pidCounter := pidCounter s + 1, cachedPipe := c, pipeQueue := Some [bootPipe j n'],
         nextSemId := nextSemId s + 1, semQueue := Some (bootSem 0 1 # q @ [bootSem (nextSemId s) 0])\<rparr>"
    by (rule kernel.equality) (simp_all add: u_def t_def)
  have m: "kmalloc 104 s = (mallocs s (mcount s), s\<lparr>mcount := Suc (mcount s)\<rparr>)" "mallocs s x \<noteq> 0" for x
    using assms(1) by (simp_all add: kmalloc_def memory_ok_def)
  have pid: "pidCounter (s\<lparr>mcount := Suc (mcount s)\<rparr>) = pidCounter s" by simp
  have stk: "kmalloc 4096 ((s\<lparr>mcount := Suc (mcount s)\<rparr>)\<lparr>pidCounter := pidCounter s + 1\<rparr>) = (mallocs s (Suc (mcount s)), t)"
    by (simp add: kmalloc_def t_def)
  define P where "P i = \<lparr>pc_pid = pidCounter s, pc_ppid = getpid (s\<lparr>mcount := Suc (mcount s)\<rparr>), pc_foreground = fg,
      pc_state = READY, pc_priority = (if fg \<noteq> 0 then FOREGROUND_PRIORITY else BACKGROUND_PRIORITY), pc_name = name,
      pc_fd0 = 0, pc_fd1 = f, pc_rsp = mallocs s (Suc (mcount s)) + STACK_SIZE - 1 - FRAME_SIZE,
      pc_rbp = mallocs s (Suc (mcount s)) + STACK_SIZE - 1, pc_argc = 0, pc_argv = [], pc_semId = i\<rparr>" for i
  have "initializeBlock name fg (0, f) s = kbind (if f \<noteq> 1 then pipeOpen f t else Ret 0 t) (\<lambda>_ s5.
      kbind (semInit 0 s5) (\<lambda>i s6. if i = -1 then Ret None s6 else Ret (Some (P i)) s6))"
    unfolding initializeBlock_def m(1) Let_def prod.case pid stk P_def fst_conv snd_conv
    using assms(7,8) m(2) by (simp add: STDOUT_PIPENO_def STDIN_PIPENO_def split del: if_split)
  moreover have "(if f \<noteq> 1 then pipeOpen f t else Ret 0 t) = Ret 0 u"
    using o(1) assms(9) unfolding u_def by auto
  ultimately have "initializeBlock name fg (0, f) s = kbind (semInit 0 u)
      (\<lambda>i s6. if i = -1 then Ret None s6 else Ret (Some (P i)) s6)" by simp
  then have "initializeBlock name fg (0, f) s = Ret (Some (P (nextSemId s)))
     (s\<lparr>mcount := k', pidCounter := pidCounter s + 1, cachedPipe := c, pipeQueue := Some [bootPipe j n'],
         nextSemId := nextSemId s + 1, semQueue := Some (bootSem 0 1 # q @ [bootSem (nextSemId s) 0])\<rparr>)"
    unfolding i v using assms(10) by simp
  moreover have "pc_pid (P i) = pidCounter s" "pc_state (P i) = READY" "pc_foreground (P i) = fg" "pc_fd0 (P i) = 0"
    "pc_fd1 (P i) = f" "pc_semId (P i) = i" "pc_name (P i) = name"
    "pc_rsp (P i) = pc_rbp (P i) - FRAME_SIZE" for i by (simp_all add: P_def)
  ultimately show ?thesis using o(2) by blast
qed

text \<open>What the boot knows of the process table: the processes in the queue, with what of them matters.\<close>

definition brief :: "pcb \<Rightarrow> int \<times> process_state \<times> int \<times> int \<times> int \<times> u8 list" where
  "brief p = (pc_pid p, pc_state p, pc_foreground p, pc_fd0 p, pc_fd1 p, pc_name p)"

definition booting :: "int \<Rightarrow> kernel \<Rightarrow> bool" where
  "booting n s \<longleftrightarrow> memory_ok s \<and> allSemsLock s = 0 \<and> allPipesSem s = 0 \<and> nextSemId s = n \<and> 1 \<le> n \<and>
     (\<exists>q. semQueue s = Some (bootSem 0 1 # q) \<and> (\<forall>m \<in> set q. \<exists>i v. m = bootSem i v \<and> 0 < i \<and> i < n) \<and> distinct (map s_id q)) \<and>
     (\<exists>j k. pipeQueue s = Some [bootPipe j k]) \<and> cachedPipe s \<in> {None, Some 0} \<and> currentProc s = None"

lemma upd_first_last: "\<forall>x \<in> set q. \<not> P x \<Longrightarrow> P p \<Longrightarrow> upd_first P f (q @ [p]) = q @ [f p]"
  by (induction q) auto

text \<open>The arguments are copied, the frame is written and the process is queued; its parent may change.\<close>

lemma startTask_args_boot:
  assumes "memory_ok s" "currentProc s = None" "procQueue s = Some q" "\<forall>p \<in> set q. pc_pid p \<noteq> pc_pid p0"
    "pc_rsp p0 = pc_rbp p0 - FRAME_SIZE"
  shows "\<exists>k F p b. startTask_args process 1 [name] fg (Some p0) s = Ret (pc_pid p0)
      (s\<lparr>mcount := k, procQueue := Some (q @ [p]), readyCount := readyCount s + 1, frames := F\<rparr>) \<and>
     brief p = brief p0 \<and> F (pc_rsp p) = Some (initialFrame (wrapperAddr s) process 1 b (pc_rsp p))"
proof -
  let ?b = "mallocs s (mcount s)"
  define p1 where "p1 = p0\<lparr>pc_argc := 1, pc_argv := [name]\<rparr>"
  define s1 where "s1 = s\<lparr>mcount := Suc (Suc (mcount s))\<rparr>"
  define s2 where "s2 = s\<lparr>mcount := Suc (Suc (Suc (mcount s))), frames := (frames s)(pc_rsp p1 \<mapsto> initialFrame (wrapperAddr s) process 1 ?b (pc_rsp p1)),
      procQueue := Some (q @ [p1]), readyCount := readyCount s + 1\<rparr>"
  have m: "mallocs s x \<noteq> 0" for x using assms(1) by (simp add: memory_ok_def)
  have rsp: "pc_rbp p1 - FRAME_SIZE = pc_rsp p1" using assms(5) by (simp add: p1_def)
  have e: "startTask_args process 1 [name] fg (Some p0) s = Ret (pc_pid p0) (launch process 1 ?b fg p1 s1)"
    by (simp add: startTask_args_def kmalloc_def m s1_def p1_def)
  have eq: "(enqueueProc p1 (initializeStack process 1 ?b (pc_rbp p1) s1))\<lparr>readyCount :=
      readyCount (enqueueProc p1 (initializeStack process 1 ?b (pc_rbp p1) s1)) + 1\<rparr> = s2"
    using assms(3) by (intro kernel.equality)
      (simp_all add: initializeStack_def rsp enqueueProc_def kenqueue_def kmalloc_def m s1_def s2_def Let_def)
  have l: "launch process 1 ?b fg p1 s1 =
      (if curPid s2 = userlandPid s2 \<and> fg = 0 then modProc (pc_pid p1) (pc_ppid_update (\<lambda>_. initPid s2)) s2 else s2)"
    unfolding launch_def Let_def eq by (rule refl)
  have s2: "s2 = s\<lparr>mcount := mcount s2, procQueue := Some (q @ [p1]), readyCount := readyCount s + 1, frames := frames s2\<rparr>"
    by (rule kernel.equality) (simp_all add: s2_def)
  have f: "frames s2 (pc_rsp p1) = Some (initialFrame (wrapperAddr s) process 1 ?b (pc_rsp p1))"
    by (simp add: s2_def)
  show ?thesis
  proof (cases "curPid s2 = userlandPid s2 \<and> fg = 0")
    case True
    define p2 where "p2 = p1\<lparr>pc_ppid := initPid s2\<rparr>"
    have "launch process 1 ?b fg p1 s1 = modProc (pc_pid p1) (pc_ppid_update (\<lambda>_. initPid s2)) s2"
      unfolding l using True by (rule if_P)
    also have "\<dots> = s2\<lparr>procQueue := Some (q @ [p2])\<rparr>"
      using assms(2,4) by (simp add: modProc_def s2_def upd_first_last p1_def p2_def)
    also have "\<dots> = s\<lparr>mcount := mcount s2, procQueue := Some (q @ [p2]), readyCount := readyCount s + 1, frames := frames s2\<rparr>"
      by (rule kernel.equality) (simp_all add: s2_def)
    finally have "startTask_args process 1 [name] fg (Some p0) s = Ret (pc_pid p0)
        (s\<lparr>mcount := mcount s2, procQueue := Some (q @ [p2]), readyCount := readyCount s + 1, frames := frames s2\<rparr>)"
      using e by simp
    moreover have "brief p2 = brief p0" "pc_rsp p2 = pc_rsp p1" by (simp_all add: brief_def p1_def p2_def)
    ultimately show ?thesis using f by metis
  next
    case False
    have "brief p1 = brief p0" by (simp add: brief_def p1_def)
    moreover have "launch process 1 ?b fg p1 s1 = s2" unfolding l using False by (rule if_not_P)
    ultimately show ?thesis using e f s2 by metis
  qed
qed

lemma startTask_boot:
  assumes "booting n s" "process \<noteq> 0" "fg \<le> 1" "length name < 30" "f = 0 \<or> f = 1" "procQueue s = Some q"
    "\<forall>p \<in> set q. pc_pid p \<noteq> pidCounter s"
  shows "\<exists>s' p b. startTask process 1 [name] fg (Some (0, f)) s = Ret (pidCounter s) s' \<and> booting (n + 1) s' \<and>
     procQueue s' = Some (q @ [p]) \<and> brief p = (pidCounter s, READY, fg, 0, f, name) \<and>
     pidCounter s' = pidCounter s + 1 \<and> readyCount s' = readyCount s + 1 \<and>
     frames s' (pc_rsp p) = Some (initialFrame (wrapperAddr s) process 1 b (pc_rsp p)) \<and>
     idleProc s' = idleProc s \<and> con s' = con s \<and> userlandPid s' = userlandPid s \<and> initPid s' = initPid s \<and>
     wrapperAddr s' = wrapperAddr s"
proof -
  obtain qs j k where b: "memory_ok s" "allSemsLock s = 0" "allPipesSem s = 0" "nextSemId s = n" "1 \<le> n"
    "semQueue s = Some (bootSem 0 1 # qs)" "\<forall>m \<in> set qs. \<exists>i v. m = bootSem i v \<and> 0 < i \<and> i < n" "distinct (map s_id qs)"
    "pipeQueue s = Some [bootPipe j k]" "cachedPipe s \<in> {None, Some 0}" "currentProc s = None"
    using assms(1) unfolding booting_def by blast
  have "0 < s_id m \<and> s_id m < n" if "m \<in> set qs" for m
    using bspec [OF b(7) that] by (elim exE conjE) simp
  then have ids: "\<forall>i \<in> s_id ` set qs. 0 < i \<and> i < n" by auto
  then have fresh: "nextSemId s \<notin> s_id ` set (bootSem 0 1 # qs)" using b(4,5) by auto
  have pos: "0 \<le> nextSemId s" using b(4,5) by simp
  obtain m c n' p0 where i: "initializeBlock name fg (0, f) s = Ret (Some p0)
      (s\<lparr>mcount := m, pidCounter := pidCounter s + 1, cachedPipe := c, pipeQueue := Some [bootPipe j n'],
         nextSemId := nextSemId s + 1, semQueue := Some (bootSem 0 1 # qs @ [bootSem (nextSemId s) 0])\<rparr>)"
    and p0: "pc_pid p0 = pidCounter s" "pc_state p0 = READY" "pc_foreground p0 = fg" "pc_fd0 p0 = 0" "pc_fd1 p0 = f"
      "pc_name p0 = name" "pc_rsp p0 = pc_rbp p0 - FRAME_SIZE" and c: "c = cachedPipe s \<or> c = Some 0"
    using initializeBlock_boot [OF b(1-3,6) fresh b(9) assms(3-5) pos] by metis
  define s1 where "s1 = s\<lparr>mcount := m, pidCounter := pidCounter s + 1, cachedPipe := c, pipeQueue := Some [bootPipe j n'],
         nextSemId := nextSemId s + 1, semQueue := Some (bootSem 0 1 # qs @ [bootSem (nextSemId s) 0])\<rparr>"
  have s1: "memory_ok s1" "currentProc s1 = None" "procQueue s1 = Some q"
    using b(1,11) assms(6) by (simp_all add: s1_def memory_ok_def)
  have away: "\<forall>p \<in> set q. pc_pid p \<noteq> pc_pid p0" using assms(7) p0(1) by simp
  obtain k' F p b' where a: "startTask_args process 1 [name] fg (Some p0) s1 = Ret (pc_pid p0)
      (s1\<lparr>mcount := k', procQueue := Some (q @ [p]), readyCount := readyCount s1 + 1, frames := F\<rparr>)"
    "brief p = brief p0" "F (pc_rsp p) = Some (initialFrame (wrapperAddr s1) process 1 b' (pc_rsp p))"
    using startTask_args_boot [OF s1 away p0(7)] by metis
  define s' where "s' = s1\<lparr>mcount := k', procQueue := Some (q @ [p]), readyCount := readyCount s1 + 1, frames := F\<rparr>"
  have "startTask process 1 [name] fg (Some (0, f)) s = Ret (pidCounter s) s'"
    using assms(2) i a(1) b(11) p0(1) unfolding s1_def [symmetric] s'_def [symmetric] by (simp add: startTask_def)
  moreover have "\<forall>m \<in> set (qs @ [bootSem n 0]). \<exists>i v. m = bootSem i v \<and> 0 < i \<and> i < n + 1"
    using b(5,7) by fastforce
  moreover have "distinct (map s_id (qs @ [bootSem n 0]))" using ids b(8) by auto
  ultimately show ?thesis
    using b c a(2,3) p0 by (intro exI [of _ s'] exI [of _ p] exI [of _ b'])
      (auto simp: booting_def s'_def s1_def memory_ok_def brief_def)
qed

lemma tables_booting:
  "\<forall>n. M n \<noteq> 0 \<Longrightarrow> booting 3 (tables (powerOn M junk low rsp w screen))"
  by (auto simp: booting_def tables_def powerOn_def memory_ok_def)

lemma booting_frame:
  "booting n s \<Longrightarrow> booting n (s\<lparr>procQueue := q\<rparr>)"
  "booting n s \<Longrightarrow> booting n (s\<lparr>initPid := i\<rparr>)"
  "booting n s \<Longrightarrow> booting n (s\<lparr>readyCount := r\<rparr>)"
  "booting n s \<Longrightarrow> booting n (s\<lparr>idleProc := p\<rparr>)"
  "booting n s \<Longrightarrow> booting n (s\<lparr>con := c\<rparr>)"
  "booting n s \<Longrightarrow> booting n (s\<lparr>mcount := m\<rparr>)"
  by (simp_all add: booting_def memory_ok_def)

lemma booting_kinv:
  assumes "booting n s" "procs_ok s" "console_ok (con s)"
  shows "kinv s"
proof -
  obtain q where q: "semQueue s = Some (bootSem 0 1 # q)" "\<forall>m \<in> set q. \<exists>i v. m = bootSem i v \<and> 0 < i \<and> i < n"
      "distinct (map s_id q)" "nextSemId s = n" "1 \<le> n" "memory_ok s" "allSemsLock s = 0"
      "cachedPipe s \<in> {None, Some 0}" "\<exists>j k. pipeQueue s = Some [bootPipe j k]"
    using assms(1) unfolding booting_def by blast
  have ids: "0 < s_id m \<and> s_id m < n \<and> sem_ok {} n m" if "m \<in> set q" for m
    using bspec [OF q(2) that] by (elim exE conjE) (simp add: sem_ok_def)
  have "sem_ok {} n (bootSem 0 1)" using q(5) by (simp add: sem_ok_def)
  then have "sems_inv {} 0 s" using q(1,3,4,5,7) ids by (force simp: sems_inv_def)
  moreover have "pipes_ok s"
    using q(8,9) by (auto simp: pipes_ok_def pipe_ok_def bootPipe_def PIPE_BUFFER_SIZE_def)
  ultimately show ?thesis using assms(2,3) q(6) by (simp add: kinv_def kinv_locked_def)
qed

lemma initScheduler_boot:
  assumes "booting n s" "idleAddr \<noteq> 0" "initAddr \<noteq> 0"
  shows "\<exists>s' i p. initScheduler idleAddr initAddr s = Ret () s' \<and> booting (n + 2) s' \<and> idleProc s' = Some i \<and>
     procQueue s' = Some [p] \<and> brief i = (pidCounter s, READY, 0, 0, 0, [105, 100, 108, 101]) \<and>
     brief p = (pidCounter s + 1, READY, 0, 0, 0, [73, 110, 105, 116]) \<and> pidCounter s' = pidCounter s + 2 \<and>
     initPid s' = pidCounter s + 1 \<and> readyCount s' = readyCount s + 1 \<and> con s' = con s \<and> wrapperAddr s' = wrapperAddr s"
proof -
  define s0 where "s0 = s\<lparr>mcount := Suc (mcount s), procQueue := Some []\<rparr>"
  have m: "mallocs s x \<noteq> 0" for x using assms(1) by (simp add: booting_def memory_ok_def)
  have s0: "booting n s0" "procQueue s0 = Some []" "pidCounter s0 = pidCounter s" "readyCount s0 = readyCount s"
      "con s0 = con s" "wrapperAddr s0 = wrapperAddr s"
    using booting_frame(1) [OF booting_frame(6) [OF assms(1)]] by (simp_all add: s0_def)
  obtain s1 i where s1: "startTask idleAddr 1 [[105, 100, 108, 101]] 0 (Some (0, 0)) s0 = Ret (pidCounter s) s1"
    "booting (n + 1) s1" "procQueue s1 = Some [i]" "brief i = (pidCounter s, READY, 0, 0, 0, [105, 100, 108, 101])"
    "pidCounter s1 = pidCounter s + 1" "readyCount s1 = readyCount s + 1" "con s1 = con s" "wrapperAddr s1 = wrapperAddr s"
    using startTask_boot [OF s0(1) assms(2) _ _ _ s0(2), of 0 "[105, 100, 108, 101]" 0] s0(3-6) by auto
  have pid: "\<forall>x \<in> set [i]. pc_pid x \<noteq> pidCounter s1" using s1(4,5) by (simp add: brief_def)
  obtain s2 p where s2: "startTask initAddr 1 [[73, 110, 105, 116]] 0 (Some (0, 0)) s1 = Ret (pidCounter s + 1) s2"
    "booting (n + 1 + 1) s2" "procQueue s2 = Some [i, p]" "brief p = (pidCounter s + 1, READY, 0, 0, 0, [73, 110, 105, 116])"
    "pidCounter s2 = pidCounter s + 2" "readyCount s2 = readyCount s + 2" "con s2 = con s" "wrapperAddr s2 = wrapperAddr s"
    using startTask_boot [OF s1(2) assms(3) _ _ _ s1(3) pid, of 0 "[73, 110, 105, 116]" 0] s1(5-8) by auto
  define s3 where "s3 = s2\<lparr>initPid := pidCounter s + 1, readyCount := readyCount s2 - 1, idleProc := Some i, procQueue := Some [p]\<rparr>"
  have "initScheduler idleAddr initAddr s = Ret () s3"
    using s1(1) s2(1,3) unfolding s0_def s3_def by (simp add: initScheduler_def kinitQueue_def kmalloc_def m)
  moreover have "booting (n + 2) s3" unfolding s3_def
    by (intro booting_frame) (use s2(2) in \<open>simp only: add.assoc one_add_one\<close>)
  ultimately show ?thesis using s1(4) s2 by (simp add: s3_def)
qed

lemma kernel_main_boots:
  assumes "\<forall>n. M n \<noteq> 0" "idleAddr \<noteq> 0" "initAddr \<noteq> 0"
  shows "\<exists>s i p u b. kernel_main idleAddr initAddr (powerOn M junk low rsp w screen) = Ret () s \<and> kinv s \<and>
     idleProc s = Some i \<and> procQueue s = Some [p, u] \<and> currentProc s = None \<and> readyCount s = 2 \<and>
     brief i = (1, READY, 0, 0, 0, [105, 100, 108, 101]) \<and> brief p = (2, READY, 0, 0, 0, [73, 110, 105, 116]) \<and>
     brief u = (3, READY, 1, 0, 1, [73, 110, 105, 116, 32, 117, 115, 101, 114, 108, 97, 110, 100]) \<and>
     initPid s = 2 \<and> userlandPid s = 3 \<and>
     frames s (pc_rsp u) = Some (initialFrame w sampleCodeModuleAddress 1 b (pc_rsp u)) \<and>
     list_all (\<lambda>k. video (con s) (2 * k) = 32) [0 ..< 2000]"
proof -
  let ?t = "tables (powerOn M junk low rsp w screen)"
  have t: "pidCounter ?t = 1" "readyCount ?t = 0" "con ?t = init_console screen" "wrapperAddr ?t = w"
    by (simp_all add: tables_def powerOn_def)
  obtain s1 i p where s1: "initScheduler idleAddr initAddr ?t = Ret () s1" "booting 5 s1" "idleProc s1 = Some i"
    "procQueue s1 = Some [p]" "brief i = (1, READY, 0, 0, 0, [105, 100, 108, 101])"
    "brief p = (2, READY, 0, 0, 0, [73, 110, 105, 116])" "pidCounter s1 = 3" "initPid s1 = 2" "readyCount s1 = 1"
    "con s1 = init_console screen" "wrapperAddr s1 = w"
    using initScheduler_boot [OF tables_booting [OF assms(1), of junk low rsp w screen] assms(2,3)] unfolding t by auto
  define s2 where "s2 = ncClear_screen s1"
  have s2: "booting 5 s2" "procQueue s2 = Some [p]" "\<forall>x \<in> set [p]. pc_pid x \<noteq> pidCounter s2" "pidCounter s2 = 3"
    using s1(2,4,6,7) by (auto simp: s2_def ncClear_screen_def brief_def intro: booting_frame)
  obtain s3 u b where s3: "startTask sampleCodeModuleAddress 1
      [[73, 110, 105, 116, 32, 117, 115, 101, 114, 108, 97, 110, 100]] 1 (Some (0, 1)) s2 = Ret 3 s3" "booting (5 + 1) s3"
    "procQueue s3 = Some [p, u]" "brief u = (3, READY, 1, 0, 1, [73, 110, 105, 116, 32, 117, 115, 101, 114, 108, 97, 110, 100])"
    "pidCounter s3 = 4" "readyCount s3 = readyCount s2 + 1"
    "frames s3 (pc_rsp u) = Some (initialFrame (wrapperAddr s2) sampleCodeModuleAddress 1 b (pc_rsp u))"
    "idleProc s3 = idleProc s2" "con s3 = con s2" "initPid s3 = initPid s2"
    using startTask_boot [OF s2(1) _ _ _ _ s2(2,3), of sampleCodeModuleAddress 1
        "[73, 110, 105, 116, 32, 117, 115, 101, 114, 108, 97, 110, 100]" 1] s2(4)
    by (auto simp: sampleCodeModuleAddress_def)
  define s4 where "s4 = s3\<lparr>userlandPid := 3\<rparr>"
  have "kernel_main idleAddr initAddr (powerOn M junk low rsp w screen) = Ret () s4"
    unfolding kernel_main_def boot_tables [of M junk low rsp w screen, OF assms(1) [rule_format]] s1(1) kbind.simps
      s2_def [symmetric] s3(1) by (simp add: setUserlandPid_def s4_def)
  moreover have "kinv s4"
  proof (rule booting_kinv)
    show "booting (5 + 1) s4" using s3(2) by (simp add: s4_def booting_def memory_ok_def)
    show "procs_ok s4"
      by (rule procs_ok_idleI [of _ "[p, u]" i])
         (use s1(3,5,6,9) s3 in \<open>simp_all add: s4_def s2_def ncClear_screen_def brief_def booting_def isReady_def\<close>)
    show "console_ok (con s4)"
      using s1(10) s3(9) by (simp add: s4_def s2_def ncClear_screen_def console_ok_def init_console_def)
  qed
  moreover have "list_all (\<lambda>k. video (con s4) (2 * k) = 32) [0 ..< 2000]"
    using s3(9) by (simp add: s4_def s2_def ncClear_screen_def list_all_iff ncClear_cells)
  ultimately show ?thesis
    using s1(3,5,6,8,9,11) s3 by (intro exI [of _ s4] exI [of _ i] exI [of _ p] exI [of _ u] exI [of _ b])
      (simp add: s4_def s2_def ncClear_screen_def booting_def)
qed

lemma kernel_main_kinv:
  assumes "\<forall>n. M n \<noteq> 0" "idleAddr \<noteq> 0" "initAddr \<noteq> 0"
  shows "\<exists>s. kernel_main idleAddr initAddr (powerOn M junk low rsp w screen) = Ret () s \<and> kinv s \<and> currentProc s = None"
  using kernel_main_boots [OF assms] by blast

text \<open>C20. The kernel boots: when the memory manager answers, \<open>main\<close> gets to its end without an error, and leaves a
  well-formed kernel with the idle process (pid 1), \<open>init\<close> (pid 2) and the user program (pid 3, in the foreground,
  reading the keyboard and writing to the screen) ready in this order, nothing running yet, and a blank screen. The
  user program will enter \<open>processWrapper\<close> with the address of the code module.\<close>

theorem kernel_boots:
  assumes "\<forall>n. M n \<noteq> 0" "idleAddr \<noteq> 0" "initAddr \<noteq> 0"
  shows "\<exists>s i p u b. kernel_main idleAddr initAddr (powerOn M junk low rsp w screen) = Ret () s \<and> kinv s \<and>
     idleProc s = Some i \<and> procQueue s = Some [p, u] \<and> currentProc s = None \<and> readyCount s = 2 \<and>
     brief i = (1, READY, 0, 0, 0, [105, 100, 108, 101]) \<and> brief p = (2, READY, 0, 0, 0, [73, 110, 105, 116]) \<and>
     brief u = (3, READY, 1, 0, 1, [73, 110, 105, 116, 32, 117, 115, 101, 114, 108, 97, 110, 100]) \<and>
     initPid s = 2 \<and> userlandPid s = 3 \<and>
     frames s (pc_rsp u) = Some (initialFrame w sampleCodeModuleAddress 1 b (pc_rsp u)) \<and>
     list_all (\<lambda>k. video (con s) (2 * k) = 32) [0 ..< 2000]"
  by (rule kernel_main_boots [OF assms])

theorem kernel_boots_witness:
  "\<exists>s. kernel_main 0x100100 0x100200 (powerOn sampleMalloc 0 0 0 0x100300 (\<lambda>_. 0)) = Ret () s \<and> kinv s \<and> userlandPid s = 3"
  using kernel_boots [of sampleMalloc "0x100100" "0x100200" 0 0 0 "0x100300" "\<lambda>_. 0"] sampleMalloc_nonzero by force

end
