(* ===== verification/SystemSpec.thy ===== *)
theory SystemSpec
  imports Boot
begin

text \<open>
  The kernel as a whole, from \<open>main\<close> on: what holds in every state the machine of theory \<open>System\<close> reaches after
  the boot of theory \<open>Boot\<close>, whatever system calls, keys and timer ticks arrive. And the two small services of
  \<open>syscalls.c\<close>, the clock and the memory dump.
\<close>







section \<open>Clock and memory dump\<close>

text \<open>\<open>getRTC\<close> decodes packed BCD: for a byte with tens and units below ten it returns the number, below 100.\<close>

theorem getRTC_bcd:
  assumes "t < 10" "u < 10"
  shows "getRTC (push_bit 4 t OR u) = 10 * t + u \<and> getRTC (push_bit 4 t OR u) < 100"
proof -
  have "\<forall>t \<in> set (map of_nat [0 ..< 10]). \<forall>u \<in> set (map of_nat [0 ..< 10]).
      getRTC (push_bit 4 t OR u) = 10 * t + u \<and> getRTC (push_bit 4 t OR u) < (100 :: u8)"
    by code_simp
  moreover have "x \<in> set (map of_nat [0 ..< 10])" if "x < 10" for x :: u8
  proof -
    have "x = of_nat (unat x)" "unat x < 10" using that by (simp_all add: word_less_nat_alt)
    then show ?thesis by (metis atLeastLessThan_iff imageI le0 list.set_map set_upt)
  qed
  ultimately show ?thesis using assms by blast
qed

theorem getRTC_bcd_witness: "getRTC 0x59 = 59"
  using getRTC_bcd [of 5 9] by simp

lemma unat_ucast_u8 [simp]: "unat (ucast (i :: u8) :: u64) = unat i"
proof -
  have "unat i < 2 ^ LENGTH(8)" by (rule unsigned_less)
  then have "unat i < 2 ^ 64" by (rule less_trans) simp
  then have "take_bit 64 (unat i) = unat i" by (rule take_bit_nat_eq_self)
  then show ?thesis by (simp add: unsigned_ucast_eq)
qed

lemma getMem_loop_spec:
  "unat n \<le> 255 \<Longrightarrow> unat i \<le> unat n \<Longrightarrow> unat n - unat i < fuel \<Longrightarrow>
     getMem_loop fuel mem d n i buf =
       Some (\<lambda>j. if unat i \<le> unat j \<and> unat j < unat n then mem (d + ucast j) else buf j)"
proof (induction fuel arbitrary: i buf)
  case 0
  then show ?case by simp
next
  case (Suc k)
  have u: "(ucast i :: u64) < n \<longleftrightarrow> unat i < unat n"
    by (simp add: word_less_nat_alt)
  show ?case
  proof (cases "unat i < unat n")
    case True
    then have i1: "unat (i + 1) = unat i + 1" using Suc.prems(1) by (simp add: unat_word_ariths)
    have "getMem_loop k mem d n (i + 1) (buf(i := mem (d + ucast i))) =
        Some (\<lambda>j. if unat (i + 1) \<le> unat j \<and> unat j < unat n then mem (d + ucast j) else (buf(i := mem (d + ucast i))) j)"
      by (rule Suc.IH) (use Suc.prems True i1 in auto)
    moreover have "(if unat (i + 1) \<le> unat j \<and> unat j < unat n then mem (d + ucast j) else (buf(i := mem (d + ucast i))) j) =
        (if unat i \<le> unat j \<and> unat j < unat n then mem (d + ucast j) else buf j)" for j
      using True i1 u8_eq_iff [of j i] by (cases "j = i") auto
    ultimately show ?thesis using True u by simp
  next
    case False
    then show ?thesis using u Suc.prems(2) by (auto simp: fun_eq_iff)
  qed
qed

lemma getMem_loop_endless: "256 \<le> unat n \<Longrightarrow> getMem_loop fuel mem d n i buf = None"
proof (induction fuel arbitrary: i buf)
  case (Suc k)
  have "unat i < 256" using unsigned_less [of i] by simp
  then have "unat i < unat n" using Suc.prems by linarith
  then have "(ucast i :: u64) < n" by (simp add: word_less_nat_alt)
  then show ?case using Suc by simp
qed simp

text \<open>C26. \<open>getMem\<close> copies up to 255 bytes and leaves the rest of the buffer; asked for more, it never returns, because
  it counts in eight bits.\<close>

theorem getMem_copies_or_loops:
  "(unat n < 256 \<longrightarrow> getMem 256 mem d n buf =
      Some (\<lambda>j. if unat j < unat n then mem (d + ucast j) else buf j)) \<and>
   (256 \<le> unat n \<longrightarrow> getMem fuel mem d n buf = None)"
  using getMem_loop_spec [of n 0 256 mem d buf] getMem_loop_endless [of n fuel mem d 0 buf]
  by (simp add: getMem_def)

theorem getMem_copies_or_loops_witness:
  "map_option (\<lambda>b. map b [0, 1, 2]) (getMem 256 (\<lambda>a. ucast a) 0x10 2 (\<lambda>_. 0)) = Some [0x10, 0x11, 0] \<and>
   getMem 1000 (\<lambda>a. ucast a) 0x10 256 (\<lambda>_. 0) = None"
  using getMem_copies_or_loops [of 2 "\<lambda>a. ucast a" "0x10" "\<lambda>_. 0" 1000]
    getMem_copies_or_loops [of 256 "\<lambda>a. ucast a" "0x10" "\<lambda>_. 0" 1000] by simp

end
