(* ===== verification/ConsoleSpec.thy ===== *)
theory ConsoleSpec
  imports Sample
begin

text \<open>
  The promises of the text console (\<open>Kernel/drivers/console.c\<close>): what a user sees after printing, after a
  backspace, after a scroll and after clearing the screen, and that the driver never writes outside the screen.
\<close>

text \<open>The character and the colours of a cell, and the write position.\<close>

definition cell :: "console \<Rightarrow> nat \<Rightarrow> nat \<Rightarrow> u8 \<times> u8" where
  "cell c y x = (video c (getPosition y x), video c (getPosition y x + 1))"

definition pos :: "console \<Rightarrow> nat \<times> nat" where
  "pos c = (unat (curY c), unat (curX c))"

lemma getPosition_eq [simp]:
  "x < 80 \<Longrightarrow> x' < 80 \<Longrightarrow> getPosition y x = getPosition y' x' \<longleftrightarrow> y = y' \<and> x = x'"
  "getPosition y x \<noteq> Suc (getPosition y' x')" "Suc (getPosition y x) \<noteq> getPosition y' x'"
proof -
  assume x: "x < 80" "x' < 80"
  have "(x + y * 80) div 80 = y" "(x' + y' * 80) div 80 = y'" "(x + y * 80) mod 80 = x" "(x' + y' * 80) mod 80 = x'"
    using x by simp_all
  then have "x + y * 80 = x' + y' * 80 \<Longrightarrow> y = y' \<and> x = x'" by metis
  moreover have "getPosition y x = getPosition y' x' \<longleftrightarrow> x + y * 80 = x' + y' * 80"
    by (auto simp: getPosition_def SCREEN_WIDTH_def)
  ultimately show "getPosition y x = getPosition y' x' \<longleftrightarrow> y = y' \<and> x = x'" by auto
next
  have "even (getPosition y x)" for y x by (simp add: getPosition_def)
  then show "getPosition y x \<noteq> Suc (getPosition y' x')" "Suc (getPosition y x) \<noteq> getPosition y' x'"
    by (metis even_Suc)+
qed

lemma printPlain_at:
  assumes "pos c = (y, x)" "y < 25" "x < 80"
  shows "y' < 25 \<Longrightarrow> x' < 80 \<Longrightarrow> cell (printPlain ch fg bg nxt c) y' x' =
       (if y' = y \<and> x' = x then (ch, push_bit 4 bg OR fg) else cell c y' x')"
    "pos (printPlain ch fg bg False c) = (y, x)"
    "pos (printPlain ch fg bg True c) = (if x = 79 then (y + 1, 0) else (y, x + 1))"
proof -
  have n: "curY c \<noteq> 25" "curX c = 79 \<longleftrightarrow> x = 79" "unat (curX c) = x" "unat (curY c) = y"
    using assms by (auto simp: pos_def u8_eq_iff)
  have inc: "unat (curY c + 1) = y + 1" "x \<noteq> 79 \<Longrightarrow> unat (curX c + 1) = x + 1"
    using n(3,4) assms(2,3) by (simp_all add: unat_word_ariths)
  show "cell (printPlain ch fg bg nxt c) y' x' = (if y' = y \<and> x' = x then (ch, push_bit 4 bg OR fg) else cell c y' x')"
    if "y' < 25" "x' < 80"
    using that assms(2,3) n by (auto simp: printPlain_def cell_def goNextPosition_def Let_def)
  show "pos (printPlain ch fg bg False c) = (y, x)" using n by (simp add: printPlain_def pos_def Let_def)
  show "pos (printPlain ch fg bg True c) = (if x = 79 then (y + 1, 0) else (y, x + 1))"
    using n inc by (simp add: printPlain_def pos_def goNextPosition_def Let_def)
qed

lemma printCharColor_plain:
  "ch \<notin> {8, 9, 10} \<Longrightarrow> pos c = (y, x) \<Longrightarrow> y < 25 \<Longrightarrow> printCharColor ch fg bg nxt c = printPlain ch fg bg nxt c"
  by (auto simp: printCharColor_def pos_def Let_def)

text \<open>C24. Whatever is written, in whatever colours and with any control characters in it, the console writes no
  byte of memory behind the 80 x 25 screen, and its position stays a position of the screen (or the start of the row
  below it, where the next character scrolls).\<close>

theorem console_stays_on_screen:
  assumes "console_ok c"
  shows "console_ok (printColor str fg bg c) \<and> (\<forall>k. 4000 \<le> k \<longrightarrow> video (printColor str fg bg c) k = video c k)"
  using fold_ok [of "\<lambda>ch. printCharColor ch fg bg True" c str] printCharColor_ok assms
  by (simp add: printColor_def same_outside_def)

theorem console_stays_on_screen_witness:
  "console_ok (printColor [8, 10, 9, 65] 7 0 (init_console (\<lambda>_. 0))) \<and>
     video (printColor [8, 10, 9, 65] 7 0 (init_console (\<lambda>_. 0))) 4000 = 0"
proof -
  have "console_ok (init_console (\<lambda>_. 0))" by (simp add: console_ok_def init_console_def)
  from console_stays_on_screen [OF this, of "[8, 10, 9, 65]" 7 0] show ?thesis by (simp add: init_console_def)
qed

text \<open>C25. Printing text that fits the rest of the row puts its characters, in the colours asked for, into the cells
  from the position on, leaves every other cell of the screen alone, and moves the position behind the text.\<close>

theorem print_writes_text:
  assumes "pos c = (y, x)" "y < 25" "x + length str < 80" "set str \<inter> {8, 9, 10} = {}"
  shows "pos (printColor str fg bg c) = (y, x + length str) \<and>
     (\<forall>y' < 25. \<forall>x' < 80. cell (printColor str fg bg c) y' x' =
        (if y' = y \<and> x \<le> x' \<and> x' < x + length str then (str ! (x' - x), push_bit 4 bg OR fg) else cell c y' x'))"
  using assms
proof (induction str arbitrary: c x)
  case Nil
  then show ?case by (auto simp: printColor_def)
next
  case (Cons ch str)
  let ?c = "printPlain ch fg bg True c"
  have x: "x < 80" "x \<noteq> 79" using Cons.prems(3) by auto
  note at = printPlain_at [OF Cons.prems(1,2) x(1)]
  have "pos ?c = (y, x + 1)" using at(3) x(2) by simp
  then have IH: "pos (printColor str fg bg ?c) = (y, x + 1 + length str)"
    "\<forall>y' < 25. \<forall>x' < 80. cell (printColor str fg bg ?c) y' x' =
        (if y' = y \<and> x + 1 \<le> x' \<and> x' < x + 1 + length str then (str ! (x' - (x + 1)), push_bit 4 bg OR fg) else cell ?c y' x')"
    using Cons.IH [of ?c "x + 1"] Cons.prems by auto
  have eq: "printColor (ch # str) fg bg c = printColor str fg bg ?c"
    using printCharColor_plain [OF _ Cons.prems(1,2), of ch] Cons.prems(4) by (simp add: printColor_def)
  show ?case
    unfolding eq
  proof (intro conjI allI impI)
    show "pos (printColor str fg bg ?c) = (y, x + length (ch # str))" using IH(1) by simp
    fix y' x' :: nat assume "y' < 25" "x' < 80"
    then show "cell (printColor str fg bg ?c) y' x' = (if y' = y \<and> x \<le> x' \<and> x' < x + length (ch # str)
        then ((ch # str) ! (x' - x), push_bit 4 bg OR fg) else cell c y' x')"
      using IH(2) at(1) by (auto simp: nth_Cons')
  qed
qed

theorem print_writes_text_witness:
  "map (cell (printColor [72, 105] 7 0 (init_console (\<lambda>_. 0))) 0) [0, 1, 2] = [(72, 7), (105, 7), (0, 0)]"
proof -
  have "pos (init_console (\<lambda>_. 0)) = (0, 0)" by (simp add: pos_def init_console_def)
  from print_writes_text [OF this, of "[72, 105]" 7 0]
  have "cell (printColor [72, 105] 7 0 (init_console (\<lambda>_. 0))) 0 x' =
      (if x' < 2 then ([72, 105] ! x', 7) else cell (init_console (\<lambda>_. 0)) 0 x')" if "x' < 80" for x'
    using that by simp
  then show ?thesis by (simp add: cell_def init_console_def)
qed

text \<open>A backspace takes back the character printed before it, at the end of a row too: the position is the old
  one, the cell is blank, and the rest of the screen is as before.\<close>

theorem backspace_undoes:
  assumes "pos c = (y, x)" "y < 25" "x < 80" "ch \<notin> {8, 9, 10}"
  shows "pos (printCharColor 8 fg' bg' nxt (printCharColor ch fg bg True c)) = (y, x) \<and>
     (\<forall>y' < 25. \<forall>x' < 80. cell (printCharColor 8 fg' bg' nxt (printCharColor ch fg bg True c)) y' x' =
        (if y' = y \<and> x' = x then (32, WHITE) else cell c y' x'))"
proof -
  let ?c = "printPlain ch fg bg True c"
  note at = printPlain_at [OF assms(1-3)]
  have p: "printCharColor ch fg bg True c = ?c" by (rule printCharColor_plain [OF assms(4,1,2)])
  define d where "d = (if curX ?c = 0 then ?c\<lparr>curY := curY ?c - 1, curX := 79\<rparr> else ?c\<lparr>curX := curX ?c - 1\<rparr>)"
  have y: "curX ?c = 0 \<Longrightarrow> curY ?c > 0"
    using at(3) [of ch fg bg] by (simp add: pos_def word_less_nat_alt split: if_splits)
  have "unat (curY ?c - 1) = unat (curY ?c) - 1" if "curY ?c > 0"
    using that by (metis unat_minus_one word_gt_0)
  moreover have "unat (curX ?c - 1) = unat (curX ?c) - 1" if "curX ?c \<noteq> 0"
    using that by (rule unat_minus_one)
  ultimately have pd: "pos d = (y, x)"
    using at(3) [of ch fg bg] y by (cases "curX ?c = 0") (auto simp: d_def pos_def unat_eq_0 split: if_splits)
  have cd: "cell d = cell ?c" by (simp add: d_def cell_def fun_eq_iff)
  have "printCharColor 8 fg' bg' nxt ?c = printPlain 32 WHITE BLACK False d"
    using y by (simp add: printCharColor_def deleteChar_def d_def)
  moreover note printPlain_at(1) [OF pd assms(2,3), of _ _ 32 WHITE BLACK False]
  moreover have "push_bit 4 BLACK OR WHITE = WHITE" by (simp add: BLACK_def)
  ultimately show ?thesis unfolding p using at(1) cd printPlain_at(2) [OF pd assms(2,3)] by simp
qed

theorem backspace_undoes_witness:
  "pos (printCharColor 8 7 0 True (printCharColor 65 7 0 True ((init_console (\<lambda>_. 0))\<lparr>curX := 79\<rparr>))) = (0, 79)"
  using backspace_undoes [of "(init_console (\<lambda>_. 0))\<lparr>curX := 79\<rparr>" 0 79 65 7 0 True 7 0]
  by (simp add: pos_def init_console_def)

text \<open>A character printed below the last row scrolls: every row moves up one row with its colours, the top row is
  lost, and the character stands alone in a blank last row.\<close>

theorem print_scrolls:
  assumes "pos c = (25, x)" "x < 80" "ch \<notin> {8, 9, 10}"
  shows "\<forall>y' < 25. \<forall>x' < 80. cell (printCharColor ch fg bg True c) y' x' =
     (if y' < 24 then cell c (y' + 1) x' else if x' = x then (ch, push_bit 4 bg OR fg) else (32, 0))"
proof -
  have y: "curY c = 25" using assms(1) by (simp add: pos_def u8_eq_iff)
  then have "printCharColor ch fg bg True c = printPlain ch fg bg True (scrollUp c)"
    using assms(3) by (auto simp: printCharColor_def Let_def)
  moreover have "pos (scrollUp c) = (24, x)" using assms(1) y by (simp add: pos_def)
  moreover have "cell (scrollUp c) y' x' = (if y' < 24 then cell c (y' + 1) x' else (32, 0))" if "y' < 25" "x' < 80" for y' x'
    using that by (auto simp: cell_def video_scrollUp getPosition_def SCREEN_WIDTH_def less_Suc_eq_le add.commute add.left_commute)
  ultimately show ?thesis using printPlain_at(1) [of "scrollUp c" 24 x _ _ ch fg bg True] assms(2) by simp
qed

theorem print_scrolls_witness:
  "cell (printCharColor 65 7 0 True ((init_console (\<lambda>k. if k = 160 then 66 else 0))\<lparr>curY := 25\<rparr>)) 0 0 = (66, 0) \<and>
   cell (printCharColor 65 7 0 True ((init_console (\<lambda>k. if k = 160 then 66 else 0))\<lparr>curY := 25\<rparr>)) 24 0 = (65, 7)"
proof -
  let ?c = "(init_console (\<lambda>k. if k = 160 then 66 else 0))\<lparr>curY := 25\<rparr>"
  have "pos ?c = (25, 0)" by (simp add: pos_def init_console_def)
  from print_scrolls [OF this, of 65 7 0]
  have e: "cell (printCharColor 65 7 0 True ?c) y' x' = (if y' < 24 then cell ?c (y' + 1) x' else if x' = 0 then (65, 7) else (32, 0))"
    if "y' < 25" "x' < 80" for y' x' using that by simp
  show ?thesis
    using e [of 0 0] e [of 24 0] by (simp add: cell_def init_console_def getPosition_def SCREEN_WIDTH_def)
qed

text \<open>Clearing the screen leaves 2000 blanks and the position at the top left.\<close>

theorem clearScreen_blank:
  "pos (clearScreen c) = (0, 0) \<and> list_all (\<lambda>(y, x). fst (cell (clearScreen c) y x) = 32) (List.product [0 ..< 25] [0 ..< 80])"
proof -
  have "fst (cell (clearScreen c) y x) = 32" if "y < 25" "x < 80" for y x
    using that clearScreen_cells [of "getPosition y x" c] getPosition_bound [of y x]
    by (simp add: cell_def) (simp add: getPosition_def)
  then show ?thesis
    by (auto simp: list_all_iff clearScreen_def restartCurrentPos_def pos_def)
qed

end
