(* ===== verification/SchedSpec.thy ===== *)
theory SchedSpec
  imports Sample
begin

text \<open>
  What the scheduler promises: it always finds a ready process, it serves the processes in the
  order of the queue, and a process that was switched away from comes back with the stack pointer
  it left.
\<close>

section \<open>Rotation\<close>

definition waiting :: "pcb \<Rightarrow> bool" where
  "waiting p \<longleftrightarrow> pc_state p = BLOCKED \<or> pc_state p = EXITED"

lemma pick_ready: "currentProc s = Some r \<Longrightarrow> pc_state r = READY \<Longrightarrow> pick (Suc n) s = Ret () s"
  by simp

lemma pick_waiting:
  assumes "memory_ok s" "currentProc s = Some p" "waiting p" "procQueue s = Some (x # q)"
  shows "\<exists>m. pick (Suc n) s = pick n (s\<lparr>mcount := m, currentProc := Some x, procQueue := Some (q @ [p])\<rparr>)"
  using assms
  by (auto simp: waiting_def enqueueProc_def kenqueue_def kmalloc_val mallocs_nz dequeueCurrent_def)

lemma pick_rotates:
  assumes "memory_ok s" "\<forall>p \<in> set pre. waiting p" "pc_state r = READY" "length pre \<le> n"
    "currentProc s = Some x" "procQueue s = Some q" "x # q = pre @ r # post"
  shows "\<exists>m. pick (Suc n) s = Ret () (s\<lparr>mcount := m, currentProc := Some r, procQueue := Some (post @ pre)\<rparr>)"
  using assms
proof (induction pre arbitrary: n s x q post)
  case Nil
  then have "s\<lparr>mcount := mcount s, currentProc := Some r, procQueue := Some post\<rparr> = s" by simp
  then show ?case using Nil by (metis append.right_neutral append_Nil list.inject pick_ready)
next
  case (Cons p pre)
  have x: "x = p" "q = pre @ r # post" using Cons.prems(7) by simp_all
  obtain k where n: "n = Suc k" using Cons.prems(4) by (cases n) auto
  obtain y q' where yq: "q = y # q'" using x(2) by (cases pre) auto
  obtain m where m: "pick (Suc n) s =
      pick n (s\<lparr>mcount := m, currentProc := Some y, procQueue := Some (q' @ [p])\<rparr>)"
    using pick_waiting [of s p y q' n] Cons.prems x yq by auto
  let ?s = "s\<lparr>mcount := m, currentProc := Some y, procQueue := Some (q' @ [p])\<rparr>"
  have "\<exists>m. pick (Suc k) ?s = Ret () (?s\<lparr>mcount := m, currentProc := Some r,
      procQueue := Some ((post @ [p]) @ pre)\<rparr>)"
    by (rule Cons.IH) (use Cons.prems x yq n in \<open>auto simp: memory_ok_def\<close>)
  then show ?case using m by (auto simp: n simp del: pick.simps)
qed

lemma ready_counted: "r \<in> set q \<Longrightarrow> pc_state r = READY \<Longrightarrow> 0 < count_if isReady q"
  by (auto simp: count_if_pos_iff isReady_def)

lemma rotation:
  assumes k: "kinv s" and run: "running s" and c: "currentProc s = Some c"
    and over: "pc_state c \<noteq> READY \<or> currentCycles s \<le> 0"
    and q: "procQueue s = Some (pre @ r # post)" "\<forall>p \<in> set pre. waiting p" "pc_state r = READY"
  shows "\<exists>m. scheduleTask rsp s = Ret (pc_rsp r)
     (s\<lparr>mcount := m, currentProc := Some r, procQueue := Some (post @ c\<lparr>pc_rsp := rsp\<rparr> # pre),
        currentCycles := pc_priority r\<rparr>)"
proof -
  have mem: "memory_ok s" and ok: "procs_ok s" using kinvD [OF k] by auto
  obtain i where i: "idleProc s = Some i" "pc_pid c \<noteq> pc_pid i"
      "readyCount s = count_if isReady (pre @ r # post) + (if isReady c then 1 else 0)"
    using ok run c q(1) by (cases rule: procs_okE) (auto simp: running_def idlePid_def getpid_def)
  have count: "readyCount s > 0"
    using i(3) ready_counted [of r "pre @ r # post"] q(3) by auto
  let ?c = "c\<lparr>pc_rsp := rsp\<rparr>"
  have idle: "s\<lparr>currentProc := x, idleProc := Some i, mcount := m, procQueue := y\<rparr> =
      s\<lparr>mcount := m, currentProc := x, procQueue := y\<rparr>" for x y m
    using i(1) by (intro kernel.equality) simp_all
  define m where "m = Suc (mcount s)"
  have save: "saveCurrent rsp s = Ret
      (s\<lparr>mcount := m, currentProc := Some ?c, procQueue := Some ((pre @ r # post) @ [?c])\<rparr>)
      (s\<lparr>mcount := m, currentProc := Some ?c, procQueue := Some ((pre @ r # post) @ [?c])\<rparr>)"
    using mem c i(1,2) q(1)
    by (simp add: saveCurrent_def modProc_def enqueueProc_def kenqueue_def kmalloc_def memory_ok_def
        Let_def idle m_def)
  let ?s1 = "s\<lparr>mcount := m, currentProc := Some ?c, procQueue := Some ((pre @ r # post) @ [?c])\<rparr>"
  obtain x q' where xq: "pre @ r # post @ [?c] = x # q'" by (cases "pre @ r # post @ [?c]") auto
  have len: "length pre \<le> length q'" using arg_cong [OF xq, of length] by simp
  have deq: "dequeueCurrent ?s1 = s\<lparr>mcount := m, currentProc := Some x, procQueue := Some q'\<rparr>"
    using xq by (simp add: dequeueCurrent_def)
  let ?s2 = "s\<lparr>mcount := m, currentProc := Some x, procQueue := Some q'\<rparr>"
  have "\<exists>m'. pick (Suc (2 * length (the (procQueue ?s1)))) ?s2 =
      Ret () (?s2\<lparr>mcount := m', currentProc := Some r, procQueue := Some ((post @ [?c]) @ pre)\<rparr>)"
    using q(2,3) mem xq len by (intro pick_rotates [where x = x and q = q']) (simp_all add: memory_ok_def)
  then obtain m' where pick: "pick (Suc (2 * length (the (procQueue ?s1)))) ?s2 =
      Ret () (s\<lparr>mcount := m', currentProc := Some r, procQueue := Some (post @ ?c # pre)\<rparr>)"
    by auto
  have "scheduleTask rsp s = kbind (pick (Suc (2 * length (the (procQueue ?s1)))) ?s2) (\<lambda>_ s2. startCycles s2)"
    using q(1) c over save deq count by (simp add: scheduleTask_def del: pick.simps) auto
  then show ?thesis unfolding pick by (auto simp: startCycles_def)
qed

section \<open>Fairness\<close>

text \<open>\<open>turns rs s\<close>: the running process yields, then the next one, and so on; \<open>rs\<close> are the stack
  pointers they yield with.\<close>

primrec turns :: "u64 list \<Rightarrow> kernel \<Rightarrow> unit kres" where
  "turns [] s = Ret () s"
| "turns (rsp # rs) s = kbind (scheduleTask rsp (s\<lparr>currentCycles := 0\<rparr>)) (\<lambda>_ s'. turns rs s')"

text \<open>Nobody in the queue or running waits to be freed.\<close>

definition none_dead :: "kernel \<Rightarrow> bool" where
  "none_dead s \<longleftrightarrow> (\<forall>p \<in> set (the (procQueue s)). pc_state p \<noteq> TERMINATED) \<and>
     (\<forall>c. currentProc s = Some c \<longrightarrow> pc_state c \<noteq> TERMINATED)"

lemma waiting_iff: "waiting p \<longleftrightarrow> pc_state p \<noteq> READY \<and> pc_state p \<noteq> TERMINATED"
  by (cases "pc_state p") (auto simp: waiting_def)

lemma turn_rotates:
  assumes "kinv s" "running s" "currentProc s = Some c" "none_dead s"
    and q: "procQueue s = Some (pre @ r # post)" "\<forall>p \<in> set pre. pc_state p \<noteq> READY" "pc_state r = READY"
  shows "\<exists>s'. scheduleTask rsp (s\<lparr>currentCycles := 0\<rparr>) = Ret (pc_rsp r) s' \<and> kinv s' \<and> running s' \<and>
     currentProc s' = Some r \<and> procQueue s' = Some (post @ c\<lparr>pc_rsp := rsp\<rparr> # pre) \<and> none_dead s'"
proof -
  let ?s = "s\<lparr>currentCycles := 0\<rparr>"
  have k: "kinv ?s" "running ?s" using assms(1,2) by (simp_all add: kinv_def kinv_locked_def running_def idlePid_def getpid_def)
  have wait: "\<forall>p \<in> set pre. waiting p" using assms(4) q(1,2) by (auto simp: none_dead_def waiting_iff)
  obtain m where m: "scheduleTask rsp ?s = Ret (pc_rsp r)
     (?s\<lparr>mcount := m, currentProc := Some r, procQueue := Some (post @ c\<lparr>pc_rsp := rsp\<rparr> # pre),
        currentCycles := pc_priority r\<rparr>)"
    using rotation [OF k _ _ _ wait q(3), of c post rsp] assms(3) q(1) by auto
  let ?s' = "?s\<lparr>mcount := m, currentProc := Some r, procQueue := Some (post @ c\<lparr>pc_rsp := rsp\<rparr> # pre),
        currentCycles := pc_priority r\<rparr>"
  have "kinv ?s'" using scheduleTask_ok [OF k(1), of rsp] unfolding m by (simp add: switched_def)
  moreover have "running ?s'"
    using kinvD(2) [OF assms(1)] q(1)
    by (cases rule: procs_okE) (auto simp: running_def idlePid_def getpid_def image_iff)
  moreover have "none_dead ?s'" using assms(3,4) q(1) by (auto simp: none_dead_def)
  ultimately show ?thesis using m by auto
qed

lemma ready_gets_turn:
  "kinv s \<Longrightarrow> running s \<Longrightarrow> none_dead s \<Longrightarrow> procQueue s = Some (pre @ r # post) \<Longrightarrow> pc_state r = READY \<Longrightarrow>
     length pre < length rs \<Longrightarrow>
     \<exists>n \<le> length pre. \<exists>s'. turns (take (Suc n) rs) s = Ret () s' \<and> kinv s' \<and> currentProc s' = Some r"
proof (induction "length pre" arbitrary: s pre post rs rule: less_induct)
  case less
  obtain c where c: "currentProc s = Some c" using less.prems(2) by (auto simp: running_def)
  obtain rsp rs' where rs: "rs = rsp # rs'" using less.prems(6) by (cases rs) auto
  show ?case
  proof (cases "\<exists>p \<in> set pre. pc_state p = READY")
    case True
    then obtain pre1 r1 pre2 where pre: "pre = pre1 @ r1 # pre2" "pc_state r1 = READY"
        "\<forall>p \<in> set pre1. pc_state p \<noteq> READY"
      by (rule split_list_first_propE) blast
    obtain s1 where s1: "scheduleTask rsp (s\<lparr>currentCycles := 0\<rparr>) = Ret (pc_rsp r1) s1" "kinv s1" "running s1"
        "procQueue s1 = Some (pre2 @ r # post @ c\<lparr>pc_rsp := rsp\<rparr> # pre1)" "none_dead s1"
      using turn_rotates [OF less.prems(1,2) c less.prems(3) _ pre(3,2), of "pre2 @ r # post" rsp]
        less.prems(4) pre(1) by auto
    have "length pre2 < length pre" "length pre2 < length rs'" using pre(1) less.prems(6) rs by auto
    then obtain n s' where n: "n \<le> length pre2" "turns (take (Suc n) rs') s1 = Ret () s'" "kinv s'"
        "currentProc s' = Some r"
      using less.hyps [OF _ s1(2,3,5,4) less.prems(5)] by blast
    show ?thesis
      by (rule exI [where x = "Suc n"]) (use n s1(1) pre(1) rs in \<open>auto\<close>)
  next
    case False
    then have "\<forall>p \<in> set pre. pc_state p \<noteq> READY" by blast
    then obtain s1 where "scheduleTask rsp (s\<lparr>currentCycles := 0\<rparr>) = Ret (pc_rsp r) s1" "kinv s1" "currentProc s1 = Some r"
      using turn_rotates [OF less.prems(1,2) c less.prems(3,4) _ less.prems(5), of rsp] by blast
    then show ?thesis using rs by (intro exI [where x = 0]) simp
  qed
qed

section \<open>Properties\<close>

text \<open>C1. \<open>scheduleTask\<close> returns in every well-formed kernel state, whatever processes were killed or
  blocked before: it frees terminated processes without entering itself again, always ends its
  search, and leaves a well-formed kernel with a ready process as the current one.\<close>

theorem scheduleTask_always_picks:
  assumes "kinv s"
  shows "\<exists>r s' c. scheduleTask rsp s = Ret r s' \<and> kinv s' \<and> currentProc s' = Some c \<and> pc_state c = READY"
  using scheduleTask_ok [OF assms, of rsp] by (auto simp: kwp0_iff switched_def runs_ready_def)

theorem scheduleTask_always_picks_witness:
  "\<exists>r s' c. scheduleTask 0x42 sample = Ret r s' \<and> kinv s' \<and> currentProc s' = Some c \<and> pc_state c = READY"
  by (rule scheduleTask_always_picks [OF sample_kinv])

text \<open>C2. Round robin. When the running process has used up its cycles or is no longer ready, and the
  first ready process of the queue is \<open>r\<close>, behind processes that are blocked or have exited, then
  \<open>scheduleTask\<close> switches to \<open>r\<close> with the stack pointer saved for it and as many cycles as its
  priority. The process switched away from goes to the end of the queue with its stack pointer
  saved, the processes that were passed over behind it, and nothing else of the kernel changes.\<close>

theorem scheduleTask_round_robin:
  assumes "kinv s" "running s" "currentProc s = Some c" "pc_state c \<noteq> READY \<or> currentCycles s \<le> 0"
    "procQueue s = Some (pre @ r # post)" "\<forall>p \<in> set pre. pc_state p \<in> {BLOCKED, EXITED}" "pc_state r = READY"
  shows "\<exists>m. scheduleTask rsp s = Ret (pc_rsp r)
     (s\<lparr>mcount := m, currentProc := Some r, procQueue := Some (post @ c\<lparr>pc_rsp := rsp\<rparr> # pre),
        currentCycles := pc_priority r\<rparr>)"
  by (rule rotation [OF assms(1-5) _ assms(7)]) (use assms(6) in \<open>auto simp: waiting_def\<close>)

theorem scheduleTask_round_robin_witness:
  "\<exists>m. scheduleTask 0x42 sample = Ret 0x5000
     (sample\<lparr>mcount := m, currentProc := Some (samplePcb 5 3 0 READY 0x5000 7),
        procQueue := Some [samplePcb 6 2 0 EXITED 0x6000 8, samplePcb 2 1 0 READY 0x2000 3,
          (samplePcb 3 0 1 READY 0x3000 4)\<lparr>pc_rsp := 0x42\<rparr>, samplePcb 4 3 0 BLOCKED 0x4000 6], currentCycles := 1\<rparr>)"
  using scheduleTask_round_robin [OF sample_kinv sample_running, where rsp = "0x42"
      and c = "samplePcb 3 0 1 READY 0x3000 4" and r = "samplePcb 5 3 0 READY 0x5000 7"
      and pre = "[samplePcb 4 3 0 BLOCKED 0x4000 6]"
      and post = "[samplePcb 6 2 0 EXITED 0x6000 8, samplePcb 2 1 0 READY 0x2000 3]"]
  by (simp add: sample_def samplePcb_def BACKGROUND_PRIORITY_def)

text \<open>C3. No ready process starves. If every running process yields in turn (with any stack pointers), a
  ready process with \<open>n\<close> others before it in the queue runs after at most \<open>n + 1\<close> switches, as long
  as no process waits to be freed.\<close>

theorem ready_process_runs:
  assumes "kinv s" "running s" "none_dead s" "procQueue s = Some (pre @ r # post)" "pc_state r = READY"
    "length pre < length rs"
  shows "\<exists>n \<le> length pre. \<exists>s'. turns (take (Suc n) rs) s = Ret () s' \<and> kinv s' \<and> currentProc s' = Some r"
  by (rule ready_gets_turn [OF assms])

theorem ready_process_runs_witness:
  "\<exists>n \<le> 3. \<exists>s'. turns (take (Suc n) [0x42, 0x43, 0x44, 0x45]) sample = Ret () s' \<and> kinv s' \<and>
     currentProc s' = Some (samplePcb 2 1 0 READY 0x2000 3)"
proof -
  have "none_dead sample" by (simp add: none_dead_def sample_def samplePcb_def)
  then show ?thesis
    using ready_process_runs [OF sample_kinv sample_running, where rs = "[0x42, 0x43, 0x44, 0x45]"
        and r = "samplePcb 2 1 0 READY 0x2000 3" and post = "[]"
        and pre = "[samplePcb 4 3 0 BLOCKED 0x4000 6, samplePcb 5 3 0 READY 0x5000 7,
          samplePcb 6 2 0 EXITED 0x6000 8]"]
    by (simp add: sample_def samplePcb_def numeral_3_eq_3)
qed

end
