(* ===== verification/ProcSpec.thy ===== *)
theory ProcSpec
  imports SchedSpec
begin

text \<open>
  The life of a process: it is started with a stack the timer interrupt can return to, ends once and
  for all, and its end wakes whoever waits for it.
\<close>

section \<open>Finding a process again\<close>

lemma list_all2_woken_find:
  "list_all2 woken q q' \<Longrightarrow> List.find (\<lambda>p. pc_pid p = pid) q = Some p \<Longrightarrow>
     \<exists>p'. List.find (\<lambda>p. pc_pid p = pid) q' = Some p' \<and> woken p p'"
  by (induction rule: list_all2_induct) (auto simp: woken_pid split: if_splits)

lemma lookupProc_wakes:
  assumes "wakes s s'" "lookupProc pid s = Some p"
  shows "\<exists>p'. lookupProc pid s' = Some p' \<and> woken p p'"
proof -
  have cur: "rel_option woken (currentProc s) (currentProc s')" and
    q: "rel_option (list_all2 woken) (procQueue s) (procQueue s')"
    using assms(1) by (auto simp: wakes_def)
  from lookupProc_cases [OF assms(2)] show ?thesis
  proof
    assume "currentProc s = Some p \<and> pc_pid p = pid"
    then show ?thesis using cur by (auto simp: lookupProc_def woken_pid option_rel_Some1)
  next
    assume *: "(\<forall>c. currentProc s = Some c \<longrightarrow> pc_pid c \<noteq> pid) \<and>
      (\<exists>q. procQueue s = Some q \<and> List.find (\<lambda>p. pc_pid p = pid) q = Some p)"
    then obtain q0 q1 where "procQueue s = Some q0" "List.find (\<lambda>p. pc_pid p = pid) q0 = Some p"
      "procQueue s' = Some q1" "list_all2 woken q0 q1" using q by (auto simp: option_rel_Some1)
    moreover have "\<forall>c. currentProc s' = Some c \<longrightarrow> pc_pid c \<noteq> pid"
      using * cur by (auto simp: option_rel_Some2 woken_pid)
    ultimately show ?thesis
      using list_all2_woken_find [of q0 q1 pid p] by (auto simp: lookupProc_def split: option.splits)
  qed
qed

lemma lookupProc_modProc_other:
  assumes "w \<noteq> pid" "\<And>x. pc_pid (f x) = pc_pid x"
  shows "lookupProc w (modProc pid f s) = lookupProc w s"
proof -
  have "List.find (\<lambda>p. pc_pid p = w) (upd_first (\<lambda>p. pc_pid p = pid) f q) = List.find (\<lambda>p. pc_pid p = w) q" for q
    using assms by (intro find_upd_first_other) auto
  then have "Option.bind (map_option (upd_first (\<lambda>p. pc_pid p = pid) f) (procQueue s)) (List.find (\<lambda>p. pc_pid p = w)) =
      Option.bind (procQueue s) (List.find (\<lambda>p. pc_pid p = w))"
    by (cases "procQueue s") simp_all
  then show ?thesis
    using assms by (cases "currentProc s") (simp_all add: lookupProc_def modProc_def)
qed

lemma lookupProc_readyCount [simp]: "lookupProc w (s\<lparr>readyCount := n\<rparr>) = lookupProc w s"
  by (rule lookupProc_cong) simp_all

lemma lookupProc_setState_other:
  "w \<noteq> pid \<Longrightarrow> lookupProc w (setState pid st s) = lookupProc w s"
  by (auto simp: setState_def lookupProc_modProc_other split: option.splits)

section \<open>The end of a process\<close>

lemma changeState_final:
  assumes "kinv s" "target pid s = Some p"
    "(pc_state p = EXITED \<and> newState \<noteq> TERMINATED) \<or> pc_state p = TERMINATED"
  shows "\<exists>n. changeState pid newState s = Ret (-1) (s\<lparr>mcount := n\<rparr>)"
proof -
  obtain m where m: "(if pid = curPid s then (currentProc s, s) else getProcess pid s) = (target pid s, s\<lparr>mcount := m\<rparr>)"
    using changeState_target kinvD [OF assms(1)] by blast
  show ?thesis unfolding changeState_def changeState_with_def m using assms(2,3) by auto
qed

lemma changeState_EXITED:
  assumes "kinv s" "target pid s = Some p" "pc_state p = READY \<or> pc_state p = BLOCKED"
  shows "\<exists>n r s1. semPost (pc_semId p) (s\<lparr>mcount := n\<rparr>) = Ret r s1 \<and> kinv s1 \<and> wakes s s1 \<and>
     changeState pid EXITED s = Ret pid (setState pid EXITED s1) \<and>
     (\<exists>p'. lookupProc pid (setState pid EXITED s1) = Some p' \<and> pc_state p' = EXITED)"
proof -
  obtain m where m: "(if pid = curPid s then (currentProc s, s) else getProcess pid s) = (target pid s, s\<lparr>mcount := m\<rparr>)"
    using changeState_target kinvD [OF assms(1)] by blast
  have look: "lookupProc pid s = Some p" using target_lookup [OF assms(2)] .
  have pid: "pc_pid p = pid" using lookupProc_pid [OF look] .
  have "kinv (s\<lparr>mcount := m\<rparr>)" using assms(1) by simp
  from semPost_ok [OF this, of "pc_semId p"] obtain r s1 where s1: "semPost (pc_semId p) (s\<lparr>mcount := m\<rparr>) = Ret r s1" "kinv s1"
      "wakes s s1"
    by (auto simp: semcall_def kwp0_iff)
  obtain p1 where p1: "lookupProc pid s1 = Some p1" using lookupProc_wakes [OF s1(3) look] by auto
  have "changeState pid EXITED s = Ret pid (setState pid EXITED s1)"
    unfolding changeState_def changeState_with_def m using assms(2,3) s1(1) pid by auto
  then show ?thesis using s1 lookupProc_setState [OF p1, of EXITED]
    by (intro exI [of _ m] exI [of _ r] exI [of _ s1] conjI exI [of _ "p1\<lparr>pc_state := EXITED\<rparr>"]) simp_all
qed

section \<open>The start of a process\<close>

lemma cpyArgs_copies:
  "memory_ok s \<Longrightarrow> dst \<noteq> 0 \<Longrightarrow>
     \<exists>m. cpyArgs (length from) dst from acc s = Ret (Some (acc @ from)) (s\<lparr>mcount := m\<rparr>)"
proof (induction "from" arbitrary: acc s)
  case Nil
  then show ?case by (auto intro!: exI [of _ "mcount s"])
next
  case (Cons a rest)
  have "memory_ok (s\<lparr>mcount := Suc (mcount s)\<rparr>)" using Cons.prems(1) by simp
  from Cons.IH [OF this Cons.prems(2), of "acc @ [a]"] obtain m where
    "cpyArgs (length rest) dst rest (acc @ [a]) (s\<lparr>mcount := Suc (mcount s)\<rparr>) =
       Ret (Some (acc @ a # rest)) (s\<lparr>mcount := m\<rparr>)" by auto
  then show ?case using Cons.prems mallocs_nz [OF Cons.prems(1)]
    by (simp add: kmalloc_val [OF Cons.prems(1)]) blast
qed

lemma launch_shape:
  assumes "memory_ok s" "procQueue s = Some q" "pc_pid p \<notin> pc_pid ` set q"
    "\<forall>c. currentProc s = Some c \<longrightarrow> pc_pid c \<noteq> pc_pid p"
  shows "\<exists>pp. procQueue (launch process argc args fg p s) = Some (q @ [p\<lparr>pc_ppid := pp\<rparr>]) \<and>
     frames (launch process argc args fg p s) (pc_rbp p - FRAME_SIZE) =
       Some (initialFrame (wrapperAddr s) process argc args (pc_rbp p - FRAME_SIZE))"
proof -
  have same: "p\<lparr>pc_ppid := pc_ppid p\<rparr> = p" by simp
  have "\<forall>x \<in> set q. pc_pid x \<noteq> pc_pid p" using assms(3) by (metis imageI)
  then have "upd_first (\<lambda>x. pc_pid x = pc_pid p) f (q @ [p]) = q @ [f p]" for f
    by (simp add: upd_first_append2)
  then show ?thesis
    using assms(1,2,4) same
    by (auto simp: launch_def initializeStack_def enqueueProc_def kenqueue_def kmalloc_def memory_ok_def
        modProc_def Let_def intro: exI [of _ "pc_ppid p"] exI [of _ "initPid s"])
qed

lemma startTask_launches:
  assumes "kinv s" "pipes_free s" "process \<noteq> 0" "fg \<le> 1" "argv \<noteq> []" "length (hd argv) < 30"
    "fd \<noteq> None \<or> currentProc s \<noteq> None"
  shows "\<exists>p s1 args n. startTask process (int (length argv)) argv fg fd s =
       Ret (pidCounter s) (launch process (int (length argv)) args fg
          (p\<lparr>pc_argc := int (length argv), pc_argv := argv\<rparr>) (s1\<lparr>mcount := n\<rparr>)) \<and>
     kinv s1 \<and> wakes (s\<lparr>pidCounter := pidCounter s + 1\<rparr>) s1 \<and> pc_pid p = pidCounter s \<and>
     pc_state p = READY \<and> pc_rsp p = pc_rbp p - FRAME_SIZE"
proof -
  define fd' where "fd' = (case fd of Some f \<Rightarrow> f | None \<Rightarrow> (pc_fd0 (the (currentProc s)), pc_fd1 (the (currentProc s))))"
  obtain p s1 where p: "initializeBlock (hd argv) fg fd' s = Ret (Some p) s1" "kinv s1"
      "wakes (s\<lparr>pidCounter := pidCounter s + 1\<rparr>) s1" "pc_pid p = pidCounter s" "pc_state p = READY"
      "pc_rsp p = pc_rbp p - FRAME_SIZE"
    using initializeBlock_succeeds [OF assms(1,2,4,6), of fd'] by auto
  have mem: "memory_ok s1" using kinvD(1) [OF p(2)] .
  let ?s2 = "s1\<lparr>mcount := Suc (mcount s1)\<rparr>"
  have args: "kmalloc (nat (8 * int (length argv))) s1 = (mallocs s1 (mcount s1), ?s2)"
    using assms(5) by (intro kmalloc_val [OF mem]) simp
  obtain n where n: "cpyArgs (length argv) (mallocs s1 (mcount s1)) argv [] ?s2 = Ret (Some argv) (s1\<lparr>mcount := n\<rparr>)"
    using cpyArgs_copies [of ?s2 "mallocs s1 (mcount s1)" argv "[]"] mem mallocs_nz [OF mem] by auto
  have "startTask process (int (length argv)) argv fg fd s =
      kbind (initializeBlock (hd argv) fg fd' s) (\<lambda>r s1. startTask_args process (int (length argv)) argv fg r s1)"
    using assms(3,5,7) unfolding startTask_def fd'_def by (cases argv; cases fd; cases "currentProc s") simp_all
  then show ?thesis
    using p n args by (simp add: startTask_args_def) blast
qed

section \<open>Properties\<close>

text \<open>A process that has exited can only become terminated, a terminated one nothing any more:
  \<open>changeState\<close> refuses with -1 and leaves the kernel as it was (but for the iterator it allocated).\<close>

theorem changeState_final_states:
  assumes "kinv s" "target pid s = Some p"
    "(pc_state p = EXITED \<and> newState \<noteq> TERMINATED) \<or> pc_state p = TERMINATED"
  shows "\<exists>n. changeState pid newState s = Ret (-1) (s\<lparr>mcount := n\<rparr>)"
  by (rule changeState_final [OF assms])

theorem changeState_final_states_witness:
  "\<exists>n. changeState 6 READY sample = Ret (-1) (sample\<lparr>mcount := n\<rparr>)"
  by (rule changeState_final_states [OF sample_kinv, where p = "samplePcb 6 2 0 EXITED 0x6000 8"])
     (simp_all add: target_def lookupProc_def sample_def samplePcb_def)

text \<open>C8. Killing another process that is ready or blocked returns its pid and makes it exited; when somebody
  waits for it (a process \<open>w\<close> blocked on its semaphore, the first that can be resumed), that process is
  ready afterwards. The kernel stays well formed and the caller goes on running.\<close>

theorem killTask_wakes_waiter:
  assumes "mine me s" "pid \<noteq> me" "pid \<noteq> userlandPid s" "pid \<noteq> initPid s" "pid \<noteq> -1"
    "lookupProc pid s = Some p" "pc_state p = READY \<or> pc_state p = BLOCKED"
    "lookupSem (pc_semId p) s = Some m" "s_blocked m = Some (pre @ w # rest)"
    "\<forall>x \<in> set pre. \<not> resumable s x" "resumable s w" "w \<noteq> pid" "w \<noteq> -1"
  shows "\<exists>s' p' pw. killTask pid s = Ret pid s' \<and> mine me s' \<and>
     lookupProc pid s' = Some p' \<and> pc_state p' = EXITED \<and>
     lookupProc w s' = Some pw \<and> pc_state pw = READY"
proof -
  have k: "kinv s" using assms(1) by (simp add: mine_def)
  have "currentProc s \<noteq> None" using assms(1) by (simp add: mine_def running_def)
  then have tgt: "target pid s = Some p" using assms(6) by (simp add: target_def)
  obtain n r s1 p' where s1: "semPost (pc_semId p) (s\<lparr>mcount := n\<rparr>) = Ret r s1" "wakes s s1"
      "changeState pid EXITED s = Ret pid (setState pid EXITED s1)"
      "lookupProc pid (setState pid EXITED s1) = Some p'" "pc_state p' = EXITED"
    using changeState_EXITED [OF k tgt assms(7)] by blast
  obtain s2 pw where "semPost (pc_semId p) (s\<lparr>mcount := n\<rparr>) = Ret 0 s2" "lookupProc w s2 = Some pw" "pc_state pw = READY"
    using semPost_wakes [of "s\<lparr>mcount := n\<rparr>" "pc_semId p" m pre w rest] k assms(8-11,13) by auto
  then have w: "lookupProc w (setState pid EXITED s1) = Some pw" "pc_state pw = READY"
    using s1(1) assms(12) by (simp_all add: lookupProc_setState_other)
  have me: "mine me (setState pid EXITED s1)"
    using changeState_mine [OF assms(1), of EXITED pid] s1(3) by simp
  then have "curPid (setState pid EXITED s1) = me"
    by (auto simp: mine_def running_def getpid_def curPid_def)
  then have "killTask pid s = Ret pid (setState pid EXITED s1)"
    using s1(3) assms(2-5) by (simp add: killTask_def)
  then show ?thesis using me s1(4,5) w by blast
qed

definition sampleWaited :: kernel where
  "sampleWaited = sample\<lparr>semQueue := Some [sampleSem 0 1 [] [], sampleSem 7 0 [2, 4] []], initPid := 2\<rparr>"

lemma sampleWaited_mine: "mine 3 sampleWaited"
proof -
  have "kinv sampleWaited"
    using sample_kinv by (simp add: sampleWaited_def kinv_def kinv_locked_def sems_inv_def sem_ok_def sampleSem_def)
       (simp add: sample_def)
  moreover have "running sampleWaited" "getpid sampleWaited = 3"
    by (simp_all add: running_def getpid_def idlePid_def sampleWaited_def sample_def samplePcb_def)
  ultimately show ?thesis by (simp add: mine_def)
qed

theorem killTask_wakes_waiter_witness:
  "\<exists>s' p' pw. killTask 5 sampleWaited = Ret 5 s' \<and> mine 3 s' \<and>
     lookupProc 5 s' = Some p' \<and> pc_state p' = EXITED \<and>
     lookupProc 2 s' = Some pw \<and> pc_state pw = READY"
  by (rule killTask_wakes_waiter [OF sampleWaited_mine, where p = "samplePcb 5 3 0 READY 0x5000 7"
        and m = "sampleSem 7 0 [2, 4] []" and pre = "[]" and rest = "[4]"])
     (simp_all add: resumable_def target_def lookupProc_def lookupSem_def sampleWaited_def sample_def
        samplePcb_def sampleSem_def)



text \<open>\<open>nice\<close> cuts the priority off at 0 and at 20 and sets it for a process that is not running; for the
  running process itself, which is not in the queue, it returns -1 and changes nothing.\<close>

theorem nice_sets_priority:
  assumes "mine me s" "lookupProc pid s = Some p" "pid \<noteq> me"
  shows "\<exists>s' n. nice pid newPriority s = (0, s') \<and> mine me s' \<and>
     lookupProc pid s' = Some (p\<lparr>pc_priority := max 0 (min 20 newPriority)\<rparr>) \<and>
     nice me newPriority s = (-1, s\<lparr>mcount := n\<rparr>)"
proof -
  have k: "kinv s" using assms(1) by (simp add: mine_def)
  obtain q c where q: "procQueue s = Some q" "currentProc s = Some c" "pc_pid c = me" "me \<notin> pc_pid ` set q"
    using kinvD(2) [OF k] assms(1) by (cases rule: procs_okE) (auto simp: mine_def running_def getpid_def idlePid_def)
  have find: "List.find (\<lambda>x. pc_pid x = pid) q = Some p"
    using assms(2,3) q by (simp add: lookupProc_def)
  have none: "List.find (\<lambda>x. me = pc_pid x) q = None" using q(4) by (auto simp: find_None_iff)
  have clamp: "(let n1 = (if newPriority < 0 then 0 else newPriority) in if n1 > MAX_PRIO then MAX_PRIO else n1) =
      max 0 (min 20 newPriority)" by (simp add: MAX_PRIO_def Let_def)
  let ?s' = "s\<lparr>mcount := Suc (mcount s), procQueue := Some (upd_first (\<lambda>p. pc_pid p = pid)
       (pc_priority_update (\<lambda>_. max 0 (min 20 newPriority))) q)\<rparr>"
  have get: "getProcess x s = (List.find (\<lambda>p. x = pc_pid p) q, s\<lparr>mcount := Suc (mcount s)\<rparr>)" for x
    using getProcess_ok [OF kinvD(1) [OF k] q(1)] by (simp add: getProcess_def kfind_ok [OF kinvD(1) [OF k]] q(1))
  have sym: "(\<lambda>x. pid = pc_pid x) = (\<lambda>x. pc_pid x = pid)" by auto
  have nice: "nice pid newPriority s = (0, ?s')"
    unfolding nice_def clamp [unfolded Let_def] Let_def get sym find using q(1) by simp
  moreover have "nice me newPriority s = (-1, s\<lparr>mcount := Suc (mcount s)\<rparr>)"
    unfolding nice_def Let_def get none by simp
  moreover have "lookupProc pid ?s' = Some (p\<lparr>pc_priority := max 0 (min 20 newPriority)\<rparr>)"
    using find q(2,3) assms(3) by (simp add: lookupProc_def find_upd_first)
  moreover have "mine me ?s'" using nice_mine [OF assms(1), of pid newPriority] nice by simp
  ultimately show ?thesis by blast
qed

theorem nice_sets_priority_witness:
  "\<exists>s' n. nice 5 99 sample = (0, s') \<and> mine 3 s' \<and>
     lookupProc 5 s' = Some ((samplePcb 5 3 0 READY 0x5000 7)\<lparr>pc_priority := 20\<rparr>) \<and>
     nice 3 99 sample = (-1, sample\<lparr>mcount := n\<rparr>)"
  using nice_sets_priority [OF sample_mine, of 5 "samplePcb 5 3 0 READY 0x5000 7" 99]
  by (simp add: lookupProc_def sample_def samplePcb_def)

end
