(* ===== verification/SyncSpec.thy ===== *)
theory SyncSpec
  imports Sample
begin

text \<open>
  What semaphores and pipes promise: a semaphore hands its units to the waiting processes in their
  order of arrival, and a pipe whose semaphores count its free places and its bytes is a bounded
  first-in first-out queue of bytes.
\<close>

section \<open>Semaphores without waiting processes\<close>

lemma semPost_unblocked:
  assumes "kinv s" "lookupSem i s = Some m" "s_blocked m = Some []"
  shows "\<exists>s'. semPost i s = Ret 0 s' \<and> kinv s' \<and> same_pipes s s' \<and>
     (\<forall>j. lookupSem j s' = (if j = i then Some (m\<lparr>s_value := s_value m + 1\<rparr>) else lookupSem j s))"
proof -
  note sp = semPost_found [OF assms]
  let ?s2 = "modSem i (s_lock_update (\<lambda>_. 1)) (s\<lparr>mcount := Suc (mcount s)\<rparr>)"
  let ?s' = "release i (modSem i (s_value_update (\<lambda>v. v + 1)) ?s2)"
  have post: "semPost i s = Ret 0 ?s'" using sp(1) by simp
  have "kinv ?s' \<and> same_pipes s ?s'"
    using semPost_ok [OF assms(1), of i] post by (simp add: semcall_def)
  moreover have "s_lock m = 0" using lookupSem_ok(2) [OF kinvD(4) [OF assms(1)] assms(2)] by (simp add: sem_ok_def)
  then have "lookupSem j ?s' = (if j = i then Some (m\<lparr>s_value := s_value m + 1\<rparr>) else lookupSem j s)" for j
    using assms(2) by (auto simp: release_def lookupSem_modSem xchg_def)
  ultimately show ?thesis using post by blast
qed

section \<open>The ring buffer\<close>

text \<open>The bytes between the read and the write index, in the order in which they are read.\<close>

definition pipe_bytes :: "nat \<Rightarrow> pipe \<Rightarrow> u8 list" where
  "pipe_bytes n p = map (\<lambda>k. pi_buffer p ! nat ((pi_readIndex p + int k) mod PIPE_BUFFER_SIZE)) [0 ..< n]"

lemma ring_distinct:
  assumes "k < n" "n < 1024"
  shows "(r + int k) mod 1024 \<noteq> (r + int n) mod (1024 :: int)"
proof
  assume "(r + int k) mod 1024 = (r + int n) mod 1024"
  then have "1024 dvd (r + int n) - (r + int k)" by (metis mod_eq_dvd_iff)
  then have "1024 dvd int n - int k" by simp
  then have "1024 \<le> int n - int k" by (rule zdvd_imp_le) (use assms(1) in simp)
  then show False using assms by simp
qed

lemma pipe_bytes_write:
  assumes "pipe_ok p" "n < 1024" "pi_writeIndex p = (pi_readIndex p + int n) mod PIPE_BUFFER_SIZE"
  shows "pipe_bytes (Suc n) (p\<lparr>pi_buffer := (pi_buffer p)[nat (pi_writeIndex p) := c],
       pi_writeIndex := (pi_writeIndex p + 1) mod PIPE_BUFFER_SIZE\<rparr>) = pipe_bytes n p @ [c]"
proof -
  have len: "length (pi_buffer p) = 1024" using assms(1) by (simp add: pipe_ok_def)
  have pos: "0 \<le> (x :: int) mod 1024" "x mod 1024 < 1024" for x by simp_all
  have "nat ((pi_readIndex p + int n) mod 1024) < 1024"
    using pos [of "pi_readIndex p + int n"] by linarith
  moreover have "nat ((pi_readIndex p + int n) mod 1024) \<noteq> nat ((pi_readIndex p + int k) mod 1024)" if "k < n" for k
    using ring_distinct [OF that assms(2), of "pi_readIndex p"] pos(1) by (metis eq_nat_nat_iff)
  ultimately show ?thesis
    using len by (simp add: pipe_bytes_def assms(3) PIPE_BUFFER_SIZE_def)
qed

lemma pipe_bytes_read:
  assumes "pipe_ok p"
  shows "pipe_bytes (Suc n) p = (pi_buffer p ! nat (pi_readIndex p)) #
     pipe_bytes n (p\<lparr>pi_readIndex := (pi_readIndex p + 1) mod PIPE_BUFFER_SIZE\<rparr>)"
proof -
  have "((r + 1) mod 1024 + int k) mod 1024 = (r + int (Suc k)) mod 1024" for r :: int and k
    by (simp add: mod_simps algebra_simps)
  moreover have "pi_readIndex p mod 1024 = pi_readIndex p"
    using assms by (simp add: pipe_ok_def PIPE_BUFFER_SIZE_def)
  ultimately show ?thesis
    by (simp add: pipe_bytes_def PIPE_BUFFER_SIZE_def upt_conv_Cons map_Suc_upt [symmetric] o_def del: upt_Suc)
qed

text \<open>The abstract state of a pipe nobody is blocked on: the bytes it holds. Its semaphores count
  them and the places that are left.\<close>

definition pipe_holds :: "int \<Rightarrow> u8 list \<Rightarrow> kernel \<Rightarrow> bool" where
  "pipe_holds i xs s \<longleftrightarrow> kinv s \<and>
     (\<exists>p rd wr. lookupPipe i s = Some p \<and> pi_readSemId p \<noteq> pi_writeSemId p \<and>
        lookupSem (pi_readSemId p) s = Some rd \<and> s_blocked rd = Some [] \<and> s_value rd = int (length xs) \<and>
        lookupSem (pi_writeSemId p) s = Some wr \<and> s_blocked wr = Some [] \<and>
        s_value wr = PIPE_BUFFER_SIZE - int (length xs) \<and>
        pi_writeIndex p = (pi_readIndex p + int (length xs)) mod PIPE_BUFFER_SIZE \<and>
        pipe_bytes (length xs) p = xs)"

lemma lookupPipe_modPipe:
  assumes "lookupPipe i s = Some p" "\<And>p. pi_id (f p) = pi_id p"
  shows "lookupPipe i (modPipe i f s) = Some (f p)"
  using assms by (cases "pipeQueue s") (auto simp: lookupPipe_def modPipe_def find_upd_first)

lemma lookupSem_modPipe [simp]: "lookupSem j (modPipe i f s) = lookupSem j s"
  by (simp add: lookupSem_def modPipe_def)

lemma same_pipes_lookup: "same_pipes s s' \<Longrightarrow> lookupPipe i s' = lookupPipe i s"
  by (simp add: same_pipes_def lookupPipe_def)

text \<open>One byte in: the free place is taken, the byte stored, and its arrival announced.\<close>

lemma writeToPipe_holds:
  assumes "pipe_holds i xs s" "length xs < 1024" "lookupPipe i s = Some p"
  shows "\<exists>s'. writeToPipe_with blk p c s = Ret () s' \<and> pipe_holds i (xs @ [c]) s'"
proof -
  obtain rd wr where k: "kinv s" and ne: "pi_readSemId p \<noteq> pi_writeSemId p"
      and rd: "lookupSem (pi_readSemId p) s = Some rd" "s_blocked rd = Some []" "s_value rd = int (length xs)"
      and wr: "lookupSem (pi_writeSemId p) s = Some wr" "s_blocked wr = Some []"
        "s_value wr = PIPE_BUFFER_SIZE - int (length xs)"
      and ix: "pi_writeIndex p = (pi_readIndex p + int (length xs)) mod PIPE_BUFFER_SIZE"
      and bytes: "pipe_bytes (length xs) p = xs"
    using assms(1,3) by (auto simp: pipe_holds_def)
  have id: "pi_id p = i" and ok: "pipe_ok p" using lookupPipe_Some [OF k assms(3)] by auto
  obtain s1 where s1: "semWait_with blk (pi_writeSemId p) s = Ret 0 s1" "kinv s1" "same_pipes s s1"
      "\<forall>j. lookupSem j s1 = (if j = pi_writeSemId p then Some (wr\<lparr>s_value := s_value wr - 1\<rparr>) else lookupSem j s)"
    using semWait_takes [OF k wr(1), of blk] wr(3) assms(2) by (auto simp: PIPE_BUFFER_SIZE_def)
  let ?f = "\<lambda>p. p\<lparr>pi_buffer := (pi_buffer p)[nat (pi_writeIndex p) := c],
                 pi_writeIndex := (pi_writeIndex p + 1) mod PIPE_BUFFER_SIZE\<rparr>"
  let ?s2 = "modPipe i ?f s1"
  have p1: "lookupPipe i s1 = Some p" using same_pipes_lookup [OF s1(3)] assms(3) by simp
  have k2: "kinv ?s2" by (rule kinv_modPipe [OF s1(2)]) (auto intro: pipe_ok_write)
  have rd2: "lookupSem (pi_readSemId p) ?s2 = Some rd" using s1(4) rd(1) ne by simp
  obtain s3 where s3: "semPost (pi_readSemId p) ?s2 = Ret 0 s3" "kinv s3" "same_pipes ?s2 s3"
      "\<forall>j. lookupSem j s3 = (if j = pi_readSemId p then Some (rd\<lparr>s_value := s_value rd + 1\<rparr>) else lookupSem j ?s2)"
    using semPost_unblocked [OF k2 rd2 rd(2)] by blast
  have "lookupPipe i s3 = Some (?f p)"
    using same_pipes_lookup [OF s3(3)] lookupPipe_modPipe [OF p1, of ?f] by simp
  moreover have "(pi_writeIndex p + 1) mod PIPE_BUFFER_SIZE =
      (pi_readIndex p + int (length (xs @ [c]))) mod PIPE_BUFFER_SIZE"
    by (simp add: ix mod_simps algebra_simps)
  moreover have "pipe_bytes (length (xs @ [c])) (?f p) = xs @ [c]"
    using pipe_bytes_write [OF ok assms(2) ix, of c] bytes by simp
  ultimately have "pipe_holds i (xs @ [c]) s3"
    using s3(2,4) s1(4) rd wr ne by (simp add: pipe_holds_def)
  moreover have "writeToPipe_with blk p c s = Ret () s3"
    using s1(1) p1 s3(1) id by (simp add: writeToPipe_with_def)
  ultimately show ?thesis by blast
qed

text \<open>One byte out.\<close>

lemma pipe_holds_cong:
  "pipe_holds i xs s \<Longrightarrow> kinv s' \<Longrightarrow> lookupPipe i s' = lookupPipe i s \<Longrightarrow> semQueue s' = semQueue s \<Longrightarrow>
     pipe_holds i xs s'"
  by (simp add: pipe_holds_def lookupSem_def)

lemma getPipe_holds:
  assumes "pipe_holds i xs s"
  shows "\<exists>p s'. getPipe i s = (Some p, s') \<and> lookupPipe i s' = Some p \<and> pipe_holds i xs s'"
proof -
  have k: "kinv s" and "lookupPipe i s \<noteq> None" using assms by (auto simp: pipe_holds_def)
  then obtain p where "lookupPipe i s = Some p" by auto
  then show ?thesis using getPipe_ok [OF k, of i] pipe_holds_cong [OF assms] by auto
qed

lemma pipeRead_holds:
  assumes "pipe_holds i (x # xs) s"
  shows "\<exists>s'. pipeRead_with blk i s = Ret (sint x) s' \<and> pipe_holds i xs s'"
proof -
  obtain p s0 where s0: "getPipe i s = (Some p, s0)" "lookupPipe i s0 = Some p" "pipe_holds i (x # xs) s0"
    using getPipe_holds [OF assms] by blast
  obtain rd wr where k: "kinv s0" and ne: "pi_readSemId p \<noteq> pi_writeSemId p"
      and rd: "lookupSem (pi_readSemId p) s0 = Some rd" "s_blocked rd = Some []" "s_value rd = int (length (x # xs))"
      and wr: "lookupSem (pi_writeSemId p) s0 = Some wr" "s_blocked wr = Some []"
        "s_value wr = PIPE_BUFFER_SIZE - int (length (x # xs))"
      and ix: "pi_writeIndex p = (pi_readIndex p + int (length (x # xs))) mod PIPE_BUFFER_SIZE"
      and bytes: "pipe_bytes (length (x # xs)) p = x # xs"
    using s0(2,3) by (auto simp: pipe_holds_def)
  have id: "pi_id p = i" and ok: "pipe_ok p" using lookupPipe_Some [OF k s0(2)] by auto
  obtain s1 where s1: "semWait_with blk (pi_readSemId p) s0 = Ret 0 s1" "kinv s1" "same_pipes s0 s1"
      "\<forall>j. lookupSem j s1 = (if j = pi_readSemId p then Some (rd\<lparr>s_value := s_value rd - 1\<rparr>) else lookupSem j s0)"
    using semWait_takes [OF k rd(1), of blk] rd(3) by auto
  let ?f = "pi_readIndex_update (\<lambda>r. (r + 1) mod PIPE_BUFFER_SIZE)"
  let ?s2 = "modPipe i ?f s1"
  have p1: "lookupPipe i s1 = Some p" using same_pipes_lookup [OF s1(3)] s0(2) by simp
  have k2: "kinv ?s2" by (rule kinv_modPipe [OF s1(2)]) (auto simp: pipe_ok_def PIPE_BUFFER_SIZE_def)
  have wr2: "lookupSem (pi_writeSemId p) ?s2 = Some wr" using s1(4) wr(1) ne by simp
  obtain s3 where s3: "semPost (pi_writeSemId p) ?s2 = Ret 0 s3" "kinv s3" "same_pipes ?s2 s3"
      "\<forall>j. lookupSem j s3 = (if j = pi_writeSemId p then Some (wr\<lparr>s_value := s_value wr + 1\<rparr>) else lookupSem j ?s2)"
    using semPost_unblocked [OF k2 wr2 wr(2)] by blast
  have pf: "lookupPipe i s3 = Some (?f p)"
    using same_pipes_lookup [OF s3(3)] lookupPipe_modPipe [OF p1, of ?f] by simp
  have feq: "?f p = p\<lparr>pi_readIndex := (pi_readIndex p + 1) mod PIPE_BUFFER_SIZE\<rparr>" by (cases p) simp
  have hd_tl: "pi_buffer p ! nat (pi_readIndex p) = x" "pipe_bytes (length xs) (?f p) = xs"
    unfolding feq using bytes pipe_bytes_read [OF ok, of "length xs"] by simp_all
  have "pi_writeIndex p = ((pi_readIndex p + 1) mod PIPE_BUFFER_SIZE + int (length xs)) mod PIPE_BUFFER_SIZE"
    by (simp add: ix mod_simps algebra_simps)
  then have "pipe_holds i xs s3"
    using pf hd_tl(2) s3(2,4) s1(4) rd wr ne by (simp add: pipe_holds_def)
  moreover have "pipeRead_with blk i s = Ret (sint x) s3"
    using s0(1) s1(1) p1 s3(1) hd_tl(1) by (simp add: pipeRead_with_def)
  ultimately show ?thesis by blast
qed

lemma pipeWrite_loop_holds:
  "pipe_holds i xs s \<Longrightarrow> length xs + length cs \<le> 1024 \<Longrightarrow>
     \<exists>s'. pipeWrite_loop blk i cs s = Ret 0 s' \<and> pipe_holds i (xs @ cs) s'"
proof (induction cs arbitrary: xs s)
  case Nil
  then show ?case by simp
next
  case (Cons c cs)
  obtain p where p: "lookupPipe i s = Some p" using Cons.prems(1) by (auto simp: pipe_holds_def)
  obtain s1 where "writeToPipe_with blk p c s = Ret () s1" "pipe_holds i (xs @ [c]) s1"
    using writeToPipe_holds [OF Cons.prems(1) _ p, of blk c] Cons.prems(2) by auto
  then show ?case using Cons.IH [of "xs @ [c]" s1] Cons.prems(2) p by auto
qed

lemma pipeWrite_holds:
  assumes "pipe_holds i xs s" "length xs + length cs \<le> 1024"
  shows "\<exists>s'. pipeWrite_with blk i cs s = Ret 0 s' \<and> pipe_holds i (xs @ cs) s'"
  using getPipe_holds [OF assms(1)] pipeWrite_loop_holds [OF _ assms(2)]
  by (fastforce simp: pipeWrite_with_def)

text \<open>Reading a number of bytes, one call each.\<close>

primrec pipeReads :: "nat \<Rightarrow> int \<Rightarrow> kernel \<Rightarrow> int list kres" where
  "pipeReads 0 i s = Ret [] s"
| "pipeReads (Suc n) i s = kbind (pipeRead i s) (\<lambda>c s1. kbind (pipeReads n i s1) (\<lambda>cs s2. Ret (c # cs) s2))"

lemma pipeReads_holds:
  "pipe_holds i (cs @ xs) s \<Longrightarrow>
     \<exists>s'. pipeReads (length cs) i s = Ret (map sint cs) s' \<and> pipe_holds i xs s'"
proof (induction cs arbitrary: s)
  case Nil
  then show ?case by simp
next
  case (Cons c cs)
  then obtain s1 where "pipeRead i s = Ret (sint c) s1" "pipe_holds i (cs @ xs) s1"
    using pipeRead_holds [of i c "cs @ xs" s blockTask] by (auto simp: pipeRead_def)
  moreover from Cons.IH [OF this(2)] obtain s' where "pipeReads (length cs) i s1 = Ret (map sint cs) s'" "pipe_holds i xs s'"
    by blast
  ultimately show ?case by auto
qed

section \<open>Properties\<close>

text \<open>C4. A semaphore resumes in the order of arrival: \<open>semPost\<close> drops the pids of processes that are gone or
  over, makes the first process that can still run ready, and leaves the ones behind it waiting; the
  value does not change, so the unit is handed over and cannot be taken by a third process.\<close>

theorem semPost_wakes_first:
  assumes "kinv s" "lookupSem i s = Some m" "s_blocked m = Some (pre @ pid # rest)"
    "\<forall>x \<in> set pre. \<not> resumable s x" "resumable s pid" "pid \<noteq> -1"
  shows "\<exists>s' p. semPost i s = Ret 0 s' \<and> kinv s' \<and> lookupProc pid s' = Some p \<and> pc_state p = READY \<and>
     lookupSem i s' = Some (m\<lparr>s_blocked := Some rest\<rparr>)"
  using semPost_wakes [OF assms] semPost_ok [OF assms(1), of i] by (auto simp: semcall_def)

theorem semPost_wakes_first_witness:
  "\<exists>s' p. semPost 5 sample = Ret 0 s' \<and> kinv s' \<and> lookupProc 4 s' = Some p \<and> pc_state p = READY \<and>
     lookupSem 5 s' = Some ((sampleSem 5 0 [4] [115])\<lparr>s_blocked := Some []\<rparr>)"
proof -
  have "lookupSem 5 sample = Some (sampleSem 5 0 [4] [115])" "s_blocked (sampleSem 5 0 [4] [115]) = Some ([] @ 4 # [])"
    by (simp_all add: lookupSem_def sample_def sampleSem_def)
  moreover have "resumable sample 4"
    by (simp add: resumable_def target_def lookupProc_def sample_def samplePcb_def)
  ultimately show ?thesis using semPost_wakes_first [OF sample_kinv, of 5 "sampleSem 5 0 [4] [115]" "[]" 4 "[]"] by simp
qed

text \<open>When nobody who is recorded as waiting can be resumed, \<open>semPost\<close> counts up by one, forgets them, and
  touches no process.\<close>

theorem semPost_counts_up:
  assumes "kinv s" "lookupSem i s = Some m" "s_blocked m = Some b" "\<forall>x \<in> set b. \<not> resumable s x"
  shows "\<exists>s'. semPost i s = Ret 0 s' \<and> kinv s' \<and> procQueue s' = procQueue s \<and> currentProc s' = currentProc s \<and>
     lookupSem i s' = Some (m\<lparr>s_blocked := Some [], s_value := s_value m + 1\<rparr>)"
  using semPost_counts [OF assms] semPost_ok [OF assms(1), of i] by (auto simp: semcall_def)

theorem semPost_counts_up_witness:
  "\<exists>s'. semPost 0 sample = Ret 0 s' \<and> kinv s' \<and> procQueue s' = procQueue sample \<and>
     currentProc s' = currentProc sample \<and>
     lookupSem 0 s' = Some ((sampleSem 0 1 [] [])\<lparr>s_blocked := Some [], s_value := s_value (sampleSem 0 1 [] []) + 1\<rparr>)"
proof -
  have "lookupSem 0 sample = Some (sampleSem 0 1 [] [])" "s_blocked (sampleSem 0 1 [] []) = Some []"
    by (simp_all add: lookupSem_def sample_def sampleSem_def)
  from semPost_counts_up [OF sample_kinv this] show ?thesis by simp
qed

text \<open>C10. \<open>semWait\<close> takes one unit of a semaphore that has one, at once and without touching a process or
  another semaphore; of a semaphore without a unit it takes none: the caller becomes the last of
  those that wait, and gives up the processor.\<close>

theorem semWait_takes_or_blocks:
  assumes "kinv s" "lookupSem i s = Some m" "s_blocked m = Some b"
  shows "\<exists>s'. kinv s' \<and> procQueue s' = procQueue s \<and> currentProc s' = currentProc s \<and>
     (if s_value m > 0
      then semWait i s = Ret 0 s' \<and>
        (\<forall>j. lookupSem j s' = (if j = i then Some (m\<lparr>s_value := s_value m - 1\<rparr>) else lookupSem j s))
      else semWait i s = kbind (blockTask (getpid s) s') (\<lambda>_ s. Ret 0 s) \<and>
        (\<forall>j. lookupSem j s' = (if j = i then Some (m\<lparr>s_blocked := Some (b @ [getpid s])\<rparr>) else lookupSem j s)))"
  using semWait_takes [OF assms(1,2), of blockTask] semWait_blocks [OF assms(1,2) _ assms(3), of blockTask]
  by (cases "s_value m > 0") (fastforce simp: semWait_def)+

theorem semWait_takes_or_blocks_witness:
  "\<exists>s'. kinv s' \<and> procQueue s' = procQueue sample \<and> currentProc s' = currentProc sample \<and>
     semWait 5 sample = kbind (blockTask 3 s') (\<lambda>_ s. Ret 0 s) \<and>
     lookupSem 5 s' = Some ((sampleSem 5 0 [4] [115])\<lparr>s_blocked := Some [4, 3]\<rparr>)"
proof -
  have "lookupSem 5 sample = Some (sampleSem 5 0 [4] [115])" "s_blocked (sampleSem 5 0 [4] [115]) = Some [4]"
    by (simp_all add: lookupSem_def sample_def sampleSem_def)
  from semWait_takes_or_blocks [OF sample_kinv this] obtain s' where
    "kinv s'" "procQueue s' = procQueue sample" "currentProc s' = currentProc sample"
    "semWait 5 sample = kbind (blockTask (getpid sample) s') (\<lambda>_ s. Ret 0 s)"
    "lookupSem 5 s' = Some ((sampleSem 5 0 [4] [115])\<lparr>s_blocked := Some ([4] @ [getpid sample])\<rparr>)"
    by (auto simp: sampleSem_def)
  moreover have "getpid sample = 3" using sample_mine by (simp add: mine_def)
  ultimately show ?thesis by auto
qed

text \<open>C5. A pipe is a first-in first-out queue of bytes: writing a string that fits appends it to what the
  pipe holds, whatever the position of the indices in the ring; reading as many bytes as the string
  has returns, after the older bytes, exactly these bytes (as signed \<open>char\<close>s) in their order. Neither
  side blocks.\<close>

theorem pipe_is_fifo:
  assumes "pipe_holds i xs s" "length xs + length cs \<le> 1024"
  shows "\<exists>s1 s2. pipeWrite i cs s = Ret 0 s1 \<and> pipe_holds i (xs @ cs) s1 \<and>
     pipeReads (length xs + length cs) i s1 = Ret (map sint xs @ map sint cs) s2 \<and> pipe_holds i [] s2"
proof -
  obtain s1 where s1: "pipeWrite i cs s = Ret 0 s1" "pipe_holds i (xs @ cs) s1"
    using pipeWrite_holds [OF assms, of blockTask] by (auto simp: pipeWrite_def)
  then show ?thesis using pipeReads_holds [of i "xs @ cs" "[]" s1] by auto
qed

lemma sample_pipe_holds: "pipe_holds 0 [] sample"
  by (simp add: pipe_holds_def pipe_bytes_def)
     (simp add: lookupPipe_def lookupSem_def sample_def sampleSem_def samplePipe_def PIPE_BUFFER_SIZE_def)

theorem pipe_is_fifo_witness:
  "\<exists>s1 s2. pipeWrite 0 [104, 105, 255] sample = Ret 0 s1 \<and> pipe_holds 0 [104, 105, 255] s1 \<and>
     pipeReads 3 0 s1 = Ret [104, 105, -1] s2 \<and> pipe_holds 0 [] s2"
  using pipe_is_fifo [OF sample_pipe_holds, of "[104, 105, 255]"]
  by (simp add: numeral_3_eq_3 del: pipeReads.simps)



end
