(* ===== verification/Init.thy ===== *)
theory Init
  imports ProcSpec
begin

text \<open>
  \<open>Kernel/scheduler/initProcess.c\<close>: the process that frees its exited children, the ones nobody waits for. A sweep
  follows the nodes of the process queue; it is modelled by the pids of the queue at its start, as long as no other
  process runs in between (a switch could move or free the nodes that are still to be visited).
\<close>

section \<open>The program\<close>

definition FLUSH_TIME :: u64 where "FLUSH_TIME = 10"

primrec init_scan :: "int list \<Rightarrow> kernel \<Rightarrow> unit kres" where
  "init_scan [] s = Ret () s"
| "init_scan (pid # pids) s =
     (case lookupProc pid s of
        None \<Rightarrow> Crash UseAfterFree
      | Some process \<Rightarrow>
          kbind (if pc_ppid process = getpid s \<and> pc_state process = EXITED then waitpid (pc_pid process) s else Ret 0 s)
            (\<lambda>_ s1. init_scan pids s1))"

definition init_sweep :: "kernel \<Rightarrow> unit kres" where
  "init_sweep s =
     (let (it, s1) = (case procQueue s of None \<Rightarrow> (0, s) | Some _ \<Rightarrow> kmalloc 8 s)
      in if it = 0 then Ret () s1 else init_scan (map pc_pid (the (procQueue s1))) s1)"

definition init_round :: "nat \<Rightarrow> kernel \<Rightarrow> unit kres" where
  "init_round fuel s = kbind (init_sweep s) (\<lambda>_ s1. sleep fuel FLUSH_TIME s1)"

section \<open>What waiting for an exited process does\<close>

text \<open>Processes may have been given to \<open>init\<close>; nothing else of them has changed.\<close>

definition moved :: "int \<Rightarrow> pcb \<Rightarrow> pcb \<Rightarrow> bool" where
  "moved ip p p' \<longleftrightarrow> p' = p \<or> p' = p\<lparr>pc_ppid := ip\<rparr>"

definition adopted :: "kernel \<Rightarrow> kernel \<Rightarrow> bool" where
  "adopted s s' \<longleftrightarrow> initPid s' = initPid s \<and> (\<forall>q. rel_option (moved (initPid s)) (lookupProc q s) (lookupProc q s'))"

lemma moved_refl [simp]: "moved ip p p"
  by (simp add: moved_def)

lemma moved_trans: "moved ip p p1 \<Longrightarrow> moved ip p1 p2 \<Longrightarrow> moved ip p p2"
  by (auto simp: moved_def)

lemma rel_moved_trans:
  "rel_option (moved ip) a b \<Longrightarrow> rel_option (moved ip) b c \<Longrightarrow> rel_option (moved ip) a c"
  by (cases a; cases b; cases c) (auto intro: moved_trans)

lemma adopted_refl [simp]: "adopted s s"
  by (auto simp: adopted_def intro: option.rel_refl)

lemma adopted_trans: "adopted s s1 \<Longrightarrow> adopted s1 s2 \<Longrightarrow> adopted s s2"
  unfolding adopted_def by (metis rel_moved_trans)

lemma adopted_frame:
  "procQueue s' = procQueue s \<Longrightarrow> currentProc s' = currentProc s \<Longrightarrow> initPid s' = initPid s \<Longrightarrow> adopted s s'"
  by (auto simp: adopted_def lookupProc_cong [of s' s] intro: option.rel_refl)

lemma adopted_modProc:
  "adopted s (modProc v (pc_ppid_update (\<lambda>_. initPid s)) s)"
proof -
  have "rel_option (moved (initPid s)) (lookupProc q s) (lookupProc q (modProc v (pc_ppid_update (\<lambda>_. initPid s)) s))" for q
  proof (cases "q = v")
    case True
    show ?thesis
    proof (cases "lookupProc v s")
      case None
      then show ?thesis using True by (simp add: modProc_absent)
    next
      case (Some p)
      have "lookupProc v (modProc v (pc_ppid_update (\<lambda>_. initPid s)) s) = Some (p\<lparr>pc_ppid := initPid s\<rparr>)"
        by (rule lookupProc_modProc [OF Some]) simp
      then show ?thesis using True Some by (simp add: moved_def)
    qed
  next
    case False
    then have "lookupProc q (modProc v (pc_ppid_update (\<lambda>_. initPid s)) s) = lookupProc q s"
      by (rule lookupProc_modProc_other) simp
    then show ?thesis by (simp add: option.rel_refl)
  qed
  moreover have "initPid (modProc v (pc_ppid_update (\<lambda>_. initPid s)) s) = initPid s" by (simp add: modProc_def)
  ultimately show ?thesis by (simp add: adopted_def)
qed

lemma adopted_step: "adopted (snd hs) (snd (orphan_step pid v hs))"
  by (auto simp: orphan_step_def adopted_modProc split: option.splits)

lemma adopted_steps: "adopted (snd hs) (snd (fold (orphan_step pid) vs hs))"
proof (induction vs arbitrary: hs)
  case (Cons v vs)
  then show ?case using adopted_trans [OF adopted_step Cons] by simp
qed simp

lemma sendTaskToInit_adopts:
  assumes m: "mine me s" and p: "lookupProc pid s = Some p" "pid \<noteq> me"
  shows "\<exists>r s'. sendTaskToInit pid s = Ret r s' \<and> adopted s s' \<and> mine me s' \<and> same_table s s'"
proof -
  have k: "memory_ok s" "procs_ok s" using kinvD [OF mine_kinv [OF m]] by simp_all
  obtain q where q: "procQueue s = Some q" using k(2) by (auto simp: procs_ok_def)
  obtain c where c: "currentProc s = Some c" using m by (auto simp: mine_def running_def)
  then have "pc_pid c \<noteq> pid" using m p(2) by (auto simp: mine_def getpid_def)
  then have f: "List.find (\<lambda>p. pc_pid p = pid) q = Some p" using p(1) c q by (simp add: lookupProc_def)
  define s2 where "s2 = s\<lparr>mcount := Suc (Suc (mcount s))\<rparr>"
  have mal: "kmalloc 8 s = (mallocs s (mcount s), s\<lparr>mcount := Suc (mcount s)\<rparr>)" "mallocs s (mcount s) \<noteq> 0"
    using kmalloc_ok [OF k(1), of 8] by simp_all
  have get: "getProcess pid (s\<lparr>mcount := Suc (mcount s)\<rparr>) = (Some p, s2)"
    using getProcess_ok [of "s\<lparr>mcount := Suc (mcount s)\<rparr>" q pid] k(1) q f by (simp add: s2_def)
  have c2: "currentProc s2 = Some c" using c by (simp add: s2_def)
  obtain hp s3 where s3: "fold (orphan_step pid) (pc_pid c # map pc_pid (butlast (the (procQueue s2)))) (False, s2) = (hp, s3)"
    by (metis surj_pair)
  define s4 where "s4 = (if hp then s3 else modProc pid (pc_ppid_update (\<lambda>_. initPid s3)) s3)"
  have r: "sendTaskToInit pid s = Ret 0 s4"
    unfolding sendTaskToInit_def q option.case mal(1) Let_def prod.case get c2 using mal(2) s3 by (simp add: s4_def del: fold.simps)
  have "adopted s s2" by (rule adopted_frame) (simp_all add: s2_def)
  moreover have "adopted s2 s3" using adopted_steps [of "(False, s2)" pid "pc_pid c # map pc_pid (butlast (the (procQueue s2)))"] s3 by simp
  moreover have "adopted s3 s4" by (simp add: s4_def adopted_modProc)
  ultimately have a: "adopted s s4" using adopted_trans by blast
  have "kwp (\<lambda>c. c = NullDeref \<and> \<not> inQueue pid s) (\<lambda>_. False) (\<lambda>_. False) (sendTaskToInit pid s) (\<lambda>r s'. procs_ok s' \<and> same_table s s')"
    by (rule sendTaskToInit_ok [OF k])
  then have "same_table s s4" "mine me s4" using mine_same_table [OF m] by (simp_all add: r)
  then show ?thesis using r a by blast
qed

text \<open>Waiting for a process that has exited returns at once: the process is terminated, the unit of its semaphore used.\<close>

lemma waitpid_exited:
  assumes m: "mine me s" and p: "lookupProc pid s = Some p" "pid \<noteq> me" "pc_state p = EXITED"
    and sem: "lookupSem (pc_semId p) s = Some sm" "s_value sm > 0"
  shows "\<exists>s' p'. waitpid pid s = Ret pid s' \<and> mine me s' \<and> initPid s' = initPid s \<and>
    lookupProc pid s' = Some p' \<and> pc_state p' = TERMINATED \<and>
    (\<forall>q. q \<noteq> pid \<longrightarrow> rel_option (moved (initPid s)) (lookupProc q s) (lookupProc q s')) \<and>
    (\<forall>j. j \<noteq> pc_semId p \<longrightarrow> lookupSem j s' = lookupSem j s)"
proof -
  have k: "memory_ok s" "procs_ok s" using kinvD [OF mine_kinv [OF m]] by simp_all
  have run: "currentProc s \<noteq> None" "curPid s \<noteq> pid"
    using m p(2) by (auto simp: mine_def running_def getpid_def curPid_def)
  obtain n where n: "(if pid = curPid s then (currentProc s, s) else getProcess pid s) = (target pid s, s\<lparr>mcount := n\<rparr>)"
    using changeState_target [OF k] by blast
  have tgt: "target pid s = Some p" using run(1) p(1) by (simp add: target_def)
  let ?s = "s\<lparr>mcount := n\<rparr>"
  have get: "(if curPid s = pid then (currentProc s, s) else getProcess pid s) = (Some p, ?s)"
    using n tgt by (simp add: eq_commute [of pid])
  have m1: "mine me ?s" using m by simp
  obtain s2 where w: "semWait (pc_semId p) ?s = Ret 0 s2" "kinv s2" "wakes ?s s2" "procQueue s2 = procQueue s" "currentProc s2 = currentProc s"
      "\<forall>j. lookupSem j s2 = (if j = pc_semId p then Some (sm\<lparr>s_value := s_value sm - 1\<rparr>) else lookupSem j s)"
    using semWait_takes [OF mine_kinv [OF m1], of "pc_semId p" sm blockTask] sem by (auto simp: semWait_def lookupSem_mcount)
  have i2: "initPid s2 = initPid s"
  proof -
    have l: "kinv_locked {} 0 ?s" using mine_kinv [OF m1] by (simp add: kinv_def)
    then have l1: "kinv_locked {} 0 (?s\<lparr>mcount := Suc n\<rparr>)" "lookupSem (pc_semId p) (?s\<lparr>mcount := Suc n\<rparr>) = Some sm"
      using sem(1) by (simp_all add: lookupSem_mcount)
    show ?thesis using w(1) sem acquire_ok [OF l1, simplified]
      by (auto simp: semWait_def semWait_with_def findSem_ok [OF l] lookupSem_mcount release_def modSem_def)
  qed
  have m2: "mine me s2" by (rule mine_wakes [OF m1 w(3,2)])
  have p2: "lookupProc q s2 = lookupProc q s" for q by (rule lookupProc_cong [OF w(4,5)])
  have k2: "memory_ok s2" "procs_ok s2" using kinvD [OF w(2)] by simp_all
  obtain n2 where n2: "(if pid = curPid s2 then (currentProc s2, s2) else getProcess pid s2) = (target pid s2, s2\<lparr>mcount := n2\<rparr>)"
    using changeState_target [OF k2] by blast
  have t2: "target pid s2 = Some p" using run(1) p(1) w(5) p2 by (simp add: target_def)
  have m3: "mine me (s2\<lparr>mcount := n2\<rparr>)" using m2 by simp
  have p3: "lookupProc q (s2\<lparr>mcount := n2\<rparr>) = lookupProc q s" for q using p2 lookupProc_cong [of "s2\<lparr>mcount := n2\<rparr>" s2 q] by simp
  have pp: "pc_pid p = pid" by (rule lookupProc_pid [OF p(1)])
  obtain r s4 where s4: "sendTaskToInit pid (s2\<lparr>mcount := n2\<rparr>) = Ret r s4" "adopted (s2\<lparr>mcount := n2\<rparr>) s4" "same_table (s2\<lparr>mcount := n2\<rparr>) s4"
    using sendTaskToInit_adopts [OF m3, of pid p] p3 p(1,2) by auto
  let ?s5 = "setState pid TERMINATED s4"
  have cs: "changeState pid TERMINATED s2 = Ret pid ?s5"
    unfolding changeState_def changeState_with_def n2 Let_def prod.case t2 option.case using p(3) s4(1) pp by simp
  have wp: "waitpid pid s = Ret pid ?s5"
    unfolding waitpid_def get Let_def prod.case option.case w(1) kbind.simps p2 p(1) pp cs ..
  have "kwp (\<lambda>c. c = NullDeref \<and> TERMINATED = TERMINATED \<and> \<not> inQueue pid s2) (\<lambda>_. False) (\<lambda>_. False)
     (changeState pid TERMINATED s2) (\<lambda>_ s'. mine me s')" by (rule changeState_mine [OF m2])
  then have m5: "mine me ?s5" by (simp add: cs)
  have a: "initPid s4 = initPid s" "rel_option (moved (initPid s)) (lookupProc q s) (lookupProc q s4)" for q
    using s4(2) i2 by (simp_all add: adopted_def p2)
  obtain p4 where p4: "lookupProc pid s4 = Some p4" using a(2) [of pid] p(1) by (cases "lookupProc pid s4") auto
  have t: "same_table (s2\<lparr>mcount := n2\<rparr>) ?s5" by (rule same_table_trans [OF s4(3) same_table_setState])
  then have f: "initPid ?s5 = initPid s" "semQueue ?s5 = semQueue s2"
    using strip_fields(1,9) [of "s2\<lparr>mcount := n2\<rparr>" ?s5] i2 by (simp_all add: same_table_def)
  have sems: "lookupSem j ?s5 = lookupSem j s2" for j by (rule lookupSem_frame [OF f(2)])
  show ?thesis
  proof (intro exI conjI allI impI)
    show "waitpid pid s = Ret pid ?s5" "mine me ?s5" "initPid ?s5 = initPid s" by (fact wp m5 f(1))+
    show "lookupProc pid ?s5 = Some (p4\<lparr>pc_state := TERMINATED\<rparr>)" by (rule lookupProc_setState [OF p4])
    show "pc_state (p4\<lparr>pc_state := TERMINATED\<rparr>) = TERMINATED" by simp
    show "rel_option (moved (initPid s)) (lookupProc q s) (lookupProc q ?s5)" if "q \<noteq> pid" for q
      using a(2) [of q] lookupProc_setState_other [OF that] by simp
    show "lookupSem j ?s5 = lookupSem j s" if "j \<noteq> pc_semId p" for j using sems w(6) that by simp
  qed
qed

section \<open>The sweep\<close>

text \<open>What the sweep may assume of a process it has still to visit: its semaphore has the unit of its exit, and no other
  exited process has the same semaphore.\<close>

definition reapable :: "kernel \<Rightarrow> pcb list \<Rightarrow> bool" where
  "reapable s ps \<longleftrightarrow>
     (\<forall>p \<in> set ps. pc_state p = EXITED \<longrightarrow> (\<exists>m. lookupSem (pc_semId p) s = Some m \<and> 0 < s_value m)) \<and>
     (\<forall>p \<in> set ps. \<forall>p' \<in> set ps. pc_state p = EXITED \<longrightarrow> pc_state p' = EXITED \<longrightarrow> pc_semId p = pc_semId p' \<longrightarrow> p = p')"

definition reaped :: "int \<Rightarrow> pcb \<Rightarrow> pcb \<Rightarrow> bool" where
  "reaped ip p p' \<longleftrightarrow>
     (if pc_state p = EXITED then pc_state p' = TERMINATED \<or> pc_state p' = EXITED \<and> pc_ppid p \<noteq> ip else pc_state p' = pc_state p)"

lemma init_scan_reaps:
  "mine ip s \<Longrightarrow> initPid s = ip \<Longrightarrow> distinct (map pc_pid ps) \<Longrightarrow> ip \<notin> pc_pid ` set ps \<Longrightarrow>
   \<forall>p \<in> set ps. \<exists>p'. lookupProc (pc_pid p) s = Some p' \<and> moved ip p p' \<Longrightarrow> reapable s ps \<Longrightarrow>
   \<exists>s'. init_scan (map pc_pid ps) s = Ret () s' \<and> mine ip s' \<and> initPid s' = ip \<and>
     (\<forall>q. q \<notin> pc_pid ` set ps \<longrightarrow> rel_option (moved ip) (lookupProc q s) (lookupProc q s')) \<and>
     (\<forall>p \<in> set ps. \<exists>p'. lookupProc (pc_pid p) s' = Some p' \<and> reaped ip p p')"
proof (induction ps arbitrary: s)
  case Nil
  then show ?case by (auto intro: option.rel_refl)
next
  case (Cons p ps)
  let ?q = "pc_pid p"
  obtain p1 where p1: "lookupProc ?q s = Some p1" "moved ip p p1" using Cons.prems(5) by auto
  have same: "pc_pid p1 = ?q" "pc_state p1 = pc_state p" "pc_semId p1 = pc_semId p" using p1(2) by (auto simp: moved_def)
  have ip: "getpid s = ip" "?q \<noteq> ip" using Cons.prems(1,4) by (auto simp: mine_def)
  define m where "m = (if pc_ppid p1 = ip \<and> pc_state p = EXITED then waitpid ?q s else Ret 0 s)"
  have "\<exists>r s1 p2. m = Ret r s1 \<and> mine ip s1 \<and> initPid s1 = ip \<and> lookupProc ?q s1 = Some p2 \<and>
      pc_state p2 = (if pc_ppid p1 = ip \<and> pc_state p = EXITED then TERMINATED else pc_state p) \<and>
      (\<forall>q. q \<noteq> ?q \<longrightarrow> rel_option (moved ip) (lookupProc q s) (lookupProc q s1)) \<and>
      (pc_state p = EXITED \<longrightarrow> (\<forall>j. j \<noteq> pc_semId p \<longrightarrow> lookupSem j s1 = lookupSem j s)) \<and>
      (pc_state p \<noteq> EXITED \<longrightarrow> s1 = s)"
  proof (cases "pc_ppid p1 = ip \<and> pc_state p = EXITED")
    case True
    then obtain sm where "lookupSem (pc_semId p1) s = Some sm" "0 < s_value sm"
      using Cons.prems(6) same by (auto simp: reapable_def)
    from waitpid_exited [OF Cons.prems(1) p1(1) ip(2) _ this] same True Cons.prems(2)
    show ?thesis by (auto simp: m_def)
  next
    case False
    then show ?thesis using Cons.prems(1,2) p1(1) same by (auto simp: m_def intro: option.rel_refl)
  qed
  then obtain r s1 p2 where s1: "m = Ret r s1" "mine ip s1" "initPid s1 = ip" "lookupProc ?q s1 = Some p2"
      "pc_state p2 = (if pc_ppid p1 = ip \<and> pc_state p = EXITED then TERMINATED else pc_state p)"
      "\<forall>q. q \<noteq> ?q \<longrightarrow> rel_option (moved ip) (lookupProc q s) (lookupProc q s1)"
      "pc_state p = EXITED \<longrightarrow> (\<forall>j. j \<noteq> pc_semId p \<longrightarrow> lookupSem j s1 = lookupSem j s)" "pc_state p \<noteq> EXITED \<longrightarrow> s1 = s" by blast
  have look: "\<exists>p'. lookupProc (pc_pid x) s1 = Some p' \<and> moved ip x p'" if "x \<in> set ps" for x
  proof -
    have "x \<in> set (p # ps)" using that by simp
    from bspec [OF Cons.prems(5) this] obtain x1 where "lookupProc (pc_pid x) s = Some x1" "moved ip x x1" by blast
    moreover have "pc_pid x \<noteq> ?q" using Cons.prems(3) imageI [OF that, of pc_pid] by auto
    ultimately show ?thesis using s1(6) by (metis moved_trans option.rel_inject(2) option.rel_cases)
  qed
  have "lookupSem (pc_semId x) s1 = lookupSem (pc_semId x) s" if x: "x \<in> set ps" "pc_state x = EXITED" for x
  proof (cases "pc_state p = EXITED")
    case True
    have "x \<noteq> p" using Cons.prems(3) x(1) by auto
    then have "pc_semId x \<noteq> pc_semId p" using Cons.prems(6) x True unfolding reapable_def by (metis list.set_intros)
    then show ?thesis using s1(7) True by blast
  qed (use s1(8) in simp)
  then have "reapable s1 ps" using Cons.prems(6) by (simp add: reapable_def)
  from Cons.IH [OF s1(2,3) _ _ _ this] Cons.prems(3,4) look
  obtain s2 where s2: "init_scan (map pc_pid ps) s1 = Ret () s2" "mine ip s2" "initPid s2 = ip"
      "\<forall>q. q \<notin> pc_pid ` set ps \<longrightarrow> rel_option (moved ip) (lookupProc q s1) (lookupProc q s2)"
      "\<forall>p \<in> set ps. \<exists>p'. lookupProc (pc_pid p) s2 = Some p' \<and> reaped ip p p'" by auto
  have "init_scan (map pc_pid (p # ps)) s = kbind m (\<lambda>_ s1. init_scan (map pc_pid ps) s1)"
    by (simp add: m_def p1(1) same ip(1))
  then have "init_scan (map pc_pid (p # ps)) s = Ret () s2" by (simp add: s1(1) s2(1))
  moreover have "\<exists>p'. lookupProc ?q s2 = Some p' \<and> reaped ip p p'"
  proof -
    have "?q \<notin> pc_pid ` set ps" using Cons.prems(3) by simp
    then obtain p3 where p3: "lookupProc ?q s2 = Some p3" "moved ip p2 p3" using s2(4) s1(4) by (metis option.rel_cases option.inject option.discI)
    moreover have "pc_state p3 = pc_state p2" using p3(2) by (auto simp: moved_def)
    moreover have "pc_ppid p = ip \<longrightarrow> pc_ppid p1 = ip" using p1(2) by (auto simp: moved_def)
    ultimately show ?thesis using s1(5) by (auto simp: reaped_def)
  qed
  moreover have "rel_option (moved ip) (lookupProc q s) (lookupProc q s2)" if "q \<notin> pc_pid ` set (p # ps)" for q
    using s1(6) s2(4) that by (auto intro: rel_moved_trans)
  ultimately show ?case using s2(2,3,5) by auto
qed


definition sampleInit :: kernel where
  "sampleInit = sample\<lparr>currentProc := Some (samplePcb 2 1 0 READY 0x2000 3),
     procQueue := Some [samplePcb 4 3 0 BLOCKED 0x4000 6, samplePcb 5 3 0 READY 0x5000 7, samplePcb 6 2 0 EXITED 0x6000 8,
       samplePcb 3 0 1 READY 0x3000 4]\<rparr>"

lemma sampleInit_mine: "mine 2 sampleInit"
proof -
  have "procs_ok sampleInit"
    by (rule procs_ok_runI [where q = "the (procQueue sampleInit)" and i = "the (idleProc sampleInit)"
        and c = "the (currentProc sampleInit)"])
       (simp_all add: sampleInit_def sample_def samplePcb_def isReady_def)
  moreover have "only_procs sample sampleInit" by (simp add: only_procs_def strip_def sampleInit_def)
  ultimately have "kinv sampleInit" using sample_kinv kinv_locked_only_procs [of "{}" 0 sample sampleInit] by (simp add: kinv_def)
  moreover have "running sampleInit" "getpid sampleInit = 2"
    by (simp_all add: running_def getpid_def idlePid_def sampleInit_def sample_def samplePcb_def)
  ultimately show ?thesis by (simp add: mine_def)
qed


end
