(* ===== verification/Ustdlib.thy ===== *)
theory Ustdlib
  imports Numerals CString
begin

text \<open>
  The output functions of the user library, \<open>Userland/SampleCodeModule/lib/ustdlib.c\<close>. What a program
  prints is the list of its \<open>write\<close> calls, each with the bytes it passes; numbers are in theory
  \<open>Numerals\<close>. \<open>_strcasecmp\<close>, \<open>strcpy\<close> and \<open>toLower\<close> are the kernel's, once more.
\<close>

section \<open>Formatted output\<close>

text \<open>The arguments of \<open>_fprintf\<close>: an \<open>int\<close>, an \<open>uint64_t\<close> or a string.\<close>

datatype uarg = UInt int | UWord u64 | UStr "u8 list"

definition MAX_SPACES :: nat where "MAX_SPACES = 6"

text \<open>The local variables of \<open>_fprintf\<close> and what it has written. A cell of \<open>padding\<close> beyond the sixth is a
  write outside of the array; so is an argument that was not passed: \<open>None\<close>.\<close>

record fmt =
  hasFormat :: bool
  hasPadding :: bool
  paddingNegative :: bool
  padding :: "u8 list"
  paddingIndex :: nat
  fargs :: "uarg list"
  written :: "u8 list list"

definition putc :: "u8 \<Rightarrow> fmt \<Rightarrow> fmt" where
  "putc c f = f\<lparr>written := written f @ [[c]]\<rparr>"

definition fprint :: "u8 list \<Rightarrow> fmt \<Rightarrow> fmt" where
  "fprint str f = f\<lparr>written := written f @ [str]\<rparr>"

definition padText :: "fmt \<Rightarrow> u8 list" where
  "padText f = takeWhile (\<lambda>c. c \<noteq> 0) (padding f)"

definition fillSpaces :: "int \<Rightarrow> fmt \<Rightarrow> fmt" where
  "fillSpaces stringLength f =
     (if hasPadding f
      then (putc 32 ^^ nat (atoi (padText f) - stringLength)) (f\<lparr>hasPadding := False\<rparr>)
      else f)"

text \<open>One text with the spaces before it, or behind it after a minus sign: the three steps each case of
  the switch takes.\<close>

definition padded :: "u8 list \<Rightarrow> fmt \<Rightarrow> fmt" where
  "padded str f =
     (let f1 = (if \<not> paddingNegative f then fillSpaces (int (length str)) f else f);
          f2 = fprint str f1
      in if paddingNegative f2 then fillSpaces (int (length str)) f2 else f2)"

text \<open>\<open>i\<close> is an \<open>unsigned int\<close>, so \<open>%d\<close>, \<open>%o\<close> and \<open>%x\<close> print the low 32 bits of their argument as an
  unsigned number; \<open>%u\<close> prints all 64.\<close>

definition directive :: "u8 \<Rightarrow> fmt \<Rightarrow> fmt option" where
  "directive c f =
     (let num = (\<lambda>v base rest. map_option (\<lambda>str. padded str (f\<lparr>fargs := rest\<rparr>)) (itoa v base)) in
      if c = 99 then (case fargs f of UInt v # rest \<Rightarrow> Some (padded [word_of_int v] (f\<lparr>fargs := rest\<rparr>)) | _ \<Rightarrow> None)
      else if c = 100 then (case fargs f of UInt v # rest \<Rightarrow> num (ucast (word_of_int v :: u32)) 10 rest | _ \<Rightarrow> None)
      else if c = 111 then (case fargs f of UInt v # rest \<Rightarrow> num (ucast (word_of_int v :: u32)) 8 rest | _ \<Rightarrow> None)
      else if c = 115 then (case fargs f of UStr str # rest \<Rightarrow> Some (padded str (f\<lparr>fargs := rest\<rparr>)) | _ \<Rightarrow> None)
      else if c = 120 then (case fargs f of UWord w # rest \<Rightarrow> num (ucast (ucast w :: u32)) 16 rest | _ \<Rightarrow> None)
      else if c = 117 then (case fargs f of UWord w # rest \<Rightarrow> num w 10 rest | _ \<Rightarrow> None)
      else Some (putc 37 f))"

text \<open>The body of the loop over the format.\<close>

definition fmt_step :: "u8 \<Rightarrow> fmt \<Rightarrow> fmt option" where
  "fmt_step c f =
     (if c = 37
      then Some ((if hasFormat f then putc 37 f else f)\<lparr>hasFormat := True\<rparr>)
      else if hasFormat f
      then if c = 45 \<or> is_digit c
           then let f1 = f\<lparr>hasPadding := True\<rparr>
                in if c = 45 then Some (f1\<lparr>paddingNegative := True\<rparr>)
                   else map_option (\<lambda>b. f1\<lparr>padding := b, paddingIndex := paddingIndex f1 + 1\<rparr>)
                          (put (paddingIndex f1) c (padding f1))
           else Option.bind (put (paddingIndex f) 0 (padding f)) (\<lambda>b.
                map_option (\<lambda>f1. f1\<lparr>hasPadding := False, paddingNegative := False, paddingIndex := 0,
                                   hasFormat := False\<rparr>)
                  (directive c (f\<lparr>padding := b\<rparr>)))
      else Some (putc c f))"

primrec fmt_loop :: "u8 list \<Rightarrow> fmt \<Rightarrow> fmt option" where
  "fmt_loop [] f = Some f"
| "fmt_loop (c # cs) f = Option.bind (fmt_step c f) (fmt_loop cs)"

definition initFmt :: "uarg list \<Rightarrow> fmt" where
  "initFmt args = \<lparr>hasFormat = False, hasPadding = False, paddingNegative = False,
     padding = replicate MAX_SPACES 0, paddingIndex = 0, fargs = args, written = []\<rparr>"

definition fprintf :: "u8 list \<Rightarrow> uarg list \<Rightarrow> u8 list list option" where
  "fprintf format args = map_option written (fmt_loop format (initFmt args))"

section \<open>What is written\<close>

lemma fmt_loop_append: "fmt_loop (xs @ ys) f = Option.bind (fmt_loop xs f) (fmt_loop ys)"
  by (induction xs arbitrary: f) (auto split: Option.bind_split)

lemma fmt_loop_plain:
  "37 \<notin> set cs \<Longrightarrow> \<not> hasFormat f \<Longrightarrow> fmt_loop cs f = Some (f\<lparr>written := written f @ map (\<lambda>c. [c]) cs\<rparr>)"
  by (induction cs arbitrary: f) (auto simp: fmt_step_def putc_def)

lemma putc_times: "(putc c ^^ n) f = f\<lparr>written := written f @ replicate n [c]\<rparr>"
  by (induction n) (auto simp: putc_def replicate_append_same)

text \<open>Digits after a percent sign are collected.\<close>

lemma fmt_loop_digits:
  "list_all is_digit ds \<Longrightarrow> 37 \<notin> set ds \<Longrightarrow> 45 \<notin> set ds \<Longrightarrow> hasFormat f \<Longrightarrow>
     paddingIndex f + length ds \<le> length (padding f) \<Longrightarrow>
     fmt_loop ds f = Some (f\<lparr>hasPadding := hasPadding f \<or> ds \<noteq> [],
       padding := take (paddingIndex f) (padding f) @ ds @ drop (paddingIndex f + length ds) (padding f),
       paddingIndex := paddingIndex f + length ds\<rparr>)"
proof (induction ds arbitrary: f)
  case Nil
  then show ?case by simp
next
  case (Cons d ds)
  then have p: "paddingIndex f < length (padding f)" by simp
  let ?f = "f\<lparr>hasPadding := True, padding := take (paddingIndex f) (padding f) @ d # drop (Suc (paddingIndex f)) (padding f),
    paddingIndex := paddingIndex f + 1\<rparr>"
  have "fmt_step d f = Some ?f" using Cons.prems p by (simp add: fmt_step_def put_at Let_def)
  moreover have "fmt_loop ds ?f = Some (?f\<lparr>hasPadding := True,
       padding := take (paddingIndex ?f) (padding ?f) @ ds @ drop (paddingIndex ?f + length ds) (padding ?f),
       paddingIndex := paddingIndex ?f + length ds\<rparr>)"
    using Cons.IH [of ?f] Cons.prems p by simp
  ultimately show ?case using p by (simp add: add.commute [of "length _"])
qed

lemma is_digit_plain: "is_digit d \<Longrightarrow> d \<noteq> 37 \<and> d \<noteq> 45 \<and> d \<noteq> 0"
  by (auto simp: is_digit_def)

lemma digits_plain: "list_all is_digit ds \<Longrightarrow> 37 \<notin> set ds \<and> 45 \<notin> set ds \<and> (\<forall>d \<in> set ds. d \<noteq> 0)"
  using is_digit_plain by (auto simp: list_all_iff)

lemma padded_written:
  "written (padded str f) = written f @
     (let sp = (if hasPadding f then replicate (nat (atoi (padText f) - int (length str))) [32] else [])
      in if paddingNegative f then str # sp else sp @ [str])"
  by (auto simp: padded_def fillSpaces_def putc_times fprint_def padText_def Let_def)

lemma padded_hasFormat [simp]: "hasFormat (padded str f) = hasFormat f"
  by (simp add: padded_def fillSpaces_def putc_times fprint_def Let_def)

text \<open>The format state after a percent sign, an optional minus sign and up to five digits.\<close>

lemma fmt_loop_spec:
  assumes "list_all is_digit ds" "length ds < 6" "\<not> hasFormat f" "\<not> paddingNegative f" "\<not> hasPadding f"
    "paddingIndex f = 0" "length (padding f) = 6"
  shows "fmt_loop (37 # (if neg then [45] else []) @ ds) f =
     Some (f\<lparr>hasFormat := True, hasPadding := neg \<or> ds \<noteq> [], paddingNegative := neg,
       padding := ds @ drop (length ds) (padding f), paddingIndex := length ds\<rparr>)"
proof -
  let ?f = "f\<lparr>hasFormat := True, hasPadding := neg, paddingNegative := neg\<rparr>"
  have start: "fmt_loop (37 # (if neg then [45] else [])) f = Some ?f"
    using assms(3-5) by (auto simp: fmt_step_def Let_def)
  have "fmt_loop ds ?f = Some (?f\<lparr>hasPadding := neg \<or> ds \<noteq> [], padding := ds @ drop (length ds) (padding f),
      paddingIndex := length ds\<rparr>)"
    using fmt_loop_digits [of ds ?f] digits_plain [OF assms(1)] assms by simp
  then show ?thesis
    using start fmt_loop_append [of "37 # (if neg then [45] else [])" ds f] by simp
qed

section \<open>Properties\<close>

text \<open>\<open>_fprintf\<close> writes the text around a directive character by character, and a \<open>%s\<close> directive with a
  field width of at most five digits as the string, padded with spaces to that width on the left, or
  on the right after a minus sign; a longer string is written whole.\<close>

theorem fprintf_pads_string:
  assumes "list_all is_digit ds" "length ds < 6" "37 \<notin> set pre" "37 \<notin> set post"
  shows "fprintf (pre @ 37 # (if neg then [45] else []) @ ds @ 115 # post) (UStr str # rest) =
     Some (map (\<lambda>c. [c]) pre @
       (let sp = replicate (nat (atoi ds - int (length str))) [32] in if neg then str # sp else sp @ [str]) @
       map (\<lambda>c. [c]) post)"
proof -
  let ?f0 = "initFmt (UStr str # rest)"
  let ?f1 = "?f0\<lparr>written := map (\<lambda>c. [c]) pre\<rparr>"
  let ?f2 = "?f1\<lparr>hasFormat := True, hasPadding := neg \<or> ds \<noteq> [], paddingNegative := neg,
       padding := ds @ drop (length ds) (padding ?f1), paddingIndex := length ds\<rparr>"
  let ?b = "ds @ 0 # drop (Suc (length ds)) (padding ?f1)"
  have f1: "fmt_loop pre ?f0 = Some ?f1" using fmt_loop_plain [OF assms(3), of ?f0] by (simp add: initFmt_def)
  have f2: "fmt_loop (37 # (if neg then [45] else []) @ ds) ?f1 = Some ?f2"
    by (rule fmt_loop_spec [OF assms(1,2)]) (simp_all add: initFmt_def MAX_SPACES_def)
  have b: "put (length ds) 0 (padding ?f2) = Some ?b"
    using assms(2) by (subst put_at) (simp_all add: initFmt_def MAX_SPACES_def)
  let ?f3 = "padded str (?f2\<lparr>padding := ?b, fargs := rest\<rparr>)"
  have digits: "takeWhile (\<lambda>c. c \<noteq> 0) ?b = ds"
    using digits_plain [OF assms(1)] by (simp add: takeWhile_append2)
  let ?f4 = "?f3\<lparr>hasPadding := False, paddingNegative := False, paddingIndex := 0, hasFormat := False\<rparr>"
  have s: "fmt_step 115 ?f2 = Some ?f4"
    using b by (simp add: fmt_step_def directive_def is_digit_def Let_def initFmt_def)
  have "written ?f4 = map (\<lambda>c. [c]) pre @
       (let sp = replicate (nat (atoi ds - int (length str))) [32] in if neg then str # sp else sp @ [str])"
    using digits by (cases "ds = []") (simp_all add: padded_written padText_def Let_def atoi_def)
  then have "map_option written (fmt_loop post ?f4) = Some (map (\<lambda>c. [c]) pre @
       (let sp = replicate (nat (atoi ds - int (length str))) [32] in if neg then str # sp else sp @ [str]) @
       map (\<lambda>c. [c]) post)"
    using fmt_loop_plain [OF assms(4), of ?f4] by simp
  moreover have "fmt_loop (pre @ 37 # (if neg then [45] else []) @ ds @ 115 # post) ?f0 = fmt_loop post ?f4"
    using f1 f2 s fmt_loop_append [of pre _ ?f0]
      fmt_loop_append [of "37 # (if neg then [45] else []) @ ds" "115 # post" ?f1] by simp
  ultimately show ?thesis by (simp add: fprintf_def)
qed

theorem fprintf_pads_string_witness:
  "fprintf [62, 37, 45, 52, 115, 60] [UStr [97, 98]] = Some [[62], [97, 98], [32], [32], [60]]"
proof -
  have "atoi [52] = 4" by (simp add: atoi_def is_digit_def)
  moreover have "replicate 2 x = [x, x]" for x :: "u8 list" by (simp add: numeral_2_eq_2)
  moreover have "list_all is_digit [52]" by (simp add: is_digit_def)
  ultimately show ?thesis
    using fprintf_pads_string [of "[52]" "[62]" "[60]" True "[97, 98]" "[]"] by (simp add: Let_def)
qed

section \<open>Formats without field widths\<close>

text \<open>What such a format should print, for the directives \<open>%s\<close>, \<open>%d\<close> and \<open>%u\<close>.\<close>

fun render :: "u8 list \<Rightarrow> uarg list \<Rightarrow> u8 list option" where
  "render [] args = Some []"
| "render (c # d # cs) args =
     (if c \<noteq> 37 then map_option ((#) c) (render (d # cs) args)
      else case args of
        UStr s # rest \<Rightarrow> if d = 115 then map_option ((@) s) (render cs rest) else None
      | UInt v # rest \<Rightarrow>
          if d = 100 then Option.bind (itoa (ucast (word_of_int v :: u32)) 10) (\<lambda>s. map_option ((@) s) (render cs rest))
          else None
      | UWord w # rest \<Rightarrow>
          if d = 117 then Option.bind (itoa w 10) (\<lambda>s. map_option ((@) s) (render cs rest)) else None
      | [] \<Rightarrow> None)"
| "render [c] args = (if c \<noteq> 37 then Some [c] else None)"

definition idle :: "fmt \<Rightarrow> bool" where
  "idle f \<longleftrightarrow> \<not> hasFormat f \<and> \<not> hasPadding f \<and> \<not> paddingNegative f \<and> paddingIndex f = 0 \<and> padding f \<noteq> []"

text \<open>The state after a directive that printed \<open>s\<close> and used one argument.\<close>

definition after :: "u8 list \<Rightarrow> fmt \<Rightarrow> fmt" where
  "after s f = f\<lparr>written := written f @ [s], fargs := tl (fargs f), padding := (padding f)[0 := 0]\<rparr>"

lemma after_simps [simp]:
  "idle f \<Longrightarrow> idle (after s f)" "written (after s f) = written f @ [s]" "fargs (after s f) = tl (fargs f)"
  by (auto simp: idle_def after_def)

lemma fmt_loop_directive:
  assumes f: "idle f" "fargs f = a # rest" and d: "\<not> is_digit d" "d \<noteq> 45" "d \<noteq> 37"
    and dir: "\<And>g. fargs g = a # rest \<Longrightarrow> directive d g = Some (padded s (g\<lparr>fargs := rest\<rparr>))"
  shows "fmt_loop (37 # d # cs) f = fmt_loop cs (after s f)"
proof -
  let ?f1 = "f\<lparr>hasFormat := True\<rparr>"
  have p: "fmt_step 37 f = Some ?f1" using f(1) by (simp add: fmt_step_def idle_def)
  have "put 0 0 (padding ?f1) = Some ((padding f)[0 := 0])" using f(1) by (simp add: put_def idle_def)
  moreover have "directive d (?f1\<lparr>padding := (padding f)[0 := 0]\<rparr>) =
      Some (padded s (?f1\<lparr>padding := (padding f)[0 := 0], fargs := rest\<rparr>))"
    using dir [of "?f1\<lparr>padding := (padding f)[0 := 0]\<rparr>"] f(2) by simp
  ultimately have "fmt_step d ?f1 = Some (after s f)"
    using f d by (simp add: fmt_step_def padded_def fillSpaces_def fprint_def after_def idle_def Let_def)
  with p show ?thesis by simp
qed

lemma fmt_loop_renders:
  "render cs args = Some t \<Longrightarrow> idle f \<Longrightarrow> fargs f = args \<Longrightarrow>
     \<exists>f'. fmt_loop cs f = Some f' \<and> concat (written f') = concat (written f) @ t"
proof (induction cs args arbitrary: f t rule: render.induct)
  case (2 c d cs args)
  show ?case
  proof (cases "c = 37")
    case False
    let ?f = "f\<lparr>written := written f @ [[c]]\<rparr>"
    have "fmt_step c f = Some ?f" using "2.prems"(2) False by (simp add: fmt_step_def idle_def putc_def)
    moreover obtain u where "render (d # cs) args = Some u" "t = c # u" using "2.prems"(1) False by auto
    moreover have "idle ?f" "fargs ?f = args" using "2.prems"(2,3) by (auto simp: idle_def)
    ultimately show ?thesis using "2.IH"(1) [OF False, of u ?f] by simp
  next
    case True
    have step: ?thesis if r: "render cs rest = Some u" and t: "t = s @ u" and f: "fmt_loop (c # d # cs) f = fmt_loop cs (after s f)"
      and ih: "\<And>f t. render cs rest = Some t \<Longrightarrow> idle f \<Longrightarrow> fargs f = rest \<Longrightarrow>
        \<exists>f'. fmt_loop cs f = Some f' \<and> concat (written f') = concat (written f) @ t"
      and a: "args = a # rest" for s u a rest
      using ih [OF r, of "after s f"] "2.prems"(2,3) t f a by auto
    show ?thesis
    proof (cases args)
      case Nil
      then show ?thesis using "2.prems"(1) True by simp
    next
      case (Cons a rest)
      have fa: "fargs f = a # rest" using "2.prems"(3) Cons by simp
      show ?thesis
      proof (cases a)
        case (UStr s)
        then obtain u where u: "d = 115" "render cs rest = Some u" "t = s @ u"
          using "2.prems"(1) True Cons by (auto split: if_splits)
        have f: "fmt_loop (c # d # cs) f = fmt_loop cs (after s f)" unfolding True
          by (rule fmt_loop_directive [OF "2.prems"(2) fa]) (auto simp: u UStr directive_def is_digit_def)
        have ih: "\<not> c \<noteq> 37" using True by simp
        show ?thesis by (rule step [OF u(2,3) f "2.IH"(4) [OF ih Cons UStr u(1)] Cons])
      next
        case (UInt v)
        then obtain s u where u: "d = 100" "itoa (ucast (word_of_int v :: u32)) 10 = Some s"
          "render cs rest = Some u" "t = s @ u"
          using "2.prems"(1) True Cons by (auto split: if_splits Option.bind_splits)
        have f: "fmt_loop (c # d # cs) f = fmt_loop cs (after s f)" unfolding True
          by (rule fmt_loop_directive [OF "2.prems"(2) fa]) (auto simp: u UInt directive_def is_digit_def Let_def)
        have ih: "\<not> c \<noteq> 37" using True by simp
        show ?thesis by (rule step [OF u(3,4) f "2.IH"(2) [OF ih Cons UInt u(1,2)] Cons])
      next
        case (UWord w)
        then obtain s u where u: "d = 117" "itoa w 10 = Some s" "render cs rest = Some u" "t = s @ u"
          using "2.prems"(1) True Cons by (auto split: if_splits Option.bind_splits)
        have f: "fmt_loop (c # d # cs) f = fmt_loop cs (after s f)" unfolding True
          by (rule fmt_loop_directive [OF "2.prems"(2) fa]) (auto simp: u UWord directive_def is_digit_def Let_def)
        have ih: "\<not> c \<noteq> 37" using True by simp
        show ?thesis by (rule step [OF u(3,4) f "2.IH"(3) [OF ih Cons UWord u(1,2)] Cons])
      qed
    qed
  qed
next
  case (3 c args)
  then show ?case by (auto simp: fmt_step_def idle_def putc_def split: if_splits)
qed auto



end
