(* ===== verification/Malloc.thy ===== *)
theory Malloc
  imports Prelude
begin

text \<open>
  \<open>Kernel/memory_manager/memoryManager.c\<close>: the free-list allocator. Memory is cut into units of
  \<open>sizeof(Header) = 16\<close> bytes, numbered from \<open>base\<close> on; a pointer to a header is the number of its unit. The
  fields of all headers are two functions, \<open>h_next\<close> and \<open>h_size\<close>. The free blocks form a ring in the order of
  their addresses, which \<open>free_node\<close> points into.
\<close>

section \<open>The allocator\<close>

record mm =
  h_next :: "int \<Rightarrow> int"
  h_size :: "int \<Rightarrow> u32"
  base :: int
  free_node :: int
  header_blocks :: u32

definition initializeMemoryManager :: "int \<Rightarrow> u32 \<Rightarrow> mm \<Rightarrow> mm" where
  "initializeMemoryManager heap_base heap_size h =
     (if heap_base = 0 then h
      else let n = ucast ((ucast heap_size + 16 - 1) div 16 + 1 :: u64)
           in h\<lparr>header_blocks := n, free_node := 0, base := heap_base, h_size := (h_size h)(0 := n),
                h_next := (h_next h)(0 := 0)\<rparr>)"

definition units :: "u64 \<Rightarrow> u64" where
  "units mem = (mem + 16 - 1) div 16 + 1"

text \<open>The block \<open>c\<close> behind \<open>p\<close> in the ring is used up or its end is cut off; \<open>p\<close> becomes \<open>free_node\<close>. The pointer
  returned is the unit behind the header.\<close>

definition take_block :: "u64 \<Rightarrow> int \<Rightarrow> int \<Rightarrow> mm \<Rightarrow> int \<times> mm" where
  "take_block blocks p c h =
     (if ucast (h_size h c) = blocks
      then (c + 1, h\<lparr>h_next := (h_next h)(p := h_next h c), free_node := p\<rparr>)
      else let rest = h_size h c - ucast blocks; c' = c + uint rest
           in (c' + 1, h\<lparr>h_size := (h_size h)(c := rest, c' := ucast blocks), free_node := p\<rparr>))"

partial_function (option) malloc_loop :: "u64 \<Rightarrow> int \<Rightarrow> int \<Rightarrow> mm \<Rightarrow> (int option \<times> mm) option" where
  "malloc_loop blocks prev current h =
     (if ucast (h_size h current) \<ge> blocks
      then (let (r, h') = take_block blocks prev current h in Some (Some r, h'))
      else if current = free_node h then Some (None, h)
      else malloc_loop blocks current (h_next h current) h)"

text \<open>\<open>malloc\<close> returns an address, 0 for \<open>NULL\<close>; \<open>None\<close> would be a loop that does not end.\<close>

definition malloc :: "u64 \<Rightarrow> mm \<Rightarrow> (int \<times> mm) option" where
  "malloc mem h =
     (if mem = 0 then Some (0, h)
      else map_option (\<lambda>(r, h'). (case r of None \<Rightarrow> 0 | Some u \<Rightarrow> base h + 16 * u, h'))
             (malloc_loop (units mem) (free_node h) (h_next h (free_node h)) h))"

text \<open>The search of \<open>free\<close> for the place of block \<open>b\<close>: \<open>Some None\<close> when \<open>b\<close> is free already, otherwise the free
  block before it, and whether \<open>b\<close> lies outside all of them.\<close>

partial_function (option) free_loop :: "int \<Rightarrow> int \<Rightarrow> mm \<Rightarrow> (int \<times> bool) option option" where
  "free_loop b cur h =
     (if b > cur \<and> b < h_next h cur then Some (Some (cur, False))
      else if cur = b \<or> h_next h cur = b then Some None
      else if cur \<ge> h_next h cur \<and> (b > cur \<or> b < h_next h cur) then Some (Some (cur, True))
      else free_loop b (h_next h cur) h)"

definition sz :: "mm \<Rightarrow> int \<Rightarrow> int" where
  "sz h a = uint (h_size h a)"

text \<open>\<open>join\<close>: the end of \<open>free\<close>, which links \<open>b\<close> in behind \<open>cur\<close> and unites neighbours.\<close>

definition join_right :: "int \<Rightarrow> int \<Rightarrow> mm \<Rightarrow> mm" where
  "join_right b cur h =
     (if b + sz h b = h_next h cur
      then h\<lparr>h_size := (h_size h)(b := h_size h b + h_size h (h_next h cur)),
             h_next := (h_next h)(b := h_next h (h_next h cur))\<rparr>
      else h\<lparr>h_next := (h_next h)(b := h_next h cur)\<rparr>)"

definition join_left :: "int \<Rightarrow> int \<Rightarrow> mm \<Rightarrow> mm" where
  "join_left b cur h =
     (if cur + sz h cur = b
      then h\<lparr>h_size := (h_size h)(cur := h_size h cur + h_size h b), h_next := (h_next h)(cur := h_next h b)\<rparr>
      else h\<lparr>h_next := (h_next h)(cur := b)\<rparr>)"

definition mem_free :: "int \<Rightarrow> mm \<Rightarrow> mm option" where
  "mem_free memory h =
     (if memory = 0 \<or> (memory - 16 - base h) mod 16 \<noteq> 0 then Some h
      else let b = (memory - 16 - base h) div 16
           in if b < 0 \<or> b \<ge> uint (header_blocks h) * 16 then Some h
              else map_option (\<lambda>r. case r of
                       None \<Rightarrow> h
                     | Some (cur, external) \<Rightarrow>
                         (if \<not> external \<and> (cur + sz h cur > b \<or> b + sz h b > h_next h cur) then h
                          else (join_left b cur (join_right b cur h))\<lparr>free_node := cur\<rparr>))
                     (free_loop b (free_node h) h))"

record memoryInfo =
  availableMem :: u64
  totalMem :: u64

partial_function (option) sum_ring :: "int \<Rightarrow> int \<Rightarrow> u32 \<Rightarrow> mm \<Rightarrow> u32 option" where
  "sum_ring free_base current cant h =
     (let cant = cant + h_size h current; current = h_next h current
      in if current \<noteq> free_base then sum_ring free_base current cant h else Some cant)"

definition getMemoryInfo :: "mm \<Rightarrow> (memoryInfo option \<times> mm) option" where
  "getMemoryInfo h =
     Option.bind (malloc 16 h) (\<lambda>(p, h').
       if p = 0 then Some (None, h')
       else map_option (\<lambda>cant. (Some \<lparr>availableMem = ucast cant * 16, totalMem = ucast (header_blocks h') * 16\<rparr>, h'))
              (sum_ring (free_node h') (free_node h') 0 h'))"

end
