(* ===== verification/MallocRing.thy ===== *)
theory MallocRing
  imports Malloc
begin

text \<open>
  The free blocks of the allocator as a ring: lists of addresses up to rotation, and the well-formedness of the
  heap: free and allocated blocks are disjoint, no two free blocks touch, and together they make up the whole heap.
\<close>

section \<open>Rings\<close>

fun chain :: "(int \<Rightarrow> int) \<Rightarrow> int list \<Rightarrow> bool" where
  "chain n (x # y # zs) = (n x = y \<and> chain n (y # zs))"
| "chain n _ = True"

definition ring :: "(int \<Rightarrow> int) \<Rightarrow> int list \<Rightarrow> bool" where
  "ring n xs \<longleftrightarrow> (case xs of [] \<Rightarrow> True | x # _ \<Rightarrow> chain n (xs @ [x]))"

lemma chain_append: "chain n (xs @ x # ys) \<longleftrightarrow> chain n (xs @ [x]) \<and> chain n (x # ys)"
proof (induction xs)
  case (Cons a xs)
  then show ?case by (cases xs) auto
qed simp

lemma ring_Cons: "ring n (x # xs) \<longleftrightarrow> chain n (x # xs @ [x])"
  by (simp add: ring_def)

lemma ring_Nil [simp]: "ring n []"
  by (simp add: ring_def)

lemma ring_rotate: "ring n (xs @ ys) \<longleftrightarrow> ring n (ys @ xs)"
proof (cases xs)
  case (Cons x xs')
  then show ?thesis
    using chain_append [of n "x # xs'" "hd ys" "tl ys @ [x]"] chain_append [of n "hd ys # tl ys" x "xs' @ [hd ys]"]
    by (cases ys) (auto simp: ring_def)
qed simp

lemma chain_cong: "(\<And>x. x \<in> set (butlast xs) \<Longrightarrow> n x = m x) \<Longrightarrow> chain n xs = chain m xs"
  by (induction n xs rule: chain.induct) auto

lemma ring_cong: "(\<And>x. x \<in> set xs \<Longrightarrow> n x = m x) \<Longrightarrow> ring n xs = ring m xs"
  by (cases xs) (auto simp: ring_Cons intro!: chain_cong)

lemma chain_next:
  "chain n (xs @ [c]) \<Longrightarrow> x \<in> set xs \<Longrightarrow> n x \<in> set (tl xs) \<union> {c}"
proof (induction xs)
  case (Cons a xs)
  then show ?case by (cases xs) (auto split: if_splits)
qed simp

lemma ring_next: "ring n xs \<Longrightarrow> x \<in> set xs \<Longrightarrow> n x \<in> set xs"
  using chain_next [of n xs "hd xs" x] by (cases xs) (auto simp: ring_Cons)

text \<open>The predecessor in a ring is unique.\<close>

lemma chain_pred: "chain n (xs @ [c]) \<Longrightarrow> c \<notin> set (tl xs) \<Longrightarrow> p \<in> set xs \<Longrightarrow> n p = c \<Longrightarrow> p = last xs"
proof (induction xs)
  case (Cons a xs)
  then show ?case by (cases xs) auto
qed simp

lemma ring_pred:
  assumes "ring n (c # zs)" "c \<notin> set zs" "p \<in> set (c # zs)" "n p = c"
  shows "p = last (c # zs)"
  using chain_pred [of n "c # zs" c p] assms by (simp add: ring_Cons)

text \<open>Taking the head out, and putting an element in behind it.\<close>

lemma ring_remove:
  assumes "ring n (c # zs)" "zs \<noteq> []" "distinct (c # zs)"
  shows "ring (n(last zs := n c)) zs"
proof -
  obtain ys p where zs: "zs = ys @ [p]" using assms(2) by (cases zs rule: rev_cases) auto
  have c: "chain n (c # ys @ [p])" "n p = c" "n c = hd zs"
    using assms(1) chain_append [of n "c # ys" p "[c]"] by (cases ys; auto simp: ring_Cons zs)+
  have "chain n (ys @ [p])" using c(1) by (cases ys) auto
  moreover have "p \<notin> set ys" using assms(3) by (auto simp: zs)
  ultimately have "chain (n(p := n c)) (ys @ [p])"
    by (subst chain_cong [of _ _ n]) (auto simp: butlast_append)
  then have "chain (n(p := n c)) (ys @ p # [hd zs])"
    using chain_append [of "n(p := n c)" ys p "[hd zs]"] c(3) by simp
  then show ?thesis by (cases ys) (auto simp: ring_Cons zs)
qed

lemma ring_insert:
  assumes "ring n (c # zs)" "b \<notin> set (c # zs)" "distinct (c # zs)"
  shows "ring (n(b := n c, c := b)) (c # b # zs)"
proof (cases zs)
  case Nil
  then show ?thesis using assms by (auto simp: ring_Cons)
next
  case (Cons z zs')
  then have "chain n (zs @ [c])" "n c = z" using assms(1) by (auto simp: ring_Cons)
  moreover have "chain (n(b := n c, c := b)) (zs @ [c]) = chain n (zs @ [c])"
    using assms(2,3) by (intro chain_cong) (auto simp: butlast_append)
  ultimately show ?thesis using assms(2) by (auto simp: ring_Cons Cons)
qed

section \<open>The well-formed heap\<close>

definition dblk :: "mm \<Rightarrow> int \<Rightarrow> int \<Rightarrow> bool" where
  "dblk h a b \<longleftrightarrow> a + sz h a \<le> b \<or> b + sz h b \<le> a"

text \<open>\<open>as\<close> are the free blocks in the order of their addresses, \<open>ls\<close> the allocated ones.\<close>

definition heap_ok :: "mm \<Rightarrow> int list \<Rightarrow> int list \<Rightarrow> bool" where
  "heap_ok h as ls \<longleftrightarrow> 0 < base h \<and> as \<noteq> [] \<and> sorted_wrt (\<lambda>a b. a + sz h a < b) as \<and> ring (h_next h) as \<and>
     free_node h \<in> set as \<and>
     (\<forall>a \<in> set as \<union> set ls. 0 \<le> a \<and> 0 < sz h a \<and> a + sz h a \<le> uint (header_blocks h)) \<and>
     distinct ls \<and> (\<forall>l \<in> set ls. (\<forall>a \<in> set as. dblk h l a) \<and> (\<forall>l' \<in> set ls. l \<noteq> l' \<longrightarrow> dblk h l l')) \<and>
     (\<Sum>a \<leftarrow> as. sz h a) + (\<Sum>l \<leftarrow> ls. sz h l) = uint (header_blocks h)"

lemma heap_okD:
  assumes "heap_ok h as ls"
  shows "0 < base h" "as \<noteq> []" "sorted_wrt (\<lambda>a b. a + sz h a < b) as" "ring (h_next h) as" "free_node h \<in> set as"
    "\<And>a. a \<in> set as \<Longrightarrow> 0 \<le> a \<and> 0 < sz h a \<and> a + sz h a \<le> uint (header_blocks h)"
    "\<And>l. l \<in> set ls \<Longrightarrow> 0 \<le> l \<and> 0 < sz h l \<and> l + sz h l \<le> uint (header_blocks h)"
    "distinct ls" "\<And>l a. l \<in> set ls \<Longrightarrow> a \<in> set as \<Longrightarrow> dblk h l a"
    "\<And>l l'. l \<in> set ls \<Longrightarrow> l' \<in> set ls \<Longrightarrow> l \<noteq> l' \<Longrightarrow> dblk h l l'"
    "(\<Sum>a \<leftarrow> as. sz h a) + (\<Sum>l \<leftarrow> ls. sz h l) = uint (header_blocks h)"
  using assms unfolding heap_ok_def by blast+

lemma sorted_distinct:
  "sorted_wrt (\<lambda>a b. a + sz h a < b) as \<Longrightarrow> \<forall>a \<in> set as. 0 < sz h a \<Longrightarrow> sorted_wrt (<) as \<and> distinct as"
  by (induction as) force+

lemma heap_ok_distinct: "heap_ok h as ls \<Longrightarrow> sorted_wrt (<) as \<and> distinct as"
  using sorted_distinct [of h as] heap_okD(3,6) by blast

section \<open>The search of malloc\<close>

lemma uint_ucast_u32 [simp]: "uint (ucast (w :: u32) :: u64) = uint w"
proof -
  have "uint w < 2 ^ LENGTH(32)" by (rule unsigned_less)
  then have "uint w < 2 ^ 64" by (rule less_trans) simp
  then have "take_bit 64 (uint w) = uint w" by (intro take_bit_int_eq_self) simp_all
  then show ?thesis by (simp add: unsigned_ucast_eq)
qed

lemma fits_iff: "(ucast (h_size h c) :: u64) \<ge> blocks \<longleftrightarrow> uint blocks \<le> sz h c"
  by (simp add: word_le_def sz_def)

lemma malloc_loop_none:
  "chain (h_next h) (p # vs) \<Longrightarrow> vs \<noteq> [] \<Longrightarrow> last vs = free_node h \<Longrightarrow> free_node h \<notin> set (butlast vs) \<Longrightarrow>
     \<forall>v \<in> set vs. sz h v < uint blocks \<Longrightarrow> malloc_loop blocks p (hd vs) h = Some (None, h)"
proof (induction vs arbitrary: p)
  case (Cons v vs)
  have "\<not> uint blocks \<le> sz h v" using Cons.prems(5) by auto
  note small = this [folded fits_iff]
  show ?case
  proof (cases vs)
    case Nil
    then show ?thesis using small Cons.prems(3) by (subst malloc_loop.simps) simp
  next
    case (Cons w ws)
    then have "malloc_loop blocks v (hd vs) h = Some (None, h)" "v \<noteq> free_node h" "h_next h v = w"
      using Cons.IH [of v] Cons.prems by auto
    then show ?thesis using small Cons by (subst malloc_loop.simps) simp
  qed
qed simp

lemma malloc_loop_found:
  "chain (h_next h) (p # us @ c # ws) \<Longrightarrow> free_node h \<notin> set us \<Longrightarrow> \<forall>v \<in> set us. sz h v < uint blocks \<Longrightarrow>
     uint blocks \<le> sz h c \<Longrightarrow> malloc_loop blocks p (hd (us @ [c])) h =
       (let (r, h') = take_block blocks (last (p # us)) c h in Some (Some r, h'))"
proof (induction us arbitrary: p)
  case Nil
  then show ?case by (subst malloc_loop.simps) (simp add: fits_iff)
next
  case (Cons v vs)
  have "\<not> uint blocks \<le> sz h v" using Cons.prems(3) by auto
  moreover have "h_next h v = hd (vs @ [c])" using Cons.prems(1) by (cases vs) auto
  moreover have "malloc_loop blocks v (hd (vs @ [c])) h = (let (r, h') = take_block blocks (last (v # vs)) c h in Some (Some r, h'))"
    using Cons.prems by (intro Cons.IH) auto
  ultimately show ?case using Cons.prems(2) by (subst malloc_loop.simps) (simp add: fits_iff)
qed

text \<open>In a well-formed heap the search ends: there is no block that is large enough, or it takes one that is, and
  passes its predecessor in the ring.\<close>

lemma malloc_search:
  assumes "heap_ok h as ls"
  shows "malloc_loop blocks (free_node h) (h_next h (free_node h)) h = Some (None, h) \<and> (\<forall>a \<in> set as. sz h a < uint blocks) \<or>
    (\<exists>c p. c \<in> set as \<and> p \<in> set as \<and> h_next h p = c \<and> uint blocks \<le> sz h c \<and>
       malloc_loop blocks (free_node h) (h_next h (free_node h)) h =
         (let (r, h') = take_block blocks p c h in Some (Some r, h')))"
proof -
  let ?f = "free_node h"
  obtain xs ys where as: "as = xs @ ?f # ys" using heap_okD(5) [OF assms] by (auto dest: split_list)
  let ?vs = "ys @ xs @ [?f]"
  have d: "?f \<notin> set ys" "?f \<notin> set xs" using heap_ok_distinct [OF assms] by (auto simp: as)
  have "ring (h_next h) ((?f # ys) @ xs)" using heap_okD(4) [OF assms] ring_rotate [of _ xs "?f # ys"] by (simp add: as)
  then have ch: "chain (h_next h) (?f # ?vs)" by (simp add: ring_Cons)
  have set: "set ?vs = set as" by (auto simp: as)
  have hd: "h_next h ?f = hd ?vs" using ch by (cases ys; cases xs; auto)
  show ?thesis
  proof (cases "\<forall>v \<in> set ?vs. sz h v < uint blocks")
    case True
    have "malloc_loop blocks ?f (hd ?vs) h = Some (None, h)"
      by (rule malloc_loop_none [OF ch]) (use d True in \<open>auto simp: butlast_append\<close>)
    moreover have "\<forall>a \<in> set as. sz h a < uint blocks" using True unfolding set .
    ultimately show ?thesis using hd by metis
  next
    case False
    then have "\<exists>v \<in> set ?vs. uint blocks \<le> sz h v" by (simp only: not_less ball_simps)
    from split_list_first_prop [OF this] obtain us c ws where
      vs: "?vs = us @ c # ws" "uint blocks \<le> sz h c" "\<forall>v \<in> set us. \<not> uint blocks \<le> sz h v" by blast
    then have small: "\<forall>v \<in> set us. sz h v < uint blocks" by (simp only: not_le)
    have fus: "?f \<notin> set us"
    proof
      assume f: "?f \<in> set us"
      then obtain u1 u2 where us: "us = u1 @ ?f # u2" by (auto dest: split_list)
      have "distinct ?vs" using heap_ok_distinct [OF assms] by (auto simp: as)
      then have "?f \<notin> set (u2 @ c # ws)" by (simp only: vs(1) us) auto
      moreover have "last ?vs = ?f" by simp
      then have "last (u2 @ c # ws) = ?f" unfolding vs(1) us by simp
      ultimately show False using last_in_set [of "u2 @ c # ws"] by auto
    qed
    have "malloc_loop blocks ?f (hd (us @ [c])) h =
        (let (r, h') = take_block blocks (last (?f # us)) c h in Some (Some r, h'))"
      by (rule malloc_loop_found [of _ _ _ _ ws]) (use ch vs(1,2) small fus in simp_all)
    moreover have "hd (us @ [c]) = hd ?vs" unfolding vs(1) by (cases us) auto
    ultimately have eq: "malloc_loop blocks ?f (h_next h ?f) h =
        (let (r, h') = take_block blocks (last (?f # us)) c h in Some (Some r, h'))" using hd by simp
    have in_as: "last (?f # us) \<in> set as" 
    proof -
      have "set us \<subseteq> set as" unfolding set [symmetric] vs(1) by auto
      then show ?thesis using heap_okD(5) [OF assms] by (auto simp: last_in_set subset_iff)
    qed
    have "?f # us = butlast (?f # us) @ [last (?f # us)]" by (rule append_butlast_last_id [symmetric]) simp
    then have "?f # ?vs = butlast (?f # us) @ last (?f # us) # c # ws" unfolding vs(1) by simp
    with ch have "chain (h_next h) (last (?f # us) # c # ws)"
      using chain_append [of "h_next h" "butlast (?f # us)" "last (?f # us)" "c # ws"] by simp
    then have "h_next h (last (?f # us)) = c" by simp
    moreover have "c \<in> set as" unfolding set [symmetric] vs(1) by simp
    ultimately show ?thesis using eq in_as vs(2) by blast
  qed
qed

section \<open>Taking a block\<close>

lemma sz_frame [simp]: "sz (h\<lparr>h_next := n\<rparr>) = sz h" "sz (h\<lparr>free_node := f\<rparr>) = sz h"
  by (simp_all add: sz_def fun_eq_iff)

lemma dblk_frame [simp]: "dblk (h\<lparr>h_next := n\<rparr>) = dblk h" "dblk (h\<lparr>free_node := f\<rparr>) = dblk h"
  by (simp_all add: dblk_def fun_eq_iff)

lemma sorted_wrt_remove1: "sorted_wrt P xs \<Longrightarrow> sorted_wrt P (remove1 x xs)"
proof (induction xs)
  case (Cons a xs)
  then show ?case using set_remove1_subset [of x xs] by auto
qed simp

lemma take_exact:
  assumes "heap_ok h as ls" "c \<in> set as" "p \<in> set as" "h_next h p = c" "as \<noteq> [c]"
  shows "heap_ok (h\<lparr>h_next := (h_next h)(p := h_next h c), free_node := p\<rparr>) (remove1 c as) (c # ls)"
proof -
  note d = heap_okD [OF assms(1)]
  have dist: "distinct as" using heap_ok_distinct [OF assms(1)] by simp
  obtain xs ys where as: "as = xs @ c # ys" using assms(2) by (auto dest: split_list)
  have zs: "ys @ xs \<noteq> []" using assms(5) by (auto simp: as)
  have r: "ring (h_next h) (c # ys @ xs)" using d(4) ring_rotate [of _ xs "c # ys"] by (simp add: as)
  have p: "p = last (ys @ xs)"
    using ring_pred [OF r, of p] assms(3,4) dist zs by (auto simp: as)
  have "ring ((h_next h)(p := h_next h c)) (ys @ xs)"
    unfolding p by (rule ring_remove [OF r zs]) (use dist in \<open>auto simp: as\<close>)
  then have ring: "ring ((h_next h)(p := h_next h c)) (remove1 c as)"
    using dist ring_rotate [of _ xs ys] by (simp add: as remove1_append)
  have set: "set (remove1 c as) = set as - {c}" using dist by (rule set_remove1_eq)
  have pc: "p \<noteq> c" using p zs dist last_in_set [OF zs] by (auto simp: as)
  have dc: "dblk h c a" if "a \<in> set as" "a \<noteq> c" for a
    using d(3) that by (force simp: as sorted_wrt_append dblk_def)
  have sum: "(\<Sum>a \<leftarrow> remove1 c as. sz h a) + sz h c = (\<Sum>a \<leftarrow> as. sz h a)"
    using sum_list_map_remove1 [OF assms(2), of "sz h"] by simp
  have sym: "dblk h a b = dblk h b a" for a b by (auto simp: dblk_def)
  show ?thesis
    unfolding heap_ok_def
  proof (intro conjI)
    show "remove1 c as \<noteq> []" using set assms(3) pc by (metis Diff_iff empty_iff empty_set singletonD)
    show "sorted_wrt (\<lambda>a b. a + sz (h\<lparr>h_next := (h_next h)(p := h_next h c), free_node := p\<rparr>) a < b) (remove1 c as)"
      using sorted_wrt_remove1 [OF d(3)] by simp
    show "distinct (c # ls)" using d(6,8,9) assms(2) by (fastforce simp: dblk_def)
  qed (use d(1,6-11) set ring assms(2,3) pc dc sum sym in \<open>auto simp: dblk_def\<close>)
qed

text \<open>The tail of a larger block.\<close>

definition cut_tail :: "int \<Rightarrow> u32 \<Rightarrow> int \<Rightarrow> mm \<Rightarrow> mm" where
  "cut_tail c n p h = h\<lparr>h_size := (h_size h)(c := h_size h c - n, c + sz h c - uint n := n), free_node := p\<rparr>"

lemma sz_cut_tail:
  assumes "uint n < sz h c"
  shows "sz (cut_tail c n p h) = (sz h)(c := sz h c - uint n, c + sz h c - uint n := uint n)"
proof -
  have "uint (h_size h c - n) = uint (h_size h c) - uint n"
    using assms uint_sub_lem [of n "h_size h c"] by (simp add: sz_def)
  then show ?thesis by (simp add: sz_def cut_tail_def fun_eq_iff)
qed

lemma take_split:
  assumes "heap_ok h as ls" "c \<in> set as" "p \<in> set as" "0 < uint n" "uint n < sz h c"
  shows "heap_ok (cut_tail c n p h) as ((c + sz h c - uint n) # ls)"
proof -
  note d = heap_okD [OF assms(1)]
  let ?t = "c + sz h c - uint n"
  have dist: "distinct as" using heap_ok_distinct [OF assms(1)] by simp
  have apart: "a + sz h a < c \<or> c + sz h c < a" if "a \<in> set as" "a \<noteq> c" for a
    using d(3) that assms(2) by (auto simp: sorted_wrt_iff_nth_less in_set_conv_nth) (metis linorder_neqE_nat)
  have t: "?t \<notin> set as" "?t \<noteq> c"
    using apart assms(4,5) d(6) by force+
  have tl: "?t \<notin> set ls" "c \<notin> set ls"
    using d(7) d(9) [OF _ assms(2)] assms(4,5) by (force simp: dblk_def)+
  have sa: "sz (cut_tail c n p h) a = (if a = c then sz h c - uint n else sz h a)" if "a \<in> set as" for a
    using that t by (auto simp: sz_cut_tail [OF assms(5)])
  have sl: "sz (cut_tail c n p h) l = sz h l" if "l \<in> set ls" for l
    using that tl by (auto simp: sz_cut_tail [OF assms(5)])
  have st: "sz (cut_tail c n p h) ?t = uint n" using t(2) by (simp add: sz_cut_tail [OF assms(5)])
  obtain xs ys where as: "as = xs @ c # ys" using assms(2) by (auto dest: split_list)
  have "(\<Sum>a \<leftarrow> as. sz (cut_tail c n p h) a) = (\<Sum>a \<leftarrow> as. sz h a) - uint n"
  proof -
    have m: "map (sz (cut_tail c n p h)) xs = map (sz h) xs" "map (sz (cut_tail c n p h)) ys = map (sz h) ys"
      using sa dist by (auto simp: as)
    have "sz (cut_tail c n p h) c = sz h c - uint n" using sa [OF assms(2)] by simp
    then show ?thesis unfolding as map_append list.map m by simp
  qed
  moreover have "(\<Sum>l \<leftarrow> ls. sz (cut_tail c n p h) l) = (\<Sum>l \<leftarrow> ls. sz h l)"
    using sl by (simp cong: map_cong)
  ultimately have sum: "(\<Sum>a \<leftarrow> as. sz (cut_tail c n p h) a) + (\<Sum>l \<leftarrow> ?t # ls. sz (cut_tail c n p h) l) = uint (header_blocks h)"
    using d(11) st by simp
  have sorted: "sorted_wrt (\<lambda>a b. a + sz (cut_tail c n p h) a < b) as"
    by (rule sorted_wrt_mono_rel [OF _ d(3)]) (use sa assms(4) in \<open>auto split: if_splits\<close>)
  have out: "dblk (cut_tail c n p h) ?t a" if "a \<in> set as" for a
    using apart [OF that] sa [OF that] st assms(4,5) by (auto simp: dblk_def)
  have live: "dblk (cut_tail c n p h) l a" if "l \<in> set ls" "a \<in> set as" for l a
    using d(9) [OF that] sa [OF that(2)] sl [OF that(1)] assms(4) by (auto simp: dblk_def)
  have new: "dblk (cut_tail c n p h) ?t l" if "l \<in> set ls" for l
    using d(9) [OF that assms(2)] sl [OF that] st assms(4,5) by (auto simp: dblk_def)
  have sym: "dblk h' a b = dblk h' b a" for h' a b by (auto simp: dblk_def)
  have rest: "dblk (cut_tail c n p h) l l'" if "l \<in> set ls" "l' \<in> set ls" "l \<noteq> l'" for l l'
    using d(10) [OF that] sl that(1,2) by (simp add: dblk_def)
  have frame: "base (cut_tail c n p h) = base h" "h_next (cut_tail c n p h) = h_next h" "free_node (cut_tail c n p h) = p"
    "header_blocks (cut_tail c n p h) = header_blocks h" by (simp_all add: cut_tail_def)
  have inside: "0 \<le> a \<and> 0 < sz (cut_tail c n p h) a \<and> a + sz (cut_tail c n p h) a \<le> uint (header_blocks h)"
    if "a \<in> set as \<union> set (?t # ls)" for a
    using that d(6,7) sa sl st assms(2,4,5) by (auto split: if_splits) fastforce+
  show ?thesis
    unfolding heap_ok_def frame
  proof (intro conjI)
    show "\<forall>l \<in> set (?t # ls). (\<forall>a \<in> set as. dblk (cut_tail c n p h) l a) \<and>
        (\<forall>l' \<in> set (?t # ls). l \<noteq> l' \<longrightarrow> dblk (cut_tail c n p h) l l')"
      using out live new rest sym by auto
    show "distinct (?t # ls)" using tl(1) d(8) by simp
    show "\<forall>a \<in> set as \<union> set (?t # ls). 0 \<le> a \<and> 0 < sz (cut_tail c n p h) a \<and> a + sz (cut_tail c n p h) a \<le> uint (header_blocks h)"
      using inside by blast
  qed (use d(1,2,4) assms(3) sorted sum in simp_all)
qed

end
