(* ===== verification/MallocFree.thy ===== *)
theory MallocFree
  imports MallocRing
begin

text \<open>
  \<open>free\<close> of \<open>memoryManager.c\<close>: the search for the place of a block, and the insertion into the ring followed by
  the union with its neighbours, each of which keeps the heap well formed.
\<close>

section \<open>Heaps whose free blocks may touch\<close>

definition heap_pre :: "mm \<Rightarrow> int list \<Rightarrow> int list \<Rightarrow> bool" where
  "heap_pre h as ls \<longleftrightarrow> 0 < base h \<and> sorted_wrt (\<lambda>a b. a + sz h a \<le> b) as \<and> ring (h_next h) as \<and>
     free_node h \<in> set as \<and>
     (\<forall>a \<in> set as \<union> set ls. 0 \<le> a \<and> 0 < sz h a \<and> a + sz h a \<le> uint (header_blocks h)) \<and>
     distinct ls \<and> (\<forall>l \<in> set ls. (\<forall>a \<in> set as. dblk h l a) \<and> (\<forall>l' \<in> set ls. l \<noteq> l' \<longrightarrow> dblk h l l')) \<and>
     (\<Sum>a \<leftarrow> as. sz h a) + (\<Sum>l \<leftarrow> ls. sz h l) = uint (header_blocks h)"

definition touching :: "mm \<Rightarrow> int list \<Rightarrow> bool" where
  "touching h as \<longleftrightarrow> (\<exists>a \<in> set as. \<exists>c \<in> set as. a + sz h a = c)"

lemma heap_preD:
  assumes "heap_pre h as ls"
  shows "0 < base h" "sorted_wrt (\<lambda>a b. a + sz h a \<le> b) as" "ring (h_next h) as" "free_node h \<in> set as"
    "\<And>a. a \<in> set as \<Longrightarrow> 0 \<le> a \<and> 0 < sz h a \<and> a + sz h a \<le> uint (header_blocks h)"
    "\<And>l. l \<in> set ls \<Longrightarrow> 0 \<le> l \<and> 0 < sz h l \<and> l + sz h l \<le> uint (header_blocks h)"
    "distinct ls" "\<And>l a. l \<in> set ls \<Longrightarrow> a \<in> set as \<Longrightarrow> dblk h l a"
    "\<And>l l'. l \<in> set ls \<Longrightarrow> l' \<in> set ls \<Longrightarrow> l \<noteq> l' \<Longrightarrow> dblk h l l'"
    "(\<Sum>a \<leftarrow> as. sz h a) + (\<Sum>l \<leftarrow> ls. sz h l) = uint (header_blocks h)"
  using assms unfolding heap_pre_def by blast+

lemma sorted_touching:
  "\<forall>a \<in> set as. 0 < sz h a \<Longrightarrow>
     sorted_wrt (\<lambda>a b. a + sz h a < b) as \<longleftrightarrow> sorted_wrt (\<lambda>a b. a + sz h a \<le> b) as \<and> \<not> touching h as"
proof (induction as)
  case Nil
  then show ?case by (simp add: touching_def)
next
  case (Cons a as)
  have "touching h (a # as) \<longleftrightarrow> touching h as \<or> (\<exists>c \<in> set as. a + sz h a = c)" if "\<forall>c \<in> set as. a + sz h a \<le> c"
  proof -
    have "c + sz h c \<noteq> a" if "c \<in> set (a # as)" for c
      using that \<open>\<forall>c \<in> set as. a + sz h a \<le> c\<close> Cons.prems by fastforce
    then show ?thesis by (auto simp: touching_def)
  qed
  moreover have "(\<forall>c \<in> set as. a + sz h a < c) \<longleftrightarrow> (\<forall>c \<in> set as. a + sz h a \<le> c) \<and> \<not> (\<exists>c \<in> set as. a + sz h a = c)"
    by (auto simp: less_le)
  ultimately show ?case using Cons by auto
qed

lemma heap_ok_iff: "heap_ok h as ls \<longleftrightarrow> heap_pre h as ls \<and> \<not> touching h as"
  using sorted_touching [of as h] by (auto simp: heap_ok_def heap_pre_def)

lemma heap_pre_order:
  assumes "heap_pre h as ls" "a \<in> set as" "c \<in> set as" "a < c"
  shows "a + sz h a \<le> c"
proof -
  have "sorted_wrt (\<lambda>a b. a + sz h a \<le> b) as" "0 < sz h c" using heap_preD(2,5) [OF assms(1)] assms(3) by auto
  then show ?thesis using assms(2-4) by (induction as) auto
qed

lemma heap_pre_distinct:
  assumes "heap_pre h as ls"
  shows "sorted_wrt (<) as" "distinct as"
proof -
  have "sorted_wrt (\<lambda>a b. a + sz h a \<le> b) as" "\<forall>a \<in> set as. 0 < sz h a" using heap_preD(2,5) [OF assms] by auto
  then show "sorted_wrt (<) as" "distinct as" by (induction as) force+
qed

section \<open>Inserting and uniting\<close>

lemma ring_skip:
  assumes "ring n (u # v # zs)" "distinct (u # v # zs)"
  shows "ring (n(u := n v)) (u # zs)"
proof -
  have "ring n (v # zs @ [u])" using assms(1) ring_rotate [of n "[u]" "v # zs"] by simp
  from ring_remove [OF this] have "ring (n(u := n v)) (zs @ [u])" using assms(2) by auto
  then show ?thesis using ring_rotate [of _ zs "[u]"] by simp
qed

text \<open>The free block before \<open>b\<close> in the ring, when \<open>A\<close> are the free blocks below \<open>b\<close> and \<open>B\<close> those above.\<close>

lemma insert_pre:
  assumes "heap_pre h (A @ B) ls" "b \<in> set ls" "\<forall>a \<in> set A. a < b" "\<forall>a \<in> set B. b < a" "cur = last (B @ A)"
  shows "heap_pre (h\<lparr>h_next := (h_next h)(b := h_next h cur, cur := b), free_node := cur\<rparr>) (A @ b # B) (remove1 b ls)"
proof -
  note d = heap_preD [OF assms(1)]
  have ne: "B @ A \<noteq> []" using d(4) by auto
  then obtain Z where Z: "B @ A = Z @ [cur]" using assms(5) by (metis append_butlast_last_id)
  have dist: "distinct (cur # Z)" using heap_pre_distinct(2) [OF assms(1)] arg_cong [OF Z, of distinct] by auto
  have set: "set (cur # Z) = set A \<union> set B" using arg_cong [OF Z, of set] by auto
  have b: "b \<notin> set (cur # Z)" unfolding set using assms(3,4) by auto
  have "ring (h_next h) (cur # Z)"
    using d(3) ring_rotate [of "h_next h" A B] ring_rotate [of "h_next h" Z "[cur]"] by (simp add: Z)
  from ring_insert [OF this b dist] have "ring ((h_next h)(b := h_next h cur, cur := b)) (b # Z @ [cur])"
    using ring_rotate [of _ "[cur]" "b # Z"] by simp
  then have ring: "ring ((h_next h)(b := h_next h cur, cur := b)) (A @ b # B)"
    using ring_rotate [of _ "b # B" A] by (simp add: Z)
  have "a + sz h a \<le> b" if "a \<in> set A" for a using d(8) [OF assms(2), of a] assms(3) that d(6) [OF assms(2)] by (auto simp: dblk_def)
  moreover have "b + sz h b \<le> a" if "a \<in> set B" for a
    using d(8) [OF assms(2), of a] assms(4) that d(5) [of a] by (auto simp: dblk_def)
  ultimately have sorted: "sorted_wrt (\<lambda>a b. a + sz h a \<le> b) (A @ b # B)" using d(2) by (auto simp: sorted_wrt_append)
  have sub: "set (remove1 b ls) = set ls - {b}" using d(7) by simp
  have sum: "(\<Sum>l \<leftarrow> ls. sz h l) = sz h b + (\<Sum>l \<leftarrow> remove1 b ls. sz h l)"
    by (rule sum_list_map_remove1 [OF assms(2)])
  have live: "dblk h l b" if "l \<in> set ls" "l \<noteq> b" for l using d(9) [OF that(1) assms(2) that(2)] .
  have "cur \<in> set (A @ b # B)" using set by auto
  then show ?thesis
    unfolding heap_pre_def using d(1,5-10) assms(2) ring sorted sub sum live by (simp add: ball_Un)
qed

definition unite :: "int \<Rightarrow> int \<Rightarrow> mm \<Rightarrow> mm" where
  "unite u v h = h\<lparr>h_size := (h_size h)(u := h_size h u + h_size h v), h_next := (h_next h)(u := h_next h v)\<rparr>"

lemma unite_pre:
  assumes "heap_pre h (P @ u # v # Q) ls" "u + sz h u = v" "free_node h \<noteq> v"
  shows "heap_pre (unite u v h) (P @ u # Q) ls" "sz (unite u v h) = (sz h)(u := sz h u + sz h v)"
proof -
  note d = heap_preD [OF assms(1)]
  have dist: "distinct (P @ u # v # Q)" by (rule heap_pre_distinct(2) [OF assms(1)])
  have "uint (h_size h u) + uint (h_size h v) < 2 ^ 32"
    using d(5) [of v] d(5) [of u] assms(2) unsigned_less [of "header_blocks h", where 'a = int] by (simp add: sz_def)
  then have "uint (h_size h u + h_size h v) = uint (h_size h u) + uint (h_size h v)"
    using uint_add_lem [of "h_size h u" "h_size h v"] by simp
  then show s: "sz (unite u v h) = (sz h)(u := sz h u + sz h v)" by (auto simp: unite_def sz_def fun_eq_iff)
  have "ring (h_next h) (u # v # Q @ P)" using d(3) ring_rotate [of _ P "u # v # Q"] by simp
  from ring_skip [OF this] have "ring ((h_next h)(u := h_next h v)) (u # Q @ P)" using dist by auto
  then have ring: "ring ((h_next h)(u := h_next h v)) (P @ u # Q)" using ring_rotate [of _ P "u # Q"] by simp
  have u: "u \<notin> set ls" if "True" using d(8) [of u u] d(5) [of u] by (auto simp: dblk_def)
  have sl: "sz (unite u v h) l = sz h l" if "l \<in> set ls" for l using that u by (auto simp: s)
  have sumP: "(\<Sum>a \<leftarrow> P. sz (unite u v h) a) = (\<Sum>a \<leftarrow> P. sz h a)" "(\<Sum>a \<leftarrow> Q. sz (unite u v h) a) = (\<Sum>a \<leftarrow> Q. sz h a)"
    "(\<Sum>l \<leftarrow> ls. sz (unite u v h) l) = (\<Sum>l \<leftarrow> ls. sz h l)"
    by (rule arg_cong [of _ _ sum_list], rule map_cong, use dist sl in \<open>auto simp: s\<close>)+
  have sum: "(\<Sum>a \<leftarrow> P @ u # Q. sz (unite u v h) a) + (\<Sum>l \<leftarrow> ls. sz (unite u v h) l) = uint (header_blocks h)"
    using d(10) by (simp add: sumP) (simp add: s)
  have "sorted_wrt (\<lambda>a b. a + sz (unite u v h) a \<le> b) (P @ u # Q)"
    using d(2) dist assms(2) by (auto simp: sorted_wrt_append s elim!: sorted_wrt_mono_rel [rotated])
  moreover have "dblk (unite u v h) l a" if "l \<in> set ls" "a \<in> set (P @ u # Q)" for l a
  proof (cases "a = u")
    case True
    then show ?thesis
      using d(8) [OF that(1), of u] d(8) [OF that(1), of v] d(6) [OF that(1)] d(5) [of u] sl [OF that(1)] assms(2)
      by (auto simp: dblk_def s)
  next
    case False
    then show ?thesis using d(8) [OF that(1), of a] sl [OF that(1)] that(2) by (auto simp: dblk_def s)
  qed
  moreover have "dblk (unite u v h) l l'" if "l \<in> set ls" "l' \<in> set ls" "l \<noteq> l'" for l l'
    using d(9) [OF that] sl that(1,2) by (simp add: dblk_def)
  moreover have "0 \<le> a \<and> 0 < sz (unite u v h) a \<and> a + sz (unite u v h) a \<le> uint (header_blocks h)"
    if "a \<in> set (P @ u # Q) \<union> set ls" for a
    using that d(5) [of a] d(5) [of v] d(5) [of u] d(6) [of a] u assms(2) by (auto simp: s split: if_splits)
  moreover have frame: "base (unite u v h) = base h" "free_node (unite u v h) = free_node h"
    "header_blocks (unite u v h) = header_blocks h" "h_next (unite u v h) = (h_next h)(u := h_next h v)"
    by (simp_all add: unite_def)
  moreover have "free_node h \<in> set (P @ u # Q)" using d(4) assms(3) by auto
  ultimately show "heap_pre (unite u v h) (P @ u # Q) ls"
    unfolding heap_pre_def frame using d(1,7) ring sum by blast
qed

section \<open>The search of free\<close>

definition stops :: "mm \<Rightarrow> int \<Rightarrow> int \<Rightarrow> bool" where
  "stops h b a \<longleftrightarrow> (b > a \<and> b < h_next h a) \<or> a = b \<or> h_next h a = b \<or>
     (a \<ge> h_next h a \<and> (b > a \<or> b < h_next h a))"

lemma free_loop_walk:
  "chain (h_next h) vs \<Longrightarrow> cur \<in> set vs \<Longrightarrow> \<forall>a \<in> set vs. a \<noteq> cur \<longrightarrow> \<not> stops h b a \<Longrightarrow>
     free_loop b (hd vs) h = free_loop b cur h"
proof (induction vs)
  case (Cons v vs)
  show ?case
  proof (cases "v = cur")
    case False
    then obtain w ws where vs: "vs = w # ws" using Cons.prems(2) by (cases vs) auto
    have "\<not> stops h b v" using Cons.prems(3) False by simp
    then have "free_loop b v h = free_loop b (h_next h v) h"
      by (subst free_loop.simps) (auto simp: stops_def)
    moreover have "h_next h v = hd vs" using Cons.prems(1) vs by simp
    moreover have "free_loop b (hd vs) h = free_loop b cur h"
      using Cons.IH Cons.prems False vs by auto
    ultimately show ?thesis by simp
  qed simp
qed simp

lemma sorted_chain:
  "chain n xs \<Longrightarrow> sorted_wrt (<) xs \<Longrightarrow> a \<in> set xs \<Longrightarrow> a \<noteq> last xs \<Longrightarrow> n a \<in> set xs \<and> a < n a"
proof (induction n xs rule: chain.induct)
  case (1 n x y zs)
  then show ?case by auto
qed auto

lemma sorted_hd_last: "sorted_wrt (<) (xs :: int list) \<Longrightarrow> xs \<noteq> [] \<Longrightarrow> hd xs \<le> last xs"
  using last_in_set by (cases xs) (auto simp: less_le)

lemma sorted_last: "sorted_wrt (<) (xs :: int list) \<Longrightarrow> a \<in> set xs \<Longrightarrow> a \<noteq> last xs \<Longrightarrow> a < last xs"
  by (induction xs) (auto split: if_splits)

text \<open>For a block \<open>b\<close> that is not free, the search from anywhere in the ring ends at the free block before it.\<close>

lemma free_search:
  assumes "heap_pre h (A @ B) ls" "\<forall>a \<in> set A. a < b" "\<forall>a \<in> set B. b < a" "cur = last (B @ A)"
  shows "free_loop b (free_node h) h = Some (Some (cur, A = [] \<or> B = []))" "cur \<in> set (A @ B)"
    "h_next h cur = hd (B @ A)"
proof -
  note d = heap_preD [OF assms(1)]
  have ne: "B @ A \<noteq> []" using d(4) by auto
  have r: "ring (h_next h) (B @ A)" using d(3) ring_rotate [of "h_next h" A B] by simp
  have sorted: "sorted_wrt (<) A" "sorted_wrt (<) B"
    using heap_pre_distinct(1) [OF assms(1)] by (auto simp: sorted_wrt_append)
  have ring: "chain (h_next h) ((B @ A) @ [hd (B @ A)])" using r ne by (cases "B @ A") (auto simp: ring_def)
  define X y where "X = butlast (B @ A)" and "y = hd (B @ A)"
  have BA: "B @ A = X @ [cur]" using ne assms(4) by (simp add: X_def)
  have "chain (h_next h) (X @ cur # [y])" using ring unfolding y_def [symmetric] unfolding BA by simp
  then have nx: "h_next h cur = hd (B @ A)" "chain (h_next h) (X @ [cur])"
    using chain_append [of "h_next h" X cur "[y]"] by (simp_all add: y_def)
  then have ch: "chain (h_next h) (B @ A)" by (simp only: BA)
  have chA: "chain (h_next h) A" and chB: "chain (h_next h) B" and between: "A \<noteq> [] \<Longrightarrow> B \<noteq> [] \<Longrightarrow> h_next h (last B) = hd A"
  proof -
    show "chain (h_next h) A"
    proof (cases A)
      case (Cons x xs)
      then show ?thesis using ch chain_append [of "h_next h" B x xs] by simp
    qed simp
    show "chain (h_next h) B"
    proof (cases B rule: rev_cases)
      case (snoc ys y)
      then show ?thesis using ch chain_append [of "h_next h" ys y A] by simp
    qed simp
    assume "A \<noteq> []" "B \<noteq> []"
    then have "B @ A = butlast B @ last B # hd A # tl A" by simp
    then show "h_next h (last B) = hd A"
      using ch chain_append [of "h_next h" "butlast B" "last B" "hd A # tl A"] by simp
  qed
  show "cur \<in> set (A @ B)" using last_in_set [OF ne] assms(4) by auto
  have others: "\<not> stops h b a" if "a \<in> set (A @ B)" "a \<noteq> cur" for a
  proof (cases "a \<in> set A")
    case True
    then have "A \<noteq> []" by auto
    then have "a \<noteq> last A" using that(2) assms(4) by simp
    then have "h_next h a \<in> set A" "a < h_next h a" using sorted_chain [OF chA sorted(1) True] by auto
    then show ?thesis using assms(2) True by (auto simp: stops_def)
  next
    case False
    then have B: "a \<in> set B" using that(1) by simp
    show ?thesis
    proof (cases "a = last B")
      case True
      then have A: "A \<noteq> []" using that(2) assms(4) by auto
      then have "h_next h a \<in> set A" using between B True by (cases B) auto
      then show ?thesis using assms(2,3) B by (auto simp: stops_def)
    next
      case False
      then have "h_next h a \<in> set B" "a < h_next h a" using sorted_chain [OF chB sorted(2) B] by auto
      then show ?thesis using assms(3) B by (auto simp: stops_def)
    qed
  qed
  obtain xs ys where as: "A @ B = xs @ free_node h # ys" using split_list [OF d(4)] by blast
  have "ring (h_next h) (free_node h # ys @ xs)" using d(3) ring_rotate [of "h_next h" xs "free_node h # ys"] by (simp add: as)
  then have c: "chain (h_next h) ((free_node h # ys @ xs) @ [free_node h])" by (simp add: ring_Cons)
  have set: "set ((free_node h # ys @ xs) @ [free_node h]) = set (A @ B)" unfolding as by auto
  have "free_loop b (hd ((free_node h # ys @ xs) @ [free_node h])) h = free_loop b cur h"
    by (rule free_loop_walk [OF c]) (use set others \<open>cur \<in> set (A @ B)\<close> in blast)+
  then have "free_loop b (free_node h) h = free_loop b cur h" by simp
  also have "\<dots> = Some (Some (cur, A = [] \<or> B = []))"
  proof -
    consider "A = []" "B \<noteq> []" | "A \<noteq> []" "B = []" | "A \<noteq> []" "B \<noteq> []" using ne by auto
    then show ?thesis
    proof cases
      case 1
      then have "b < cur" "b < h_next h cur" "h_next h cur \<le> cur"
        using assms(3,4) nx(1) last_in_set [of B] hd_in_set [of B] sorted_hd_last [OF sorted(2)] by auto
      then show ?thesis using 1 by (subst free_loop.simps) auto
    next
      case 2
      then have "cur < b" "h_next h cur < b" "h_next h cur \<le> cur"
        using assms(2,4) nx(1) last_in_set [of A] hd_in_set [of A] sorted_hd_last [OF sorted(1)] by auto
      then show ?thesis using 2 by (subst free_loop.simps) auto
    next
      case 3
      then have "cur < b" "b < h_next h cur"
        using assms(2-4) nx(1) last_in_set [of A] hd_in_set [of B] by auto
      then show ?thesis using 3 by (subst free_loop.simps) auto
    qed
  qed
  finally show "free_loop b (free_node h) h = Some (Some (cur, A = [] \<or> B = []))" .
  show "h_next h cur = hd (B @ A)" by (rule nx(1))
qed

section \<open>The end of free\<close>

text \<open>Linking \<open>b\<close> in and uniting it first with the block behind it, then with the one before it, is what the code
  does at once.\<close>

definition link :: "int \<Rightarrow> int \<Rightarrow> mm \<Rightarrow> mm" where
  "link b cur h = h\<lparr>h_next := (h_next h)(b := h_next h cur, cur := b), free_node := cur\<rparr>"

lemma join_link:
  assumes "cur \<noteq> b" "h_next h cur \<noteq> cur \<or> b + sz h b \<noteq> h_next h cur" "h_next h cur \<noteq> b"
  shows "(join_left b cur (join_right b cur h))\<lparr>free_node := cur\<rparr> =
     (let h1 = (if b + sz h b = h_next h cur then unite b (h_next h cur) (link b cur h) else link b cur h)
      in if cur + sz h cur = b then unite cur b h1 else h1)"
proof -
  have c: "sz (join_right b cur h) cur = sz h cur" using assms(1) by (simp add: join_right_def sz_def)
  show ?thesis
  proof (cases "b + sz h b = h_next h cur")
    case True
    then have "h_next h cur \<noteq> cur" using assms(2) by simp
    then show ?thesis
      using True assms(1,3) c
      by (intro mm.equality) (auto simp: join_left_def join_right_def unite_def link_def Let_def fun_eq_iff)
  next
    case False
    then show ?thesis
      using assms(1,3) c
      by (intro mm.equality) (auto simp: join_left_def join_right_def unite_def link_def Let_def fun_eq_iff)
  qed
qed

lemma sorted_split:
  "sorted_wrt (<) as \<Longrightarrow> b \<notin> set as \<Longrightarrow> as = filter (\<lambda>a. a < b) as @ filter (\<lambda>a. b < a) (as :: int list)"
proof (induction as)
  case (Cons a as)
  show ?case
  proof (cases "a < b")
    case True
    then show ?thesis using Cons by auto
  next
    case False
    then have "b < a" "\<forall>c \<in> set as. b < c" using Cons.prems by auto
    then have "filter (\<lambda>a. a < b) as = []" "filter (\<lambda>a. b < a) as = as"
      by (auto simp: filter_empty_conv filter_id_conv)
    then show ?thesis using \<open>b < a\<close> by simp
  qed
qed simp

text \<open>Everything \<open>free\<close> does with an allocated block.\<close>

lemma mem_free_ok:
  assumes "heap_ok h as ls" "b \<in> set ls" "\<not> (\<exists>a. as = [a] \<and> b + sz h b = a)"
  shows "\<exists>h' as'. mem_free (base h + 16 * (b + 1)) h = Some h' \<and> heap_ok h' as' (remove1 b ls) \<and>
     (\<forall>l \<in> set ls - {b}. sz h' l = sz h l) \<and> header_blocks h' = header_blocks h"
proof -
  have pre: "heap_pre h as ls" and nt: "\<not> touching h as" using assms(1) heap_ok_iff by auto
  note d = heap_preD [OF pre]
  have bpos: "0 < sz h b" "0 \<le> b" "b + sz h b \<le> uint (header_blocks h)" using d(6) [OF assms(2)] by auto
  have b: "b \<notin> set as" using d(8) [OF assms(2), of b] bpos by (auto simp: dblk_def)
  define A B where "A = filter (\<lambda>a. a < b) as" and "B = filter (\<lambda>a. b < a) as"
  have as: "as = A @ B" using sorted_split [OF heap_pre_distinct(1) [OF pre] b] by (simp add: A_def B_def)
  have AB: "\<forall>a \<in> set A. a < b" "\<forall>a \<in> set B. b < a" by (auto simp: A_def B_def)
  define cur where "cur = last (B @ A)"
  note search = free_search [OF pre [unfolded as] AB cur_def]
  have curb: "cur \<noteq> b" using search(2) b as by auto
  have ends: "a \<in> set A \<Longrightarrow> a + sz h a \<le> b" "a \<in> set B \<Longrightarrow> b + sz h b \<le> a" for a
    using d(8) [OF assms(2), of a] d(5) [of a] AB as bpos by (auto simp: dblk_def)
  define x where "x = h_next h cur"
  have x: "x = hd (B @ A)" by (simp add: x_def search(3))
  have xB: "b + sz h b = x \<Longrightarrow> B = x # tl B"
    using x AB(1) bpos d(4) as by (cases B; cases A) auto
  have curA: "cur + sz h cur = b \<Longrightarrow> A = butlast A @ [cur]"
    using AB(2) d(5) [of cur] search(2) as by (cases "A = []") (auto simp: cur_def)
  have curx: "b + sz h b = x \<Longrightarrow> cur \<noteq> x"
  proof
    assume right: "b + sz h b = x" and "cur = x"
    then have B: "B = x # tl B" using xB by simp
    have "x \<notin> set (tl B @ A)" using heap_pre_distinct(2) [OF pre] unfolding as by (subst (asm) B) auto
    moreover have "cur = last (x # tl B @ A)" unfolding cur_def by (subst B) simp
    ultimately have "tl B @ A = []" using \<open>cur = x\<close> last_in_set [of "tl B @ A"] by (auto split: if_splits)
    then have "as = [x]" using as B by simp
    then show False using assms(3) right by blast
  qed
  have xb: "x \<noteq> b" using ring_next [OF d(3), of cur] search(2) b as by (auto simp: x_def)
  let ?m = "base h + 16 * (b + 1)"
  have arg: "?m \<noteq> 0" "(?m - 16 - base h) mod 16 = 0" "(?m - 16 - base h) div 16 = b" "\<not> b < 0"
    "\<not> b \<ge> uint (header_blocks h) * 16"
    using d(1) bpos by auto
  have noover: "\<not> (\<not> (A = [] \<or> B = []) \<and> (cur + sz h cur > b \<or> b + sz h b > h_next h cur))"
  proof
    assume over: "\<not> (A = [] \<or> B = []) \<and> (cur + sz h cur > b \<or> b + sz h b > h_next h cur)"
    then have "cur = last A" "h_next h cur = hd B" using search(3) by (auto simp: cur_def)
    then show False using over ends(1) [OF last_in_set] ends(2) [OF hd_in_set] by auto
  qed
  define h0 where "h0 = link b cur h"
  define h1 where "h1 = (if b + sz h b = x then unite b x h0 else h0)"
  define h2 where "h2 = (if cur + sz h cur = b then unite cur b h1 else h1)"
  define B1 where "B1 = (if b + sz h b = x then tl B else B)"
  have "mem_free ?m h = Some ((join_left b cur (join_right b cur h))\<lparr>free_node := cur\<rparr>)"
    unfolding mem_free_def Let_def arg(3) search(1) using arg noover by auto
  moreover have "(join_left b cur (join_right b cur h))\<lparr>free_node := cur\<rparr> = h2"
    using curx xb curb by (subst join_link) (auto simp: h2_def h1_def h0_def x_def)
  ultimately have res: "mem_free ?m h = Some h2" by simp
  have p0: "heap_pre h0 (A @ b # B) (remove1 b ls)"
    unfolding h0_def link_def by (rule insert_pre [OF pre [unfolded as] assms(2) AB cur_def])
  have s0: "sz h0 = sz h" "free_node h0 = cur" by (simp_all add: h0_def link_def)
  have p1: "heap_pre h1 (A @ b # B1) (remove1 b ls)"
    and s1: "sz h1 = (if b + sz h b = x then (sz h)(b := sz h b + sz h x) else sz h)"
  proof -
    have "heap_pre (unite b x h0) (A @ b # tl B) (remove1 b ls) \<and> sz (unite b x h0) = (sz h)(b := sz h b + sz h x)"
      if right: "b + sz h b = x"
    proof -
      have "heap_pre h0 (A @ b # x # tl B) (remove1 b ls)" using p0 xB [OF right] by metis
      from unite_pre [OF this] show ?thesis using curx [OF right] right by (simp add: s0)
    qed
    then show "heap_pre h1 (A @ b # B1) (remove1 b ls)"
      "sz h1 = (if b + sz h b = x then (sz h)(b := sz h b + sz h x) else sz h)"
      using p0 s0 by (auto simp: h1_def B1_def)
  qed
  define as2 where "as2 = (if cur + sz h cur = b then A @ B1 else A @ b # B1)"
  have p2: "heap_pre h2 as2 (remove1 b ls)"
    and s2: "sz h2 = (if cur + sz h cur = b then (sz h1)(cur := sz h cur + sz h1 b) else sz h1)"
  proof -
    have "heap_pre (unite cur b h1) (A @ B1) (remove1 b ls) \<and> sz (unite cur b h1) = (sz h1)(cur := sz h cur + sz h1 b)"
      if left: "cur + sz h cur = b"
    proof -
      have "heap_pre h1 (butlast A @ cur # b # B1) (remove1 b ls)"
        using p1 curA [OF left] by (metis append.assoc append_Cons append_Nil)
      moreover have "cur + sz h1 cur = b" using left curb s1 by auto
      moreover have "free_node h1 \<noteq> b" using curb s0(2) by (auto simp: h1_def unite_def)
      ultimately have "heap_pre (unite cur b h1) (butlast A @ cur # B1) (remove1 b ls)"
        "sz (unite cur b h1) = (sz h1)(cur := sz h1 cur + sz h1 b)" using unite_pre by blast+
      then show ?thesis using curA [OF left] s1 curb by (metis append.assoc append_Cons append_Nil fun_upd_other)
    qed
    then show "heap_pre h2 as2 (remove1 b ls)"
      "sz h2 = (if cur + sz h cur = b then (sz h1)(cur := sz h cur + sz h1 b) else sz h1)"
      using p1 by (auto simp: h2_def as2_def)
  qed
  have gap: "b + sz h1 b \<notin> set as"
  proof (cases "b + sz h b = x")
    case True
    then have "x \<in> set as" using xB as by (metis UnCI list.set_intros(1) set_append)
    then have "x + sz h x \<notin> set as" using nt by (auto simp: touching_def)
    then show ?thesis using True by (simp add: s1 add.assoc [symmetric])
  next
    case False
    have "c = x" if c: "c \<in> set as" "b + sz h b = c" for c
    proof -
      have "c \<in> set B" using c AB(1) as bpos by auto
      moreover from this have "hd B \<le> c" "hd B \<in> set B" "x = hd B"
        using heap_pre_distinct(1) [OF pre] x by (cases B; auto simp: as sorted_wrt_append)+
      ultimately show ?thesis using ends(2) [of "hd B"] c(2) by simp
    qed
    then show ?thesis using False by (auto simp: s1)
  qed
  have before: "a = cur" if a: "a \<in> set as" "a + sz h a = b" for a
  proof (rule ccontr)
    assume ne: "a \<noteq> cur"
    have A: "a \<in> set A" using a AB(2) as d(5) [OF a(1)] by auto
    then have "A \<noteq> []" by auto
    then have "cur \<in> set A" "cur = last A" using last_in_set [of A] by (simp_all add: cur_def)
    moreover have "sorted_wrt (<) A" using heap_pre_distinct(1) [OF pre] by (simp add: as sorted_wrt_append)
    ultimately have "a < cur" using sorted_last [of A a] A ne by simp
    then have "a + sz h a \<le> cur" using heap_pre_order [OF pre a(1)] search(2) as by simp
    then show False using a(2) AB(1) \<open>cur \<in> set A\<close> by auto
  qed
  have "\<not> touching h2 as2"
  proof
    assume "touching h2 as2"
    then obtain a c where ac: "a \<in> set as2" "c \<in> set as2" "a + sz h2 a = c" by (auto simp: touching_def)
    have sub: "set as2 \<subseteq> insert b (set as)" "cur + sz h cur = b \<Longrightarrow> b \<notin> set as2"
    proof -
      have "set (tl B) \<subseteq> set B" by (cases B) auto
      then show "set as2 \<subseteq> insert b (set as)" "cur + sz h cur = b \<Longrightarrow> b \<notin> set as2"
        using b by (auto simp: as2_def B1_def as)
    qed
    have pos: "0 < sz h1 b" using heap_preD(5) [OF p1] by simp
    have c: "c = b \<or> c \<in> set as" "a = b \<or> a \<in> set as" using sub(1) ac(1,2) by blast+
    show False
    proof (cases "a = b \<or> a = cur \<and> cur + sz h cur = b")
      case True
      have "sz h2 a = (if a = b then sz h1 b else sz h cur + sz h1 b)" using True curb by (auto simp only: s2 fun_upd_apply split: if_splits)
      then have "c = b + sz h1 b" using True ac(3) sub(2) ac(1) by (auto split: if_splits)
      moreover have "c \<noteq> b" using calculation pos by simp
      ultimately show False using gap c(1) by simp
    next
      case False
      then have "sz h2 a = sz h a" by (auto simp only: s1 s2 fun_upd_apply split: if_splits)
      then have "a + sz h a = c" "a \<in> set as" using ac(3) c(2) False by auto
      then show False
        using c(1) before [of a] False nt sub(2) ac(2) unfolding touching_def by blast
    qed
  qed
  then have "heap_ok h2 as2 (remove1 b ls)" using p2 heap_ok_iff by blast
  moreover have "sz h2 l = sz h l" if "l \<in> set ls - {b}" for l
  proof -
    have "l \<notin> set as" using that d(5) d(6) [of l] d(8) [of l l] by (auto simp: dblk_def)
    then have "l \<noteq> cur" using search(2) as by auto
    then show ?thesis using that by (auto simp: s1 s2)
  qed
  moreover have "header_blocks h2 = header_blocks h" by (simp add: h2_def h1_def h0_def unite_def link_def)
  ultimately show ?thesis using res by blast
qed

end
