(* ===== verification/MallocSpec.thy ===== *)
theory MallocSpec
  imports MallocFree
begin

text \<open>
  What the allocator of \<open>memoryManager.c\<close> promises: blocks that are large enough, inside the heap and disjoint from
  every other block, no memory lost, and \<open>free\<close> that takes them back. And where it breaks the promise.
\<close>

lemma round_up: "x \<le> 16 * ((x + 15) div 16)" "16 * ((x + 15) div 16) < x + 16" for x :: int
  by presburger+

lemma round_range:
  "0 \<le> x \<Longrightarrow> x < 4294967296 \<Longrightarrow> (x + 15) div 16 + 1 < 4294967296 \<and> 0 < (x + 15) div 16 + 1 \<and>
     16 * ((x + 15) div 16 + 1) \<ge> x + 16" for x :: int
  by presburger

lemma unit_arith:
  fixes mem :: u64
  assumes "uint mem \<le> 2 ^ 64 - 16"
  shows "uint (units mem) = (uint mem + 15) div 16 + 1"
proof -
  have lt: "uint mem + 15 < 2 ^ 64" using assms by simp
  have "uint (mem + 15) = uint mem + 15" using uint_add_lem [of mem 15] lt by simp
  then have e: "uint ((mem + 15) div 16) = (uint mem + 15) div 16" by (simp add: uint_div_distrib)
  have "(uint mem + 15) div 16 < 2 ^ 60" using lt by simp
  then have "uint ((mem + 15) div 16 + 1) = (uint mem + 15) div 16 + 1"
    using uint_add_lem [of "(mem + 15) div 16" 1] e by simp
  then show ?thesis by (simp add: units_def add.commute add.left_commute)
qed

text \<open>The blocks \<open>malloc\<close> cuts.\<close>

lemma malloc_ok:
  assumes "heap_ok h as ls" "mem \<noteq> 0" "uint mem \<le> 2 ^ 64 - 16" "\<not> (\<exists>a. as = [a] \<and> sz h a = uint (units mem))"
  shows "malloc mem h = Some (0, h) \<and> (\<forall>a \<in> set as. sz h a < uint (units mem)) \<or>
    (\<exists>l h' as'. malloc mem h = Some (base h + 16 * (l + 1), h') \<and> base h' = base h \<and> l \<notin> set ls \<and> 0 \<le> l \<and>
       heap_ok h' as' (l # ls) \<and> sz h' l = uint (units mem) \<and> (\<forall>x \<in> set ls. sz h' x = sz h x))"
proof -
  note d = heap_okD [OF assms(1)]
  let ?n = "units mem"
  have "0 \<le> (uint mem + 15) div 16" by (rule pos_imp_zdiv_nonneg_iff [THEN iffD2]) simp_all
  then have n: "0 < uint ?n" using unit_arith [OF assms(3)] by simp
  show ?thesis
    using malloc_search [OF assms(1), of ?n]
  proof (elim disjE exE conjE)
    assume "malloc_loop ?n (free_node h) (h_next h (free_node h)) h = Some (None, h)" "\<forall>a \<in> set as. sz h a < uint ?n"
    then show ?thesis using assms(2) by (simp add: malloc_def)
  next
    fix c p assume c: "c \<in> set as" "p \<in> set as" "h_next h p = c" "uint ?n \<le> sz h c"
      "malloc_loop ?n (free_node h) (h_next h (free_node h)) h = (let (r, h') = take_block ?n p c h in Some (Some r, h'))"
    have small: "uint ?n < 2 ^ 32" using c(4) unsigned_less [of "h_size h c", where 'a = int] by (simp add: sz_def)
    then have n32: "uint (ucast ?n :: u32) = uint ?n" by (simp add: unsigned_ucast_eq take_bit_int_eq_self)
    have iff: "(ucast (h_size h c) :: u64) = ?n \<longleftrightarrow> sz h c = uint ?n"
      by (metis sz_def uint_ucast_u32 word_uint_eqI)
    show ?thesis
    proof (cases "sz h c = uint ?n")
      case True
      let ?h = "h\<lparr>h_next := (h_next h)(p := h_next h c), free_node := p\<rparr>"
      have "malloc mem h = Some (base h + 16 * (c + 1), ?h)"
        using c(5) True iff assms(2) by (simp add: malloc_def take_block_def)
      moreover have "heap_ok ?h (remove1 c as) (c # ls)"
        using take_exact [OF assms(1) c(1-3)] assms(4) True by auto
      moreover have "c \<notin> set ls" using calculation(2) heap_okD(8) by fastforce
      moreover have "0 \<le> c" using d(6) [OF c(1)] by simp
      ultimately show ?thesis using True by (intro disjI2 exI [of _ c] exI [of _ ?h] exI [of _ "remove1 c as"]) simp
    next
      case False
      let ?h = "cut_tail c (ucast ?n) p h" and ?l = "c + sz h c - uint ?n"
      have lt: "uint (ucast ?n :: u32) < sz h c" using False c(4) n32 by simp
      have rest: "uint (h_size h c - ucast ?n) = sz h c - uint ?n"
        using uint_sub_lem [of "ucast ?n" "h_size h c"] lt n32 by (simp add: sz_def)
      have "malloc mem h = Some (base h + 16 * (?l + 1), ?h)"
        using c(5) False iff assms(2) n32
        by (simp add: malloc_def take_block_def Let_def rest cut_tail_def add_diff_eq)
      moreover have ok: "heap_ok ?h as (?l # ls)"
        using take_split [OF assms(1) c(1,2) _ lt] n n32 by simp
      moreover have "?l \<notin> set ls" using heap_okD(8) [OF ok] by simp
      moreover have "0 \<le> ?l" using heap_okD(7) [OF ok, of ?l] by simp
      moreover have "sz ?h ?l = uint ?n" "\<forall>x \<in> set ls. sz ?h x = sz h x"
      proof -
        have "?l \<notin> set ls" "c \<notin> set ls" using heap_okD(8) [OF ok] d(9) [of c c] d(6) [OF c(1)] c(1) by (auto simp: dblk_def)
        then show "sz ?h ?l = uint ?n" "\<forall>x \<in> set ls. sz ?h x = sz h x"
          using lt n32 by (auto simp: sz_cut_tail)
      qed
      moreover have "base ?h = base h" by (simp add: cut_tail_def)
      ultimately show ?thesis by (intro disjI2 exI [of _ ?l] exI [of _ ?h] exI [of _ as]) simp
    qed
  qed
qed

text \<open>A heap for the examples: four units are free at the start, then an allocated block of three units, and three
  free units at the end.\<close>

definition sampleHeap :: mm where
  "sampleHeap = \<lparr>h_next = (\<lambda>_. 0)(0 := 7, 7 := 0), h_size = (\<lambda>_. 0)(0 := 4, 4 := 3, 7 := 3), base = 0x600000,
     free_node = 0, header_blocks = 10\<rparr>"

lemma sampleHeap_ok: "heap_ok sampleHeap [0, 7] [4]"
  by (simp add: heap_ok_def sampleHeap_def sz_def dblk_def ring_def)

text \<open>C27. \<open>malloc\<close> in a well-formed heap returns, and either every free block is too small and it returns \<open>NULL\<close> and
  changes nothing, or it returns a block that was free: the heap stays well formed with the new block allocated, so
  the block lies inside the heap and overlaps no other block, free or allocated, no memory is lost, and every block
  allocated before keeps its size. The block has room for all the bytes asked for and less than 16 more. The
  exceptions are a request near \<open>2 ^ 64\<close> bytes, whose number of units wraps around, and one that fits the only
  free block exactly.
\<close>

theorem malloc_allocates:
  assumes "heap_ok h as ls" "mem \<noteq> 0" "uint mem \<le> 2 ^ 64 - 16" "\<not> (\<exists>a. as = [a] \<and> sz h a = uint (units mem))"
  shows "malloc mem h = Some (0, h) \<and> (\<forall>a \<in> set as. 16 * sz h a < uint mem + 16) \<or>
    (\<exists>l h' as'. malloc mem h = Some (base h + 16 * (l + 1), h') \<and> heap_ok h' as' (l # ls) \<and> l \<notin> set ls \<and>
       uint mem \<le> 16 * (sz h' l - 1) \<and> 16 * (sz h' l - 1) < uint mem + 16 \<and> (\<forall>x \<in> set ls. sz h' x = sz h x))"
  using malloc_ok [OF assms]
proof (elim disjE exE conjE)
  assume none: "malloc mem h = Some (0, h)" "\<forall>a \<in> set as. sz h a < uint (units mem)"
  have "16 * sz h a < uint mem + 16" if "a \<in> set as" for a
    using bspec [OF none(2) that] unit_arith [OF assms(3)] by linarith
  then show ?thesis using none(1) by blast
next
  fix l h' as' assume l: "malloc mem h = Some (base h + 16 * (l + 1), h')" "heap_ok h' as' (l # ls)" "l \<notin> set ls"
    "sz h' l = uint (units mem)" "\<forall>x \<in> set ls. sz h' x = sz h x"
  have "uint mem \<le> 16 * (sz h' l - 1)" "16 * (sz h' l - 1) < uint mem + 16"
    using l(4) unit_arith [OF assms(3)] round_up [of "uint mem"] by simp_all
  then show ?thesis using l by blast
qed

theorem malloc_allocates_witness:
  "\<exists>p h' as'. malloc 20 sampleHeap = Some (p, h') \<and> heap_ok h' as' [(p - 0x600000) div 16 - 1, 4]"
proof -
  have n: "uint (units 20) = 3" "sz sampleHeap 7 = 3" using unit_arith [of 20] by (simp_all add: sampleHeap_def sz_def)
  from malloc_allocates [OF sampleHeap_ok, of 20]
  consider "\<forall>a \<in> set [0, 7]. 16 * sz sampleHeap a < 36" |
    l h' as' where "malloc 20 sampleHeap = Some (base sampleHeap + 16 * (l + 1), h')" "heap_ok h' as' [l, 4]" by auto
  then show ?thesis
  proof cases
    case 1
    then show ?thesis using n(2) by simp
  next
    case 2
    then show ?thesis
      by (intro exI [of _ "base sampleHeap + 16 * (l + 1)"] exI [of _ h'] exI [of _ as']) (simp add: sampleHeap_def)
  qed
qed

text \<open>C28. \<open>free\<close> of an allocated block returns and gives the block back: the heap is well formed without it, its units
  are free again (nothing is lost), no two free blocks touch because neighbours are united, and the other allocated
  blocks are as before. The exception is a block directly before the only free block.
\<close>

theorem free_releases:
  assumes "heap_ok h as ls" "l \<in> set ls" "\<not> (\<exists>a. as = [a] \<and> l + sz h l = a)"
  shows "\<exists>h' as'. mem_free (base h + 16 * (l + 1)) h = Some h' \<and> heap_ok h' as' (remove1 l ls) \<and>
     (\<Sum>a \<leftarrow> as'. sz h' a) = (\<Sum>a \<leftarrow> as. sz h a) + sz h l \<and> (\<forall>x \<in> set ls - {l}. sz h' x = sz h x)"
proof -
  obtain h' as' where r: "mem_free (base h + 16 * (l + 1)) h = Some h'" "heap_ok h' as' (remove1 l ls)"
    "\<forall>x \<in> set ls - {l}. sz h' x = sz h x" "header_blocks h' = header_blocks h"
    using mem_free_ok [OF assms] by blast
  have "set (remove1 l ls) = set ls - {l}" using heap_okD(8) [OF assms(1)] by simp
  then have "map (sz h') (remove1 l ls) = map (sz h) (remove1 l ls)" using r(3) by simp
  then have "(\<Sum>x \<leftarrow> remove1 l ls. sz h' x) = (\<Sum>x \<leftarrow> remove1 l ls. sz h x)" by (rule arg_cong)
  moreover have "(\<Sum>x \<leftarrow> ls. sz h x) = sz h l + (\<Sum>x \<leftarrow> remove1 l ls. sz h x)" by (rule sum_list_map_remove1 [OF assms(2)])
  ultimately have "(\<Sum>a \<leftarrow> as'. sz h' a) = (\<Sum>a \<leftarrow> as. sz h a) + sz h l"
    using heap_okD(11) [OF assms(1)] heap_okD(11) [OF r(2)] unfolding r(4) by linarith
  then show ?thesis using r by blast
qed

theorem free_releases_witness:
  "\<exists>h' as'. mem_free (0x600000 + 16 * 5) sampleHeap = Some h' \<and> heap_ok h' as' [] \<and> (\<Sum>a \<leftarrow> as'. sz h' a) = 10"
  using free_releases [OF sampleHeap_ok, of 4] by (auto simp: sampleHeap_def sz_def)

text \<open>C29. Where the allocator breaks. A request that fits the only free block exactly is granted, but the block stays on
  the free list: the same request again returns the same address, and two callers share the memory.
\<close>

theorem exact_fit_allocated_twice:
  assumes "heap_ok h [a] ls" "mem \<noteq> 0" "sz h a = uint (units mem)"
  shows "malloc mem h = Some (base h + 16 * (a + 1), h) \<and>
     (case malloc mem h of Some (p, h') \<Rightarrow> map_option fst (malloc mem h') = Some p | None \<Rightarrow> False)"
proof -
  note d = heap_okD [OF assms(1)]
  have a: "free_node h = a" "h_next h a = a" using d(4,5) by (simp_all add: ring_def)
  have "(ucast (h_size h a) :: u64) = units mem" by (rule word_uint_eqI) (use assms(3) in \<open>simp add: sz_def\<close>)
  moreover have idem: "h\<lparr>h_next := (h_next h)(a := a), free_node := a\<rparr> = h"
    by (rule mm.equality) (use a in \<open>auto simp: fun_eq_iff\<close>)
  ultimately have "malloc_loop (units mem) a a h = Some (Some (a + 1), h)"
    using a idem by (subst malloc_loop.simps) (simp add: take_block_def Let_def)
  then have "malloc mem h = Some (base h + 16 * (a + 1), h)" using assms(2) a by (simp add: malloc_def)
  then show ?thesis by simp
qed

theorem exact_fit_allocated_twice_witness:
  "malloc 16 (sampleHeap\<lparr>h_next := \<lambda>_. 0, h_size := (\<lambda>_. 0)(0 := 2, 2 := 8)\<rparr>) =
     Some (0x600010, sampleHeap\<lparr>h_next := \<lambda>_. 0, h_size := (\<lambda>_. 0)(0 := 2, 2 := 8)\<rparr>)"
proof -
  let ?h = "sampleHeap\<lparr>h_next := \<lambda>_. 0, h_size := (\<lambda>_. 0)(0 := 2, 2 := 8)\<rparr>"
  have "heap_ok ?h [0] [2]" by (simp add: heap_ok_def sampleHeap_def sz_def dblk_def ring_def)
  moreover have "sz ?h 0 = uint (units 16)" using unit_arith [of 16] by (simp add: sz_def)
  ultimately show ?thesis using exact_fit_allocated_twice [of ?h 0 "[2]" 16] by (simp add: sampleHeap_def)
qed

text \<open>After \<open>initializeMemoryManager\<close> the heap is one free block, and well formed; but it is one unit of 16 bytes
  longer than the memory it was given.\<close>

theorem initialize_one_unit_too_long:
  assumes "0 < heap_base" "heap_size \<noteq> 0"
  shows "heap_ok (initializeMemoryManager heap_base heap_size h) [0] [] \<and>
     16 * sz (initializeMemoryManager heap_base heap_size h) 0 \<ge> uint heap_size + 16"
proof -
  have lt: "uint heap_size < 2 ^ 32" using unsigned_less [of heap_size, where 'a = int] by simp
  let ?n = "(ucast heap_size + 16 - 1) div 16 + 1 :: u64"
  have "uint (ucast heap_size :: u64) \<le> 2 ^ 64 - 16" using lt by simp
  from unit_arith [OF this] have n: "uint ?n = (uint heap_size + 15) div 16 + 1" by (simp add: units_def)
  have b: "(uint heap_size + 15) div 16 + 1 < 2 ^ 32" "0 < (uint heap_size + 15) div 16 + 1"
    "16 * ((uint heap_size + 15) div 16 + 1) \<ge> uint heap_size + 16"
    using round_range [of "uint heap_size"] lt by simp_all
  have n32: "uint (ucast ?n :: u32) = (uint heap_size + 15) div 16 + 1"
    using n b by (simp add: unsigned_ucast_eq take_bit_int_eq_self)
  show ?thesis
    using assms(1) n32 b by (simp add: initializeMemoryManager_def heap_ok_def sz_def ring_def Let_def)
qed

theorem initialize_one_unit_too_long_witness:
  "heap_ok (initializeMemoryManager 0x600000 0x100000 sampleHeap) [0] [] \<and>
     16 * sz (initializeMemoryManager 0x600000 0x100000 sampleHeap) 0 \<ge> 0x100010"
  using initialize_one_unit_too_long [of "0x600000" "0x100000" sampleHeap] by simp

text \<open>C30. The second way it breaks. Freeing the block directly before the only free block unites the two, but leaves the
  free block on the ring, next to the larger block that contains it: the same units are free twice.
\<close>

theorem free_before_only_block_corrupts:
  assumes "heap_ok h [a] ls" "b \<in> set ls" "b + sz h b = a" "sz h b + sz h a < 2 ^ 32"
  shows "\<exists>h'. mem_free (base h + 16 * (b + 1)) h = Some h' \<and> free_node h' = a \<and> h_next h' a = b \<and> h_next h' b = a \<and>
     b < a \<and> sz h' a = sz h a \<and> b + sz h' b = a + sz h' a"
proof -
  note d = heap_okD [OF assms(1)]
  have pre: "heap_pre h ([] @ [a]) ls" using assms(1) heap_ok_iff by simp
  have b: "0 < sz h b" "0 \<le> b" "b + sz h b \<le> uint (header_blocks h)" using d(7) [OF assms(2)] by auto
  have ba: "b < a" using b(1) assms(3) by simp
  have search: "free_loop b (free_node h) h = Some (Some (a, True))" and nx: "h_next h a = a"
    using free_search [OF pre, of b a] ba by simp_all
  let ?m = "base h + 16 * (b + 1)"
  have "(?m - 16 - base h) div 16 = b" by simp
  then have "mem_free ?m h = Some ((join_left b a (join_right b a h))\<lparr>free_node := a\<rparr>)"
    using search d(1) b by (simp add: mem_free_def Let_def)
  moreover have r: "join_right b a h = h\<lparr>h_size := (h_size h)(b := h_size h b + h_size h a), h_next := (h_next h)(b := a)\<rparr>"
    using assms(3) nx by (simp add: join_right_def)
  moreover have "sz (join_right b a h) a = sz h a" using ba by (simp add: r sz_def)
  then have "join_left b a (join_right b a h) = (join_right b a h)\<lparr>h_next := (h_next (join_right b a h))(a := b)\<rparr>"
    using ba d(6) [of a] by (simp add: join_left_def)
  moreover have "uint (h_size h b + h_size h a) = uint (h_size h b) + uint (h_size h a)"
    using uint_add_lem [of "h_size h b" "h_size h a"] assms(4) by (simp add: sz_def)
  ultimately show ?thesis using ba assms(3) by (simp add: sz_def)
qed

theorem free_before_only_block_corrupts_witness:
  "map_option (\<lambda>h. (free_node h, h_next h 2, h_next h 0, sz h 2, sz h 0))
     (mem_free 0x600010 (sampleHeap\<lparr>h_next := \<lambda>_. 2, h_size := (\<lambda>_. 0)(0 := 2, 2 := 8), free_node := 2\<rparr>)) =
   Some (2, 0, 2, 8, 10)"
proof -
  let ?h = "sampleHeap\<lparr>h_next := \<lambda>_. 2, h_size := (\<lambda>_. 0)(0 := 2, 2 := 8), free_node := 2\<rparr>"
  have "heap_ok ?h [2] [0]" by (simp add: heap_ok_def sampleHeap_def sz_def dblk_def ring_def)
  from free_before_only_block_corrupts [OF this, of 0]
  obtain h' where "mem_free 0x600010 ?h = Some h'" "free_node h' = 2" "h_next h' 2 = 0" "h_next h' 0 = 2"
    "sz h' 2 = 8" "sz h' 0 = 2 + sz h' 2" by (auto simp: sampleHeap_def sz_def)
  then show ?thesis by simp
qed

text \<open>The sum over the ring.\<close>

lemma sum_ring_walk:
  "chain (h_next h) (vs @ [f]) \<Longrightarrow> vs \<noteq> [] \<Longrightarrow> f \<notin> set (tl vs) \<Longrightarrow>
     sum_ring f (hd vs) cant h = Some (cant + (\<Sum>v \<leftarrow> vs. h_size h v))"
proof (induction vs arbitrary: cant)
  case (Cons v vs)
  show ?case
  proof (cases vs)
    case Nil
    then show ?thesis using Cons.prems(1) by (subst sum_ring.simps) simp
  next
    case (Cons w ws)
    then have "h_next h v = w" "w \<noteq> f" "sum_ring f w (cant + h_size h v) h = Some (cant + h_size h v + (\<Sum>v \<leftarrow> vs. h_size h v))"
      using Cons.IH [of "cant + h_size h v"] Cons.prems by auto
    then show ?thesis by (subst sum_ring.simps) (simp add: add.assoc)
  qed
qed simp

lemma sum_ring_ok:
  assumes "heap_ok h as ls"
  shows "sum_ring (free_node h) (free_node h) 0 h = Some (of_int (\<Sum>a \<leftarrow> as. sz h a))"
proof -
  obtain xs ys where as: "as = xs @ free_node h # ys" using split_list [OF heap_okD(5) [OF assms]] by blast
  have "ring (h_next h) (free_node h # ys @ xs)" using heap_okD(4) [OF assms] ring_rotate [of _ xs "free_node h # ys"] by (simp add: as)
  then have "chain (h_next h) ((free_node h # ys @ xs) @ [free_node h])" by (simp add: ring_Cons)
  moreover have "free_node h \<notin> set (ys @ xs)" using heap_ok_distinct [OF assms] by (auto simp: as)
  ultimately have "sum_ring (free_node h) (free_node h) 0 h = Some (\<Sum>v \<leftarrow> free_node h # ys @ xs. h_size h v)"
    using sum_ring_walk [of h "free_node h # ys @ xs" "free_node h" 0] by simp
  moreover have "(\<Sum>v \<leftarrow> vs. h_size h v) = of_int (\<Sum>v \<leftarrow> vs. sz h v)" for vs
    by (induction vs) (simp_all add: sz_def)
  moreover have "of_int (sz h v) = h_size h v" for v by (simp add: sz_def)
  ultimately show ?thesis by (simp add: as add.commute add.left_commute)
qed

text \<open>\<open>getMemoryInfo\<close> ends, and when it gets the memory for its answer reports 16 bytes for every free unit (after
  the answer was allocated) and for every unit of the heap.\<close>

theorem memory_info_counts:
  assumes "heap_ok h as ls" "\<not> (\<exists>a. as = [a] \<and> sz h a = 2)"
  shows "getMemoryInfo h = Some (None, h) \<or>
     (\<exists>i h' as' l. getMemoryInfo h = Some (Some i, h') \<and> heap_ok h' as' (l # ls) \<and>
        uint (availableMem i) = 16 * (\<Sum>a \<leftarrow> as'. sz h' a) \<and> uint (totalMem i) = 16 * uint (header_blocks h'))"
proof -
  have n: "uint (units 16) = 2" using unit_arith [of 16] by simp
  then consider "malloc 16 h = Some (0, h)" | l h' as' where "malloc 16 h = Some (base h + 16 * (l + 1), h')"
      "0 \<le> l" "heap_ok h' as' (l # ls)"
    using malloc_ok [OF assms(1), of 16] assms(2) by auto
  then show ?thesis
  proof cases
    case 1
    then show ?thesis by (simp add: getMemoryInfo_def)
  next
    case 2
    note d = heap_okD [OF 2(3)]
    define S where "S = (\<Sum>a \<leftarrow> as'. sz h' a)"
    have nonneg: "0 \<le> (\<Sum>x \<leftarrow> xs. sz h' x)" for xs by (induction xs) (simp_all add: sz_def)
    have lt: "uint (header_blocks h') < 2 ^ 32" using unsigned_less [of "header_blocks h'", where 'a = int] by simp
    then have S: "0 \<le> S" "S < 2 ^ 32" using d(11) nonneg [of as'] nonneg [of "l # ls"] by (simp_all add: S_def)
    have times: "uint (ucast w * 16 :: u64) = 16 * uint w" for w :: u32
    proof -
      have "uint w < 2 ^ 32" using unsigned_less [of w, where 'a = int] by simp
      then show ?thesis using uint_mult_lem [of "ucast w :: u64" 16] by simp
    qed
    have "uint (of_int S :: u32) = S" using S by (simp add: uint_word_of_int take_bit_int_eq_self)
    then have "getMemoryInfo h = Some (Some \<lparr>availableMem = ucast (of_int S :: u32) * 16,
        totalMem = ucast (header_blocks h') * 16\<rparr>, h')" "uint (ucast (of_int S :: u32) * 16 :: u64) = 16 * S"
      using 2 sum_ring_ok [OF 2(3)] heap_okD(1) [OF assms(1)] times by (simp_all add: getMemoryInfo_def S_def)
    then show ?thesis
      using 2(3) times by (intro disjI2 exI [of _ h'] exI [of _ as'] exI [of _ l]) (auto simp: S_def)
  qed
qed

theorem memory_info_counts_witness:
  "getMemoryInfo sampleHeap = Some (None, sampleHeap) \<or> (\<exists>i h'. getMemoryInfo sampleHeap = Some (Some i, h') \<and>
     uint (totalMem i) = 16 * uint (header_blocks h'))"
  using memory_info_counts [OF sampleHeap_ok] by auto

end
