(* ===== verification/Buddy.thy ===== *)
theory Buddy
  imports Malloc
begin

text \<open>
  The other memory manager, \<open>Kernel/memory_manager/buddy.c\<close> with the lists of \<open>buddyBTree.c\<close>; the kernel is built
  with it instead of \<open>memoryManager.c\<close> when \<open>BUDDY\<close> is defined. A \<open>list_t\<close> is either an entry of the array
  \<open>orders\<close> or the header of a block in the heap, which is named by its offset from \<open>base\<close>. Headers of different
  blocks do not overlap: a header has 24 bytes and a block that \<open>malloc\<close> makes has at least 32.
\<close>

section \<open>Lists\<close>

datatype ptr = Null | Ord nat | Blk u64

record buddy =
  l_prev :: "ptr \<Rightarrow> ptr"
  l_next :: "ptr \<Rightarrow> ptr"
  l_order :: "ptr \<Rightarrow> nat"
  l_free :: "ptr \<Rightarrow> bool"
  currentBlocks :: nat
  blockMaxSize :: u64

definition set_prev :: "ptr \<Rightarrow> ptr \<Rightarrow> buddy \<Rightarrow> buddy" where "set_prev p v h = h\<lparr>l_prev := (l_prev h)(p := v)\<rparr>"
definition set_next :: "ptr \<Rightarrow> ptr \<Rightarrow> buddy \<Rightarrow> buddy" where "set_next p v h = h\<lparr>l_next := (l_next h)(p := v)\<rparr>"
definition set_order :: "ptr \<Rightarrow> nat \<Rightarrow> buddy \<Rightarrow> buddy" where "set_order p v h = h\<lparr>l_order := (l_order h)(p := v)\<rparr>"
definition set_free :: "ptr \<Rightarrow> bool \<Rightarrow> buddy \<Rightarrow> buddy" where "set_free p v h = h\<lparr>l_free := (l_free h)(p := v)\<rparr>"

definition initializeList :: "ptr \<Rightarrow> buddy \<Rightarrow> buddy" where
  "initializeList l h = set_next l l (set_prev l l h)"

definition pushToList :: "ptr \<Rightarrow> ptr \<Rightarrow> buddy \<Rightarrow> buddy" where
  "pushToList l entry h =
     (let p = l_prev h l
      in set_prev l entry (set_next p entry (set_next entry l (set_prev entry p h))))"

definition removeFromList :: "ptr \<Rightarrow> buddy \<Rightarrow> buddy" where
  "removeFromList entry h =
     (let p = l_prev h entry; n = l_next h entry in set_prev n p (set_next p n h))"

definition popFromList :: "ptr \<Rightarrow> buddy \<Rightarrow> ptr \<times> buddy" where
  "popFromList l h = (let back = l_prev h l in if back = l then (Null, h) else (back, removeFromList back h))"

definition listIsEmpty :: "ptr \<Rightarrow> buddy \<Rightarrow> bool" where
  "listIsEmpty l h \<longleftrightarrow> l_prev h l = l"

section \<open>Orders\<close>

definition MIN_ALLOC_LOG2 :: nat where "MIN_ALLOC_LOG2 = 4"
definition MAX_BLOCK_COUNT :: nat where "MAX_BLOCK_COUNT = 27"

function log2_loop :: "u32 \<Rightarrow> int \<Rightarrow> int" where
  "log2_loop number r = (if number \<noteq> 0 then log2_loop (drop_bit 1 number) (r + 1) else r)"
  by pat_completeness auto
termination
proof (relation "measure (\<lambda>(n, r). unat n)", simp, clarsimp)
  fix n :: u32 assume "n \<noteq> 0"
  then have "0 < unat n" by (simp add: unat_gt_0)
  then show "unat (drop_bit (Suc 0) n) < unat n"
    by (simp add: unsigned_drop_bit_eq drop_bit_eq_div unat_div)
qed

definition log2 :: "u32 \<Rightarrow> int" where
  "log2 number = (if number = 0 then -1 else log2_loop number (-1))"

declare log2_loop.simps [simp del]

definition getMinimumFittingOrder :: "u64 \<Rightarrow> u64" where
  "getMinimumFittingOrder memNeeded =
     (let minOrder = word_of_int (log2 (ucast memNeeded)) :: u64
      in if minOrder < of_nat MIN_ALLOC_LOG2 then 0
         else if memNeeded \<noteq> 0 \<and> memNeeded AND (memNeeded - 1) = 0 then minOrder - of_nat MIN_ALLOC_LOG2
         else minOrder - of_nat MIN_ALLOC_LOG2 + 1)"

definition getBuddyBlock :: "u64 \<Rightarrow> buddy \<Rightarrow> u64" where
  "getBuddyBlock node h = node XOR push_bit (MIN_ALLOC_LOG2 + l_order h (Blk node)) 1"

definition getBlockAddress :: "u64 \<Rightarrow> buddy \<Rightarrow> u64" where
  "getBlockAddress node h = node AND NOT (push_bit (MIN_ALLOC_LOG2 + l_order h (Blk node)) 1)"

definition addNodeToOrder :: "nat \<Rightarrow> u64 \<Rightarrow> buddy \<Rightarrow> buddy" where
  "addNodeToOrder blockOrder node h =
     pushToList (Ord blockOrder) (Blk node) (set_free (Blk node) True (set_order (Blk node) blockOrder h))"

function getFreeBlock_loop :: "nat \<Rightarrow> buddy \<Rightarrow> nat" where
  "getFreeBlock_loop freeBlock h =
     (if freeBlock < currentBlocks h \<and> listIsEmpty (Ord freeBlock) h then getFreeBlock_loop (freeBlock + 1) h else freeBlock)"
  by pat_completeness auto
termination by (relation "measure (\<lambda>(i, h). currentBlocks h - i)") auto

declare getFreeBlock_loop.simps [simp del]

definition getFreeBlock :: "nat \<Rightarrow> buddy \<Rightarrow> int" where
  "getFreeBlock minBlockRequired h =
     (let freeBlock = getFreeBlock_loop minBlockRequired h
      in if freeBlock > currentBlocks h then -1 else int freeBlock)"

section \<open>The allocator\<close>

text \<open>\<open>None\<close> is an access beyond the array \<open>orders\<close> or through \<open>NULL\<close>.\<close>

definition initializeMemoryManager_buddy :: "int \<Rightarrow> u32 \<Rightarrow> buddy \<Rightarrow> buddy option" where
  "initializeMemoryManager_buddy heap_base heap_size h =
     (if heap_base = 0 then Some h
      else let n = unat (word_of_int (log2 heap_size - int MIN_ALLOC_LOG2 + 1) :: u8);
               cb = (if n > MAX_BLOCK_COUNT then MAX_BLOCK_COUNT else n);
               h1 = h\<lparr>blockMaxSize := ucast heap_size, currentBlocks := cb\<rparr>;
               h2 = fold (\<lambda>i h. set_order (Ord i) i (set_free (Ord i) False (initializeList (Ord i) h))) [0 ..< cb] h1
           in if cb = 0 then None else Some (addNodeToOrder (cb - 1) 0 h2))"

text \<open>The loop of \<open>malloc\<close>: the block is halved until it has the order wanted, its upper halves are free.
  Orders are eight bits wide.\<close>

function halve :: "nat \<Rightarrow> nat \<Rightarrow> u64 \<Rightarrow> buddy \<Rightarrow> buddy" where
  "halve lowestFittingOrder freeBlock node h =
     (if lowestFittingOrder < freeBlock
      then let h1 = set_order (Blk node) ((l_order h (Blk node) + 255) mod 256) h
           in halve lowestFittingOrder (freeBlock - 1) node (addNodeToOrder (freeBlock - 1) (getBuddyBlock node h1) h1)
      else h)"
  by pat_completeness auto
termination by (relation "measure (\<lambda>(l, f, n, h). f)") auto

declare halve.simps [simp del]

definition HEADER :: u64 where "HEADER = 24"

text \<open>\<open>malloc\<close> returns the offset behind the header, or \<open>None\<close> for \<open>NULL\<close>.\<close>

definition buddy_malloc :: "u64 \<Rightarrow> buddy \<Rightarrow> (u64 option \<times> buddy) option" where
  "buddy_malloc n h =
     (let memNeeded = n + HEADER
      in if n = 0 \<or> memNeeded > blockMaxSize h then Some (None, h)
         else let lowest = unat (ucast (getMinimumFittingOrder memNeeded) :: u8);
                  freeBlock = getFreeBlock lowest h
              in if freeBlock = -1 then Some (None, h)
                 else let f = nat freeBlock
                      in if f \<ge> MAX_BLOCK_COUNT then None
                         else if l_prev h (Ord f) \<noteq> Null \<or> l_next h (Ord f) \<noteq> Null
                         then case popFromList (Ord f) h of
                                (Blk node, h1) \<Rightarrow> Some (Some (node + HEADER), set_free (Blk node) False (halve lowest f node h1))
                              | _ \<Rightarrow> None
                         else Some (None, h))"

partial_function (option) merge :: "u64 \<Rightarrow> u64 \<Rightarrow> buddy \<Rightarrow> (u64 \<times> buddy) option" where
  "merge freeNode freeBuddyBlock h =
     (if l_order h (Blk freeNode) \<noteq> currentBlocks h - 1 \<and>
         l_order h (Blk freeBuddyBlock) = l_order h (Blk freeNode) \<and> l_free h (Blk freeBuddyBlock)
      then let h1 = removeFromList (Blk freeBuddyBlock) h;
               node = getBlockAddress freeNode h1;
               h2 = set_order (Blk node) ((l_order h1 (Blk node) + 1) mod 256) h1
           in merge node (getBuddyBlock node h2) h2
      else Some (freeNode, h))"

text \<open>\<open>free\<close> of a pointer, \<open>None\<close> for \<open>NULL\<close>.\<close>

definition buddy_free :: "u64 option \<Rightarrow> buddy \<Rightarrow> buddy option" where
  "buddy_free block h =
     (case block of
        None \<Rightarrow> Some h
      | Some b \<Rightarrow>
          (let freeNode = b - HEADER; h1 = set_free (Blk freeNode) True h
           in map_option (\<lambda>(node, h2). pushToList (Ord (l_order h2 (Blk node))) (Blk node) h2)
                (merge freeNode (getBuddyBlock freeNode h1) h1)))"

partial_function (option) sum_list_loop :: "ptr \<Rightarrow> nat \<Rightarrow> ptr \<Rightarrow> u64 \<Rightarrow> u64 \<Rightarrow> buddy \<Rightarrow> u64 option" where
  "sum_list_loop l i listAux idx freeSpace h =
     (if listAux \<noteq> l
      then sum_list_loop l i (l_next h listAux) (idx + 1)
             (if l_free h listAux then freeSpace + idx * push_bit (MIN_ALLOC_LOG2 + i) 1 else freeSpace) h
      else Some freeSpace)"

definition buddy_getMemoryInfo :: "buddy \<Rightarrow> (memoryInfo option \<times> buddy) option" where
  "buddy_getMemoryInfo h =
     Option.bind (buddy_malloc 16 h) (\<lambda>(p, h1).
       if p = None then Some (None, h1)
       else map_option (\<lambda>freeSpace. (Some \<lparr>availableMem = freeSpace, totalMem = blockMaxSize h1\<rparr>, h1))
              (fold (\<lambda>i acc. Option.bind acc (\<lambda>s.
                   if listIsEmpty (Ord i) h1 then Some s else sum_list_loop (Ord i) i (l_next h1 (Ord i)) 1 s h1))
                (rev [0 ..< currentBlocks h1]) (Some 0)))"

end
