(* ===== verification/BuddyRing.thy ===== *)
theory BuddyRing
  imports Buddy
begin

text \<open>
  The doubly linked rings of the buddy allocator: what \<open>pushToList\<close>, \<open>removeFromList\<close> and \<open>popFromList\<close> do to the
  list of blocks an entry of \<open>orders\<close> stands for, and that they leave the other lists alone.
\<close>

section \<open>Links\<close>

fun links :: "buddy \<Rightarrow> ptr list \<Rightarrow> bool" where
  "links h (x # y # zs) \<longleftrightarrow> l_next h x = y \<and> l_prev h y = x \<and> links h (y # zs)"
| "links h _ \<longleftrightarrow> True"

definition ring :: "buddy \<Rightarrow> nat \<Rightarrow> u64 list \<Rightarrow> bool" where
  "ring h k xs \<longleftrightarrow> links h (Ord k # map Blk xs @ [Ord k]) \<and> distinct xs"

lemma links_append: "links h (xs @ y # zs) \<longleftrightarrow> links h (xs @ [y]) \<and> links h (y # zs)"
proof (induction xs)
  case (Cons x xs)
  then show ?case by (cases xs) auto
qed simp

lemma links_frame:
  "links h zs \<Longrightarrow> (\<And>x. x \<in> set (butlast zs) \<Longrightarrow> l_next h' x = l_next h x) \<Longrightarrow>
     (\<And>x. x \<in> set (tl zs) \<Longrightarrow> l_prev h' x = l_prev h x) \<Longrightarrow> links h' zs"
proof (induction zs rule: induct_list012)
  case (3 x y zs)
  have "links h' (y # zs)"
    using "3.prems" by (intro "3.IH"(2)) (auto split: if_splits)
  then show ?case using "3.prems" by auto
qed auto

lemma links_last: "links h (xs @ [x, y]) \<Longrightarrow> l_next h x = y \<and> l_prev h y = x"
  using links_append [of h xs x "[y]"] by simp

text \<open>The last pointer of a ring before it returns to its entry.\<close>

lemma ring_last: "ring h k xs \<Longrightarrow> l_prev h (Ord k) = last (Ord k # map Blk xs)"
proof -
  assume "ring h k xs"
  then have l: "links h ((Ord k # map Blk xs) @ [Ord k])" by (simp add: ring_def)
  have "(Ord k # map Blk xs) @ [Ord k] = butlast (Ord k # map Blk xs) @ [last (Ord k # map Blk xs), Ord k]"
    by (metis append.assoc append_Cons append_Nil append_butlast_last_id list.distinct(1))
  with l show ?thesis using links_last by metis
qed

lemma ring_empty: "ring h k xs \<Longrightarrow> listIsEmpty (Ord k) h \<longleftrightarrow> xs = []"
  using ring_last [of h k xs] by (auto simp: listIsEmpty_def last_map)

lemma ring_not_Null: "ring h k xs \<Longrightarrow> l_prev h (Ord k) \<noteq> Null"
  using ring_last [of h k xs] by (cases "xs = []") (auto simp: last_map)

lemma bring_cong:
  "l_next h' = l_next h \<Longrightarrow> l_prev h' = l_prev h \<Longrightarrow> ring h' k xs \<longleftrightarrow> ring h k xs"
proof -
  have "links h' zs \<longleftrightarrow> links h zs" if "l_next h' = l_next h" "l_prev h' = l_prev h" for zs
    using that by (induction zs rule: links.induct) auto
  then show "l_next h' = l_next h \<Longrightarrow> l_prev h' = l_prev h \<Longrightarrow> ring h' k xs \<longleftrightarrow> ring h k xs" by (simp add: ring_def)
qed

lemma setter_simps [simp]:
  "l_next (set_prev p v h) = l_next h" "l_prev (set_prev p v h) = (l_prev h)(p := v)"
  "l_prev (set_next p v h) = l_prev h" "l_next (set_next p v h) = (l_next h)(p := v)"
  "l_next (set_order p n h) = l_next h" "l_prev (set_order p n h) = l_prev h"
  "l_next (set_free p b h) = l_next h" "l_prev (set_free p b h) = l_prev h"
  "l_order (set_prev p v h) = l_order h" "l_free (set_prev p v h) = l_free h"
  "l_order (set_next p v h) = l_order h" "l_free (set_next p v h) = l_free h"
  "l_order (set_order p n h) = (l_order h)(p := n)" "l_free (set_order p n h) = l_free h"
  "l_order (set_free p b h) = l_order h" "l_free (set_free p b h) = (l_free h)(p := b)"
  "currentBlocks (set_prev p v h) = currentBlocks h" "currentBlocks (set_next p v h) = currentBlocks h"
  "currentBlocks (set_order p n h) = currentBlocks h" "currentBlocks (set_free p b h) = currentBlocks h"
  "blockMaxSize (set_prev p v h) = blockMaxSize h" "blockMaxSize (set_next p v h) = blockMaxSize h"
  "blockMaxSize (set_order p n h) = blockMaxSize h" "blockMaxSize (set_free p b h) = blockMaxSize h"
  by (simp_all add: set_prev_def set_next_def set_order_def set_free_def)

lemma push_simps [simp]:
  "l_order (pushToList l e h) = l_order h" "l_free (pushToList l e h) = l_free h"
  "currentBlocks (pushToList l e h) = currentBlocks h" "blockMaxSize (pushToList l e h) = blockMaxSize h"
  "l_order (removeFromList e h) = l_order h" "l_free (removeFromList e h) = l_free h"
  "currentBlocks (removeFromList e h) = currentBlocks h" "blockMaxSize (removeFromList e h) = blockMaxSize h"
  by (simp_all add: pushToList_def removeFromList_def Let_def)

section \<open>Adding a block\<close>

lemma ring_push:
  assumes r: "ring h k xs" and x: "x \<notin> set xs"
  shows "ring (pushToList (Ord k) (Blk x) h) k (xs @ [x])"
proof -
  let ?A = "Ord k # map Blk xs" and ?h = "pushToList (Ord k) (Blk x) h"
  define z A' where "z = last ?A" and "A' = butlast ?A"
  have A: "?A = A' @ [z]" by (simp add: z_def A'_def)
  have d: "distinct (A' @ [z])" using r unfolding ring_def A [symmetric] by (auto simp: distinct_map inj_on_def)
  have p: "l_prev h (Ord k) = z" using ring_last [OF r] by (simp add: z_def)
  have "z \<noteq> Blk x" using x by (cases "xs = []") (auto simp: z_def last_map)
  then have n: "l_next ?h = (l_next h)(Blk x := Ord k, z := Blk x)" "l_prev ?h = (l_prev h)(Blk x := z, Ord k := Blk x)"
    using p by (simp_all add: pushToList_def Let_def)
  have xA: "Blk x \<notin> set ?A" using x by auto
  have l: "links h (A' @ [z])" using r unfolding ring_def append_Cons [symmetric] A using links_append [of h A' z "[Ord k]"] by simp
  have "links ?h (A' @ [z])"
  proof (rule links_frame [OF l])
    fix y assume "y \<in> set (butlast (A' @ [z]))"
    then have y: "y \<in> set A'" by simp
    then have "y \<noteq> z" using d by auto
    moreover have "y \<noteq> Blk x" using y xA A by (metis UnCI set_append)
    ultimately show "l_next ?h y = l_next h y" by (simp add: n)
  next
    fix y assume "y \<in> set (tl (A' @ [z]))"
    then have "y \<in> set (map Blk xs)" using A by (metis list.sel(3))
    then show "l_prev ?h y = l_prev h y" using x by (auto simp: n)
  qed
  moreover have "links ?h [z, Blk x, Ord k]" using \<open>z \<noteq> Blk x\<close> by (simp add: n)
  ultimately have "links ?h (A' @ [z, Blk x, Ord k])" using links_append [of ?h A' z "[Blk x, Ord k]"] by simp
  moreover have "A' @ [z, Blk x, Ord k] = Ord k # map Blk (xs @ [x]) @ [Ord k]" using A by simp
  ultimately show ?thesis using r x by (simp add: ring_def)
qed

lemma ring_push_other:
  assumes r: "ring h k xs" and s: "ring h j ys" and "j \<noteq> k" "x \<notin> set ys" "set xs \<inter> set ys = {}"
  shows "ring (pushToList (Ord k) (Blk x) h) j ys"
proof -
  define z where "z = last (Ord k # map Blk xs)"
  have p: "l_prev h (Ord k) = z" using ring_last [OF r] by (simp add: z_def)
  have z: "z = Ord k \<or> z \<in> Blk ` set xs" by (cases "xs = []") (auto simp: z_def last_map)
  have zy: "y \<noteq> z" "y \<noteq> Blk x" "y \<noteq> Ord k" if "y \<in> set (Ord j # map Blk ys @ [Ord j])" for y
    using that z assms(3-5) by auto
  have "links (pushToList (Ord k) (Blk x) h) (Ord j # map Blk ys @ [Ord j])"
  proof (rule links_frame [of h])
    show "links h (Ord j # map Blk ys @ [Ord j])" using s by (simp add: ring_def)
    fix y
    show "l_next (pushToList (Ord k) (Blk x) h) y = l_next h y" if "y \<in> set (butlast (Ord j # map Blk ys @ [Ord j]))"
      using zy [OF in_set_butlastD [OF that]] by (simp add: pushToList_def Let_def p)
    show "l_prev (pushToList (Ord k) (Blk x) h) y = l_prev h y" if "y \<in> set (tl (Ord j # map Blk ys @ [Ord j]))"
    proof -
      have "y \<in> set (Ord j # map Blk ys @ [Ord j])" using that by auto
      from zy [OF this] show ?thesis by (simp add: pushToList_def Let_def)
    qed
  qed
  then show ?thesis using s by (simp add: ring_def)
qed

section \<open>Taking a block out\<close>

lemma ring_around:
  assumes "ring h k (xs @ x # ys)"
  shows "l_prev h (Blk x) = last (Ord k # map Blk xs)" "l_next h (Blk x) = hd (map Blk ys @ [Ord k])"
proof -
  let ?A = "Ord k # map Blk xs" and ?B = "map Blk ys @ [Ord k]"
  have l: "links h (?A @ Blk x # ?B)" using assms by (simp add: ring_def)
  have "?A @ [Blk x] = butlast ?A @ [last ?A, Blk x]"
    by (metis append.assoc append_Cons append_Nil append_butlast_last_id list.distinct(1))
  then show "l_prev h (Blk x) = last ?A"
    using l links_append [of h ?A "Blk x" ?B] links_last [of h "butlast ?A" "last ?A" "Blk x"] by simp
  have "links h (Blk x # ?B)" using l links_append [of h ?A "Blk x" ?B] by simp
  then show "l_next h (Blk x) = hd ?B" by (cases ys) auto
qed

lemma bring_remove:
  assumes r: "ring h k (xs @ x # ys)"
  shows "ring (removeFromList (Blk x) h) k (xs @ ys)"
proof -
  let ?A = "Ord k # map Blk xs" and ?B = "map Blk ys @ [Ord k]" and ?h = "removeFromList (Blk x) h"
  define p A' n B' where "p = last ?A" and "A' = butlast ?A" and "n = hd ?B" and "B' = tl ?B"
  have A: "?A = A' @ [p]" by (simp add: p_def A'_def)
  have B: "?B = n # B'" by (simp add: n_def B'_def)
  have l: "links h (?A @ Blk x # ?B)" and dx: "distinct (xs @ x # ys)" using r by (simp_all add: ring_def)
  have h': "l_next ?h = (l_next h)(p := n)" "l_prev ?h = (l_prev h)(n := p)"
    using ring_around [OF r] by (simp_all add: removeFromList_def Let_def p_def n_def)
  have dA: "distinct (A' @ [p])" using dx unfolding A [symmetric] by (auto simp: distinct_map inj_on_def)
  have lA: "links h (A' @ [p])"
  proof -
    have "links h (?A @ [Blk x])" using l links_append [of h ?A "Blk x" ?B] by simp
    then show ?thesis unfolding A using links_append [of h A' p "[Blk x]"] by simp
  qed
  have lB: "links h (n # B')"
    using l links_append [of h ?A "Blk x" ?B] links_append [of h "[Blk x]" n B'] unfolding B by simp
  have "links ?h (A' @ [p])"
  proof (rule links_frame [OF lA])
    fix y assume "y \<in> set (butlast (A' @ [p]))"
    then show "l_next ?h y = l_next h y" using dA by (auto simp: h')
  next
    fix y assume "y \<in> set (tl (A' @ [p]))"
    then have "y \<in> Blk ` set xs" using A by (metis list.sel(3) set_map)
    moreover have "n = Ord k \<or> n \<in> Blk ` set ys" by (cases ys) (auto simp: n_def)
    ultimately have "y \<noteq> n" using dx by auto
    then show "l_prev ?h y = l_prev h y" by (simp add: h')
  qed
  moreover have "links ?h (n # B')"
  proof (rule links_frame [OF lB])
    fix y assume "y \<in> set (butlast (n # B'))"
    then have "y \<in> Blk ` set ys" using B by (metis butlast_snoc set_map)
    moreover have "p = Ord k \<or> p \<in> Blk ` set xs" by (cases "xs = []") (auto simp: p_def last_map)
    ultimately have "y \<noteq> p" using dx by auto
    then show "l_next ?h y = l_next h y" by (simp add: h')
  next
    fix y assume "y \<in> set (tl (n # B'))"
    moreover have "n \<notin> set B'" using dx by (cases ys) (auto simp: n_def B'_def)
    ultimately have "y \<noteq> n" by auto
    then show "l_prev ?h y = l_prev h y" by (simp add: h')
  qed
  moreover have "links ?h (p # n # B')" if "links ?h (n # B')" using that by (simp add: h')
  ultimately have "links ?h (A' @ p # n # B')" using links_append [of ?h A' p "n # B'"] by simp
  then have "links ?h (?A @ ?B)" unfolding A B by simp
  then show ?thesis using dx by (simp add: ring_def)
qed

lemma ring_remove_other:
  assumes r: "ring h k (xs @ x # ys)" and s: "ring h j zs" and "j \<noteq> k" "set (xs @ x # ys) \<inter> set zs = {}"
  shows "ring (removeFromList (Blk x) h) j zs"
proof -
  define p n where "p = last (Ord k # map Blk xs)" and "n = hd (map Blk ys @ [Ord k])"
  have h': "l_next (removeFromList (Blk x) h) = (l_next h)(p := n)" "l_prev (removeFromList (Blk x) h) = (l_prev h)(n := p)"
    using ring_around [OF r] by (simp_all add: removeFromList_def Let_def p_def n_def)
  have "p = Ord k \<or> p \<in> Blk ` set xs" "n = Ord k \<or> n \<in> Blk ` set ys"
    by (cases "xs = []"; auto simp: p_def last_map) (cases ys; auto simp: n_def)
  then have z: "y \<noteq> p \<and> y \<noteq> n" if "y \<in> set (Ord j # map Blk zs @ [Ord j])" for y
    using that assms(3,4) by auto
  have "links (removeFromList (Blk x) h) (Ord j # map Blk zs @ [Ord j])"
  proof (rule links_frame [of h])
    show "links h (Ord j # map Blk zs @ [Ord j])" using s by (simp add: ring_def)
    fix y
    show "l_next (removeFromList (Blk x) h) y = l_next h y" if "y \<in> set (butlast (Ord j # map Blk zs @ [Ord j]))"
      using z [OF in_set_butlastD [OF that]] by (simp add: h')
    show "l_prev (removeFromList (Blk x) h) y = l_prev h y" if "y \<in> set (tl (Ord j # map Blk zs @ [Ord j]))"
    proof -
      have "y \<in> set (Ord j # map Blk zs @ [Ord j])" using that by auto
      from z [OF this] show ?thesis by (simp add: h')
    qed
  qed
  then show ?thesis using s by (simp add: ring_def)
qed

lemma ring_pop:
  assumes "ring h k (xs @ [x])"
  shows "popFromList (Ord k) h = (Blk x, removeFromList (Blk x) h)"
  using ring_last [OF assms] by (simp add: popFromList_def Let_def)

end
