(* ===== verification/BuddyBlocks.thy ===== *)
theory BuddyBlocks
  imports BuddyRing
begin

text \<open>
  Blocks of the buddy allocator as sets of offsets, without the program: a block of order \<open>k\<close> has \<open>2 ^ (k + 4)\<close> bytes
  and starts at a multiple of its size; its buddy is the other half of the block of the next order. A heap is
  partitioned into blocks.
\<close>

section \<open>Blocks\<close>

definition addrs :: "nat \<Rightarrow> u64 \<Rightarrow> u64 set" where
  "addrs k a = {x. \<forall>i \<ge> k + 4. bit x i = bit a i}"

definition aligned :: "nat \<Rightarrow> u64 \<Rightarrow> bool" where
  "aligned k a \<longleftrightarrow> (\<forall>i < k + 4. \<not> bit a i)"

definition budd :: "nat \<Rightarrow> u64 \<Rightarrow> u64" where
  "budd k a = a XOR push_bit (4 + k) 1"

definition lower :: "nat \<Rightarrow> u64 \<Rightarrow> u64" where
  "lower k a = a AND NOT (push_bit (4 + k) 1)"

lemma bit_one_at: "bit (2 ^ n :: u64) i \<longleftrightarrow> i = n \<and> n < 64"
  by (auto simp: bit_exp_iff)

lemma bit_budd: "k < 60 \<Longrightarrow> bit (budd k a) i = (if i = k + 4 then \<not> bit a i else bit a i)"
  by (auto simp: budd_def bit_xor_iff bit_one_at)

lemma bit_lower: "k < 60 \<Longrightarrow> bit (lower k a) i = (i \<noteq> k + 4 \<and> bit a i)"
  by (cases "i < 64") (auto simp: lower_def bit_and_iff bit_not_iff bit_one_at dest: bit_imp_le_length)

lemma addrs_self [simp]: "a \<in> addrs k a"
  by (simp add: addrs_def)

lemma budd_budd [simp]: "budd k (budd k a) = a"
  by (simp add: budd_def xor.assoc)

lemma budd_inj: "budd k a = budd k b \<longleftrightarrow> a = b"
  by (metis budd_budd)

lemma budd_neq: "k < 60 \<Longrightarrow> budd k a \<noteq> a"
  using bit_budd [of k a "k + 4"] by auto

lemma budd_eq_iff: "budd k a = b \<longleftrightarrow> budd k b = a"
  by auto

lemma aligned_budd: "k < 60 \<Longrightarrow> aligned k (budd k a) \<longleftrightarrow> aligned k a"
  by (auto simp: aligned_def bit_budd)

lemma aligned_Suc: "aligned (Suc k) a \<Longrightarrow> aligned k a"
  by (simp add: aligned_def)

lemma aligned_lower: "k < 60 \<Longrightarrow> aligned k a \<Longrightarrow> aligned (Suc k) (lower k a)"
  by (auto simp: aligned_def bit_lower less_Suc_eq)

lemma lower_cases: "k < 60 \<Longrightarrow> lower k a = a \<or> lower k a = budd k a"
proof (cases "bit a (k + 4)")
  case True
  assume k: "k < 60"
  have "lower k a = budd k a" by (rule bit_eqI) (use k True in \<open>auto simp: bit_lower bit_budd\<close>)
  then show ?thesis by simp
next
  case False
  assume k: "k < 60"
  have "lower k a = a" by (rule bit_eqI) (use k False in \<open>auto simp: bit_lower\<close>)
  then show ?thesis by simp
qed

lemma addrs_halves:
  assumes "k < 60"
  shows "addrs (Suc k) a = addrs k a \<union> addrs k (budd k a)" "addrs k a \<inter> addrs k (budd k a) = {}"
proof -
  have split: "(\<forall>i \<ge> k + 4. P i) \<longleftrightarrow> P (k + 4) \<and> (\<forall>i \<ge> Suc k + 4. P i)" for P
    by (metis Suc_leI add_Suc le_add1 le_eq_less_or_eq le_Suc_eq nle_le)
  have "x \<in> addrs (Suc k) a \<longleftrightarrow> x \<in> addrs k a \<or> x \<in> addrs k (budd k a)" for x
    unfolding addrs_def mem_Collect_eq split using assms by (auto simp: bit_budd)
  then show "addrs (Suc k) a = addrs k a \<union> addrs k (budd k a)" by blast
  show "addrs k a \<inter> addrs k (budd k a) = {}"
    unfolding addrs_def using bit_budd [OF assms, of a "k + 4"] by auto
qed

lemma addrs_lower: "k < 60 \<Longrightarrow> addrs (Suc k) (lower k a) = addrs k a \<union> addrs k (budd k a)"
  using lower_cases [of k a] addrs_halves(1) [of k a] addrs_halves(1) [of k "budd k a"] by auto

lemma addrs_sub:
  assumes "j \<le> k" "x \<in> addrs j a" "x \<in> addrs k b"
  shows "addrs j a \<subseteq> addrs k b"
  using assms by (auto simp: addrs_def)

lemma aligned_unique:
  assumes "aligned k a" "aligned k b" "b \<in> addrs k a"
  shows "a = b"
proof (rule bit_eqI)
  fix i
  show "bit a i = bit b i" using assms by (cases "i < k + 4") (auto simp: aligned_def addrs_def)
qed

text \<open>As numbers the offsets of a block are the ones from its start up to its size.\<close>

lemma addrs_range:
  assumes "k < 60" "aligned k a"
  shows "x \<in> addrs k a \<longleftrightarrow> unat a \<le> unat x \<and> unat x < unat a + 2 ^ (k + 4)"
proof -
  let ?n = "k + 4"
  have eq: "(\<forall>i \<ge> ?n. bit x i = bit y i) \<longleftrightarrow> drop_bit ?n x = drop_bit ?n y" for y :: u64
  proof
    assume "\<forall>i \<ge> ?n. bit x i = bit y i"
    then show "drop_bit ?n x = drop_bit ?n y" by (intro bit_eqI) (simp add: bit_drop_bit_eq)
  next
    assume d: "drop_bit ?n x = drop_bit ?n y"
    show "\<forall>i \<ge> ?n. bit x i = bit y i"
    proof (intro allI impI)
      fix i assume "?n \<le> i"
      then show "bit x i = bit y i"
        using arg_cong [OF d, of "\<lambda>w. bit w (i - ?n)"] by (simp add: bit_drop_bit_eq)
    qed
  qed
  have m: "unat a mod 2 ^ ?n = 0"
  proof -
    have "take_bit ?n a = 0" using assms(2) by (intro bit_eqI) (auto simp: bit_take_bit_iff aligned_def)
    then have "take_bit ?n (unat a) = 0" using unsigned_take_bit_eq [of ?n a, where 'a = nat] by simp
    then show ?thesis by (simp only: take_bit_eq_mod)
  qed
  have u: "unat (drop_bit ?n y) = unat y div 2 ^ ?n" for y :: u64
  proof -
    have "unat (drop_bit ?n y) = drop_bit ?n (unat y)"
      using unsigned_less [of y, where 'a = nat] by (intro trans [OF unsigned_drop_bit_eq]) (simp add: take_bit_nat_eq_self)
    then show ?thesis by (simp only: drop_bit_eq_div)
  qed
  have "x \<in> addrs k a \<longleftrightarrow> unat x div 2 ^ ?n = unat a div 2 ^ ?n"
    unfolding addrs_def mem_Collect_eq eq word_unat_eq_iff u ..
  also have "\<dots> \<longleftrightarrow> unat a \<le> unat x \<and> unat x < unat a + 2 ^ ?n"
  proof -
    obtain q where q: "unat a = q * 2 ^ ?n" using m by (metis mod_0_imp_dvd dvd_def mult.commute)
    have p: "(0 :: nat) < 2 ^ ?n" by simp
    have "unat x div 2 ^ ?n = q \<longleftrightarrow> q * 2 ^ ?n \<le> unat x \<and> unat x < q * 2 ^ ?n + 2 ^ ?n"
      using div_nat_eqI [of "2 ^ ?n" q "unat x"] p
      by (metis add.commute div_mult_mod_eq le_add1 mod_less_divisor mult_Suc nat_add_left_cancel_less mult.commute)
    then show ?thesis using q by simp
  qed
  finally show ?thesis .
qed

section \<open>Partitions of the heap\<close>

definition extent :: "nat \<times> u64 \<Rightarrow> u64 set" where
  "extent b = addrs (fst b) (snd b)"

definition apart :: "(nat \<times> u64) set \<Rightarrow> bool" where
  "apart B \<longleftrightarrow> (\<forall>b \<in> B. \<forall>c \<in> B. b \<noteq> c \<longrightarrow> extent b \<inter> extent c = {})"

lemma extent_simp [simp]: "extent (k, a) = addrs k a"
  by (simp add: extent_def)

lemma apart_subset: "apart B \<Longrightarrow> C \<subseteq> B \<Longrightarrow> apart C"
  unfolding apart_def by blast

lemma apart_insert: "apart B \<Longrightarrow> (\<And>c. c \<in> B \<Longrightarrow> extent b \<inter> extent c = {}) \<Longrightarrow> apart (insert b B)"
  unfolding apart_def by (auto simp: Int_commute)

text \<open>The blocks in \<open>B\<close>, by order and offset, partition the block of order \<open>mx\<close> at offset 0.\<close>

definition blocks_ok :: "nat \<Rightarrow> (nat \<times> u64) set \<Rightarrow> bool" where
  "blocks_ok mx B \<longleftrightarrow> mx < 27 \<and>
     (\<forall>(k, a) \<in> B. k \<le> mx \<and> aligned k a \<and> addrs k a \<subseteq> addrs mx 0) \<and>
     apart B \<and>
     (\<forall>x \<in> addrs mx 0. \<exists>(k, a) \<in> B. x \<in> addrs k a)"

lemma blocks_okD:
  assumes "blocks_ok mx B"
  shows "mx < 27" "(k, a) \<in> B \<Longrightarrow> k \<le> mx" "(k, a) \<in> B \<Longrightarrow> k < 60" "(k, a) \<in> B \<Longrightarrow> aligned k a"
    "(k, a) \<in> B \<Longrightarrow> addrs k a \<subseteq> addrs mx 0"
    "(k, a) \<in> B \<Longrightarrow> (j, b) \<in> B \<Longrightarrow> x \<in> addrs k a \<Longrightarrow> x \<in> addrs j b \<Longrightarrow> k = j \<and> a = b"
    "x \<in> addrs mx 0 \<Longrightarrow> \<exists>k a. (k, a) \<in> B \<and> x \<in> addrs k a"
proof -
  show "(k, a) \<in> B \<Longrightarrow> (j, b) \<in> B \<Longrightarrow> x \<in> addrs k a \<Longrightarrow> x \<in> addrs j b \<Longrightarrow> k = j \<and> a = b"
    using assms unfolding blocks_ok_def apart_def extent_def by fastforce
  show "x \<in> addrs mx 0 \<Longrightarrow> \<exists>k a. (k, a) \<in> B \<and> x \<in> addrs k a"
    using assms unfolding blocks_ok_def by blast
qed (use assms in \<open>auto simp: blocks_ok_def\<close>)

lemma blocks_apart: "blocks_ok mx B \<Longrightarrow> apart B"
  by (simp add: blocks_ok_def)

lemma extent_apart:
  assumes "blocks_ok mx B" "b \<in> B" "c \<in> B" "b \<noteq> c"
  shows "extent b \<inter> extent c = {}"
  using blocks_apart [OF assms(1)] assms(2-4) unfolding apart_def by blast

lemma blocks_okI:
  assumes "mx < 27" "\<And>k a. (k, a) \<in> B \<Longrightarrow> k \<le> mx \<and> aligned k a \<and> addrs k a \<subseteq> addrs mx 0" "apart B"
    "\<And>x. x \<in> addrs mx 0 \<Longrightarrow> \<exists>b \<in> B. x \<in> extent b"
  shows "blocks_ok mx B"
  using assms unfolding blocks_ok_def extent_def by fastforce

lemma blocks_okE:
  assumes "blocks_ok mx B" "(k, a) \<in> B"
  shows "k \<le> mx \<and> aligned k a \<and> addrs k a \<subseteq> addrs mx 0"
  using blocks_okD(2,4,5) [OF assms] by blast

lemma blocks_cover: "blocks_ok mx B \<Longrightarrow> x \<in> addrs mx 0 \<Longrightarrow> \<exists>b \<in> B. x \<in> extent b"
  using blocks_okD(7) [of mx B x] by (auto intro: bexI [of _ "(_, _)"])

lemma blocks_unique: "blocks_ok mx B \<Longrightarrow> (k, a) \<in> B \<Longrightarrow> (j, a) \<in> B \<Longrightarrow> k = j"
  using blocks_okD(6) [of mx B k a j a a] by simp

lemma whole_heap: "mx < 27 \<Longrightarrow> blocks_ok mx {(mx, 0)}"
  by (auto simp: blocks_ok_def aligned_def apart_def)

text \<open>Where the buddy of a block starts, there starts a block that is not larger.\<close>

lemma buddy_header:
  assumes ok: "blocks_ok mx B" and b: "(k, a) \<in> B" and k: "k < mx"
  shows "\<exists>j \<le> k. (j, budd k a) \<in> B"
proof -
  have k60: "k < 60" using blocks_okD(3) [OF ok b] .
  have "addrs (Suc k) a \<subseteq> addrs mx 0"
    using k blocks_okD(5) [OF ok b] by (intro addrs_sub [of _ _ a]) auto
  then have "budd k a \<in> addrs mx 0" using addrs_halves(1) [OF k60, of a] by auto
  then obtain j c where c: "(j, c) \<in> B" "budd k a \<in> addrs j c" using blocks_okD(7) [OF ok] by blast
  have "j \<le> k"
  proof (rule ccontr)
    assume "\<not> j \<le> k"
    then have "addrs (Suc k) (budd k a) \<subseteq> addrs j c" using c(2) by (intro addrs_sub [of _ _ "budd k a"]) auto
    then have "a \<in> addrs j c" using addrs_halves(1) [OF k60, of "budd k a"] by auto
    then show False using blocks_okD(6) [OF ok b c(1), of a] \<open>\<not> j \<le> k\<close> by simp
  qed
  moreover have "c = budd k a"
  proof (rule aligned_unique [of j])
    show "aligned j c" using blocks_okD(4) [OF ok c(1)] .
    have "aligned k (budd k a)" using blocks_okD(4) [OF ok b] aligned_budd [OF k60] by simp
    then show "aligned j (budd k a)" using \<open>j \<le> k\<close> by (simp add: aligned_def)
    show "budd k a \<in> addrs j c" by fact
  qed
  ultimately show ?thesis using c(1) by auto
qed

lemma split_block:
  assumes ok: "blocks_ok mx B" and b: "(Suc k, a) \<in> B"
  shows "blocks_ok mx (insert (k, a) (insert (k, budd k a) (B - {(Suc k, a)})))" (is "blocks_ok mx ?C")
proof (rule blocks_okI)
  have k: "k < 60" "Suc k \<le> mx" using blocks_okD(2,3) [OF ok b] by simp_all
  note h = addrs_halves [OF k(1), of a]
  have away: "extent (k, a) \<inter> extent c = {}" "extent (k, budd k a) \<inter> extent c = {}" if "c \<in> B - {(Suc k, a)}" for c
    using extent_apart [OF ok b, of c] that h(1) by auto
  show "mx < 27" using blocks_okD(1) [OF ok] .
  have half: "k \<le> mx \<and> aligned k c \<and> addrs k c \<subseteq> addrs mx 0" if "c = a \<or> c = budd k a" for c
    using blocks_okE [OF ok b] aligned_Suc aligned_budd [OF k(1)] h(1) that by auto
  show "j \<le> mx \<and> aligned j c \<and> addrs j c \<subseteq> addrs mx 0" if "(j, c) \<in> ?C" for j c
  proof (cases "(j, c) \<in> B")
    case True
    then show ?thesis by (rule blocks_okE [OF ok])
  next
    case False
    then have "j = k \<and> (c = a \<or> c = budd k a)" using that by auto
    then show ?thesis using half [of c] by simp
  qed
  have "apart (insert (k, budd k a) (B - {(Suc k, a)}))"
    by (rule apart_insert [OF apart_subset [OF blocks_apart [OF ok]]]) (use away(2) in \<open>auto\<close>)
  then show "apart ?C"
  proof (rule apart_insert)
    fix c assume "c \<in> insert (k, budd k a) (B - {(Suc k, a)})"
    then consider "c = (k, budd k a)" | "c \<in> B - {(Suc k, a)}" by blast
    then show "extent (k, a) \<inter> extent c = {}" using h(2) away(1) by cases simp_all
  qed
  fix x assume "x \<in> addrs mx 0"
  then obtain c where c: "c \<in> B" "x \<in> extent c" using blocks_cover [OF ok] by blast
  show "\<exists>b \<in> ?C. x \<in> extent b"
  proof (cases "c = (Suc k, a)")
    case True
    then have "x \<in> extent (k, a) \<or> x \<in> extent (k, budd k a)" using c(2) h(1) by simp
    then show ?thesis by blast
  qed (use c in blast)
qed

lemma join_blocks:
  assumes ok: "blocks_ok mx B" and b: "(k, a) \<in> B" "(k, budd k a) \<in> B" and t: "k < mx"
  shows "blocks_ok mx (insert (Suc k, lower k a) (B - {(k, a), (k, budd k a)}))" (is "blocks_ok mx ?C")
proof (rule blocks_okI)
  have k: "k < 60" using blocks_okD(3) [OF ok b(1)] by simp
  have h: "extent (Suc k, lower k a) = extent (k, a) \<union> extent (k, budd k a)" using addrs_lower [OF k, of a] by simp
  have away: "extent (Suc k, lower k a) \<inter> extent c = {}" if "c \<in> B - {(k, a), (k, budd k a)}" for c
  proof -
    have "extent (k, a) \<inter> extent c = {}" "extent (k, budd k a) \<inter> extent c = {}"
      using extent_apart [OF ok b(1), of c] extent_apart [OF ok b(2), of c] that by blast+
    then show ?thesis unfolding h by blast
  qed
  show "mx < 27" using blocks_okD(1) [OF ok] .
  show "j \<le> mx \<and> aligned j c \<and> addrs j c \<subseteq> addrs mx 0" if "(j, c) \<in> ?C" for j c
  proof (cases "(j, c) \<in> B")
    case True
    then show ?thesis by (rule blocks_okE [OF ok])
  next
    case False
    then have "j = Suc k" "c = lower k a" using that by auto
    moreover have "addrs (Suc k) (lower k a) \<subseteq> addrs mx 0"
      using blocks_okE [OF ok b(1)] blocks_okE [OF ok b(2)] h by simp
    ultimately show ?thesis using aligned_lower [OF k] blocks_okE [OF ok b(1)] t by simp
  qed
  show "apart ?C"
    by (rule apart_insert [OF apart_subset [OF blocks_apart [OF ok]] away]) auto
  fix x assume "x \<in> addrs mx 0"
  then obtain c where c: "c \<in> B" "x \<in> extent c" using blocks_cover [OF ok] by blast
  show "\<exists>b \<in> ?C. x \<in> extent b"
  proof (cases "c = (k, a) \<or> c = (k, budd k a)")
    case True
    then have "x \<in> extent (Suc k, lower k a)" using c(2) h by blast
    then show ?thesis by blast
  qed (use c in blast)
qed

text \<open>A partition in which no block has its buddy is the whole heap.\<close>

lemma coalesced_whole:
  assumes ok: "blocks_ok mx B" and n: "\<And>k a. (k, a) \<in> B \<Longrightarrow> k < mx \<Longrightarrow> (k, budd k a) \<notin> B"
  shows "B = {(mx, 0)}"
proof -
  obtain k0 a0 where "(k0, a0) \<in> B" using blocks_okD(7) [OF ok, of 0] by auto
  then obtain k a where ka: "(k, a) \<in> B" "\<And>j c. (j, c) \<in> B \<Longrightarrow> k \<le> j"
    using exists_least_iff [of "\<lambda>k. \<exists>a. (k, a) \<in> B"] by (metis not_le_imp_less)
  have "\<not> k < mx"
  proof
    assume k: "k < mx"
    obtain j where j: "j \<le> k" "(j, budd k a) \<in> B" using buddy_header [OF ok ka(1) k] by auto
    then have "j = k" using ka(2) [OF j(2)] by simp
    then show False using n [OF ka(1) k] j(2) by simp
  qed
  then have mx: "j = mx" if "(j, c) \<in> B" for j c using ka(2) [OF that] blocks_okD(2) [OF ok that] by simp
  have zero: "c = 0" if "(j, c) \<in> B" for j c
  proof -
    have "c \<in> addrs mx 0" using blocks_okD(5) [OF ok that] addrs_self by blast
    then show ?thesis using aligned_unique [of mx 0 c] blocks_okD(4) [OF ok that] mx [OF that] by (simp add: aligned_def)
  qed
  show ?thesis
  proof
    show "B \<subseteq> {(mx, 0)}" using mx zero by auto
    show "{(mx, 0)} \<subseteq> B" using mx [OF ka(1)] zero [OF ka(1)] ka(1) by simp
  qed
qed

end
