(* ===== verification/BuddyInv.thy ===== *)
theory BuddyInv
  imports BuddyBlocks
begin

text \<open>
  The invariant of the buddy allocator and its steps: taking a block off its list, halving it, joining it with its
  buddy and putting it on a list.
\<close>

section \<open>The lists of all orders\<close>

definition lists_ok :: "buddy \<Rightarrow> nat \<Rightarrow> (nat \<times> u64) set \<Rightarrow> (nat \<Rightarrow> u64 list) \<Rightarrow> bool" where
  "lists_ok h mx F L \<longleftrightarrow> (\<forall>k \<le> mx. ring h k (L k) \<and> set (L k) = {a. (k, a) \<in> F})"

text \<open>No offset is in two lists.\<close>

definition one_order :: "(nat \<times> u64) set \<Rightarrow> bool" where
  "one_order F \<longleftrightarrow> (\<forall>k j a. (k, a) \<in> F \<longrightarrow> (j, a) \<in> F \<longrightarrow> k = j)"

lemma lists_disjoint:
  "lists_ok h mx F L \<Longrightarrow> one_order F \<Longrightarrow> k \<le> mx \<Longrightarrow> j \<le> mx \<Longrightarrow> j \<noteq> k \<Longrightarrow> set (L k) \<inter> set (L j) = {}"
  unfolding lists_ok_def one_order_def by blast

lemma lists_push:
  assumes l: "lists_ok h mx F L" and o: "one_order F" and k: "k \<le> mx" and a: "\<And>j. (j, a) \<notin> F"
  shows "lists_ok (pushToList (Ord k) (Blk a) h) mx (insert (k, a) F) (L(k := L k @ [a]))"
  unfolding lists_ok_def
proof (intro allI impI)
  fix j assume j: "j \<le> mx"
  have rk: "ring h k (L k)" "a \<notin> set (L k)" and rj: "ring h j (L j)" "a \<notin> set (L j)" "set (L j) = {a. (j, a) \<in> F}"
    using l k j a by (auto simp: lists_ok_def)
  show "ring (pushToList (Ord k) (Blk a) h) j ((L(k := L k @ [a])) j) \<and>
      set ((L(k := L k @ [a])) j) = {b. (j, b) \<in> insert (k, a) F}"
  proof (cases "j = k")
    case True
    then show ?thesis using ring_push [OF rk] rj(3) by auto
  next
    case False
    then show ?thesis using ring_push_other [OF rk(1) rj(1) False rj(2) lists_disjoint [OF l o k j False]] rj(3) by auto
  qed
qed

lemma lists_remove:
  assumes l: "lists_ok h mx F L" and o: "one_order F" and k: "k \<le> mx" and a: "(k, a) \<in> F"
  shows "lists_ok (removeFromList (Blk a) h) mx (F - {(k, a)}) (L(k := remove1 a (L k)))"
  unfolding lists_ok_def
proof (intro allI impI)
  fix j assume j: "j \<le> mx"
  have rk: "ring h k (L k)" "a \<in> set (L k)" "distinct (L k)" and rj: "ring h j (L j)" "set (L j) = {a. (j, a) \<in> F}"
    using l k j a by (auto simp: lists_ok_def ring_def)
  obtain xs ys where s: "L k = xs @ a # ys" using rk(2) by (meson split_list)
  then have r1: "remove1 a (L k) = xs @ ys" using rk(3) by (simp add: remove1_append)
  show "ring (removeFromList (Blk a) h) j ((L(k := remove1 a (L k))) j) \<and>
      set ((L(k := remove1 a (L k))) j) = {b. (j, b) \<in> F - {(k, a)}}"
  proof (cases "j = k")
    case True
    have "ring (removeFromList (Blk a) h) k (xs @ ys)" using bring_remove rk(1) s by simp
    then show ?thesis using True r1 rj(2) rk(3) s by auto
  next
    case False
    have "ring (removeFromList (Blk a) h) j (L j)"
      using ring_remove_other [of h k xs a ys j "L j"] rk(1) rj(1) False lists_disjoint [OF l o k j False] s by simp
    then show ?thesis using False rj(2) by auto
  qed
qed

lemma lists_ok_cong:
  "l_next h' = l_next h \<Longrightarrow> l_prev h' = l_prev h \<Longrightarrow> lists_ok h' mx F L \<longleftrightarrow> lists_ok h mx F L"
  using bring_cong [of h' h] by (simp add: lists_ok_def)

section \<open>The invariant\<close>

text \<open>The heap is cut into the blocks \<open>B\<close>, of which those in \<open>U\<close> are used and those in \<open>X\<close> are being worked on; the
  others are on the list of their order. The headers tell the order of each block and whether it is free, no two
  free buddies are left apart, and the entries of \<open>orders\<close> that are not needed have never been written.\<close>

definition buddy_inv ::
  "nat \<Rightarrow> buddy \<Rightarrow> (nat \<times> u64) set \<Rightarrow> (nat \<times> u64) set \<Rightarrow> (nat \<times> u64) set \<Rightarrow> (nat \<Rightarrow> u64 list) \<Rightarrow> bool" where
  "buddy_inv mx h B U X L \<longleftrightarrow>
     currentBlocks h = Suc mx \<and> blocks_ok mx B \<and> U \<subseteq> B \<and> X \<subseteq> B - U \<and>
     (\<forall>(k, a) \<in> B. l_order h (Blk a) = k \<and> (l_free h (Blk a) \<longleftrightarrow> (k, a) \<notin> U)) \<and>
     lists_ok h mx (B - U - X) L \<and>
     (\<forall>(k, a) \<in> B - U - X. k < mx \<longrightarrow> (k, budd k a) \<notin> B - U - X) \<and>
     (\<forall>i > mx. l_prev h (Ord i) = Null \<and> l_next h (Ord i) = Null)"

lemma buddy_invD:
  assumes "buddy_inv mx h B U X L"
  shows "currentBlocks h = Suc mx" "blocks_ok mx B" "U \<subseteq> B" "X \<subseteq> B - U"
    "(k, a) \<in> B \<Longrightarrow> l_order h (Blk a) = k" "(k, a) \<in> B \<Longrightarrow> l_free h (Blk a) \<longleftrightarrow> (k, a) \<notin> U"
    "lists_ok h mx (B - U - X) L"
    "(k, a) \<in> B - U - X \<Longrightarrow> k < mx \<Longrightarrow> (k, budd k a) \<notin> B - U - X"
    "mx < i \<Longrightarrow> l_prev h (Ord i) = Null \<and> l_next h (Ord i) = Null"
proof -
  note i = assms [unfolded buddy_inv_def]
  show "currentBlocks h = Suc mx" "blocks_ok mx B" "U \<subseteq> B" "X \<subseteq> B - U" "lists_ok h mx (B - U - X) L"
    using i by simp_all
  show "(k, a) \<in> B \<Longrightarrow> l_order h (Blk a) = k" "(k, a) \<in> B \<Longrightarrow> l_free h (Blk a) \<longleftrightarrow> (k, a) \<notin> U"
  proof -
    have "\<forall>(k, a) \<in> B. l_order h (Blk a) = k \<and> (l_free h (Blk a) \<longleftrightarrow> (k, a) \<notin> U)" using i by (elim conjE)
    from bspec [OF this, of "(k, a)"]
    show "(k, a) \<in> B \<Longrightarrow> l_order h (Blk a) = k" "(k, a) \<in> B \<Longrightarrow> l_free h (Blk a) \<longleftrightarrow> (k, a) \<notin> U" by simp_all
  qed
  show "(k, a) \<in> B - U - X \<Longrightarrow> k < mx \<Longrightarrow> (k, budd k a) \<notin> B - U - X"
  proof -
    have "\<forall>(k, a) \<in> B - U - X. k < mx \<longrightarrow> (k, budd k a) \<notin> B - U - X" using i by (elim conjE)
    from bspec [OF this, of "(k, a)"] show "(k, a) \<in> B - U - X \<Longrightarrow> k < mx \<Longrightarrow> (k, budd k a) \<notin> B - U - X" by simp
  qed
  show "mx < i \<Longrightarrow> l_prev h (Ord i) = Null \<and> l_next h (Ord i) = Null" using i by simp
qed

lemma buddy_invI:
  assumes "currentBlocks h = Suc mx" "blocks_ok mx B" "U \<subseteq> B" "X \<subseteq> B - U"
    "\<And>k a. (k, a) \<in> B \<Longrightarrow> l_order h (Blk a) = k \<and> (l_free h (Blk a) \<longleftrightarrow> (k, a) \<notin> U)"
    "lists_ok h mx (B - U - X) L"
    "\<And>k a. (k, a) \<in> B - U - X \<Longrightarrow> k < mx \<Longrightarrow> (k, budd k a) \<notin> B - U - X"
    "\<And>i. mx < i \<Longrightarrow> l_prev h (Ord i) = Null \<and> l_next h (Ord i) = Null"
  shows "buddy_inv mx h B U X L"
  using assms unfolding buddy_inv_def by blast

lemma blocks_one_order: "blocks_ok mx B \<Longrightarrow> F \<subseteq> B \<Longrightarrow> one_order F"
  unfolding one_order_def using blocks_unique by blast

lemma push_unused:
  assumes "ring h k xs" "i \<noteq> k"
  shows "l_prev (pushToList (Ord k) (Blk a) h) (Ord i) = l_prev h (Ord i)"
    "l_next (pushToList (Ord k) (Blk a) h) (Ord i) = l_next h (Ord i)"
proof -
  have "l_prev h (Ord k) = Ord k \<or> (\<exists>b. l_prev h (Ord k) = Blk b)"
    using ring_last [OF assms(1)] by (cases "xs = []") (auto simp: last_map)
  then show "l_prev (pushToList (Ord k) (Blk a) h) (Ord i) = l_prev h (Ord i)"
    "l_next (pushToList (Ord k) (Blk a) h) (Ord i) = l_next h (Ord i)"
    using assms(2) by (auto simp: pushToList_def Let_def)
qed

lemma remove_unused:
  assumes "ring h k xs" "a \<in> set xs" "i \<noteq> k"
  shows "l_prev (removeFromList (Blk a) h) (Ord i) = l_prev h (Ord i)"
    "l_next (removeFromList (Blk a) h) (Ord i) = l_next h (Ord i)"
proof -
  obtain ys zs where s: "xs = ys @ a # zs" using assms(2) by (meson split_list)
  have "l_prev h (Blk a) = Ord k \<or> (\<exists>b. l_prev h (Blk a) = Blk b)"
    using ring_around(1) [of h k ys a zs] assms(1) s by (cases "ys = []") (auto simp: last_map)
  moreover have "l_next h (Blk a) = Ord k \<or> (\<exists>b. l_next h (Blk a) = Blk b)"
    using ring_around(2) [of h k ys a zs] assms(1) s by (cases zs) auto
  ultimately show "l_prev (removeFromList (Blk a) h) (Ord i) = l_prev h (Ord i)"
    "l_next (removeFromList (Blk a) h) (Ord i) = l_next h (Ord i)"
    using assms(3) by (auto simp: removeFromList_def Let_def)
qed

lemma lists_ring: "lists_ok h mx F L \<Longrightarrow> k \<le> mx \<Longrightarrow> ring h k (L k) \<and> set (L k) = {a. (k, a) \<in> F}"
  by (simp add: lists_ok_def)

section \<open>Steps\<close>

text \<open>A free block is taken off its list.\<close>

lemma inv_take:
  assumes i: "buddy_inv mx h B U X L" and b: "(k, a) \<in> B - U - X"
  shows "buddy_inv mx (removeFromList (Blk a) h) B U (insert (k, a) X) (L(k := remove1 a (L k)))"
proof (rule buddy_invI)
  note D = buddy_invD [OF i]
  have k: "k \<le> mx" using blocks_okE [OF D(2)] b by blast
  have one: "one_order (B - U - X)" by (rule blocks_one_order [OF D(2)]) blast
  have "B - U - insert (k, a) X = B - U - X - {(k, a)}" by blast
  then show "lists_ok (removeFromList (Blk a) h) mx (B - U - insert (k, a) X) (L(k := remove1 a (L k)))"
    using lists_remove [OF D(7) one k b] by simp
  show "(j, budd j c) \<notin> B - U - insert (k, a) X" if "(j, c) \<in> B - U - insert (k, a) X" "j < mx" for j c
    using D(8) [of j c] that by blast
  show "l_prev (removeFromList (Blk a) h) (Ord i) = Null \<and> l_next (removeFromList (Blk a) h) (Ord i) = Null" if "mx < i" for i
    using remove_unused [of h k "L k" a i] lists_ring [OF D(7) k] b k that D(9) [OF that] by auto
qed (use buddy_invD(1-6) [OF i] b in auto)

text \<open>The block worked on goes to the list of its order when its buddy is not a free block.\<close>

lemma inv_put:
  assumes i: "buddy_inv mx h B U {(k, a)} L" and b: "k < mx \<Longrightarrow> (k, budd k a) \<notin> B - U"
  shows "buddy_inv mx (pushToList (Ord k) (Blk a) h) B U {} (L(k := L k @ [a]))"
proof (rule buddy_invI)
  note D = buddy_invD [OF i]
  have ka: "(k, a) \<in> B - U" using D(4) by blast
  have k: "k \<le> mx" using blocks_okE [OF D(2)] ka by blast
  have one: "one_order (B - U - {(k, a)})" by (rule blocks_one_order [OF D(2)]) blast
  have "\<And>j. (j, a) \<notin> B - U - {(k, a)}" using blocks_unique [OF D(2)] ka by blast
  from lists_push [OF D(7) one k this] show "lists_ok (pushToList (Ord k) (Blk a) h) mx (B - U - {}) (L(k := L k @ [a]))"
    using ka by (simp add: insert_absorb)
  show "(j, budd j c) \<notin> B - U - {}" if j: "(j, c) \<in> B - U - {}" "j < mx" for j c
  proof (cases "(j, c) = (k, a)")
    case True
    then show ?thesis using b j(2) by auto
  next
    case False
    then have "(j, budd j c) \<notin> B - U - {(k, a)}" using D(8) [of j c] j by blast
    moreover have "(j, budd j c) \<noteq> (k, a)"
    proof
      assume "(j, budd j c) = (k, a)"
      then have "j = k" "c = budd k a" by (auto simp: budd_eq_iff)
      then show False using b j by simp
    qed
    ultimately show ?thesis by blast
  qed
  show "l_prev (pushToList (Ord k) (Blk a) h) (Ord i) = Null \<and> l_next (pushToList (Ord k) (Blk a) h) (Ord i) = Null" if "mx < i" for i
    using push_unused [of h k "L k" i a] lists_ring [OF D(7) k] k that D(9) [OF that] by auto
qed (use buddy_invD(1-6) [OF i] in auto)

text \<open>The block worked on is marked used, or a used one free.\<close>

lemma inv_use:
  assumes i: "buddy_inv mx h B U {(k, a)} L"
  shows "buddy_inv mx (set_free (Blk a) False h) B (insert (k, a) U) {} L"
proof (rule buddy_invI)
  note D = buddy_invD [OF i]
  have e: "B - insert (k, a) U - {} = B - U - {(k, a)}" by blast
  show "lists_ok (set_free (Blk a) False h) mx (B - insert (k, a) U - {}) L"
    using D(7) unfolding e by (subst lists_ok_cong) simp_all
  show "(j, budd j c) \<notin> B - insert (k, a) U - {}" if "(j, c) \<in> B - insert (k, a) U - {}" "j < mx" for j c
    using D(8) that unfolding e .
  show "l_order (set_free (Blk a) False h) (Blk c) = j \<and> (l_free (set_free (Blk a) False h) (Blk c) \<longleftrightarrow> (j, c) \<notin> insert (k, a) U)"
    if "(j, c) \<in> B" for j c
    using D(4) D(5,6) [OF that] blocks_unique [OF D(2) that, of k] by auto
qed (use buddy_invD(1-4,9) [OF i] in auto)

lemma inv_unuse:
  assumes i: "buddy_inv mx h B U {} L" and b: "(k, a) \<in> U"
  shows "buddy_inv mx (set_free (Blk a) True h) B (U - {(k, a)}) {(k, a)} L"
proof (rule buddy_invI)
  note D = buddy_invD [OF i]
  have e: "B - (U - {(k, a)}) - {(k, a)} = B - U - {}" using b by blast
  show "lists_ok (set_free (Blk a) True h) mx (B - (U - {(k, a)}) - {(k, a)}) L"
    using D(7) unfolding e by (subst lists_ok_cong) simp_all
  show "(j, budd j c) \<notin> B - (U - {(k, a)}) - {(k, a)}" if "(j, c) \<in> B - (U - {(k, a)}) - {(k, a)}" "j < mx" for j c
    using D(8) that unfolding e .
  show "l_order (set_free (Blk a) True h) (Blk c) = j \<and> (l_free (set_free (Blk a) True h) (Blk c) \<longleftrightarrow> (j, c) \<notin> U - {(k, a)})"
    if "(j, c) \<in> B" for j c
    using D(3) b D(5,6) [OF that] blocks_unique [OF D(2) that, of k] by auto
qed (use buddy_invD(1-4,9) [OF i] b in auto)

text \<open>The block worked on is halved; its upper half goes to the list of its new order.\<close>

lemma inv_split:
  assumes i: "buddy_inv mx h B U {(Suc k, a)} L"
  defines "h1 \<equiv> set_order (Blk a) k h" and "B' \<equiv> insert (k, a) (insert (k, budd k a) (B - {(Suc k, a)}))"
  shows "buddy_inv mx (addNodeToOrder k (budd k a) h1) B' U {(k, a)} (L(k := L k @ [budd k a]))"
proof (rule buddy_invI)
  note D = buddy_invD [OF i]
  let ?b = "budd k a"
  let ?h2 = "set_free (Blk ?b) True (set_order (Blk ?b) k h1)"
  have ka: "(Suc k, a) \<in> B - U" using D(4) by blast
  have k: "k \<le> mx" "k < 60" using blocks_okD(2,3) [OF D(2), of "Suc k" a] ka by simp_all
  have ok': "blocks_ok mx B'" unfolding B'_def using split_block [OF D(2)] ka by blast
  then show "blocks_ok mx B'" .
  have ab: "?b \<noteq> a" using budd_neq [OF k(2)] .
  have new: "(j, c) \<in> B' \<Longrightarrow> c = a \<or> c = ?b \<Longrightarrow> j = k" for j c
    using blocks_unique [OF ok', of j c k] unfolding B'_def by blast
  have U': "U \<subseteq> B'" "(k, a) \<notin> U" "(k, ?b) \<notin> U" "\<And>j. (j, a) \<notin> U" "\<And>j. (j, ?b) \<notin> U"
  proof -
    show sub: "U \<subseteq> B'" using D(3) ka unfolding B'_def by blast
    show "(k, a) \<notin> U" using D(3) ka blocks_unique [OF D(2), of k a "Suc k"] by auto
    have b: "?b \<in> addrs (Suc k) a" using addrs_halves(1) [OF k(2), of a] by simp
    show "(k, ?b) \<notin> U" using D(3) ka b ab blocks_okD(6) [OF D(2), of k ?b "Suc k" a ?b] by auto
    show "(j, a) \<notin> U" for j using D(3) ka blocks_unique [OF D(2), of j a "Suc k"] by blast
    show "(j, ?b) \<notin> U" for j using D(3) ka b ab blocks_okD(6) [OF D(2), of j ?b "Suc k" a ?b] by auto
  qed
  then show "U \<subseteq> B'" "{(k, a)} \<subseteq> B' - U" unfolding B'_def by auto
  have old: "(j, ?b) \<notin> B - {(Suc k, a)}" for j
    using new [of j ?b] blocks_unique [OF ok'] ka ab blocks_okD(6) [OF D(2), of j ?b "Suc k" a ?b] addrs_halves(1) [OF k(2), of a]
    by auto
  have F: "B' - U - {(k, a)} = insert (k, ?b) (B - U - {(Suc k, a)})"
    using U'(3) ab ka D(3) blocks_unique [OF D(2), of k a "Suc k"] unfolding B'_def by auto
  have one: "one_order (B - U - {(Suc k, a)})" by (rule blocks_one_order [OF D(2)]) blast
  have l2: "lists_ok ?h2 mx (B - U - {(Suc k, a)}) L" using D(7) by (subst lists_ok_cong) (simp_all add: h1_def)
  have "lists_ok (pushToList (Ord k) (Blk ?b) ?h2) mx (insert (k, ?b) (B - U - {(Suc k, a)})) (L(k := L k @ [?b]))"
    using old by (intro lists_push [OF l2 one k(1)]) blast
  then show "lists_ok (addNodeToOrder k ?b h1) mx (B' - U - {(k, a)}) (L(k := L k @ [?b]))"
    by (simp add: addNodeToOrder_def F)
  show "l_order (addNodeToOrder k ?b h1) (Blk c) = j \<and> (l_free (addNodeToOrder k ?b h1) (Blk c) \<longleftrightarrow> (j, c) \<notin> U)"
    if c: "(j, c) \<in> B'" for j c
  proof (cases "c = a \<or> c = ?b")
    case True
    have fa: "l_free h (Blk a)" using D(6) [of "Suc k" a] ka by blast
    show ?thesis using True new [OF c True] fa U'(4,5) ab by (auto simp: addNodeToOrder_def h1_def)
  next
    case False
    then have "(j, c) \<in> B" using c unfolding B'_def by auto
    then show ?thesis using D(5,6) [of j c] False by (simp add: addNodeToOrder_def h1_def)
  qed
  show "(j, budd j c) \<notin> B' - U - {(k, a)}" if j: "(j, c) \<in> B' - U - {(k, a)}" "j < mx" for j c
    unfolding F
  proof
    assume m: "(j, budd j c) \<in> insert (k, ?b) (B - U - {(Suc k, a)})"
    show False
    proof (cases "(j, c) = (k, ?b)")
      case True
      then have "(k, a) \<in> B - U - {(Suc k, a)}" using m ab by auto
      then show False using blocks_unique [OF D(2), of k a "Suc k"] ka by auto
    next
      case False
      then have c: "(j, c) \<in> B - U - {(Suc k, a)}" using j(1) unfolding F by blast
      show False
      proof (cases "(j, budd j c) = (k, ?b)")
        case True
        then have "j = k" "c = a" by (auto simp: budd_inj)
        then show False using c blocks_unique [OF D(2), of k a "Suc k"] ka by auto
      next
        case False
        then show False using D(8) [OF c j(2)] m by blast
      qed
    qed
  qed
  show "l_prev (addNodeToOrder k ?b h1) (Ord i) = Null \<and> l_next (addNodeToOrder k ?b h1) (Ord i) = Null" if "mx < i" for i
    using push_unused [of ?h2 k "L k" i ?b] lists_ring [OF l2 k(1)] k(1) that D(9) [OF that]
    by (auto simp: addNodeToOrder_def h1_def)
qed (use buddy_invD(1) [OF i] in \<open>simp add: addNodeToOrder_def h1_def\<close>)

end
