(* ===== verification/BuddySpec.thy ===== *)
theory BuddySpec
  imports BuddyInv
begin

text \<open>
  What the buddy allocator promises: the memory it returns was free and is large enough and not twice too large,
  freed blocks are joined with their buddies as far as possible, and nothing is lost.
\<close>

section \<open>Joining\<close>

lemma inv_join:
  assumes i: "buddy_inv mx h B U {(k, a), (k, budd k a)} L" and k: "k < mx"
  defines "B' \<equiv> insert (Suc k, lower k a) (B - {(k, a), (k, budd k a)})"
  shows "buddy_inv mx (set_order (Blk (lower k a)) (Suc k) h) B' U {(Suc k, lower k a)} L"
proof (rule buddy_invI)
  note D = buddy_invD [OF i]
  let ?n = "lower k a"
  have b: "(k, a) \<in> B - U" "(k, budd k a) \<in> B - U" using D(4) by blast+
  have k60: "k < 60" using blocks_okD(3) [OF D(2)] b by blast
  have ok': "blocks_ok mx B'" unfolding B'_def using join_blocks [OF D(2)] b k by blast
  then show "blocks_ok mx B'" .
  have n: "?n = a \<or> ?n = budd k a" using lower_cases [OF k60] .
  have nB: "(k, ?n) \<in> B - U" using n b by auto
  have nU: "(j, ?n) \<notin> U" for j using nB D(3) blocks_unique [OF D(2), of j ?n k] by blast
  have nB2: "(Suc k, ?n) \<notin> B" using nB blocks_unique [OF D(2), of "Suc k" ?n k] by auto
  show "U \<subseteq> B'" using D(3) b unfolding B'_def by blast
  show "{(Suc k, ?n)} \<subseteq> B' - U" using nU unfolding B'_def by blast
  have F: "B' - U - {(Suc k, ?n)} = B - U - {(k, a), (k, budd k a)}" using nB2 unfolding B'_def by blast
  show "lists_ok (set_order (Blk ?n) (Suc k) h) mx (B' - U - {(Suc k, ?n)}) L"
    unfolding F using D(7) by (subst lists_ok_cong) simp_all
  show "(j, budd j c) \<notin> B' - U - {(Suc k, ?n)}" if "(j, c) \<in> B' - U - {(Suc k, ?n)}" "j < mx" for j c
    using D(8) that unfolding F .
  show "l_order (set_order (Blk ?n) (Suc k) h) (Blk c) = j \<and> (l_free (set_order (Blk ?n) (Suc k) h) (Blk c) \<longleftrightarrow> (j, c) \<notin> U)"
    if c: "(j, c) \<in> B'" for j c
  proof (cases "c = ?n")
    case True
    then have "j = Suc k" using blocks_unique [OF ok' c, of "Suc k"] unfolding B'_def by blast
    then show ?thesis using True D(6) [of k ?n] nB nU by simp
  next
    case False
    then have "(j, c) \<in> B" using c unfolding B'_def by blast
    then show ?thesis using D(5,6) [of j c] False by simp
  qed
qed (use buddy_invD(1,9) [OF i] in auto)

text \<open>The loop of \<open>free\<close> ends, with a block whose buddy is not free.\<close>

lemma merge_inv:
  assumes "buddy_inv mx h B U {(k, a)} L"
  shows "\<exists>k' a' h' B' L'. merge a (getBuddyBlock a h) h = Some (a', h') \<and> buddy_inv mx h' B' U {(k', a')} L' \<and>
     blockMaxSize h' = blockMaxSize h \<and> (k' < mx \<longrightarrow> (k', budd k' a') \<notin> B' - U)"
  using assms
proof (induction "mx - k" arbitrary: h B k a L rule: less_induct)
  case less
  note i = less.prems
  note D = buddy_invD [OF i]
  let ?b = "budd k a"
  have ka: "(k, a) \<in> B - U" using D(4) by blast
  have k: "k \<le> mx" "mx < 27" "k < 60" using blocks_okE [OF D(2)] ka blocks_okD(1) [OF D(2)] by fastforce+
  have oa: "l_order h (Blk a) = k" using D(5) ka by blast
  have gb: "getBuddyBlock a h = ?b" by (simp add: getBuddyBlock_def budd_def MIN_ALLOC_LOG2_def oa)
  show ?case
  proof (cases "k \<noteq> mx \<and> l_order h (Blk ?b) = k \<and> l_free h (Blk ?b)")
    case False
    then have "merge a ?b h = Some (a, h)" using oa D(1) by (subst merge.simps) auto
    moreover have "(k, ?b) \<notin> B - U" if "k < mx" using False D(5,6) [of k ?b] that by auto
    ultimately show ?thesis unfolding gb using i by blast
  next
    case True
    then have lt: "k < mx" using k(1) by simp
    obtain j where "(j, ?b) \<in> B" using buddy_header [OF D(2) _ lt] ka by blast
    then have "(k, ?b) \<in> B" using D(5) [of j ?b] True by auto
    then have b: "(k, ?b) \<in> B - U - {(k, a)}" using D(6) True budd_neq [OF k(3), of a] by auto
    let ?h1 = "removeFromList (Blk ?b) h" and ?n = "lower k a"
    have i1: "buddy_inv mx ?h1 B U {(k, a), (k, ?b)} (L(k := remove1 ?b (L k)))"
      using inv_take [OF i b] by (simp add: insert_commute)
    have n: "?n = a \<or> ?n = ?b" using lower_cases [OF k(3)] .
    have "l_order ?h1 (Blk ?n) = k" using n oa True by auto
    then have o: "(l_order ?h1 (Blk ?n) + 1) mod 256 = Suc k" using k by simp
    have g: "getBlockAddress a ?h1 = ?n" by (simp add: getBlockAddress_def lower_def MIN_ALLOC_LOG2_def oa)
    have o': "Suc (l_order h (Blk ?n)) mod 256 = Suc k" using o by simp
    let ?h2 = "set_order (Blk ?n) (Suc k) ?h1"
    have i2: "buddy_inv mx ?h2 (insert (Suc k, ?n) (B - {(k, a), (k, ?b)})) U {(Suc k, ?n)} (L(k := remove1 ?b (L k)))"
      by (rule inv_join [OF i1 lt])
    have "merge a ?b h = merge ?n (getBuddyBlock ?n ?h2) ?h2"
      using True oa D(1) by (subst merge.simps) (simp add: Let_def g o')
    moreover have "mx - Suc k < mx - k" using lt by simp
    from less.hyps [OF this i2] obtain k' a' h' B' L' where "merge ?n (getBuddyBlock ?n ?h2) ?h2 = Some (a', h')"
        "buddy_inv mx h' B' U {(k', a')} L'" "blockMaxSize h' = blockMaxSize ?h2" "k' < mx \<longrightarrow> (k', budd k' a') \<notin> B' - U"
      by blast
    ultimately show ?thesis unfolding gb by auto
  qed
qed

text \<open>The loop of \<open>malloc\<close>.\<close>

lemma halve_inv:
  assumes "buddy_inv mx h B U {(f, a)} L" "j \<le> f"
  shows "\<exists>B' L'. buddy_inv mx (halve j f a h) B' U {(j, a)} L' \<and> blockMaxSize (halve j f a h) = blockMaxSize h"
  using assms
proof (induction f arbitrary: h B L)
  case 0
  then have "halve j 0 a h = h" "j = 0" by (simp_all add: halve.simps)
  then show ?case using 0 by auto
next
  case (Suc f)
  note D = buddy_invD [OF Suc.prems(1)]
  show ?case
  proof (cases "j = Suc f")
    case True
    then have "halve j (Suc f) a h = h" by (simp add: halve.simps)
    then show ?thesis using Suc.prems(1) True by auto
  next
    case False
    have fa: "(Suc f, a) \<in> B" using D(4) by blast
    have "Suc f < 27" using blocks_okE [OF D(2) fa] blocks_okD(1) [OF D(2)] by simp
    then have o: "(l_order h (Blk a) + 255) mod 256 = f" using D(5) [OF fa] by simp
    let ?h1 = "set_order (Blk a) f h"
    have g: "getBuddyBlock a ?h1 = budd f a" by (simp add: getBuddyBlock_def budd_def MIN_ALLOC_LOG2_def)
    have "halve j (Suc f) a h = halve j f a (addNodeToOrder f (budd f a) ?h1)"
      using False Suc.prems(2) by (subst halve.simps) (simp add: Let_def o g)
    moreover have "blockMaxSize (addNodeToOrder f (budd f a) ?h1) = blockMaxSize h" by (simp add: addNodeToOrder_def)
    ultimately show ?thesis using Suc.IH [OF inv_split [OF Suc.prems(1)]] False Suc.prems(2) by auto
  qed
qed

section \<open>Orders of requests\<close>

lemma unat_cast:
  assumes "unat (w :: 'a :: len word) < 2 ^ LENGTH('b)"
  shows "unat (ucast w :: 'b :: len word) = unat w"
  using assms by (simp add: unsigned_ucast_eq take_bit_nat_eq_self)

lemma half_bounds: "x \<le> n div 2 \<Longrightarrow> n div 2 < 2 * x \<Longrightarrow> 2 * x \<le> n \<and> n < 4 * x" for x n :: nat
  by linarith

lemma log2_loop_spec:
  "\<exists>e. log2_loop n r = r + int e \<and> (n = 0 \<longrightarrow> e = 0) \<and> (n \<noteq> 0 \<longrightarrow> e \<noteq> 0 \<and> 2 ^ (e - 1) \<le> unat n \<and> unat n < 2 ^ e)"
proof (induction n r rule: log2_loop.induct)
  case (1 n r)
  show ?case
  proof (cases "n = 0")
    case False
    obtain e where e: "log2_loop (drop_bit 1 n) (r + 1) = r + 1 + int e" "drop_bit 1 n = 0 \<longrightarrow> e = 0"
        "drop_bit 1 n \<noteq> 0 \<longrightarrow> e \<noteq> 0 \<and> 2 ^ (e - 1) \<le> unat (drop_bit 1 n) \<and> unat (drop_bit 1 n) < 2 ^ e"
      using 1 False by blast
    have u: "unat (drop_bit 1 n) = unat n div 2" by (simp add: drop_bit_eq_div unat_div)
    have n0: "0 < unat n" using False by (simp add: unat_gt_0)
    have "2 ^ e \<le> unat n \<and> unat n < 2 ^ Suc e"
    proof (cases "drop_bit 1 n = 0")
      case True
      then have "unat n div 2 = 0" using u by simp
      then show ?thesis using e(2) True n0 by simp
    next
      case False
      then obtain d where d: "e = Suc d" using e(3) by (cases e) auto
      then have "2 ^ d \<le> unat n div 2" "unat n div 2 < 2 * 2 ^ d" using e(3) False u by simp_all
      then show ?thesis using d half_bounds [of "2 ^ d" "unat n"] by simp
    qed
    then show ?thesis using e(1) False by (intro exI [of _ "Suc e"]) (simp add: log2_loop.simps [of n r])
  qed (simp add: log2_loop.simps)
qed

lemma log2_spec:
  assumes "n \<noteq> 0"
  shows "\<exists>e. log2 n = int e \<and> 2 ^ e \<le> unat n \<and> unat n < 2 ^ Suc e"
proof -
  obtain e where e: "log2_loop n (-1) = -1 + int e" "e \<noteq> 0" "2 ^ (e - 1) \<le> unat n" "unat n < 2 ^ e"
    using log2_loop_spec [of n "-1"] assms by auto
  then show ?thesis using assms by (intro exI [of _ "e - 1"]) (auto simp: log2_def)
qed

lemma bit_top:
  assumes "2 ^ e \<le> unat (w :: u64)" "unat w < 2 ^ Suc e"
  shows "bit w e"
proof -
  have "unat w div 2 ^ e = 1" using assms by (intro div_nat_eqI) simp_all
  then have "bit (unat w) e" by (simp add: bit_iff_odd)
  then show ?thesis by (simp add: bit_unsigned_iff)
qed

text \<open>The test for a power of two.\<close>

lemma power_of_two_test:
  assumes e: "2 ^ e \<le> unat (w :: u64)" "unat w < 2 ^ Suc e"
  shows "w AND (w - 1) = 0 \<longleftrightarrow> unat w = 2 ^ e"
proof
  have w0: "unat w \<noteq> 0" using e(1) by (metis not_less_eq_eq power_eq_0_iff zero_neq_numeral le_zero_eq)
  then have pred: "unat (w - 1) = unat w - 1" by (intro unat_minus_one) auto
  show "unat w = 2 ^ e" if z: "w AND (w - 1) = 0"
  proof (rule ccontr)
    assume "unat w \<noteq> 2 ^ e"
    then have "bit (w - 1) e" using e pred by (intro bit_top) simp_all
    then have "bit (w AND (w - 1)) e" using bit_top [OF e] by (simp add: bit_and_iff)
    then show False using z by simp
  qed
  show "w AND (w - 1) = 0" if p: "unat w = 2 ^ e"
  proof (rule bit_eqI)
    fix i
    have "bit w i \<longleftrightarrow> bit (2 ^ e :: nat) i" unfolding p [symmetric] by (simp add: bit_unsigned_iff)
    then have "bit w i \<longleftrightarrow> i = e" by (simp add: bit_exp_iff)
    moreover have "\<not> bit (w - 1) e"
    proof -
      have "unat (w - 1) div 2 ^ e = 0" using pred p by simp
      then have "\<not> bit (unat (w - 1)) e" by (simp add: bit_iff_odd)
      then show ?thesis by (simp add: bit_unsigned_iff)
    qed
    ultimately show "bit (w AND (w - 1)) i = bit 0 i" by (auto simp: bit_and_iff)
  qed
qed

text \<open>The order computed for a request is the least one whose blocks are large enough.\<close>

lemma minimum_order:
  assumes m: "24 < unat (m :: u64)" "unat m < 2 ^ 32"
  shows "\<exists>j < 29. unat (ucast (getMinimumFittingOrder m) :: u8) = j \<and> 2 ^ (j + 3) < unat m \<and> unat m \<le> 2 ^ (j + 4)"
proof -
  have u: "unat (ucast m :: u32) = unat m" using m(2) by (intro unat_cast) simp
  then have "(ucast m :: u32) \<noteq> 0" using m(1) by auto
  then obtain e where e: "log2 (ucast m) = int e" "2 ^ e \<le> unat m" "unat m < 2 ^ Suc e" using log2_spec u by metis
  have e4: "4 \<le> e"
  proof (rule ccontr)
    assume "\<not> 4 \<le> e"
    then have "(2 :: nat) ^ Suc e \<le> 2 ^ 4" by (intro power_increasing) auto
    then show False using e(3) m(1) by simp
  qed
  have e31: "e < 32"
  proof (rule ccontr)
    assume "\<not> e < 32"
    then have "(2 :: nat) ^ 32 \<le> 2 ^ e" by (intro power_increasing) auto
    then show False using e(2) m(2) by simp
  qed
  obtain d where d: "e = d + 4" using e4 le_Suc_ex by (metis add.commute)
  have d28: "d < 28" using e31 d by simp
  have w: "(word_of_int (log2 (ucast m)) :: u64) = of_nat d + 4" using e(1) d by simp
  have ge: "\<not> (of_nat d + 4 :: u64) < 4"
  proof -
    have "unat (of_nat d + 4 :: u64) = d + 4" using d28 by (simp add: unat_of_nat unat_word_ariths)
    then show ?thesis by (simp add: word_less_nat_alt)
  qed
  have m0: "m \<noteq> 0" using m(1) by auto
  have g: "getMinimumFittingOrder m = (if unat m = 2 ^ e then of_nat d else of_nat d + 1)"
    unfolding getMinimumFittingOrder_def Let_def w using ge m0 power_of_two_test [OF e(2,3)] by (simp add: MIN_ALLOC_LOG2_def)
  show ?thesis
  proof (cases "unat m = 2 ^ e")
    case True
    have "unat (ucast (of_nat d :: u64) :: u8) = d" using d28 by (subst unat_cast) (simp_all add: unat_of_nat)
    then show ?thesis using True g d d28 by (intro exI [of _ d]) simp
  next
    case False
    have "unat (ucast (of_nat d + 1 :: u64) :: u8) = Suc d"
    proof -
      have "(of_nat d + 1 :: u64) = of_nat (Suc d)" by simp
      then show ?thesis using d28 by (subst unat_cast) (simp_all add: unat_of_nat del: of_nat_Suc)
    qed
    then show ?thesis using False g e(2,3) d d28 by (intro exI [of _ "Suc d"]) (auto simp: numeral_eq_Suc)
  qed
qed

section \<open>Finding a block\<close>

lemma getFreeBlock_loop_spec:
  assumes "lists_ok h mx F L" "currentBlocks h = Suc mx"
  shows "i \<le> getFreeBlock_loop i h \<and> getFreeBlock_loop i h \<le> max i (Suc mx) \<and>
     (\<forall>j. i \<le> j \<longrightarrow> j < getFreeBlock_loop i h \<longrightarrow> L j = []) \<and>
     (getFreeBlock_loop i h \<le> mx \<longrightarrow> L (getFreeBlock_loop i h) \<noteq> [])"
  using assms
proof (induction "Suc mx - i" arbitrary: i rule: less_induct)
  case less
  show ?case
  proof (cases "i < currentBlocks h \<and> listIsEmpty (Ord i) h")
    case True
    have e: "L i = []" using lists_ring [OF less.prems(1), of i] ring_empty True less.prems(2) by auto
    have "Suc mx - (i + 1) < Suc mx - i" using True less.prems(2) by linarith
    note ih = less.hyps [OF this less.prems]
    have s: "getFreeBlock_loop i h = getFreeBlock_loop (i + 1) h" using True by (subst getFreeBlock_loop.simps) simp
    have "L j = []" if "i \<le> j" "j < getFreeBlock_loop (i + 1) h" for j
      using that e ih by (cases "j = i") auto
    then show ?thesis unfolding s using ih True less.prems(2) by auto
  next
    case False
    then have "getFreeBlock_loop i h = i" by (subst getFreeBlock_loop.simps) auto
    then show ?thesis using False lists_ring [OF less.prems(1), of i] ring_empty less.prems(2) by auto
  qed
qed

section \<open>Properties\<close>

text \<open>The heap is cut into the blocks \<open>B\<close>, and those in \<open>U\<close> are used.\<close>

definition buddy_ok :: "nat \<Rightarrow> buddy \<Rightarrow> (nat \<times> u64) set \<Rightarrow> (nat \<times> u64) set \<Rightarrow> bool" where
  "buddy_ok mx h B U \<longleftrightarrow> (\<exists>L. buddy_inv mx h B U {} L)"

lemma buddy_okD:
  assumes "buddy_ok mx h B U"
  shows "blocks_ok mx B" "U \<subseteq> B"
proof -
  obtain L where "buddy_inv mx h B U {} L" using assms by (auto simp: buddy_ok_def)
  from buddy_invD(2,3) [OF this] show "blocks_ok mx B" "U \<subseteq> B" .
qed

lemma used_apart:
  assumes "buddy_ok mx h B U" "b \<in> U" "c \<in> U" "b \<noteq> c"
  shows "extent b \<inter> extent c = {}"
  using extent_apart [OF buddy_okD(1) [OF assms(1)]] buddy_okD(2) [OF assms(1)] assms(2-4) by blast

lemma buddy_malloc_cases:
  assumes ok: "buddy_ok mx h B U" and mx: "mx < 26" and n: "0 < n" "unat n + 24 \<le> unat (blockMaxSize h)"
    and small: "unat (blockMaxSize h) < 2 ^ 32"
  shows "\<exists>j. 2 ^ (j + 3) < unat n + 24 \<and> unat n + 24 \<le> 2 ^ (j + 4) \<and>
    ((\<exists>k a. j \<le> k \<and> (k, a) \<in> B - U) \<longrightarrow>
      (\<exists>a h' B' k. buddy_malloc n h = Some (Some (a + 24), h') \<and> buddy_ok mx h' B' (insert (j, a) U) \<and>
         j \<le> k \<and> (k, a) \<in> B - U \<and> blockMaxSize h' = blockMaxSize h)) \<and>
    ((\<nexists>k a. j \<le> k \<and> (k, a) \<in> B - U) \<longrightarrow> buddy_malloc n h = Some (None, h))"
proof -
  obtain L where i: "buddy_inv mx h B U {} L" using ok by (auto simp: buddy_ok_def)
  note D = buddy_invD [OF i]
  have need: "unat (n + HEADER) = unat n + 24"
  proof -
    have "unat n + unat (24 :: u64) < 2 ^ 64" using n(2) small by simp
    then show ?thesis by (simp add: HEADER_def unat_word_ariths)
  qed
  have n0: "0 < unat n" using n(1) by (simp add: unat_gt_0)
  then obtain j where j: "j < 29" "unat (ucast (getMinimumFittingOrder (n + HEADER)) :: u8) = j"
      "2 ^ (j + 3) < unat n + 24" "unat n + 24 \<le> 2 ^ (j + 4)"
    using minimum_order [of "n + HEADER"] need n(2) small by auto
  let ?f = "getFreeBlock_loop j h"
  note f = getFreeBlock_loop_spec [OF D(7) D(1), of j]
  have guard: "\<not> (n = 0 \<or> n + HEADER > blockMaxSize h)" using n n0 need by (auto simp: word_less_nat_alt)
  have free_iff: "(\<exists>k a. j \<le> k \<and> (k, a) \<in> B - U) \<longleftrightarrow> ?f \<le> mx"
  proof
    assume "\<exists>k a. j \<le> k \<and> (k, a) \<in> B - U"
    then obtain k a where ka: "j \<le> k" "(k, a) \<in> B - U" by blast
    then have "k \<le> mx" using blocks_okE [OF D(2)] by blast
    then have "L k \<noteq> []" using lists_ring [OF D(7), of k] ka(2) by auto
    then have "\<not> k < ?f" using f ka(1) by blast
    then show "?f \<le> mx" using \<open>k \<le> mx\<close> by simp
  next
    assume le: "?f \<le> mx"
    then obtain a where "a \<in> set (L ?f)" using f by (cases "L ?f") auto
    then have "(?f, a) \<in> B - U" using lists_ring [OF D(7) le] by auto
    then show "\<exists>k a. j \<le> k \<and> (k, a) \<in> B - U" using f by blast
  qed
  have run: "buddy_malloc n h = (let freeBlock = getFreeBlock j h
      in if freeBlock = -1 then Some (None, h)
         else let f = nat freeBlock
              in if f \<ge> MAX_BLOCK_COUNT then None
                 else if l_prev h (Ord f) \<noteq> Null \<or> l_next h (Ord f) \<noteq> Null
                 then case popFromList (Ord f) h of
                        (Blk node, h1) \<Rightarrow> Some (Some (node + HEADER), set_free (Blk node) False (halve j f node h1))
                      | _ \<Rightarrow> None
                 else Some (None, h))"
    using guard by (simp add: buddy_malloc_def j(2) Let_def)
  have none: "buddy_malloc n h = Some (None, h)" if "\<not> ?f \<le> mx"
  proof (cases "?f > Suc mx")
    case True
    then show ?thesis by (simp add: run getFreeBlock_def D(1))
  next
    case False
    then have "?f = Suc mx" using that by simp
    then have "getFreeBlock j h = int (Suc mx)" by (simp add: getFreeBlock_def D(1))
    moreover have "l_prev h (Ord (Suc mx)) = Null \<and> l_next h (Ord (Suc mx)) = Null" using D(9) [of "Suc mx"] by simp
    ultimately show ?thesis using mx unfolding run by (simp add: MAX_BLOCK_COUNT_def nat_add_distrib)
  qed
  have some: "\<exists>a h' B' k. buddy_malloc n h = Some (Some (a + 24), h') \<and> buddy_ok mx h' B' (insert (j, a) U) \<and>
         j \<le> k \<and> (k, a) \<in> B - U \<and> blockMaxSize h' = blockMaxSize h" if le: "?f \<le> mx"
  proof -
    obtain xs a where s: "L ?f = xs @ [a]" using f le by (meson rev_exhaust)
    have r: "ring h ?f (xs @ [a])" "(?f, a) \<in> B - U - {}" using lists_ring [OF D(7) le] s by auto
    have i1: "buddy_inv mx (removeFromList (Blk a) h) B U {(?f, a)} (L(?f := remove1 a (L ?f)))"
      using inv_take [OF i r(2)] by simp
    obtain B' L' where h': "buddy_inv mx (halve j ?f a (removeFromList (Blk a) h)) B' U {(j, a)} L'"
        "blockMaxSize (halve j ?f a (removeFromList (Blk a) h)) = blockMaxSize h"
      using halve_inv [OF i1, of j] f by auto
    have "getFreeBlock j h = int ?f" using le by (simp add: getFreeBlock_def D(1))
    moreover have "l_prev h (Ord ?f) \<noteq> Null" using ring_not_Null [OF r(1)] .
    ultimately have "buddy_malloc n h =
        Some (Some (a + 24), set_free (Blk a) False (halve j ?f a (removeFromList (Blk a) h)))"
      using le mx ring_pop [OF r(1)] unfolding run by (simp add: MAX_BLOCK_COUNT_def HEADER_def Let_def)
    then show ?thesis using inv_use [OF h'(1)] h'(2) r(2) f unfolding buddy_ok_def by fastforce
  qed
  show ?thesis using j(3,4) free_iff none some by blast
qed

text \<open>C31. The buddy allocator grants a request exactly when some free block is large enough for it and its header: the
  block returned was part of a free one and is the smallest power of two that holds the request, so it overlaps no
  used block; nothing else becomes used, and the heap stays a partition into blocks without two free buddies.\<close>

theorem buddy_malloc_allocates:
  assumes "buddy_ok mx h B U" "mx < 26" "0 < n" "unat n + 24 \<le> unat (blockMaxSize h)" "unat (blockMaxSize h) < 2 ^ 32"
  shows "\<exists>j. 2 ^ (j + 3) < unat n + 24 \<and> unat n + 24 \<le> 2 ^ (j + 4) \<and>
    (if \<exists>k a. j \<le> k \<and> (k, a) \<in> B - U
     then \<exists>a h' B' k. buddy_malloc n h = Some (Some (a + 24), h') \<and> buddy_ok mx h' B' (insert (j, a) U) \<and>
       j \<le> k \<and> (k, a) \<in> B - U \<and> (\<forall>b \<in> U. extent b \<inter> extent (j, a) = {})
     else buddy_malloc n h = Some (None, h))"
proof -
  obtain j where j: "2 ^ (j + 3) < unat n + 24" "unat n + 24 \<le> 2 ^ (j + 4)"
      "(\<exists>k a. j \<le> k \<and> (k, a) \<in> B - U) \<longrightarrow>
        (\<exists>a h' B' k. buddy_malloc n h = Some (Some (a + 24), h') \<and> buddy_ok mx h' B' (insert (j, a) U) \<and>
           j \<le> k \<and> (k, a) \<in> B - U \<and> blockMaxSize h' = blockMaxSize h)"
      "(\<nexists>k a. j \<le> k \<and> (k, a) \<in> B - U) \<longrightarrow> buddy_malloc n h = Some (None, h)"
    using buddy_malloc_cases [OF assms] by blast
  have "extent b \<inter> extent (j, a) = {}"
    if "buddy_ok mx h' B' (insert (j, a) U)" "(k, a) \<in> B - U" "b \<in> U" for a h' B' k b
  proof (rule used_apart [OF that(1)])
    show "b \<noteq> (j, a)"
      using that(2,3) buddy_okD [OF assms(1)] blocks_unique [OF buddy_okD(1) [OF assms(1)], of j a k] by auto
  qed (use that(3) in simp_all)
  then show ?thesis using j by (intro exI [of _ j]) (simp; blast)
qed

lemma buddy_free_cases:
  assumes ok: "buddy_ok mx h B U" and b: "(k, a) \<in> U"
  shows "\<exists>h' B'. buddy_free (Some (a + 24)) h = Some h' \<and> buddy_ok mx h' B' (U - {(k, a)}) \<and> blockMaxSize h' = blockMaxSize h"
proof -
  obtain L where i: "buddy_inv mx h B U {} L" using ok by (auto simp: buddy_ok_def)
  let ?h1 = "set_free (Blk a) True h"
  obtain k' a' h2 B' L' where m: "merge a (getBuddyBlock a ?h1) ?h1 = Some (a', h2)"
      "buddy_inv mx h2 B' (U - {(k, a)}) {(k', a')} L'" "blockMaxSize h2 = blockMaxSize ?h1"
      "k' < mx \<longrightarrow> (k', budd k' a') \<notin> B' - (U - {(k, a)})"
    using merge_inv [OF inv_unuse [OF i b]] by blast
  have "l_order h2 (Blk a') = k'" using buddy_invD(4,5) [OF m(2)] by blast
  then have "buddy_free (Some (a + 24)) h = Some (pushToList (Ord k') (Blk a') h2)"
    using m(1) by (simp add: buddy_free_def HEADER_def Let_def)
  then show ?thesis using inv_put [OF m(2)] m(3,4) unfolding buddy_ok_def by auto
qed

text \<open>C32. Freeing a used block of the buddy allocator returns, the block is not used any more and every other one still
  is, and the free blocks are joined with their buddies as far as possible.\<close>

theorem buddy_free_releases:
  assumes "buddy_ok mx h B U" "(k, a) \<in> U"
  shows "\<exists>h' B'. buddy_free (Some (a + 24)) h = Some h' \<and> buddy_ok mx h' B' (U - {(k, a)}) \<and>
    (\<forall>(j, b) \<in> B' - (U - {(k, a)}). j < mx \<longrightarrow> (j, budd j b) \<notin> B' - (U - {(k, a)}))"
proof -
  obtain h' B' where r: "buddy_free (Some (a + 24)) h = Some h'" "buddy_ok mx h' B' (U - {(k, a)})"
    using buddy_free_cases [OF assms] by blast
  then obtain L where i: "buddy_inv mx h' B' (U - {(k, a)}) {} L" by (auto simp: buddy_ok_def)
  have "\<forall>(j, b) \<in> B' - (U - {(k, a)}). j < mx \<longrightarrow> (j, budd j b) \<notin> B' - (U - {(k, a)})"
    using buddy_invD(8) [OF i] by auto
  then show ?thesis using r by blast
qed

section \<open>From the start\<close>

text \<open>The array \<open>orders\<close> of a kernel that has just been loaded is zero.\<close>

definition unwritten :: "buddy \<Rightarrow> bool" where
  "unwritten h \<longleftrightarrow> (\<forall>i. l_prev h (Ord i) = Null \<and> l_next h (Ord i) = Null)"

definition init_order :: "nat \<Rightarrow> buddy \<Rightarrow> buddy" where
  "init_order i h = set_order (Ord i) i (set_free (Ord i) False (initializeList (Ord i) h))"

lemma init_orders:
  "l_prev (fold init_order [0 ..< n] h) (Ord i) = (if i < n then Ord i else l_prev h (Ord i))"
  "l_next (fold init_order [0 ..< n] h) (Ord i) = (if i < n then Ord i else l_next h (Ord i))"
  "currentBlocks (fold init_order [0 ..< n] h) = currentBlocks h"
  "blockMaxSize (fold init_order [0 ..< n] h) = blockMaxSize h"
  by (induction n) (auto simp: init_order_def initializeList_def)

lemma buddy_initial:
  assumes h: "unwritten h" and b: "heap_base \<noteq> 0" and e: "2 ^ e \<le> unat heap_size" "unat heap_size < 2 ^ Suc e" "4 \<le> e" "e < 31"
  shows "\<exists>h'. initializeMemoryManager_buddy heap_base heap_size h = Some h' \<and> buddy_ok (e - 4) h' {(e - 4, 0)} {} \<and>
     blockMaxSize h' = ucast heap_size"
proof -
  obtain d where d: "e = d + 4" using e(3) by (metis add.commute le_Suc_ex)
  have hs: "heap_size \<noteq> 0" using e(1) by (metis not_less power_eq_0_iff unat_0 le_zero_eq zero_neq_numeral)
  obtain e' where e': "log2 heap_size = int e'" "2 ^ e' \<le> unat heap_size" "unat heap_size < 2 ^ Suc e'"
    using log2_spec [OF hs] by blast
  have "(2 :: nat) ^ e' < 2 ^ Suc e" "(2 :: nat) ^ e < 2 ^ Suc e'" using e(1,2) e'(2,3) by linarith+
  then have "e' = e" by (metis less_Suc_eq_le nat_power_less_imp_less le_antisym zero_less_numeral)
  then have l: "log2 heap_size = int d + 4" using e'(1) d by simp
  have n: "unat (word_of_int (log2 heap_size - int MIN_ALLOC_LOG2 + 1) :: u8) = Suc d"
  proof -
    have "(word_of_int (log2 heap_size - int MIN_ALLOC_LOG2 + 1) :: u8) = of_nat (Suc d)" by (simp add: l MIN_ALLOC_LOG2_def)
    then show ?thesis using d e(4) by (simp add: unat_of_nat del: of_nat_Suc)
  qed
  let ?h1 = "h\<lparr>blockMaxSize := ucast heap_size, currentBlocks := Suc d\<rparr>"
  let ?h2 = "fold init_order [0 ..< Suc d] ?h1"
  let ?h3 = "set_free (Blk 0) True (set_order (Blk 0) d ?h2)"
  have run: "initializeMemoryManager_buddy heap_base heap_size h = Some (pushToList (Ord d) (Blk 0) ?h3)"
  proof -
    have "(\<lambda>i h. set_order (Ord i) i (set_free (Ord i) False (initializeList (Ord i) h))) = init_order"
      by (intro ext) (simp add: init_order_def)
    then show ?thesis
      using b n d e(4) by (simp add: initializeMemoryManager_buddy_def MAX_BLOCK_COUNT_def Let_def addNodeToOrder_def del: fold.simps upt_Suc)
  qed
  have l3: "lists_ok ?h3 d {} (\<lambda>_. [])"
    by (auto simp: lists_ok_def ring_def init_orders simp del: fold.simps upt_Suc)
  have lists: "lists_ok (pushToList (Ord d) (Blk 0) ?h3) d {(d, 0)} ((\<lambda>_. [])(d := [0]))"
    using lists_push [OF l3, of d 0] by (simp add: one_order_def del: fold.simps upt_Suc)
  have "buddy_inv d (pushToList (Ord d) (Blk 0) ?h3) {(d, 0)} {} {} ((\<lambda>_. [])(d := [0]))"
  proof (rule buddy_invI)
    show "blocks_ok d {(d, 0)}" using d e(4) by (intro whole_heap) simp
    show "l_prev (pushToList (Ord d) (Blk 0) ?h3) (Ord i) = Null \<and> l_next (pushToList (Ord d) (Blk 0) ?h3) (Ord i) = Null"
      if "d < i" for i
      using push_unused [of ?h3 d "[]" i 0] lists_ring [OF l3, of d] that h
      by (simp add: init_orders unwritten_def del: fold.simps upt_Suc)
  qed (use lists in \<open>simp_all add: init_orders del: fold.simps upt_Suc\<close>)
  then show ?thesis using run d unfolding buddy_ok_def by (auto simp: init_orders simp del: fold.simps upt_Suc)
qed

text \<open>A kernel that allocates and frees: \<open>buddy_run h0 h ps\<close> says that \<open>h\<close> is reached from \<open>h0\<close> and \<open>ps\<close> are the
  pointers it has been given and has not freed. No request is so large that its size with the header wraps around.\<close>

inductive buddy_run :: "buddy \<Rightarrow> buddy \<Rightarrow> u64 set \<Rightarrow> bool" for h0 where
  start: "buddy_run h0 h0 {}"
| get: "buddy_run h0 h ps \<Longrightarrow> unat n + 24 < 2 ^ 64 \<Longrightarrow> buddy_malloc n h = Some (Some p, h') \<Longrightarrow> buddy_run h0 h' (insert p ps)"
| full: "buddy_run h0 h ps \<Longrightarrow> unat n + 24 < 2 ^ 64 \<Longrightarrow> buddy_malloc n h = Some (None, h') \<Longrightarrow> buddy_run h0 h' ps"
| put: "buddy_run h0 h ps \<Longrightarrow> p \<in> ps \<Longrightarrow> buddy_free (Some p) h = Some h' \<Longrightarrow> buddy_run h0 h' (ps - {p})"

lemma buddy_malloc_refuses:
  assumes "unat n + 24 < 2 ^ 64" "n = 0 \<or> unat (blockMaxSize h) < unat n + 24"
  shows "buddy_malloc n h = Some (None, h)"
proof -
  have "unat (n + HEADER) = unat n + 24" using assms(1) by (simp add: HEADER_def unat_word_ariths)
  then show ?thesis using assms(2) by (auto simp: buddy_malloc_def Let_def word_less_nat_alt)
qed

definition pointer :: "nat \<times> u64 \<Rightarrow> u64" where
  "pointer b = snd b + 24"

lemma buddy_malloc_result:
  assumes "buddy_ok mx h B U" "mx < 26" "unat (blockMaxSize h) < 2 ^ 32" "unat n + 24 < 2 ^ 64" "buddy_malloc n h = Some (r, h')"
  shows "r = None \<Longrightarrow> h' = h"
    and "r = Some p \<Longrightarrow> \<exists>j a B'. p = a + 24 \<and> buddy_ok mx h' B' (insert (j, a) U) \<and> blockMaxSize h' = blockMaxSize h"
proof -
  have "(r = None \<longrightarrow> h' = h) \<and>
    (\<forall>p. r = Some p \<longrightarrow> (\<exists>j a B'. p = a + 24 \<and> buddy_ok mx h' B' (insert (j, a) U) \<and> blockMaxSize h' = blockMaxSize h))"
  proof (cases "n = 0 \<or> unat (blockMaxSize h) < unat n + 24")
    case True
    then show ?thesis using buddy_malloc_refuses [OF assms(4) True] assms(5) by simp
  next
    case False
    then have n: "0 < n" "unat n + 24 \<le> unat (blockMaxSize h)" by (auto simp: word_gt_0)
    obtain j where j: "(\<exists>k a. j \<le> k \<and> (k, a) \<in> B - U) \<longrightarrow>
        (\<exists>a h' B' k. buddy_malloc n h = Some (Some (a + 24), h') \<and> buddy_ok mx h' B' (insert (j, a) U) \<and>
           j \<le> k \<and> (k, a) \<in> B - U \<and> blockMaxSize h' = blockMaxSize h)"
        "(\<nexists>k a. j \<le> k \<and> (k, a) \<in> B - U) \<longrightarrow> buddy_malloc n h = Some (None, h)"
      using buddy_malloc_cases [OF assms(1,2) n assms(3)] by blast
    show ?thesis
    proof (cases "\<exists>k a. j \<le> k \<and> (k, a) \<in> B - U")
      case False
      then have "buddy_malloc n h = Some (None, h)" using j(2) by blast
      then show ?thesis using assms(5) by simp
    next
      case True
      then obtain a h2 B' where "buddy_malloc n h = Some (Some (a + 24), h2)" "buddy_ok mx h2 B' (insert (j, a) U)"
          "blockMaxSize h2 = blockMaxSize h" using j(1) by blast
      then show ?thesis using assms(5) by auto
    qed
  qed
  then show "r = None \<Longrightarrow> h' = h"
    and "r = Some p \<Longrightarrow> \<exists>j a B'. p = a + 24 \<and> buddy_ok mx h' B' (insert (j, a) U) \<and> blockMaxSize h' = blockMaxSize h"
    by blast+
qed

lemma buddy_run_ok:
  assumes "buddy_run h0 h ps" "buddy_ok mx h0 {(mx, 0)} {}" "mx < 26" "unat (blockMaxSize h0) < 2 ^ 32"
  shows "\<exists>B U. buddy_ok mx h B U \<and> ps = pointer ` U \<and> blockMaxSize h = blockMaxSize h0"
  using assms
proof (induction rule: buddy_run.induct)
  case start
  then show ?case by (intro exI [of _ "{(mx, 0)}"] exI [of _ "{}"]) simp
next
  case (get h ps n p h')
  then obtain B U where r: "buddy_ok mx h B U" "ps = pointer ` U" "blockMaxSize h = blockMaxSize h0" by blast
  have "unat (blockMaxSize h) < 2 ^ 32" using r(3) get.prems(3) by simp
  from buddy_malloc_result(2) [OF r(1) get.prems(2) this get.hyps(2,3) refl]
  obtain j a B' where "p = a + 24" "buddy_ok mx h' B' (insert (j, a) U)" "blockMaxSize h' = blockMaxSize h" by blast
  then show ?case using r(2,3) by (intro exI [of _ B'] exI [of _ "insert (j, a) U"]) (simp add: pointer_def)
next
  case (full h ps n h')
  then obtain B U where r: "buddy_ok mx h B U" "ps = pointer ` U" "blockMaxSize h = blockMaxSize h0" by blast
  have "unat (blockMaxSize h) < 2 ^ 32" using r(3) full.prems(3) by simp
  from buddy_malloc_result(1) [OF r(1) full.prems(2) this full.hyps(2,3) refl] have "h' = h" .
  then show ?case using r by blast
next
  case (put h ps p h')
  then obtain B U where r: "buddy_ok mx h B U" "ps = pointer ` U" "blockMaxSize h = blockMaxSize h0" by blast
  then obtain k a where ka: "(k, a) \<in> U" "p = a + 24" using put.hyps(2) by (auto simp: pointer_def)
  obtain h2 B' where b2: "buddy_free (Some (a + 24)) h = Some h2" "buddy_ok mx h2 B' (U - {(k, a)})"
      "blockMaxSize h2 = blockMaxSize h" using buddy_free_cases [OF r(1) ka(1)] by blast
  have "h2 = h'" using put.hyps(3) b2(1) ka(2) by simp
  then have b: "buddy_ok mx h' B' (U - {(k, a)})" "blockMaxSize h' = blockMaxSize h" using b2(2,3) by simp_all
  have "pointer ` U - {p} = pointer ` (U - {(k, a)})"
  proof -
    have "b = (k, a)" if "b \<in> U" "pointer b = p" for b
    proof -
      obtain j c where jc: "b = (j, c)" by (cases b)
      then have "c = a" using that(2) ka(2) by (simp add: pointer_def)
      then show ?thesis using that(1) ka(1) jc buddy_okD [OF r(1)] blocks_unique [OF buddy_okD(1) [OF r(1)], of j a k] by blast
    qed
    moreover have "pointer (k, a) = p" using ka(2) by (simp add: pointer_def)
    ultimately show ?thesis using ka(1) by blast
  qed
  then show ?case using b r(2,3) by (intro exI [of _ B'] exI [of _ "U - {(k, a)}"]) simp
qed

text \<open>C33. After any sequence of requests and releases that has given everything back, the heap of the buddy allocator is
  one free block again, and a request for all of it is granted: nothing is lost and nothing stays fragmented.\<close>

theorem buddy_recovers:
  assumes "unwritten h" "heap_base \<noteq> 0" "2 ^ e \<le> unat heap_size" "unat heap_size < 2 ^ Suc e" "5 \<le> e" "e < 30"
    and "initializeMemoryManager_buddy heap_base heap_size h = Some h0" "buddy_run h0 h1 {}"
  shows "buddy_ok (e - 4) h1 {(e - 4, 0)} {} \<and> (\<exists>h2. buddy_malloc (of_nat (2 ^ e - 24)) h1 = Some (Some 24, h2))"
proof -
  have i: "buddy_ok (e - 4) h0 {(e - 4, 0)} {}" "blockMaxSize h0 = ucast heap_size"
    using buddy_initial [OF assms(1,2,3,4)] assms(5-7) by auto
  have e: "e - 4 < 26" "e - 4 + 4 = e" using assms(5,6) by auto
  have size: "unat (blockMaxSize h0) = unat heap_size" unfolding i(2) by (intro unat_cast less_le_trans [OF unsigned_less]) simp
  have small: "unat (blockMaxSize h0) < 2 ^ 32" unfolding size using unsigned_less [of heap_size, where 'a = nat] by simp
  obtain B U where r: "buddy_ok (e - 4) h1 B U" "{} = pointer ` U" "blockMaxSize h1 = blockMaxSize h0"
    using buddy_run_ok [OF assms(8) i(1) e(1) small] by blast
  then have U: "U = {}" by simp
  then obtain L where inv: "buddy_inv (e - 4) h1 B {} {} L" using r(1) by (auto simp: buddy_ok_def)
  have B: "B = {(e - 4, 0)}"
    using buddy_invD(8) [OF inv] by (intro coalesced_whole [OF buddy_invD(2) [OF inv]]) auto
  have ok: "buddy_ok (e - 4) h1 {(e - 4, 0)} {}" using r(1) U B by simp
  let ?n = "of_nat (2 ^ e - 24) :: u64"
  have e32: "(2 :: nat) ^ 5 \<le> 2 ^ e" "(2 :: nat) ^ e < 2 ^ 64" using assms(5,6) power_increasing [of 5 e "2 :: nat"] power_strict_increasing [of e 64 "2 :: nat"] by simp_all
  then have "unat ?n = 2 ^ e - 24" by (subst unat_of_nat) simp
  then have n: "unat ?n + 24 = 2 ^ e" using e32(1) by simp
  have "unat ?n \<noteq> 0" using n e32 by simp
  then have "?n \<noteq> 0" by (metis unat_0)
  then have pos: "0 < ?n" by (metis word_gt_0)
  have fits: "unat ?n + 24 \<le> unat (blockMaxSize h1)" by (simp only: n r(3) size assms(3))
  have small1: "unat (blockMaxSize h1) < 2 ^ 32" using small r(3) by simp
  from buddy_malloc_cases [OF ok e(1) pos fits small1] obtain j where j: "2 ^ (j + 3) < unat ?n + 24"
      "(\<exists>k a. j \<le> k \<and> (k, a) \<in> {(e - 4, 0)} - {}) \<longrightarrow>
      (\<exists>a h' B' k. buddy_malloc ?n h1 = Some (Some (a + 24), h') \<and> buddy_ok (e - 4) h' B' (insert (j, a) {}) \<and>
         j \<le> k \<and> (k, a) \<in> {(e - 4, 0)} - {} \<and> blockMaxSize h' = blockMaxSize h1)"
    by blast
  have "(2 :: nat) ^ (j + 3) < 2 ^ e" using j(1) by (simp only: n)
  then have "j + 3 < e" by simp
  then have "j \<le> e - 4" by simp
  then show ?thesis using ok j(2) by fastforce
qed

text \<open>The kernel's heap, freshly loaded and initialised.\<close>

definition freshBuddy :: buddy where
  "freshBuddy = \<lparr>l_prev = \<lambda>_. Null, l_next = \<lambda>_. Null, l_order = \<lambda>_. 0, l_free = \<lambda>_. False,
     currentBlocks = 0, blockMaxSize = 0\<rparr>"

definition kernelBuddy :: buddy where
  "kernelBuddy = the (initializeMemoryManager_buddy 0x600000 0x100000 freshBuddy)"

lemma kernelBuddy:
  "initializeMemoryManager_buddy 0x600000 0x100000 freshBuddy = Some kernelBuddy"
  "buddy_ok 16 kernelBuddy {(16, 0)} {}" "blockMaxSize kernelBuddy = 0x100000"
proof -
  have "\<exists>h'. initializeMemoryManager_buddy 0x600000 0x100000 freshBuddy = Some h' \<and> buddy_ok (20 - 4) h' {(20 - 4, 0)} {} \<and>
      blockMaxSize h' = ucast (0x100000 :: u32)"
    by (rule buddy_initial) (simp_all add: unwritten_def freshBuddy_def)
  then show "initializeMemoryManager_buddy 0x600000 0x100000 freshBuddy = Some kernelBuddy"
    "buddy_ok 16 kernelBuddy {(16, 0)} {}" "blockMaxSize kernelBuddy = 0x100000"
    by (auto simp: kernelBuddy_def)
qed

theorem buddy_recovers_witness:
  "\<exists>h2. buddy_malloc (of_nat (2 ^ 20 - 24)) kernelBuddy = Some (Some 24, h2)"
proof -
  have "buddy_ok (20 - 4) kernelBuddy {(20 - 4, 0)} {} \<and>
      (\<exists>h2. buddy_malloc (of_nat (2 ^ 20 - 24)) kernelBuddy = Some (Some 24, h2))"
    by (rule buddy_recovers [OF _ _ _ _ _ _ kernelBuddy(1) buddy_run.start]) (simp_all add: unwritten_def freshBuddy_def)
  then show ?thesis by blast
qed

theorem buddy_malloc_allocates_witness:
  "\<exists>j h' B'. 2 ^ (j + 3) < (124 :: nat) \<and> 124 \<le> (2 :: nat) ^ (j + 4) \<and>
     buddy_malloc 100 kernelBuddy = Some (Some 24, h') \<and> buddy_ok 16 h' B' {(j, 0)}"
proof -
  have "\<exists>j. 2 ^ (j + 3) < unat (100 :: u64) + 24 \<and> unat (100 :: u64) + 24 \<le> 2 ^ (j + 4) \<and>
    (if \<exists>k a. j \<le> k \<and> (k, a) \<in> {(16, 0 :: u64)} - {}
     then \<exists>a h' B' k. buddy_malloc 100 kernelBuddy = Some (Some (a + 24), h') \<and> buddy_ok 16 h' B' (insert (j, a) {}) \<and>
       j \<le> k \<and> (k, a) \<in> {(16, 0 :: u64)} - {} \<and> (\<forall>b \<in> {}. extent b \<inter> extent (j, a) = {})
     else buddy_malloc 100 kernelBuddy = Some (None, kernelBuddy))"
    by (rule buddy_malloc_allocates [OF kernelBuddy(2)]) (simp_all add: kernelBuddy(3))
  then obtain j where j: "2 ^ (j + 3) < unat (100 :: u64) + 24" "unat (100 :: u64) + 24 \<le> 2 ^ (j + 4)"
    "if \<exists>k a. j \<le> k \<and> (k, a) \<in> {(16, 0 :: u64)} - {}
     then \<exists>a h' B' k. buddy_malloc 100 kernelBuddy = Some (Some (a + 24), h') \<and> buddy_ok 16 h' B' (insert (j, a) {}) \<and>
       j \<le> k \<and> (k, a) \<in> {(16, 0 :: u64)} - {} \<and> (\<forall>b \<in> {}. extent b \<inter> extent (j, a) = {})
     else buddy_malloc 100 kernelBuddy = Some (None, kernelBuddy)" by blast
  have "(2 :: nat) ^ (j + 3) < 2 ^ 16" using j(1) by simp
  then have "j + 3 < 16" by (simp only: power_strict_increasing_iff)
  then have "\<exists>k a. j \<le> k \<and> (k, a) \<in> {(16, 0 :: u64)} - {}" by auto
  then have "\<exists>a h' B' k. buddy_malloc 100 kernelBuddy = Some (Some (a + 24), h') \<and> buddy_ok 16 h' B' (insert (j, a) {}) \<and>
       j \<le> k \<and> (k, a) \<in> {(16, 0 :: u64)} - {} \<and> (\<forall>b \<in> {}. extent b \<inter> extent (j, a) = {})"
    using j(3) by (simp only: if_True)
  then show ?thesis using j(1,2) by (intro exI [of _ j]) auto
qed

theorem buddy_free_releases_witness:
  "\<exists>h j h'. buddy_malloc 100 kernelBuddy = Some (Some 24, h) \<and> buddy_free (Some 24) h = Some h' \<and>
     (\<exists>B'. buddy_ok 16 h' B' ({(j, 0)} - {(j, 0)}))"
proof -
  have "\<exists>j h B. buddy_malloc 100 kernelBuddy = Some (Some 24, h) \<and> buddy_ok 16 h B {(j, 0)}"
  proof -
    have "unat (100 :: u64) + 24 \<le> unat (blockMaxSize kernelBuddy)" by (simp add: kernelBuddy(3))
    from buddy_malloc_cases [OF kernelBuddy(2) _ _ this] obtain j where j: "2 ^ (j + 3) < unat (100 :: u64) + 24"
      "(\<exists>k a. j \<le> k \<and> (k, a) \<in> {(16, 0 :: u64)} - {}) \<longrightarrow>
      (\<exists>a h' B' k. buddy_malloc 100 kernelBuddy = Some (Some (a + 24), h') \<and> buddy_ok 16 h' B' (insert (j, a) {}) \<and>
         j \<le> k \<and> (k, a) \<in> {(16, 0 :: u64)} - {} \<and> blockMaxSize h' = blockMaxSize kernelBuddy)"
      by (auto simp: kernelBuddy(3))
    have "(2 :: nat) ^ (j + 3) < 2 ^ 16" using j(1) by simp
    then have "j + 3 < 16" by (simp only: power_strict_increasing_iff)
    then have "\<exists>k a. j \<le> k \<and> (k, a) \<in> {(16, 0 :: u64)} - {}" by auto
    with j(2) show ?thesis by auto
  qed
  then obtain j h B where h: "buddy_malloc 100 kernelBuddy = Some (Some 24, h)" "buddy_ok 16 h B {(j, 0)}" by blast
  from buddy_free_releases [OF h(2), of j 0] obtain h' B' where "buddy_free (Some (0 + 24)) h = Some h'"
    "buddy_ok 16 h' B' ({(j, 0)} - {(j, 0)})" by blast
  then show ?thesis using h(1) by auto
qed

section \<open>What \<open>getMemoryInfo\<close> counts\<close>

lemma sum_list_loop_ring:
  "links h (map Blk xs @ [Ord i]) \<Longrightarrow> \<forall>a \<in> set xs. l_free h (Blk a) \<Longrightarrow>
   sum_list_loop (Ord i) i (hd (map Blk xs @ [Ord i])) idx s h =
     Some (s + (\<Sum>k < length xs. idx + of_nat k) * push_bit (MIN_ALLOC_LOG2 + i) 1)"
proof (induction xs arbitrary: idx s)
  case Nil
  then show ?case by (subst sum_list_loop.simps) simp
next
  case (Cons a xs)
  let ?w = "push_bit (MIN_ALLOC_LOG2 + i) 1 :: u64"
  have n: "l_next h (Blk a) = hd (map Blk xs @ [Ord i])" and l: "links h (map Blk xs @ [Ord i])"
    using Cons.prems(1) by (cases xs; simp)+
  have "sum_list_loop (Ord i) i (Blk a) idx s h =
      sum_list_loop (Ord i) i (hd (map Blk xs @ [Ord i])) (idx + 1) (s + idx * ?w) h"
    using Cons.prems(2) by (subst sum_list_loop.simps) (simp add: n)
  also have "\<dots> = Some (s + idx * ?w + (\<Sum>k < length xs. (idx + 1) + of_nat k) * ?w)"
    using Cons.IH [OF l] Cons.prems(2) by simp
  also have "s + idx * ?w + (\<Sum>k < length xs. (idx + 1) + of_nat k) * ?w =
      s + (\<Sum>k < Suc (length xs). idx + of_nat k) * ?w"
    by (simp add: sum.lessThan_Suc_shift distrib_right add.assoc del: sum.lessThan_Suc)
  finally show ?case by simp
qed

text \<open>The loop over one order counts its \<open>n\<close>-th free block as \<open>n\<close> blocks: two free blocks of 16 bytes count as 48.\<close>

lemma memory_info_overcounts:
  assumes "ring h i xs" "\<forall>a \<in> set xs. l_free h (Blk a)"
  shows "sum_list_loop (Ord i) i (l_next h (Ord i)) 1 s h =
    Some (s + (\<Sum>k < length xs. 1 + of_nat k) * push_bit (MIN_ALLOC_LOG2 + i) 1)"
proof -
  have l: "links h (map Blk xs @ [Ord i])" and n: "l_next h (Ord i) = hd (map Blk xs @ [Ord i])"
    using assms(1) by (cases xs; simp add: ring_def)+
  show ?thesis unfolding n by (rule sum_list_loop_ring [OF l assms(2)])
qed

end
