(* ===== verification/UserSys.thy ===== *)
theory UserSys
  imports Ustdlib
begin

text \<open>
  User programs and the kernel: the wrappers of \<open>Userland/SampleCodeModule/lib/usersyscalls.c\<close> and the
  input and output functions of \<open>ustdlib.c\<close> that use them. A program runs on the calls it has made so far and
  on a kernel that answers each call, whatever that kernel is: \<open>answer\<close> is any function of the calls before and
  the call made. A \<open>char\<close> is an \<open>int\<close> between -128 and 127, a text a list of bytes.
\<close>

section \<open>System calls\<close>

text \<open>One constructor per number of \<open>syscodes.h\<close> that has a wrapper, with the arguments the wrapper passes. A
  program is named by the function it starts in.\<close>

datatype ucall =
  URead
| UWrite "u8 list" nat "(u8 \<times> u8) option"
| UClear
| UInforeg
| UGetRTC u8
| UPrintMem u64 u64
| USleep u64
| UShowCursor int
| UMalloc u64
| UFree u64
| UGetMemoryInfo
| UGetpid
| UGetSchedulerInfo
| UKill int
| UNice int int
| UBlock int
| UResume int
| UYield
| UStartTask string nat "u8 list list" int "(int \<times> int) option"
| USemOpen "u8 list" int
| USemInit int
| USemWait int
| USemPost int
| USemClose int
| UGetSemInfo
| UWaitpid int
| UPipeOpen int
| UPipeRead int
| UPipeWrite int "u8 list"
| UPipeClose int
| UGetPipeInfo

record ustate =
  answer :: "ucall list \<Rightarrow> ucall \<Rightarrow> int"
  calls :: "ucall list"

definition usyscall :: "ucall \<Rightarrow> ustate \<Rightarrow> int \<times> ustate" where
  "usyscall c u = (answer u (calls u) c, u\<lparr>calls := calls u @ [c]\<rparr>)"

definition uread :: "ustate \<Rightarrow> int \<times> ustate" where
  "uread u = (let (r, u1) = usyscall URead u in (sint (word_of_int r :: u8), u1))"

definition uwrite :: "u8 list \<Rightarrow> nat \<Rightarrow> (u8 \<times> u8) option \<Rightarrow> ustate \<Rightarrow> int \<times> ustate" where
  "uwrite buffer n colors = usyscall (UWrite buffer n colors)"

definition uclear :: "ustate \<Rightarrow> int \<times> ustate" where "uclear = usyscall UClear"
definition uinforeg :: "ustate \<Rightarrow> int \<times> ustate" where "uinforeg = usyscall UInforeg"
definition ugetRTC :: "u8 \<Rightarrow> ustate \<Rightarrow> int \<times> ustate" where "ugetRTC i = usyscall (UGetRTC i)"
definition uprintMem :: "u64 \<Rightarrow> u64 \<Rightarrow> ustate \<Rightarrow> int \<times> ustate" where "uprintMem d n = usyscall (UPrintMem d n)"
definition usleep :: "u64 \<Rightarrow> ustate \<Rightarrow> int \<times> ustate" where "usleep n = usyscall (USleep n)"
definition ushowCursor :: "int \<Rightarrow> ustate \<Rightarrow> int \<times> ustate" where "ushowCursor active = usyscall (UShowCursor active)"
definition umalloc :: "u64 \<Rightarrow> ustate \<Rightarrow> int \<times> ustate" where "umalloc n = usyscall (UMalloc n)"
definition ugetMemoryInfo :: "ustate \<Rightarrow> int \<times> ustate" where "ugetMemoryInfo = usyscall UGetMemoryInfo"
definition ugetSchedulerInfo :: "ustate \<Rightarrow> int \<times> ustate" where "ugetSchedulerInfo = usyscall UGetSchedulerInfo"
definition ufree :: "u64 \<Rightarrow> ustate \<Rightarrow> ustate" where "ufree p u = snd (usyscall (UFree p) u)"
definition ugetpid :: "ustate \<Rightarrow> int \<times> ustate" where "ugetpid = usyscall UGetpid"
definition ukill :: "int \<Rightarrow> ustate \<Rightarrow> int \<times> ustate" where "ukill pid = usyscall (UKill pid)"
definition unice :: "int \<Rightarrow> int \<Rightarrow> ustate \<Rightarrow> ustate" where "unice pid p u = snd (usyscall (UNice pid p) u)"
definition ublock :: "int \<Rightarrow> ustate \<Rightarrow> int \<times> ustate" where "ublock pid = usyscall (UBlock pid)"
definition uresume :: "int \<Rightarrow> ustate \<Rightarrow> int \<times> ustate" where "uresume pid = usyscall (UResume pid)"

definition ustartTask ::
  "string \<Rightarrow> nat \<Rightarrow> u8 list list \<Rightarrow> int \<Rightarrow> (int \<times> int) option \<Rightarrow> ustate \<Rightarrow> int \<times> ustate" where
  "ustartTask process argc argv foreground fd = usyscall (UStartTask process argc argv foreground fd)"

definition uyield :: "ustate \<Rightarrow> ustate" where "uyield u = snd (usyscall UYield u)"
definition usemOpen :: "u8 list \<Rightarrow> int \<Rightarrow> ustate \<Rightarrow> int \<times> ustate" where "usemOpen i v = usyscall (USemOpen i v)"
definition ugetSemInfo :: "ustate \<Rightarrow> int \<times> ustate" where "ugetSemInfo = usyscall UGetSemInfo"
definition usemInit :: "int \<Rightarrow> ustate \<Rightarrow> int \<times> ustate" where "usemInit v = usyscall (USemInit v)"
definition usemWait :: "int \<Rightarrow> ustate \<Rightarrow> int \<times> ustate" where "usemWait i = usyscall (USemWait i)"
definition usemPost :: "int \<Rightarrow> ustate \<Rightarrow> int \<times> ustate" where "usemPost i = usyscall (USemPost i)"
definition usemClose :: "int \<Rightarrow> ustate \<Rightarrow> int \<times> ustate" where "usemClose i = usyscall (USemClose i)"
definition uwaitpid :: "int \<Rightarrow> ustate \<Rightarrow> int \<times> ustate" where "uwaitpid pid = usyscall (UWaitpid pid)"
definition upipeOpen :: "int \<Rightarrow> ustate \<Rightarrow> int \<times> ustate" where "upipeOpen i = usyscall (UPipeOpen i)"
definition upipeRead :: "int \<Rightarrow> ustate \<Rightarrow> int \<times> ustate" where "upipeRead i = usyscall (UPipeRead i)"
definition upipeWrite :: "int \<Rightarrow> u8 list \<Rightarrow> ustate \<Rightarrow> int \<times> ustate" where "upipeWrite i s = usyscall (UPipeWrite i s)"
definition ugetPipeInfo :: "ustate \<Rightarrow> int \<times> ustate" where "ugetPipeInfo = usyscall UGetPipeInfo"
definition upipeClose :: "int \<Rightarrow> ustate \<Rightarrow> int \<times> ustate" where "upipeClose i = usyscall (UPipeClose i)"

section \<open>Input and output\<close>

text \<open>A string literal.\<close>

definition str :: "string \<Rightarrow> u8 list" where
  "str s = map of_char s"

definition getChar :: "ustate \<Rightarrow> int \<times> ustate" where
  "getChar = uread"

definition uputc :: "int \<Rightarrow> ustate \<Rightarrow> ustate" where
  "uputc c u = snd (uwrite [word_of_int c] 1 None u)"

text \<open>\<open>_fprint\<close>, and \<open>_print\<close>, of a string.\<close>

definition ufprint :: "u8 list \<Rightarrow> ustate \<Rightarrow> ustate" where
  "ufprint s u = snd (uwrite s (length s) None u)"

text \<open>\<open>_fprintf\<close>: the writes of theory \<open>Ustdlib\<close>, one after the other; \<open>None\<close> when it reads or writes out of
  its bounds.\<close>

definition ufprintf :: "u8 list \<Rightarrow> uarg list \<Rightarrow> ustate \<Rightarrow> ustate option" where
  "ufprintf format args u = map_option (\<lambda>ws. fold ufprint ws u) (fprintf format args)"

section \<open>What a program has done\<close>

text \<open>The text a list of calls writes.\<close>

definition text_of :: "ucall \<Rightarrow> u8 list" where
  "text_of c = (case c of UWrite b n _ \<Rightarrow> take n b | _ \<Rightarrow> [])"

definition printed :: "ucall list \<Rightarrow> u8 list" where
  "printed cs = concat (map text_of cs)"

lemma printed_simps [simp]:
  "printed [] = []" "printed (c # cs) = text_of c @ printed cs" "printed (cs @ ds) = printed cs @ printed ds"
  by (simp_all add: printed_def)

lemma text_of_simps [simp]:
  "text_of (UWrite b n c) = take n b" "text_of URead = []" "text_of (UStartTask f a v g fd) = []"
  "text_of (UPipeOpen i) = []" "text_of (UPipeClose i) = []" "text_of (UKill i) = []" "text_of (UWaitpid i) = []"
  by (simp_all add: text_of_def)

lemma usyscall_simps [simp]:
  "answer (snd (usyscall c u)) = answer u" "calls (snd (usyscall c u)) = calls u @ [c]"
  by (simp_all add: usyscall_def)

lemma output_simps [simp]:
  "answer (ufprint s u) = answer u" "calls (ufprint s u) = calls u @ [UWrite s (length s) None]"
  "answer (uputc c u) = answer u" "calls (uputc c u) = calls u @ [UWrite [word_of_int c] 1 None]"
  by (simp_all add: ufprint_def uputc_def uwrite_def)

lemma fold_ufprint:
  "answer (fold ufprint ws u) = answer u"
  "calls (fold ufprint ws u) = calls u @ map (\<lambda>s. UWrite s (length s) None) ws"
  by (induction ws arbitrary: u) simp_all

text \<open>The kernel answers the reads of a program, from now on, with the bytes \<open>cs\<close> and then with -1, the end of
  input; what it answers to other calls is not fixed.\<close>

definition reads :: "ucall list \<Rightarrow> nat" where
  "reads cs = length (filter (\<lambda>c. c = URead) cs)"

definition feeds :: "ustate \<Rightarrow> u8 list \<Rightarrow> bool" where
  "feeds u cs \<longleftrightarrow> (\<forall>t. answer u (calls u @ t) URead = (if reads t < length cs then uint (cs ! reads t) else -1))"

lemma reads_simps [simp]:
  "reads [] = 0" "reads (URead # cs) = Suc (reads cs)" "c \<noteq> URead \<Longrightarrow> reads (c # cs) = reads cs"
  "reads (cs @ ds) = reads cs + reads ds"
  by (simp_all add: reads_def)

lemma feeds_output:
  assumes "feeds u cs" "reads t = 0" "answer u' = answer u" "calls u' = calls u @ t"
  shows "feeds u' cs"
  unfolding feeds_def assms(3,4)
proof
  fix t'
  show "answer u ((calls u @ t) @ t') URead = (if reads t' < length cs then uint (cs ! reads t') else -1)"
    using assms(1,2) unfolding feeds_def by (auto dest: spec [of _ "t @ t'"])
qed

lemma getChar_feeds:
  assumes "feeds u cs"
  shows "getChar u = (case cs of [] \<Rightarrow> -1 | c # _ \<Rightarrow> sint c, u\<lparr>calls := calls u @ [URead]\<rparr>)"
    and "feeds (u\<lparr>calls := calls u @ [URead]\<rparr>) (tl cs)"
proof -
  have "answer u (calls u) URead = (case cs of [] \<Rightarrow> -1 | c # _ \<Rightarrow> uint c)"
    using assms unfolding feeds_def by (auto dest: spec [of _ "[]"] split: list.splits)
  then show "getChar u = (case cs of [] \<Rightarrow> -1 | c # _ \<Rightarrow> sint c, u\<lparr>calls := calls u @ [URead]\<rparr>)"
    by (auto simp: getChar_def uread_def usyscall_def split: list.splits)
  show "feeds (u\<lparr>calls := calls u @ [URead]\<rparr>) (tl cs)"
    unfolding feeds_def
  proof
    fix t
    show "answer (u\<lparr>calls := calls u @ [URead]\<rparr>) (calls (u\<lparr>calls := calls u @ [URead]\<rparr>) @ t) URead =
        (if reads t < length (tl cs) then uint (tl cs ! reads t) else -1)"
      using assms unfolding feeds_def by (cases cs) (auto dest: spec [of _ "URead # t"])
  qed
qed

lemma sint_minus_one_iff: "sint (c :: u8) = -1 \<longleftrightarrow> c = -1"
  by (auto intro: signed_word_eqI)

end
