(* ===== verification/Phylo.thy ===== *)
theory Phylo
  imports UserSys
begin

text \<open>
  The dining philosophers of \<open>Userland/SampleCodeModule/lib/phylo.c\<close>: the table with its semaphores, the
  operations of a philosopher and of the keys \<open>a\<close> and \<open>d\<close>, and the table as a state machine. What
  \<open>gateMutex\<close> guards is one step; a semaphore is its value (theory \<open>SyncSpec\<close> has what \<open>semWait\<close> and \<open>semPost\<close>
  do to it), and waiting for one is a step that is possible when the value is positive.
\<close>

section \<open>The table\<close>

datatype philo_state = WAITING | DECIDING | EATING

record philosofer_t =
  ph_pid :: int
  ph_state :: philo_state
  ph_semId :: int

definition MAX_PHILO :: nat where "MAX_PHILO = 15"
definition INITIAL_PHILO :: nat where "INITIAL_PHILO = 5"

text \<open>\<open>philosopher\<close> and \<open>currentPhilosofers\<close>, and the values of the semaphores by their ids.\<close>

record table =
  philosopher :: "philosofer_t list"
  currentPhilosofers :: nat
  sem_value :: "int \<Rightarrow> int"

definition LEFT :: "nat \<Rightarrow> table \<Rightarrow> nat" where
  "LEFT i t = (i + currentPhilosofers t - 1) mod currentPhilosofers t"

definition RIGHT :: "nat \<Rightarrow> table \<Rightarrow> nat" where
  "RIGHT i t = (i + 1) mod currentPhilosofers t"

definition state_of :: "table \<Rightarrow> nat \<Rightarrow> philo_state" where
  "state_of t i = ph_state (philosopher t ! i)"

definition set_state :: "nat \<Rightarrow> philo_state \<Rightarrow> table \<Rightarrow> table" where
  "set_state i s t = t\<lparr>philosopher := (philosopher t)[i := (philosopher t ! i)\<lparr>ph_state := s\<rparr>]\<rparr>"

definition post :: "int \<Rightarrow> table \<Rightarrow> table" where
  "post sid t = t\<lparr>sem_value := (sem_value t)(sid := sem_value t sid + 1)\<rparr>"

definition testEat :: "nat \<Rightarrow> table \<Rightarrow> table" where
  "testEat index t =
     (if state_of t index = WAITING \<and> state_of t (LEFT index t) \<noteq> EATING \<and> state_of t (RIGHT index t) \<noteq> EATING
      then let t1 = set_state index EATING t in post (ph_semId (philosopher t1 ! index)) t1
      else t)"

text \<open>\<open>philoWait\<close> up to its last line, which waits for the philosopher's own semaphore.\<close>

definition philoWait :: "nat \<Rightarrow> table \<Rightarrow> table" where
  "philoWait index t = testEat index (set_state index WAITING t)"

definition philoRest :: "nat \<Rightarrow> table \<Rightarrow> table" where
  "philoRest index t =
     (let t1 = set_state index DECIDING t; t2 = testEat (LEFT index t1) t1 in testEat (RIGHT index t2) t2)"

text \<open>\<open>pid\<close> is what \<open>startTask\<close> answers, \<open>semaphore\<close> what \<open>semInit(1)\<close> answers; a closed semaphore keeps
  its value, nobody can wait for it any more.\<close>

definition startPhiloProcess :: "int \<Rightarrow> table \<Rightarrow> int \<times> table" where
  "startPhiloProcess pid t =
     (let c = currentPhilosofers t; t1 = set_state c DECIDING t
      in if pid = -1 then (-1, t1)
         else (0, t1\<lparr>philosopher := (philosopher t1)[c := (philosopher t1 ! c)\<lparr>ph_pid := pid\<rparr>],
                     currentPhilosofers := c + 1\<rparr>))"

definition giveSem :: "nat \<Rightarrow> int \<Rightarrow> table \<Rightarrow> table" where
  "giveSem i semaphore t =
     t\<lparr>philosopher := (philosopher t)[i := (philosopher t ! i)\<lparr>ph_semId := semaphore\<rparr>],
       sem_value := (sem_value t)(semaphore := 1)\<rparr>"

definition addPhilosofer :: "int \<Rightarrow> int \<Rightarrow> table \<Rightarrow> int \<times> table" where
  "addPhilosofer semaphore pid t =
     (if currentPhilosofers t = MAX_PHILO then (-1, t)
      else if semaphore = -1 then (-1, t)
      else (0, snd (startPhiloProcess pid (giveSem (currentPhilosofers t) semaphore t))))"

definition removePhilosofer :: "table \<Rightarrow> int \<times> table" where
  "removePhilosofer t =
     (if currentPhilosofers t = INITIAL_PHILO then (-1, t)
      else (0, t\<lparr>currentPhilosofers := currentPhilosofers t - 1\<rparr>))"

text \<open>The start of \<open>phylo\<close>: the semaphores of the first philosophers, then their processes; \<open>None\<close> when one of
  them cannot be created.\<close>

definition phylo :: "int list \<Rightarrow> int list \<Rightarrow> table \<Rightarrow> table option" where
  "phylo sems pids t =
     (if -1 \<in> set (take INITIAL_PHILO sems) then None
      else let t1 = fold (\<lambda>i. giveSem i (sems ! i)) [0 ..< INITIAL_PHILO] (t\<lparr>currentPhilosofers := 0\<rparr>)
           in fold (\<lambda>pid r. Option.bind r (\<lambda>t. let (res, t') = startPhiloProcess pid t in if res = -1 then None else Some t'))
                (take INITIAL_PHILO pids) (Some t1))"

text \<open>What a key does, with what it writes; \<open>None\<close> is the key that closes the table. \<open>semaphore\<close> and \<open>pid\<close> are
  what the kernel answers when a philosopher is added. The last byte of a text with one more is its terminator.\<close>

definition phyloKey :: "int \<Rightarrow> int \<Rightarrow> int \<Rightarrow> table \<Rightarrow> (table \<times> ucall list) option" where
  "phyloKey c semaphore pid t =
     (if c = 97
      then let (r, t') = addPhilosofer semaphore pid t
           in Some (t', [if r = 0
                then UWrite (str ''Un filosofo ha llegado a la mesa para disfrutar del queso. '' @ [10, 0]) 61 (Some (1, 0))
                else UWrite (str ''No hay mas espacio en la mesa'' @ [10, 0]) 31 (Some (0, 4))])
      else if c = 100
      then let (r, t') = removePhilosofer t
           in Some (t', [if r = 0
                then UWrite (str ''Un filosofo ha concluido su tiempo en la mesa del queso. '' @ [10, 0]) 59 (Some (6, 0))
                else UWrite (str ''Minima cantidad de filosofos alcanzado'' @ [10, 0]) 40 (Some (0, 4))])
      else if c = 113 then None
      else Some (t, []))"

text \<open>The end of \<open>phylo\<close>: every philosopher's process and semaphore, then the printing process and the gate.\<close>

definition freePhilosofer :: "table \<Rightarrow> nat \<Rightarrow> ucall list" where
  "freePhilosofer t index = [UKill (ph_pid (philosopher t ! index)), USemClose (ph_semId (philosopher t ! index))]"

definition closeTable :: "int \<Rightarrow> int \<Rightarrow> table \<Rightarrow> ucall list" where
  "closeTable tablePid gateMutex t =
     concat (map (freePhilosofer t) [0 ..< currentPhilosofers t]) @ [UKill tablePid, USemClose gateMutex]"

text \<open>What \<open>phylo\<close> writes before it takes the gate, and when the table is closed.\<close>

definition phyloKeys :: "ucall list" where
  "phyloKeys =
     [UWrite (str ''Pulse la tecla'') 14 (Some (15, 0)), UWrite (str '' a '') 3 (Some (1, 0)),
      UWrite (str ''para agregar un filosofo comensal. '' @ [10]) 36 (Some (15, 0)),
      UWrite (str ''Pulse la tecla'') 14 (Some (15, 0)), UWrite (str '' d '') 3 (Some (6, 0)),
      UWrite (str ''para eliminar un filosofo comensal. '' @ [10]) 37 (Some (15, 0)),
      UWrite (str ''Pulse la tecla'') 14 (Some (15, 0)), UWrite (str '' q '') 3 (Some (2, 0)),
      UWrite (str ''para cerrar la mesa. '' @ [10, 0]) 23 (Some (15, 0))]"

definition phyloQuit :: "ucall list" where
  "phyloQuit =
     [UWrite (str ''Y en ese momento'' @ [10] @ str ''una gran ola llego,'' @ [10] @ str ''retirando a los filosofos'' @ [10] @
        str ''hacia un lugar mejor. '' @ [10, 0]) 87 (Some (2, 0))]"

text \<open>One line of \<open>printTable\<close>.\<close>

definition printTable :: "table \<Rightarrow> u8 list" where
  "printTable t = concat (map (\<lambda>i. str (if state_of t i = EATING then ''E '' else ''. '')) [0 ..< currentPhilosofers t]) @ [10]"

section \<open>The table as a state machine\<close>

text \<open>Where the process of a philosopher is: before \<open>philoWait\<close>, waiting at its semaphore, or past it (at the
  table) until \<open>philoRest\<close>.\<close>

datatype place = Away | AtSem | AtTable

record dining =
  tab :: table
  place_of :: "nat \<Rightarrow> place"

inductive dine_step :: "dining \<Rightarrow> dining \<Rightarrow> bool" where
  ask: "i < currentPhilosofers (tab d) \<Longrightarrow> place_of d i = Away \<Longrightarrow>
     dine_step d \<lparr>tab = philoWait i (tab d), place_of = (place_of d)(i := AtSem)\<rparr>"
| sit: "i < currentPhilosofers (tab d) \<Longrightarrow> place_of d i = AtSem \<Longrightarrow>
     sid = ph_semId (philosopher (tab d) ! i) \<Longrightarrow> sem_value (tab d) sid > 0 \<Longrightarrow>
     dine_step d \<lparr>tab = (tab d)\<lparr>sem_value := (sem_value (tab d))(sid := sem_value (tab d) sid - 1)\<rparr>,
       place_of = (place_of d)(i := AtTable)\<rparr>"
| rest: "i < currentPhilosofers (tab d) \<Longrightarrow> place_of d i = AtTable \<Longrightarrow>
     dine_step d \<lparr>tab = philoRest i (tab d), place_of = (place_of d)(i := Away)\<rparr>"
| add: "addPhilosofer semaphore pid (tab d) = (r, t) \<Longrightarrow>
     dine_step d \<lparr>tab = t, place_of = (place_of d)(currentPhilosofers (tab d) := Away)\<rparr>"

inductive_cases dine_step_cases: "dine_step d d'"

definition seated :: "table \<Rightarrow> dining" where
  "seated t = \<lparr>tab = t, place_of = (\<lambda>_. Away)\<rparr>"

inductive dines :: "dining \<Rightarrow> dining \<Rightarrow> bool" for d0 where
  start: "dines d0 d0"
| step: "dines d0 d \<Longrightarrow> dine_step d d' \<Longrightarrow> dines d0 d'"

section \<open>Neighbours\<close>

definition table_ok :: "table \<Rightarrow> bool" where
  "table_ok t \<longleftrightarrow> length (philosopher t) = MAX_PHILO \<and> 2 \<le> currentPhilosofers t \<and> currentPhilosofers t \<le> MAX_PHILO \<and>
     (\<forall>i < currentPhilosofers t. \<not> (state_of t i = EATING \<and> state_of t (RIGHT i t) = EATING))"

lemma state_simps [simp]:
  "i < length (philosopher t) \<Longrightarrow> state_of (set_state i s t) j = (if j = i then s else state_of t j)"
  "currentPhilosofers (set_state i s t) = currentPhilosofers t"
  "length (philosopher (set_state i s t)) = length (philosopher t)"
  "state_of (post k t) = state_of t" "currentPhilosofers (post k t) = currentPhilosofers t"
  "length (philosopher (post k t)) = length (philosopher t)"
  "LEFT i (set_state j s t) = LEFT i t" "RIGHT i (set_state j s t) = RIGHT i t" "RIGHT i (post k t) = RIGHT i t"
  by (auto simp: state_of_def set_state_def post_def LEFT_def RIGHT_def nth_list_update fun_eq_iff)

lemma neighbour_bounds:
  assumes "2 \<le> currentPhilosofers t" "i < currentPhilosofers t"
  shows "LEFT i t < currentPhilosofers t" "RIGHT i t < currentPhilosofers t" "RIGHT i t \<noteq> i"
  using assms by (auto simp: LEFT_def RIGHT_def mod_Suc)

lemma LEFT_RIGHT:
  assumes "2 \<le> currentPhilosofers t" "j < currentPhilosofers t" "RIGHT j t = i"
  shows "LEFT i t = j"
  using assms by (cases "Suc j = currentPhilosofers t") (auto simp: LEFT_def RIGHT_def mod_if)

lemma set_state_ok: "table_ok t \<Longrightarrow> i < MAX_PHILO \<Longrightarrow> s \<noteq> EATING \<Longrightarrow> table_ok (set_state i s t)"
  by (auto simp: table_ok_def)

lemma testEat_ok:
  assumes "table_ok t" "i < currentPhilosofers t"
  shows "table_ok (testEat i t)" "currentPhilosofers (testEat i t) = currentPhilosofers t"
proof -
  have b: "2 \<le> currentPhilosofers t" "i < length (philosopher t)" using assms by (auto simp: table_ok_def)
  show "currentPhilosofers (testEat i t) = currentPhilosofers t" by (simp add: testEat_def Let_def)
  show "table_ok (testEat i t)"
  proof (cases "state_of t i = WAITING \<and> state_of t (LEFT i t) \<noteq> EATING \<and> state_of t (RIGHT i t) \<noteq> EATING")
    case True
    have "\<not> (state_of (testEat i t) j = EATING \<and> state_of (testEat i t) (RIGHT j t) = EATING)"
      if j: "j < currentPhilosofers t" for j
    proof (cases "RIGHT j t = i")
      case eq: True
      then have "LEFT i t = j" "j \<noteq> i" using LEFT_RIGHT [OF b(1) j] neighbour_bounds(3) [OF b(1) j] by auto
      then show ?thesis using True eq b(2) by (simp add: testEat_def Let_def)
    next
      case False
      then show ?thesis using True assms(1) j b(2) by (auto simp: testEat_def Let_def table_ok_def)
    qed
    then show ?thesis using True assms(1) by (simp add: testEat_def Let_def table_ok_def)
  next
    case False
    then have "testEat i t = t" by (auto simp: testEat_def)
    then show ?thesis using assms(1) by simp
  qed
qed

lemma philoWait_ok:
  assumes "table_ok t" "i < currentPhilosofers t"
  shows "table_ok (philoWait i t)"
  unfolding philoWait_def using assms
  by (intro testEat_ok(1) set_state_ok) (auto simp: table_ok_def)

lemma philoRest_ok:
  assumes ok: "table_ok t" and i: "i < currentPhilosofers t"
  shows "table_ok (philoRest i t)"
proof -
  let ?t1 = "set_state i DECIDING t"
  let ?t2 = "testEat (LEFT i ?t1) ?t1"
  have c: "2 \<le> currentPhilosofers t" "i < MAX_PHILO" using assms by (auto simp: table_ok_def)
  have t1: "table_ok ?t1" using ok c(2) by (rule set_state_ok) simp
  have l: "LEFT i ?t1 < currentPhilosofers ?t1" using neighbour_bounds(1) [OF c(1) i] by simp
  note t2 = testEat_ok [OF t1 l]
  have "RIGHT i ?t2 < currentPhilosofers ?t2" using t2(2) c(1) by (simp add: RIGHT_def)
  then show ?thesis unfolding philoRest_def Let_def by (rule testEat_ok(1) [OF t2(1)])
qed

lemma RIGHT_append:
  assumes "i < c" shows "Suc i mod Suc c = Suc i"
  using assms by simp

text \<open>A table with one more philosopher who is not eating.\<close>

lemma table_ok_grow:
  assumes ok: "table_ok t" and c: "currentPhilosofers t < MAX_PHILO"
    and t': "currentPhilosofers t' = Suc (currentPhilosofers t)" "length (philosopher t') = MAX_PHILO"
    and same: "\<And>i. i < currentPhilosofers t \<Longrightarrow> state_of t' i = state_of t i"
    and new: "state_of t' (currentPhilosofers t) \<noteq> EATING"
  shows "table_ok t'"
proof -
  let ?c = "currentPhilosofers t"
  have "\<not> (state_of t' i = EATING \<and> state_of t' (RIGHT i t') = EATING)" if i: "i < Suc ?c" for i
  proof (cases "Suc i < ?c")
    case True
    then have "RIGHT i t' = RIGHT i t" "RIGHT i t < ?c" by (auto simp: RIGHT_def t')
    then show ?thesis using ok True same by (auto simp: table_ok_def)
  next
    case False
    then consider "i = ?c" | "Suc i = ?c" using i by linarith
    then show ?thesis
    proof cases
      case 2
      then have "RIGHT i t' = ?c" by (simp add: RIGHT_def t')
      then show ?thesis using new by simp
    qed (use new in simp)
  qed
  then show ?thesis using ok c by (auto simp: table_ok_def t')
qed

lemma addPhilosofer_ok:
  assumes ok: "table_ok t" and "addPhilosofer semaphore pid t = (r, t')"
  shows "table_ok t'"
proof (cases "currentPhilosofers t = MAX_PHILO \<or> semaphore = -1")
  case True
  then show ?thesis using assms by (auto simp: addPhilosofer_def split: if_splits)
next
  case False
  then have c: "currentPhilosofers t < MAX_PHILO" using ok by (auto simp: table_ok_def)
  have l: "length (philosopher t) = MAX_PHILO" using ok by (simp add: table_ok_def)
  have t': "t' = snd (startPhiloProcess pid (giveSem (currentPhilosofers t) semaphore t))"
    using assms(2) False by (auto simp: addPhilosofer_def)
  show ?thesis
  proof (cases "pid = -1")
    case True
    then have "state_of t' i = state_of t i" if "i < currentPhilosofers t" for i
      using that by (auto simp: t' startPhiloProcess_def giveSem_def state_of_def set_state_def Let_def)
    moreover have "currentPhilosofers t' = currentPhilosofers t" "length (philosopher t') = MAX_PHILO"
      using True l by (auto simp: t' startPhiloProcess_def giveSem_def set_state_def Let_def)
    moreover have "RIGHT i t < currentPhilosofers t" for i using ok by (auto simp: RIGHT_def table_ok_def)
    ultimately show ?thesis using ok by (auto simp: table_ok_def RIGHT_def)
  next
    case False
    show ?thesis
      by (rule table_ok_grow [OF ok c])
        (use False c l in \<open>auto simp: t' startPhiloProcess_def giveSem_def state_of_def set_state_def Let_def\<close>)
  qed
qed

lemma dine_step_ok: "dine_step d d' \<Longrightarrow> table_ok (tab d) \<Longrightarrow> table_ok (tab d')"
proof (induction rule: dine_step.induct)
  case (sit i d sid)
  then show ?case by (simp add: table_ok_def state_of_def RIGHT_def)
qed (auto intro: philoWait_ok philoRest_ok addPhilosofer_ok)

lemma dines_ok: "dines d0 d \<Longrightarrow> table_ok (tab d0) \<Longrightarrow> table_ok (tab d)"
  by (induction rule: dines.induct) (auto intro: dine_step_ok)

section \<open>The start of the table\<close>

definition starting :: "nat \<Rightarrow> table \<Rightarrow> bool" where
  "starting k t \<longleftrightarrow> length (philosopher t) = MAX_PHILO \<and> currentPhilosofers t = k \<and> (\<forall>i < k. state_of t i = DECIDING)"

lemma giveSems_starting:
  "starting k t \<Longrightarrow> starting k (fold (\<lambda>i. giveSem i (f i)) is t)"
proof (induction "is" arbitrary: t)
  case (Cons i "is")
  have "starting k (giveSem i (f i) t)"
    using Cons.prems
    by (cases "i < length (philosopher t)")
      (auto simp: starting_def giveSem_def state_of_def nth_list_update list_update_beyond)
  then show ?case using Cons.IH by simp
qed simp

lemma bind_fold_None: "fold (\<lambda>x r. Option.bind r (f x)) xs None = None"
  by (induction xs) auto

lemma startPhiloProcess_starting:
  assumes "starting k t" "k < MAX_PHILO" "startPhiloProcess pid t = (res, t')" "res \<noteq> -1"
  shows "starting (Suc k) t'"
  using assms by (auto simp: starting_def startPhiloProcess_def state_of_def set_state_def Let_def nth_list_update
      less_Suc_eq split: if_splits)

lemma startAll_starting:
  "starting k t \<Longrightarrow> k + length pids \<le> MAX_PHILO \<Longrightarrow>
   fold (\<lambda>pid r. Option.bind r (\<lambda>t. let (res, t') = startPhiloProcess pid t in if res = -1 then None else Some t'))
     pids (Some t) = Some t' \<Longrightarrow> starting (k + length pids) t'"
proof (induction pids arbitrary: k t)
  case (Cons pid pids)
  obtain res t1 where s: "startPhiloProcess pid t = (res, t1)" by fastforce
  show ?case
  proof (cases "res = -1")
    case True
    then show ?thesis using Cons.prems(3) s by (simp add: bind_fold_None)
  next
    case False
    have "starting (Suc k) t1" using startPhiloProcess_starting [OF Cons.prems(1) _ s False] Cons.prems(2) by simp
    from Cons.IH [OF this] show ?thesis using Cons.prems(2,3) s False by simp
  qed
qed simp

lemma phylo_starting:
  assumes "length (philosopher t) = MAX_PHILO" "INITIAL_PHILO \<le> length pids" "phylo sems pids t = Some t0"
  shows "starting INITIAL_PHILO t0"
proof -
  let ?t1 = "fold (\<lambda>i. giveSem i (sems ! i)) [0 ..< INITIAL_PHILO] (t\<lparr>currentPhilosofers := 0\<rparr>)"
  have "starting 0 (t\<lparr>currentPhilosofers := 0\<rparr>)" using assms(1) by (simp add: starting_def)
  from giveSems_starting [OF this] have "starting 0 ?t1" .
  from startAll_starting [OF this, of "take INITIAL_PHILO pids" t0] show ?thesis
    using assms(2,3) by (auto simp: phylo_def INITIAL_PHILO_def MAX_PHILO_def split: if_splits)
qed

lemma starting_ok: "starting k t \<Longrightarrow> 2 \<le> k \<Longrightarrow> k \<le> MAX_PHILO \<Longrightarrow> table_ok t"
  by (auto simp: starting_def table_ok_def)

section \<open>Properties\<close>


text \<open>A table of fifteen unused places, and the one that \<open>phylo\<close> makes of it.\<close>

definition emptyTable :: table where
  "emptyTable = \<lparr>philosopher = replicate MAX_PHILO \<lparr>ph_pid = 0, ph_state = WAITING, ph_semId = 0\<rparr>,
     currentPhilosofers = 0, sem_value = (\<lambda>_. 0)\<rparr>"

definition laidTable :: table where
  "laidTable = the (phylo [11, 12, 13, 14, 15] [21, 22, 23, 24, 25] emptyTable)"

lemma laidTable: "phylo [11, 12, 13, 14, 15] [21, 22, 23, 24, 25] emptyTable = Some laidTable"
  unfolding laidTable_def by (rule option.collapse [symmetric]) code_simp

lemmas laid_simps = laidTable_def phylo_def emptyTable_def giveSem_def startPhiloProcess_def set_state_def
  INITIAL_PHILO_def MAX_PHILO_def


lemma dines_ask:
  "dines d0 d \<Longrightarrow> i < currentPhilosofers (tab d) \<Longrightarrow> place_of d i = Away \<Longrightarrow>
   dines d0 \<lparr>tab = philoWait i (tab d), place_of = (place_of d)(i := AtSem)\<rparr>"
  by (rule dines.step) (auto intro: dine_step.ask)

lemma dines_sit:
  "dines d0 d \<Longrightarrow> i < currentPhilosofers (tab d) \<Longrightarrow> place_of d i = AtSem \<Longrightarrow>
   sem_value (tab d) (ph_semId (philosopher (tab d) ! i)) > 0 \<Longrightarrow>
   dines d0 \<lparr>tab = (tab d)\<lparr>sem_value := (sem_value (tab d))
        (ph_semId (philosopher (tab d) ! i) := sem_value (tab d) (ph_semId (philosopher (tab d) ! i)) - 1)\<rparr>,
      place_of = (place_of d)(i := AtTable)\<rparr>"
  by (rule dines.step) (auto intro: dine_step.sit)

lemma dines_add:
  "dines d0 d \<Longrightarrow> dines d0 \<lparr>tab = snd (addPhilosofer s p (tab d)),
     place_of = (place_of d)(currentPhilosofers (tab d) := Away)\<rparr>"
  by (rule dines.step, assumption, rule dine_step.add [where r = "fst (addPhilosofer s p (tab d))"]) simp

text \<open>Removing the last philosopher makes the one before and the first one neighbours without looking at what
  they do: when both eat, which may happen, the table then records two neighbours as eating.\<close>

theorem removePhilosofer_joins_eaters:
  assumes "table_ok t" "removePhilosofer t = (0, t')" "3 \<le> currentPhilosofers t"
  shows "table_ok t' \<longleftrightarrow> \<not> (state_of t (currentPhilosofers t - 2) = EATING \<and> state_of t 0 = EATING)"
proof -
  let ?c = "currentPhilosofers t"
  have t': "currentPhilosofers t' = ?c - 1" "state_of t' = state_of t" "philosopher t' = philosopher t"
    using assms(2) by (auto simp: removePhilosofer_def state_of_def fun_eq_iff split: if_splits)
  have pred: "Suc (?c - 2) = ?c - 1" using assms(3) by simp
  have last: "RIGHT (?c - 2) t' = 0" using pred by (simp add: RIGHT_def t')
  have inner: "RIGHT i t' = Suc i \<and> RIGHT i t = Suc i" if "i < ?c - 2" for i using that by (simp add: RIGHT_def t')
  have "\<not> (state_of t i = EATING \<and> state_of t (Suc i) = EATING)" if "i < ?c - 2" for i
  proof -
    have "\<not> (state_of t i = EATING \<and> state_of t (RIGHT i t) = EATING)"
      using assms(1) that by (simp add: table_ok_def)
    then show ?thesis using inner [OF that] by simp
  qed
  then have "(\<forall>i < Suc (?c - 2). \<not> (state_of t i = EATING \<and> state_of t (RIGHT i t') = EATING)) \<longleftrightarrow>
      \<not> (state_of t (?c - 2) = EATING \<and> state_of t 0 = EATING)"
    using inner last by (auto simp: less_Suc_eq)
  then show ?thesis using assms(1,3) pred by (auto simp: table_ok_def t')
qed

definition crowdedTable :: table where
  "crowdedTable = philoWait 4 (philoWait 0 (snd (addPhilosofer 16 26 laidTable)))"

lemma crowdedTable_reached: "\<exists>p. dines (seated laidTable) \<lparr>tab = crowdedTable, place_of = p\<rparr>"
proof -
  let ?d = "seated laidTable"
  have "\<exists>p. dines ?d \<lparr>tab = snd (addPhilosofer 16 26 laidTable), place_of = p\<rparr> \<and> p 0 = Away \<and> p 4 = Away"
    using dines_add [OF dines.start [of ?d], of 16 26] by (auto simp: seated_def)
  then obtain p where p: "dines ?d \<lparr>tab = snd (addPhilosofer 16 26 laidTable), place_of = p\<rparr>" "p 0 = Away" "p 4 = Away"
    by blast
  have c: "0 < currentPhilosofers (snd (addPhilosofer 16 26 laidTable))"
    "4 < currentPhilosofers (philoWait 0 (snd (addPhilosofer 16 26 laidTable)))" by code_simp+
  have "dines ?d \<lparr>tab = philoWait 0 (snd (addPhilosofer 16 26 laidTable)), place_of = p(0 := AtSem)\<rparr>"
    using dines_ask [OF p(1), of 0] c(1) p(2) by simp
  from dines_ask [OF this, of 4] show ?thesis using c(2) p(3) by (auto simp: crowdedTable_def)
qed

lemma removePhilosofer_joins_eaters_witness:
  "\<not> table_ok (snd (removePhilosofer crowdedTable)) \<and>
   (\<exists>p. dines (seated laidTable) \<lparr>tab = crowdedTable, place_of = p\<rparr>)"
proof
  have "table_ok laidTable" by (rule starting_ok [OF phylo_starting [OF _ _ laidTable]]) code_simp+
  then have "table_ok crowdedTable"
    using crowdedTable_reached dines_ok by (fastforce simp: seated_def)
  moreover have "fst (removePhilosofer crowdedTable) = 0" by code_simp
  then have "removePhilosofer crowdedTable = (0, snd (removePhilosofer crowdedTable))" by (simp add: prod_eq_iff)
  moreover have "3 \<le> currentPhilosofers crowdedTable" by code_simp
  ultimately have "table_ok (snd (removePhilosofer crowdedTable)) \<longleftrightarrow>
      \<not> (state_of crowdedTable (currentPhilosofers crowdedTable - 2) = EATING \<and> state_of crowdedTable 0 = EATING)"
    by (rule removePhilosofer_joins_eaters)
  moreover have "state_of crowdedTable (currentPhilosofers crowdedTable - 2) = EATING \<and> state_of crowdedTable 0 = EATING"
    by code_simp
  ultimately show "\<not> table_ok (snd (removePhilosofer crowdedTable))" by simp
qed (rule crowdedTable_reached)

text \<open>The semaphore of a philosopher starts at one and not at zero, so its first wait does not wait: two
  neighbours can both be past \<open>philoWait\<close>, at the table, although only one of them is recorded as eating.\<close>

theorem neighbours_both_at_table:
  "\<exists>d. dines (seated laidTable) d \<and> RIGHT 0 (tab d) = 1 \<and> place_of d 0 = AtTable \<and> place_of d 1 = AtTable \<and>
     state_of (tab d) 0 = EATING \<and> state_of (tab d) 1 = WAITING"
proof -
  let ?take = "\<lambda>s t. t\<lparr>sem_value := (sem_value t)(s := sem_value t s - 1)\<rparr>"
  let ?t1 = "philoWait 0 laidTable"
  let ?t2 = "?take 11 ?t1"
  let ?t3 = "philoWait 1 ?t2"
  let ?t4 = "?take 12 ?t3"
  have c: "0 < currentPhilosofers laidTable" "0 < currentPhilosofers ?t1" "1 < currentPhilosofers ?t2"
    "1 < currentPhilosofers ?t3" by code_simp+
  have s: "ph_semId (philosopher ?t1 ! 0) = 11" "0 < sem_value ?t1 11"
    "ph_semId (philosopher ?t3 ! 1) = 12" "0 < sem_value ?t3 12" by code_simp+
  have e: "RIGHT 0 ?t4 = 1" "state_of ?t4 0 = EATING" "state_of ?t4 1 = WAITING" by code_simp+
  let ?p = "\<lambda>_. Away"
  have "dines (seated laidTable) \<lparr>tab = ?t1, place_of = ?p(0 := AtSem)\<rparr>"
    using dines_ask [OF dines.start [of "seated laidTable"], of 0] c(1) by (simp add: seated_def)
  from dines_sit [OF this, of 0] have "dines (seated laidTable) \<lparr>tab = ?t2, place_of = ?p(0 := AtTable)\<rparr>"
    using c(2) s(1,2) by simp
  from dines_ask [OF this, of 1] have "dines (seated laidTable) \<lparr>tab = ?t3, place_of = ?p(0 := AtTable, 1 := AtSem)\<rparr>"
    using c(3) by simp
  from dines_sit [OF this, of 1] have "dines (seated laidTable) \<lparr>tab = ?t4, place_of = ?p(0 := AtTable, 1 := AtTable)\<rparr>"
    using c(4) s(3,4) by simp
  then show ?thesis using e by (intro exI conjI) auto
qed

end
