(* ===== verification/Commands.thy ===== *)
theory Commands
  imports UserSys
begin

text \<open>
  The commands of the shell, \<open>Userland/SampleCodeModule/lib/commands.c\<close>: the table of commands and the search in
  it, \<open>help\<close>, the filters \<open>cat\<close>, \<open>wc\<close> and \<open>filter\<close>, and the commands on processes. A command gets \<open>argc\<close> and the
  \<open>argc\<close> strings that \<open>startTask\<close> has copied; reading a string beyond them is \<open>None\<close>.
\<close>

section \<open>The table of commands\<close>

record command_t =
  cmd_name :: "u8 list"
  runner :: "string option"
  cmd_help :: "u8 list"

definition cmd :: "string \<Rightarrow> string \<Rightarrow> string \<Rightarrow> command_t" where
  "cmd name f h = \<lparr>cmd_name = str name, runner = Some f, cmd_help = str h\<rparr>"

definition commands :: "command_t list" where
  "commands =
   [cmd ''cheese'' ''printCheese''
      ''mmmmm... queso...'',
    cmd ''brand'' ''printCheeseOs''
      ''Imprime el nombre del sistema operativo'',
    cmd ''date&time'' ''dateAndTime''
      ''Imprime en pantalla la fecha del ano corriente y horario en que fue llamado.'',
    cmd ''fibonacci'' ''fibonacci''
      ''Imprime la secuencia de fibonacci infinitamente hasta que se pause o se termine su ejecucion. '',
    cmd ''hello'' ''holaMundo''
      ''Imprime un saludo al usuario. '',
    cmd ''help'' ''help''
      ''Imprime una lista detallada de los comandos  y modulos ejecutables del programa. '',
    cmd ''inforeg'' ''infoReg''
      ''Imprime los registros capturados al presionar ctrl + r. '',
    cmd ''prime'' ''primes''
      ''Imprime numeros primos infinitamente hasta que se pause o se termine su ejecucion. '',
    cmd ''printmem'' ''printmem''
      ''Recibe como argumento una direccion de memoria no superior a 80000000h y luego imprime los proximos 32bytes de memoria adyacentes a la direccion dada. '',
    cmd ''clear'' ''clearScreen''
      ''Limpia la pantalla. '',
    cmd ''mem'' ''memDump''
      ''Imprime el estado de memoria. '',
    cmd ''ps'' ''ps''
      ''Imprime el estado de los procesos. '',
    cmd ''kill'' ''killTask''
      ''Recibe un pid y mata al proceso. '',
    cmd ''block'' ''blockTask''
      ''Recibe un pid y bloquea al proceso. '',
    cmd ''resume'' ''resumeTask''
      ''Recibe un pid y resume el proceso. '',
    cmd ''nice'' ''niceTask''
      ''Recibe un pid y un valor de prioridad y modifica la prioridad del pid. '',
    cmd ''loop'' ''loop''
      ''Te saluda cada cierto tiempo. '',
    cmd ''sem'' ''printSemInfo''
      ''Imprime informacion sobre los semaforos. '',
    cmd ''pipes'' ''printPipeInfo''
      ''Imprime estado de los pipes. '',
    cmd ''test_mm'' ''test_mm''
      ''Recibe una cantidad de memoria y empieza a testear. '',
    cmd ''test_prio'' ''test_prio''
      ''Testea las prioridades del scheduler. '',
    cmd ''test_processes'' ''test_processes''
      ''Testea el scheduler. '',
    cmd ''test_sync'' ''test_sync''
      ''Testea semaforos y race conditions. '',
    cmd ''phylo'' ''phylo''
      ''Filosofos comensales. '',
    cmd ''cat'' ''cat''
      ''Imprime el stdin tal como lo recibe. '',
    cmd ''wc'' ''wc''
      ''Cuenta la cantidad de lineas escritas en stdin.'',
    cmd ''filter'' ''filter''
      ''Filtra las vocales del input.'',
    cmd ''shortcuts'' ''printShortcuts''
      ''Imprime los shortcuts que la terminal provee.'',
    cmd ''ejemplos'' ''ejemplos''
      ''Imprime ejemplos de comandos posibles'',
    cmd ''echo'' ''echo''
      ''Imprime los argumentos a salida estandar'',
    \<lparr>cmd_name = [], runner = None, cmd_help = []\<rparr>]"

definition HELP_PAGE :: int where "HELP_PAGE = 8"

text \<open>The loops over the table go up to its last entry, the one without a function and with an empty name.\<close>

primrec commandsLength_loop :: "command_t list \<Rightarrow> int \<Rightarrow> int" where
  "commandsLength_loop [] i = i"
| "commandsLength_loop (c # cs) i = (if runner c \<noteq> None then commandsLength_loop cs (i + 1) else i)"

definition getCommandsLength :: int where
  "getCommandsLength = commandsLength_loop commands 0"

primrec getCommand_loop :: "command_t list \<Rightarrow> u8 list \<Rightarrow> command_t option" where
  "getCommand_loop [] commandName = None"
| "getCommand_loop (c # cs) commandName =
     (if strcasecmp_list (cmd_name c) [] \<noteq> 0
      then if strcasecmp_list (cmd_name c) commandName = 0 then Some c else getCommand_loop cs commandName
      else None)"

definition getCommand :: "u8 list \<Rightarrow> command_t option" where
  "getCommand commandName = getCommand_loop commands commandName"

definition getDescriptions :: "u8 list \<Rightarrow> u8 list option" where
  "getDescriptions f = map_option cmd_help (getCommand f)"

section \<open>Arguments\<close>

definition arg :: "nat \<Rightarrow> u8 list list \<Rightarrow> u8 list option" where
  "arg i argv = (if i < length argv then Some (argv ! i) else None)"

section \<open>Help\<close>

text \<open>The loop over one page: at most \<open>n\<close> entries, up to the last one of the table.\<close>

primrec help_loop :: "nat \<Rightarrow> command_t list \<Rightarrow> ustate \<Rightarrow> ustate option" where
  "help_loop 0 cs u = Some u"
| "help_loop (Suc n) cs u =
     (case cs of
        [] \<Rightarrow> None
      | c # rest \<Rightarrow>
          (if runner c \<noteq> None
           then Option.bind (ufprintf (str ''- %s: %s'' @ [10]) [UStr (cmd_name c), UStr (cmd_help c)] u) (help_loop n rest)
           else Some u))"

definition help_page :: "int \<Rightarrow> ustate \<Rightarrow> ustate option" where
  "help_page page u =
     (if page > getCommandsLength div HELP_PAGE
      then ufprintf (str ''No existe esta pagina de comandos: '' @ [10]) [] u
      else Option.bind (ufprintf (str ''* Lista de posibles comandos: '' @ [10]) [] u) (\<lambda>u.
           Option.bind (help_loop (nat HELP_PAGE) (drop (nat (page * HELP_PAGE)) commands) u) (\<lambda>u.
           Option.bind (ufprintf ([10] @ str ''Pagina nro %d de %d, help [pagina] para mas comandos.'' @ [10])
                          [UInt page, UInt (getCommandsLength div HELP_PAGE)] u) (\<lambda>u.
           Option.bind (ufprintf (str ''Para observar ejemplos de comandos utilizar el comando 'ejemplos'.'' @ [10]) [] u)
             (ufprintf (str ''Para conocer los shortcuts del sistema, utilizar el comando shortcuts.'' @ [10]) [])))))"

definition help_cmd :: "nat \<Rightarrow> u8 list list \<Rightarrow> ustate \<Rightarrow> ustate option" where
  "help_cmd argc argv u =
     (if argc > 1
      then Option.bind (arg 1 argv) (\<lambda>a.
             case getDescriptions a of
               Some description \<Rightarrow> Some (ufprint description u)
             | None \<Rightarrow> if isNumber (Some a) then help_page (atoi a) u
                       else ufprintf (str ''%s no existe'' @ [10]) [UStr a] u)
      else help_page 0 u)"

section \<open>Filters\<close>

text \<open>The loops end at the end of the input, which may never come: \<open>None\<close> is then their value.\<close>

partial_function (option) cat_loop :: "ustate \<Rightarrow> ustate option" where
  "cat_loop u = (let (c, u1) = getChar u in if c \<noteq> -1 then cat_loop (uputc c u1) else Some u1)"

definition wrong_use :: "ustate \<Rightarrow> ustate option" where
  "wrong_use = ufprintf (str ''Uso incorrecto de comando'') []"

definition cat :: "nat \<Rightarrow> u8 list list \<Rightarrow> ustate \<Rightarrow> ustate option" where
  "cat argc argv u = (if argc \<noteq> 1 then wrong_use u else cat_loop u)"

partial_function (option) wc_loop :: "int \<Rightarrow> ustate \<Rightarrow> (int \<times> ustate) option" where
  "wc_loop counter u =
     (let (c, u1) = getChar u
      in if c \<noteq> -1 then wc_loop (if c = 10 then counter + 1 else counter) u1 else Some (counter, u1))"

definition wc :: "nat \<Rightarrow> u8 list list \<Rightarrow> ustate \<Rightarrow> ustate option" where
  "wc argc argv u =
     (if argc \<noteq> 1 then wrong_use u
      else Option.bind (wc_loop 1 u) (\<lambda>(counter, u1).
             ufprintf (str ''La cantidad de lineas escritas fueron: %d'') [UInt counter] u1))"

definition vowel :: "int \<Rightarrow> bool" where
  "vowel c \<longleftrightarrow> c = 97 \<or> c = 101 \<or> c = 105 \<or> c = 111 \<or> c = 117"

partial_function (option) filter_loop :: "ustate \<Rightarrow> ustate option" where
  "filter_loop u =
     (let (c, u1) = getChar u
      in if c \<noteq> -1 then let c = toLower c in filter_loop (if vowel c then u1 else uputc c u1) else Some u1)"

definition filter_cmd :: "nat \<Rightarrow> u8 list list \<Rightarrow> ustate \<Rightarrow> ustate option" where
  "filter_cmd argc argv u = (if argc \<noteq> 1 then wrong_use u else filter_loop u)"

primrec echo_loop :: "u8 list list \<Rightarrow> ustate \<Rightarrow> ustate option" where
  "echo_loop [] u = ufprintf [10] [] u"
| "echo_loop (a # rest) u = Option.bind (ufprintf (str ''%s '') [UStr a] u) (echo_loop rest)"

text \<open>\<open>echo\<close> of \<open>argc\<close> strings, all of them given.\<close>

definition echo :: "nat \<Rightarrow> u8 list list \<Rightarrow> ustate \<Rightarrow> ustate option" where
  "echo argc argv u = (if length argv < argc then None else echo_loop (tl (take argc argv)) u)"

section \<open>Processes, memory and time\<close>

definition no_pid :: "ustate \<Rightarrow> ustate option" where
  "no_pid = ufprintf (str ''No se ingreso un pid'' @ [10]) []"

definition killTaskCmd :: "nat \<Rightarrow> u8 list list \<Rightarrow> ustate \<Rightarrow> ustate option" where
  "killTaskCmd argc argv u =
     (if argc = 1 then no_pid u else map_option (\<lambda>a. snd (ukill (atoi a) u)) (arg 1 argv))"

definition blockTaskCmd :: "nat \<Rightarrow> u8 list list \<Rightarrow> ustate \<Rightarrow> ustate option" where
  "blockTaskCmd argc argv u =
     (if argc = 1 then no_pid u else map_option (\<lambda>a. snd (ublock (atoi a) u)) (arg 1 argv))"

definition resumeTaskCmd :: "nat \<Rightarrow> u8 list list \<Rightarrow> ustate \<Rightarrow> ustate option" where
  "resumeTaskCmd argc argv u =
     (if argc = 1 then no_pid u else map_option (\<lambda>a. snd (uresume (atoi a) u)) (arg 1 argv))"

text \<open>With one argument \<open>niceTask\<close> prints its message and goes on to read the second.\<close>

definition niceTask :: "nat \<Rightarrow> u8 list list \<Rightarrow> ustate \<Rightarrow> ustate option" where
  "niceTask argc argv u =
     (if argc = 1 then no_pid u
      else Option.bind (if argc = 2 then ufprintf (str ''No se ingreso un valor de nice'' @ [10]) [] u else Some u) (\<lambda>u1.
           Option.bind (arg 1 argv) (\<lambda>a. map_option (\<lambda>b. unice (atoi a) (atoi b) u1) (arg 2 argv))))"

definition ERROR_COLOURS :: "u8 \<times> u8" where "ERROR_COLOURS = (4, 0)"

definition DUMP_SIZE :: nat where "DUMP_SIZE = 33"

text \<open>\<open>printmem\<close>; \<open>mem\<close> is the memory that the call \<open>printMem\<close> copies its bytes from.\<close>

primrec printmem_loop :: "nat \<Rightarrow> nat \<Rightarrow> u8 list \<Rightarrow> ustate \<Rightarrow> ustate option" where
  "printmem_loop 0 i buffer u = Some u"
| "printmem_loop (Suc n) i buffer u =
     Option.bind (if i mod 8 = 0 then ufprintf ([10] @ str '' x%d:  '') [UInt (int i)] u else Some u) (\<lambda>u1.
     Option.bind (ufprintf (str ''0x%x  '') [UWord (ucast (buffer ! i))] u1) (printmem_loop n (i + 1) buffer))"

definition printmem :: "(u64 \<Rightarrow> u8) \<Rightarrow> nat \<Rightarrow> u8 list list \<Rightarrow> ustate \<Rightarrow> ustate option" where
  "printmem mem argc argv u =
     (if argc < 1
      then let e = str ''No se dio una direccion de memoria'' @ [10] in Some (snd (uwrite e (length e) (Some ERROR_COLOURS) u))
      else Option.bind (arg 1 argv) (\<lambda>address.
        let memDir = word_of_int (strToHex address) :: u64
        in if memDir = -1 \<or> memDir \<ge> 0x80000000
           then let e = [10] @ str ''La direccion ingresada no es alcanzable '' @ [10]
                in Some (snd (uwrite e (length e) (Some ERROR_COLOURS) u))
           else Option.bind (ufprintf ([10] @ str ''Dump de 32 bytes a partir de la direccion: %s'' @ [10, 10]) [UStr address] u) (\<lambda>u1.
                let u2 = snd (uprintMem memDir (of_nat DUMP_SIZE) u1);
                    buffer = map (\<lambda>i. mem (memDir + of_nat i)) [0 ..< DUMP_SIZE]
                in Option.bind (printmem_loop DUMP_SIZE 0 buffer u2) (ufprintf [10] []))))"

definition dateAndTime :: "ustate \<Rightarrow> ustate option" where
  "dateAndTime u =
     (let (date, u) = ugetRTC 7 u; (month, u) = ugetRTC 8 u; (year, u) = ugetRTC 9 u
      in Option.bind (ufprintf (str ''La fecha de hoy es: %d/%d/%d'') [UInt date, UInt month, UInt year] u) (\<lambda>u.
         let (hour, u) = ugetRTC 4 u; (minute, u) = ugetRTC 2 u; (second, u) = ugetRTC 0 u
         in ufprintf ([10] @ str '' Y el horario de este momento es: %d:%d:%d'' @ [10])
              [UInt hour, UInt minute, UInt second] u))"

definition holaMundo :: "ustate \<Rightarrow> ustate" where
  "holaMundo u = ufprint (str ''hola mundo'' @ [10]) u"

text \<open>\<open>infoReg\<close> with the registers that \<open>inforeg\<close> fills in.\<close>

definition registerNames :: "string list" where
  "registerNames = [''R15: '', ''R14: '', ''R13: '', ''R12: '', ''R11: '', ''R10: '', ''R9:  '', ''R8:  '', ''RSI: '', ''RDI: '',
     ''RBP: '', ''RDX: '', ''RCX: '', ''RBX: '', ''RAX: '', ''RIP: '', ''RSP: '']"

primrec infoReg_loop :: "(string \<times> u64) list \<Rightarrow> ustate \<Rightarrow> ustate option" where
  "infoReg_loop [] u = Some u"
| "infoReg_loop (r # rs) u =
     Option.bind (ufprintf (str ''%s'') [UStr (str (fst r))] u) (\<lambda>u1.
     Option.bind (ufprintf (str ''%x'' @ [10]) [UWord (snd r)] u1) (infoReg_loop rs))"

definition infoReg :: "u64 list \<Rightarrow> ustate \<Rightarrow> ustate option" where
  "infoReg regs u = infoReg_loop (zip registerNames regs) (snd (uinforeg u))"

text \<open>The first \<open>n\<close> rounds of \<open>loop\<close>.\<close>

primrec loop_rounds :: "nat \<Rightarrow> ustate \<Rightarrow> ustate option" where
  "loop_rounds 0 u = Some u"
| "loop_rounds (Suc n) u =
     (let (pid, u1) = ugetpid u
      in Option.bind (ufprintf (str ''Hola soy %d'' @ [10]) [UInt pid] u1) (\<lambda>u2. loop_rounds n (snd (usleep 3 u2))))"

end
