(* ===== verification/CommandProps.thy ===== *)
theory CommandProps
  imports Commands
begin

text \<open>What the commands print: the filters on their whole input, the pages of \<open>help\<close>, and the search in the table.\<close>

section \<open>Formatted output as text\<close>

lemma ufprintf_renders:
  assumes "render format args = Some t"
  shows "\<exists>u'. ufprintf format args u = Some u' \<and> answer u' = answer u \<and> printed (calls u') = printed (calls u) @ t \<and>
     (\<exists>ws. calls u' = calls u @ map (\<lambda>s. UWrite s (length s) None) ws)"
proof -
  obtain ws where ws: "fprintf format args = Some ws" "concat ws = t"
    using fmt_loop_renders [OF assms, of "initFmt args"]
    by (auto simp: fprintf_def idle_def initFmt_def MAX_SPACES_def)
  have "printed (map (\<lambda>s. UWrite s (length s) None) ws) = concat ws" by (induction ws) auto
  with ws show ?thesis
    by (intro exI [of _ "fold ufprint ws u"]) (auto simp: ufprintf_def fold_ufprint)
qed

lemma render_plain: "37 \<notin> set cs \<Longrightarrow> render cs args = Some cs"
  by (induction cs args rule: render.induct) auto

lemma render_plain_append: "37 \<notin> set cs \<Longrightarrow> render (cs @ ds) args = map_option ((@) cs) (render ds args)"
proof (induction cs)
  case Nil
  show ?case by (cases "render ds args") auto
next
  case (Cons c cs)
  show ?case
  proof (cases "cs @ ds")
    case Nil
    then show ?thesis using Cons by simp
  next
    case (Cons d es)
    then show ?thesis using Cons.IH Cons.prems by (simp add: option.map_comp comp_def)
  qed
qed

lemma str_append [simp]: "str (s @ t) = str s @ str t"
  by (simp add: str_def)

text \<open>An argument of \<open>%d\<close> below \<open>2 ^ 32\<close> is printed as its dec_text digits.\<close>

lemma itoa_int:
  assumes "n < 2 ^ 32"
  shows "itoa (ucast (word_of_int (int n) :: u32)) 10 = Some (dec_text n)"
proof -
  have "unat (of_nat n :: u32) = n" using assms by (simp add: unat_of_nat)
  then have "unat (ucast (word_of_int (int n) :: u32) :: u64) = n" by simp
  then show ?thesis by (simp add: itoa_dec_text)
qed

section \<open>Filters\<close>

lemma cat_loop_copies:
  "feeds u cs \<Longrightarrow> 255 \<notin> set cs \<Longrightarrow> \<exists>u'. cat_loop u = Some u' \<and> printed (calls u') = printed (calls u) @ cs"
proof (induction cs arbitrary: u)
  case Nil
  then show ?case using getChar_feeds(1) [OF Nil(1)] by (subst cat_loop.simps) simp
next
  case (Cons c cs)
  let ?u1 = "u\<lparr>calls := calls u @ [URead]\<rparr>"
  have c: "sint c \<noteq> -1" using Cons.prems(2) by (auto simp: sint_minus_one_iff)
  have "feeds (uputc (sint c) ?u1) cs"
    by (rule feeds_output [OF getChar_feeds(2) [OF Cons.prems(1), unfolded list.sel]]) simp_all
  moreover have "255 \<notin> set cs" using Cons.prems(2) by simp
  ultimately obtain u' where u': "cat_loop (uputc (sint c) ?u1) = Some u'"
      "printed (calls u') = printed (calls (uputc (sint c) ?u1)) @ cs"
    using Cons.IH by blast
  have "cat_loop u = cat_loop (uputc (sint c) ?u1)"
    by (subst cat_loop.simps) (simp add: getChar_feeds(1) [OF Cons.prems(1)] c)
  then show ?case using u' by simp
qed

lemma filter_loop_filters:
  "feeds u cs \<Longrightarrow> 255 \<notin> set cs \<Longrightarrow>
     \<exists>u'. filter_loop u = Some u' \<and>
       printed (calls u') = printed (calls u) @ map word_of_int (filter (\<lambda>c. \<not> vowel c) (lowered cs))"
proof (induction cs arbitrary: u)
  case Nil
  then show ?case using getChar_feeds(1) [OF Nil(1)] by (subst filter_loop.simps) (simp add: lowered_def)
next
  case (Cons c cs)
  let ?u1 = "u\<lparr>calls := calls u @ [URead]\<rparr>" and ?c = "toLower (sint c)"
  let ?u2 = "if vowel ?c then ?u1 else uputc ?c ?u1"
  have c: "sint c \<noteq> -1" using Cons.prems(2) by (auto simp: sint_minus_one_iff)
  have "feeds ?u1 cs" using getChar_feeds(2) [OF Cons.prems(1)] by simp
  then have "feeds ?u2 cs" by (cases "vowel ?c") (simp_all add: feeds_output [where t = "[UWrite [word_of_int ?c] 1 None]"])
  moreover have "255 \<notin> set cs" using Cons.prems(2) by simp
  ultimately obtain u' where u': "filter_loop ?u2 = Some u'"
      "printed (calls u') = printed (calls ?u2) @ map word_of_int (filter (\<lambda>c. \<not> vowel c) (lowered cs))"
    using Cons.IH by blast
  have "filter_loop u = filter_loop ?u2"
    by (subst filter_loop.simps) (simp add: getChar_feeds(1) [OF Cons.prems(1)] c)
  then show ?case using u' by (simp add: lowered_def)
qed

lemma wc_loop_counts:
  "feeds u cs \<Longrightarrow> 255 \<notin> set cs \<Longrightarrow>
     \<exists>u'. wc_loop k u = Some (k + int (count_list cs 10), u') \<and> printed (calls u') = printed (calls u)"
proof (induction cs arbitrary: u k)
  case Nil
  then show ?case using getChar_feeds(1) [OF Nil(1)] by (subst wc_loop.simps) simp
next
  case (Cons c cs)
  have c: "sint c \<noteq> -1" using Cons.prems(2) by (auto simp: sint_minus_one_iff)
  have ten: "sint c = 10 \<longleftrightarrow> c = 10"
  proof
    assume "sint c = 10"
    then have "sint c = sint (10 :: u8)" by simp
    then show "c = 10" by (rule signed_word_eqI)
  qed simp
  let ?u1 = "u\<lparr>calls := calls u @ [URead]\<rparr>" and ?k = "if c = 10 then k + 1 else k"
  have "feeds ?u1 cs" "255 \<notin> set cs" using getChar_feeds(2) [OF Cons.prems(1)] Cons.prems(2) by simp_all
  then obtain u' where u': "wc_loop ?k ?u1 = Some (?k + int (count_list cs 10), u')" "printed (calls u') = printed (calls ?u1)"
    using Cons.IH by blast
  have "wc_loop k u = wc_loop ?k ?u1"
    by (subst wc_loop.simps) (simp add: getChar_feeds(1) [OF Cons.prems(1)] c ten)
  then show ?case using u' by simp
qed

text \<open>On an input that ends, \<open>cat\<close> returns and has written exactly the bytes it read, \<open>filter\<close> the bytes in lower
  case without the vowels.\<close>

theorem cat_and_filter:
  assumes "feeds u cs" "255 \<notin> set cs"
  shows "(\<exists>u'. cat 1 argv u = Some u' \<and> printed (calls u') = printed (calls u) @ cs) \<and>
    (\<exists>u'. filter_cmd 1 argv u = Some u' \<and>
      printed (calls u') = printed (calls u) @ map word_of_int (filter (\<lambda>c. \<not> vowel c) (lowered cs)))"
  using cat_loop_copies [OF assms] filter_loop_filters [OF assms] by (simp add: cat_def filter_cmd_def)

text \<open>A program with the input \<open>cs\<close> and a kernel that answers 0 to all other calls.\<close>

definition fed :: "u8 list \<Rightarrow> ustate" where
  "fed cs = \<lparr>answer = \<lambda>t c. if c = URead then if reads t < length cs then uint (cs ! reads t) else -1 else 0, calls = []\<rparr>"

lemma feeds_fed: "feeds (fed cs) cs"
  by (simp add: feeds_def fed_def)

theorem cat_and_filter_witness:
  "(\<exists>u'. cat 1 [[99]] (fed [81, 117, 101, 10]) = Some u' \<and> printed (calls u') = [81, 117, 101, 10]) \<and>
   (\<exists>u'. filter_cmd 1 [[99]] (fed [81, 117, 101, 10]) = Some u' \<and> printed (calls u') = [113, 10])"
  using cat_and_filter [OF feeds_fed [of "[81, 117, 101, 10]"], of "[[99]]"]
  by (simp add: fed_def lowered_def toLower_def vowel_def)

text \<open>On an input that ends \<open>wc\<close> returns and has written the number of its lines, counting one more than the
  newlines, in decimal.\<close>

theorem wc_counts_lines:
  assumes "feeds u cs" "255 \<notin> set cs" "length cs < 2 ^ 31"
  shows "\<exists>u' ds. wc 1 argv u = Some u' \<and> atoi ds = int (count_list cs 10) + 1 \<and>
     printed (calls u') = printed (calls u) @ str ''La cantidad de lineas escritas fueron: '' @ ds"
proof -
  obtain u1 where u1: "wc_loop 1 u = Some (1 + int (count_list cs 10), u1)" "printed (calls u1) = printed (calls u)"
    using wc_loop_counts [OF assms(1,2)] by blast
  let ?n = "Suc (count_list cs 10)"
  have n: "?n < 2 ^ 32" using assms(3) count_le_length [of cs 10] by simp
  have arg: "UInt (1 + int (count_list cs 10)) = UInt (int ?n)" by simp
  have pre: "37 \<notin> set (str ''La cantidad de lineas escritas fueron: '')" by (simp add: str_def)
  have "str ''La cantidad de lineas escritas fueron: %d'' = str ''La cantidad de lineas escritas fueron: '' @ [37, 100]"
    by (simp add: str_def)
  then have "render (str ''La cantidad de lineas escritas fueron: %d'') [UInt (1 + int (count_list cs 10))] =
      Some (str ''La cantidad de lineas escritas fueron: '' @ dec_text ?n)"
    using itoa_int [OF n] unfolding arg by (simp add: render_plain_append [OF pre])
  from ufprintf_renders [OF this, of u1] show ?thesis
    using u1 atoi_dec_text [of ?n] by (auto simp: wc_def)
qed

theorem wc_counts_lines_witness:
  "\<exists>u' ds. wc 1 [[119, 99]] (fed [97, 10, 10, 98]) = Some u' \<and> atoi ds = 3 \<and>
     printed (calls u') = str ''La cantidad de lineas escritas fueron: '' @ ds"
  using wc_counts_lines [OF feeds_fed [of "[97, 10, 10, 98]"], of "[[119, 99]]"] by (simp add: fed_def)

section \<open>The table and its pages\<close>

lemma commands_table:
  "length commands = 31" "last commands = \<lparr>cmd_name = [], runner = None, cmd_help = []\<rparr>"
  "getCommandsLength = 30"
  by (simp_all add: commands_def cmd_def getCommandsLength_def)

lemma commands_entries: "list_all (\<lambda>c. runner c \<noteq> None \<and> cmd_name c \<noteq> []) (butlast commands)"
  by (simp add: commands_def cmd_def str_def)

definition same_name :: "command_t \<Rightarrow> command_t \<Rightarrow> bool" where
  "same_name c d \<longleftrightarrow> lowered (cmd_name c) = lowered (cmd_name d)"

lemma commands_distinct: "distinct (map (\<lambda>c. lowered (cmd_name c)) (butlast commands))"
  by code_simp

definition entry_line :: "command_t \<Rightarrow> u8 list" where
  "entry_line c = str ''- '' @ cmd_name c @ str '': '' @ cmd_help c @ [10]"

lemma help_loop_prints:
  assumes "list_all (\<lambda>c. runner c \<noteq> None) es" "runner z = None"
  shows "\<exists>u'. help_loop n (es @ [z]) u = Some u' \<and>
     printed (calls u') = printed (calls u) @ concat (map entry_line (take n es))"
  using assms(1)
proof (induction n arbitrary: es u)
  case (Suc n)
  show ?case
  proof (cases es)
    case Nil
    then show ?thesis using assms(2) by simp
  next
    case (Cons c rest)
    have fmt: "str ''- %s: %s'' @ [10] = str ''- '' @ 37 # 115 # str '': '' @ 37 # 115 # [10 :: u8]" by (simp add: str_def)
    have "37 \<notin> set (str ''- '' :: u8 list)" "37 \<notin> set (str '': '' :: u8 list)" by (simp_all add: str_def)
    then have "render (str ''- %s: %s'' @ [10]) [UStr (cmd_name c), UStr (cmd_help c)] = Some (entry_line c)"
      unfolding fmt by (simp add: render_plain_append entry_line_def)
    from ufprintf_renders [OF this, of u] obtain u1 where
      u1: "ufprintf (str ''- %s: %s'' @ [10]) [UStr (cmd_name c), UStr (cmd_help c)] u = Some u1"
        "printed (calls u1) = printed (calls u) @ entry_line c" by blast
    obtain u' where "help_loop n (rest @ [z]) u1 = Some u'"
        "printed (calls u') = printed (calls u1) @ concat (map entry_line (take n rest))"
      using Suc.IH [of rest u1] Suc.prems Cons by auto
    then show ?thesis using u1 Suc.prems Cons by simp
  qed
qed simp

definition page_entries :: "nat \<Rightarrow> command_t list" where
  "page_entries page = take 8 (drop (8 * page) (butlast commands))"

definition page_head :: "u8 list" where
  "page_head = str ''* Lista de posibles comandos: '' @ [10]"

definition page_foot :: "nat \<Rightarrow> u8 list" where
  "page_foot page = [10] @ str ''Pagina nro '' @ dec_text page @ str '' de '' @ dec_text 3 @
     str '', help [pagina] para mas comandos.'' @ [10] @
     str ''Para observar ejemplos de comandos utilizar el comando 'ejemplos'.'' @ [10] @
     str ''Para conocer los shortcuts del sistema, utilizar el comando shortcuts.'' @ [10]"

lemma render_foot:
  assumes "page \<le> 3"
  shows "render ([10] @ str ''Pagina nro %d de %d, help [pagina] para mas comandos.'' @ [10]) [UInt (int page), UInt 3] =
    Some ([10] @ str ''Pagina nro '' @ dec_text page @ str '' de '' @ dec_text 3 @
     str '', help [pagina] para mas comandos.'' @ [10])"
proof -
  have fmt: "[10] @ str ''Pagina nro %d de %d, help [pagina] para mas comandos.'' @ [10] =
    (10 # str ''Pagina nro '') @ 37 # 100 # str '' de '' @ 37 # 100 # (str '', help [pagina] para mas comandos.'' @ [10 :: u8])"
    by (simp add: str_def)
  have p: "37 \<notin> set (10 # str ''Pagina nro '' :: u8 list)" "37 \<notin> set (str '' de '' :: u8 list)"
    "37 \<notin> set (str '', help [pagina] para mas comandos.'' @ [10] :: u8 list)" by (simp_all add: str_def)
  have d: "itoa (ucast (word_of_int (int page) :: u32)) 10 = Some (dec_text page)"
    "itoa (ucast (word_of_int 3 :: u32)) 10 = Some (dec_text 3)"
    using itoa_int [of page] itoa_int [of 3] assms by simp_all
  show ?thesis unfolding fmt render_plain_append [OF p(1)]
    by (simp add: d [simplified] render_plain_append [OF p(2)] render_plain [OF p(3)])
qed

lemma help_page_prints:
  assumes "page \<le> 3"
  shows "\<exists>u'. help_page (int page) u = Some u' \<and>
    printed (calls u') = printed (calls u) @ page_head @ concat (map entry_line (page_entries page)) @ page_foot page"
proof -
  have plain: "render cs [] = Some cs" if "37 \<notin> set cs" for cs by (rule render_plain [OF that])
  let ?head = "str ''* Lista de posibles comandos: '' @ [10 :: u8]"
  let ?l1 = "str ''Para observar ejemplos de comandos utilizar el comando 'ejemplos'.'' @ [10 :: u8]"
  let ?l2 = "str ''Para conocer los shortcuts del sistema, utilizar el comando shortcuts.'' @ [10 :: u8]"
  have p: "37 \<notin> set ?head" "37 \<notin> set ?l1" "37 \<notin> set ?l2" by (simp_all add: str_def)
  obtain u1 where u1: "ufprintf ?head [] u = Some u1" "printed (calls u1) = printed (calls u) @ ?head"
    using ufprintf_renders [OF plain [OF p(1)], of u] by blast
  have c: "commands = butlast commands @ [\<lparr>cmd_name = [], runner = None, cmd_help = []\<rparr>]"
    using commands_table(1,2) append_butlast_last_id [of commands] by force
  have "length (butlast commands) = 30" using commands_table(1) by simp
  then have drp: "drop (8 * page) commands = drop (8 * page) (butlast commands) @ [\<lparr>cmd_name = [], runner = None, cmd_help = []\<rparr>]"
    using assms by (subst c) simp
  have "list_all (\<lambda>c. runner c \<noteq> None) (drop (8 * page) (butlast commands))"
    using commands_entries by (auto simp: list_all_iff dest: in_set_dropD)
  from help_loop_prints [OF this, of "\<lparr>cmd_name = [], runner = None, cmd_help = []\<rparr>" 8 u1]
  obtain u2 where u2: "help_loop 8 (drop (8 * page) commands) u1 = Some u2"
      "printed (calls u2) = printed (calls u1) @ concat (map entry_line (page_entries page))"
    unfolding drp page_entries_def by auto
  obtain u3 where u3: "ufprintf ([10] @ str ''Pagina nro %d de %d, help [pagina] para mas comandos.'' @ [10])
        [UInt (int page), UInt 3] u2 = Some u3"
      "printed (calls u3) = printed (calls u2) @ [10] @ str ''Pagina nro '' @ dec_text page @ str '' de '' @ dec_text 3 @
     str '', help [pagina] para mas comandos.'' @ [10]"
    using ufprintf_renders [OF render_foot [OF assms], of u2] by blast
  obtain u4 where u4: "ufprintf ?l1 [] u3 = Some u4" "printed (calls u4) = printed (calls u3) @ ?l1"
    using ufprintf_renders [OF plain [OF p(2)], of u3] by blast
  obtain u5 where u5: "ufprintf ?l2 [] u4 = Some u5" "printed (calls u5) = printed (calls u4) @ ?l2"
    using ufprintf_renders [OF plain [OF p(3)], of u4] by blast
  have "\<not> int page > getCommandsLength div HELP_PAGE" "nat HELP_PAGE = 8" "getCommandsLength div HELP_PAGE = 3"
    "nat (int page * HELP_PAGE) = 8 * page"
    using assms commands_table(3) by (simp_all add: HELP_PAGE_def nat_mult_distrib)
  then have "help_page (int page) u = Some u5"
    using u1(1) u2(1) u3(1) u4(1) u5(1) by (simp add: help_page_def del: append.simps)
  then show ?thesis using u1(2) u2(2) u3(2) u4(2) u5(2)
    by (intro exI [of _ u5]) (simp add: page_head_def page_foot_def)
qed

lemma pages_cover: "concat (map page_entries [0 ..< 4]) = butlast commands"
proof -
  have "length (butlast commands) = 30" using commands_table(1) by simp
  moreover have "concat (map (\<lambda>p. take 8 (drop (8 * p) xs)) [0 ..< 4]) = xs" if "length xs = 30" for xs :: "command_t list"
  proof -
    have "[0 ..< 4] = [0, 1, 2, 3 :: nat]" by code_simp
    then have "concat (map (\<lambda>p. take 8 (drop (8 * p) xs)) [0 ..< 4]) =
        take 8 xs @ take 8 (drop 8 xs) @ take 8 (drop 8 (drop 8 xs)) @ drop 8 (drop 8 (drop 8 xs))"
      using that by simp
    then show ?thesis by (simp only: append_take_drop_id)
  qed
  moreover have "page_entries = (\<lambda>p. take 8 (drop (8 * p) (butlast commands)))" by (rule ext) (rule page_entries_def)
  ultimately show ?thesis by metis
qed

lemma atoi_digits_nonneg: "0 \<le> r \<Longrightarrow> 0 \<le> atoi_digits r cs"
  by (induction cs arbitrary: r) (auto simp: is_digit_def)

lemma atoi_nonneg: "0 \<le> atoi cs"
  by (simp add: atoi_def atoi_digits_nonneg)

section \<open>The search in the table\<close>

lemma getCommand_loop_finds:
  assumes "distinct (map (\<lambda>c. lowered (cmd_name c)) es)" "list_all (\<lambda>c. cmd_name c \<noteq> []) es" "cmd_name z = []"
  shows "getCommand_loop (es @ [z]) n = Some c \<longleftrightarrow> c \<in> set es \<and> lowered (cmd_name c) = lowered n"
  using assms(1,2)
proof (induction es)
  case Nil
  then show ?case using assms(3) by simp
next
  case (Cons e es)
  have "strcasecmp_list (cmd_name e) [] \<noteq> 0" using Cons.prems(2) by (simp add: strcasecmp_list_eq_0 lowered_def)
  then show ?case using Cons by (auto simp: strcasecmp_list_eq_0 image_iff)
qed

lemma getCommand_iff:
  "getCommand n = Some c \<longleftrightarrow> c \<in> set (butlast commands) \<and> lowered (cmd_name c) = lowered n"
proof -
  have "commands = butlast commands @ [\<lparr>cmd_name = [], runner = None, cmd_help = []\<rparr>]"
    using commands_table(1,2) append_butlast_last_id [of commands] by force
  then show ?thesis
    using getCommand_loop_finds [OF commands_distinct, of "\<lparr>cmd_name = [], runner = None, cmd_help = []\<rparr>" n c] commands_entries
    by (simp add: getCommand_def list_all_iff)
qed

text \<open>\<open>getCommand\<close> finds the one entry of the table whose name is the given one up to the case of letters, and
  nothing when there is none; every entry but the last is found by its name.\<close>

theorem getCommand_finds:
  "(getCommand n = Some c \<longleftrightarrow> c \<in> set (butlast commands) \<and> lowered (cmd_name c) = lowered n) \<and>
   (getCommand n = None \<longleftrightarrow> lowered n \<notin> (\<lambda>c. lowered (cmd_name c)) ` set (butlast commands)) \<and>
   list_all (\<lambda>c. getCommand (cmd_name c) = Some c) (butlast commands)"
proof (intro conjI)
  show "getCommand n = None \<longleftrightarrow> lowered n \<notin> (\<lambda>c. lowered (cmd_name c)) ` set (butlast commands)"
    using getCommand_iff [of n] by (metis (no_types, lifting) image_iff not_None_eq)
qed (auto simp: getCommand_iff list_all_iff)

lemma names_no_digit: "list_all (\<lambda>c. hd (lowered (cmd_name c)) > 57) (butlast commands)"
  by code_simp

lemma getCommand_digits:
  assumes "is_digit d"
  shows "getCommand (d # ds) = None"
proof (rule ccontr)
  assume "getCommand (d # ds) \<noteq> None"
  then obtain c where c: "c \<in> set (butlast commands)" "lowered (cmd_name c) = lowered (d # ds)"
    using getCommand_iff [of "d # ds"] by auto
  have "hd (lowered (d # ds)) \<le> 57" using assms by (auto simp: lowered_def toLower_def is_digit_def)
  then show False using names_no_digit c by (auto simp: list_all_iff)
qed

text \<open>\<open>help\<close> of a page number up to 3 returns and has written the head, the entries of that page of the table
  and the foot, a higher number is refused; the four pages together hold every command of the table once, in its
  order.\<close>

theorem help_shows_every_command:
  assumes "list_all is_digit a" "a \<noteq> []"
  shows "(\<exists>u'. help_cmd 2 [c, a] u = Some u' \<and> printed (calls u') = printed (calls u) @
      (if atoi a \<le> 3
       then page_head @ concat (map entry_line (page_entries (nat (atoi a)))) @ page_foot (nat (atoi a))
       else str ''No existe esta pagina de comandos: '' @ [10])) \<and>
    concat (map page_entries [0 ..< 4]) = butlast commands"
proof
  obtain d ds where a: "a = d # ds" "is_digit d" using assms by (cases a) auto
  have h: "help_cmd 2 [c, a] u = help_page (atoi a) u"
    using assms a getCommand_digits [of d ds] by (simp add: help_cmd_def arg_def getDescriptions_def isNumber_def)
  show "\<exists>u'. help_cmd 2 [c, a] u = Some u' \<and> printed (calls u') = printed (calls u) @
      (if atoi a \<le> 3
       then page_head @ concat (map entry_line (page_entries (nat (atoi a)))) @ page_foot (nat (atoi a))
       else str ''No existe esta pagina de comandos: '' @ [10])"
  proof (cases "atoi a \<le> 3")
    case True
    have "0 \<le> atoi a" using atoi_nonneg .
    then show ?thesis using help_page_prints [of "nat (atoi a)" u] True h by simp
  next
    case False
    have "37 \<notin> set (str ''No existe esta pagina de comandos: '' @ [10])" by (simp add: str_def)
    from ufprintf_renders [OF render_plain [OF this], of "[]" u] False commands_table(3) show ?thesis
      by (auto simp: h help_page_def HELP_PAGE_def)
  qed
qed (rule pages_cover)

theorem help_shows_every_command_witness:
  "(\<exists>u'. help_cmd 2 [[], [51]] (fed []) = Some u' \<and> printed (calls u') =
      page_head @ concat (map entry_line (page_entries 3)) @ page_foot 3) \<and>
    concat (map page_entries [0 ..< 4]) = butlast commands"
  using help_shows_every_command [of "[51]" "[]" "fed []"] by (simp add: is_digit_def atoi_def fed_def)

section \<open>Commands on processes\<close>

text \<open>\<open>kill\<close>, \<open>block\<close>, \<open>resume\<close> and \<open>nice\<close> make one call with the numbers their arguments denote. Without its second
  argument \<open>nice\<close> goes on to read beyond its arguments, as \<open>printmem\<close> does without its only one.\<close>

theorem process_commands_call:
  "map_option calls (killTaskCmd 2 [c, dec_text n] u) = Some (calls u @ [UKill (int n)]) \<and>
   map_option calls (blockTaskCmd 2 [c, dec_text n] u) = Some (calls u @ [UBlock (int n)]) \<and>
   map_option calls (resumeTaskCmd 2 [c, dec_text n] u) = Some (calls u @ [UResume (int n)]) \<and>
   map_option calls (niceTask 3 [c, dec_text n, dec_text m] u) = Some (calls u @ [UNice (int n) (int m)]) \<and>
   niceTask 2 [c, a] u = None \<and> printmem mem 1 [c] u = None"
proof (intro conjI)
  show "niceTask 2 [c, a] u = None"
    by (cases "ufprintf (str ''No se ingreso un valor de nice'' @ [10]) [] u") (simp_all add: niceTask_def arg_def)
qed (simp_all add: killTaskCmd_def blockTaskCmd_def resumeTaskCmd_def niceTask_def printmem_def arg_def atoi_dec_text
      ukill_def ublock_def uresume_def unice_def usyscall_def)

end
