(* ===== verification/Shell.thy ===== *)
theory Shell
  imports CommandProps
begin

text \<open>
  The shell, \<open>Userland/SampleCodeModule/lib/shell.c\<close>: reading a line and cutting it into words, and running a
  command or two commands with a pipe between them. What the shell does is the list of its system calls.
\<close>

section \<open>Reading a line\<close>

definition BUFFER_LENGTH :: nat where "BUFFER_LENGTH = 1024"
definition MAX_ARGS :: nat where "MAX_ARGS = 32"

text \<open>The loop over the characters typed; it may never end. A backspace looks at the first cell behind the
  line, which holds what an earlier, longer line left there.\<close>

partial_function (option) readLine :: "nat \<Rightarrow> u8 list \<Rightarrow> ustate \<Rightarrow> (nat \<times> u8 list \<times> ustate) option" where
  "readLine bufferIndex buffer u =
     (let (c, u1) = getChar u
      in if c \<noteq> 10 \<and> c \<noteq> -1 \<and> bufferIndex < BUFFER_LENGTH
         then if c = 8
              then if bufferIndex > 0
                   then let u2 = (if buffer ! bufferIndex = 9 then uputc c u1 else u1)
                        in readLine (bufferIndex - 1) (buffer[bufferIndex := 0]) (uputc c u2)
                   else readLine bufferIndex buffer u1
              else readLine (bufferIndex + 1) (buffer[bufferIndex := word_of_int c]) (uputc c u1)
         else Some (bufferIndex, buffer, u1))"

text \<open>\<open>args[argIndex++] = strStart\<close>: \<open>None\<close> is a write behind the array. Pointers into the buffer are offsets.\<close>

definition storeArg :: "nat \<Rightarrow> nat list \<Rightarrow> nat list option" where
  "storeArg strStart args = (if length args < MAX_ARGS then Some (args @ [strStart]) else None)"

primrec split_loop :: "nat \<Rightarrow> nat \<Rightarrow> bool \<Rightarrow> nat \<Rightarrow> nat list \<Rightarrow> u8 list \<Rightarrow> (bool \<times> nat \<times> nat list \<times> u8 list) option" where
  "split_loop 0 i isPrevChar strStart args buffer = Some (isPrevChar, strStart, args, buffer)"
| "split_loop (Suc n) i isPrevChar strStart args buffer =
     (if buffer ! i = 32 \<and> isPrevChar
      then Option.bind (storeArg strStart args) (\<lambda>args'. split_loop n (i + 1) False strStart args' (buffer[i := 0]))
      else if \<not> isPrevChar \<and> buffer ! i \<noteq> 32 then split_loop n (i + 1) True i args buffer
      else split_loop n (i + 1) isPrevChar strStart args buffer)"

definition lastArg :: "nat \<Rightarrow> bool \<times> nat \<times> nat list \<times> u8 list \<Rightarrow> (nat list \<times> u8 list) option" where
  "lastArg bufferIndex r =
     (case r of (isPrevChar, strStart, args, buffer) \<Rightarrow>
        if isPrevChar
        then if bufferIndex < BUFFER_LENGTH
             then map_option (\<lambda>a. (a, buffer[bufferIndex := 0])) (storeArg strStart args)
             else None
        else Some (args, buffer))"

definition getCommandLine :: "u8 list \<Rightarrow> ustate \<Rightarrow> (nat list \<times> u8 list \<times> ustate) option" where
  "getCommandLine buffer u =
     Option.bind (readLine 0 (buffer[BUFFER_LENGTH - 1 := 0]) u) (\<lambda>(bufferIndex, b, u1).
       if bufferIndex = 0 then Some ([], b, u1)
       else map_option (\<lambda>(args, b'). (args, b', u1))
              (Option.bind (split_loop bufferIndex 0 False 0 [] b) (lastArg bufferIndex)))"

definition string_at :: "u8 list \<Rightarrow> nat \<Rightarrow> u8 list" where
  "string_at b i = takeWhile (\<lambda>c. c \<noteq> 0) (drop i b)"

section \<open>Running commands\<close>

primrec findPipe_loop :: "u8 list list \<Rightarrow> int \<Rightarrow> int" where
  "findPipe_loop [] i = -1"
| "findPipe_loop (a # as) i = (if strcasecmp_list a (str ''|'') = 0 then i else findPipe_loop as (i + 1))"

definition findPipe :: "nat \<Rightarrow> u8 list list \<Rightarrow> int" where
  "findPipe argc argv = findPipe_loop (take argc argv) 0"

definition not_a_command :: "u8 list \<Rightarrow> ustate \<Rightarrow> ustate option" where
  "not_a_command a = ufprintf (str ''%s no es un comando valido'' @ [10]) [UStr a]"

text \<open>\<open>startTask(foundCommand->runner, ...)\<close> for an entry of the table that has a function.\<close>

definition startCommand :: "command_t \<Rightarrow> int \<Rightarrow> u8 list list \<Rightarrow> bool \<Rightarrow> (int \<times> int) option \<Rightarrow> ustate \<Rightarrow> int \<times> ustate" where
  "startCommand c argc argv fg fd = ustartTask (the (runner c)) (nat argc) argv (if fg then 1 else 0) fd"

definition runPipeCommand :: "int \<Rightarrow> u8 list list \<Rightarrow> int \<Rightarrow> int \<Rightarrow> bool \<Rightarrow> ustate \<Rightarrow> (int \<times> ustate) option" where
  "runPipeCommand argc argv fdin fdout fg u =
     (case getCommand (hd argv) of
        None \<Rightarrow> map_option (\<lambda>u1. (0, u1)) (not_a_command (hd argv) u)
      | Some c \<Rightarrow> Some (startCommand c argc argv fg (Some (fdin, fdout)) u))"

text \<open>\<open>foreground\<close>: the last word is not an ampersand.\<close>

definition is_foreground :: "u8 list list \<Rightarrow> bool" where
  "is_foreground argv \<longleftrightarrow> strcasecmp_list (last argv) (str ''&'') \<noteq> 0"

text \<open>\<open>linkPipe\<close>; the first argument is the number of the next pipe, the static \<open>shellPipeId\<close>.\<close>

definition linkPipe :: "int \<Rightarrow> u8 list list \<Rightarrow> nat \<Rightarrow> ustate \<Rightarrow> (int \<times> int \<times> ustate) option" where
  "linkPipe shellPipeId argv pipeIndex u =
     (let (pipe, u1) = upipeOpen shellPipeId u; next = shellPipeId + 1
      in if pipe = -1 then map_option (\<lambda>u2. (-1, next, u2)) (ufprintf (str ''Error al inicializar el pipe'') [] u1)
         else let fg = is_foreground argv
              in Option.bind (runPipeCommand (int pipeIndex) argv 0 pipe fg u1) (\<lambda>(pid0, u2).
                 if pid0 = -1 then Some (-1, next, snd (upipeClose pipe u2))
                 else Option.bind (runPipeCommand (int (length argv) - int pipeIndex - 1 - (if fg then 0 else 1))
                                    (drop (pipeIndex + 1) argv) pipe 1 fg u2) (\<lambda>(pid1, u3).
                      if pid1 = -1 then Some (-1, next, snd (upipeClose pipe (snd (ukill pid0 u3))))
                      else let u4 = (if fg then snd (uwaitpid pid1 (snd (uwaitpid pid0 u3))) else u3)
                           in Some (1, next, snd (upipeClose pipe u4)))))"

text \<open>\<open>runCommandLine\<close>: the result, the next pipe number and the calls.\<close>

definition runPiped :: "int \<Rightarrow> u8 list list \<Rightarrow> nat \<Rightarrow> ustate \<Rightarrow> (int \<times> int \<times> ustate) option" where
  "runPiped shellPipeId args pipeIndex u =
     (let fail = map_option (\<lambda>u1. (0, shellPipeId, u1))
      in if pipeIndex = 0 then fail (ufprintf (str ''Pipe no tiene funcion inicial'') [] u)
         else if pipeIndex = length args - 1 then fail (ufprintf (str ''Pipe no tiene funcion destino'') [] u)
         else if getCommand (args ! 0) = None then fail (not_a_command (args ! 0) u)
         else if getCommand (args ! (pipeIndex + 1)) = None then fail (not_a_command (args ! (pipeIndex + 1)) u)
         else Option.bind (linkPipe shellPipeId args pipeIndex u) (\<lambda>(r, next, u1).
                if r = -1
                then map_option (\<lambda>u2. (1, next, u2)) (ufprintf (str ''Error al intentar establecer el pipe'') [] u1)
                else Some (1, next, u1)))"

definition runCommandLine :: "int \<Rightarrow> u8 list list \<Rightarrow> ustate \<Rightarrow> (int \<times> int \<times> ustate) option" where
  "runCommandLine shellPipeId args u =
     (if args = [] then Some (0, shellPipeId, u)
      else if findPipe (length args) args \<noteq> -1
      then runPiped shellPipeId args (nat (findPipe (length args) args)) u
      else case getCommand (args ! 0) of
             None \<Rightarrow> map_option (\<lambda>u1. (0, shellPipeId, u1)) (not_a_command (args ! 0) u)
           | Some c \<Rightarrow>
               (let fg = is_foreground args;
                    (pid, u1) = startCommand c (int (length args) - (if fg then 0 else 1)) args fg None u
                in if pid = -1
                   then map_option (\<lambda>u2. (0, shellPipeId, u2)) (ufprintf (str ''ERROR STARTING TASK'' @ [10]) [] u1)
                   else Some (1, shellPipeId, if fg then snd (uwaitpid pid u1) else u1)))"

text \<open>The first \<open>n\<close> rounds of the loop of \<open>runShell\<close>, and its start. The prompt is yellow on black.\<close>

definition cheeseColor :: "u8 \<times> u8" where "cheeseColor = (14, 0)"

primrec shell_rounds :: "nat \<Rightarrow> int \<Rightarrow> u8 list \<Rightarrow> ustate \<Rightarrow> (int \<times> u8 list \<times> ustate) option" where
  "shell_rounds 0 shellPipeId buffer u = Some (shellPipeId, buffer, u)"
| "shell_rounds (Suc n) shellPipeId buffer u =
     Option.bind (getCommandLine buffer (snd (uwrite (str ''QUESOS>'') 7 (Some cheeseColor) u))) (\<lambda>(args, b, u1).
     Option.bind (runCommandLine shellPipeId (map (string_at b) args) (uputc 10 u1)) (\<lambda>(r, next, u2).
       shell_rounds n next b (uputc 10 u2)))"

definition runShell :: "nat \<Rightarrow> ustate \<Rightarrow> (int \<times> u8 list \<times> ustate) option" where
  "runShell n u =
     (let u1 = snd (uclear u);
          u2 = snd (uwrite (str ''Bienvendio a QUESOS'' @ [10, 0]) 21 (Some cheeseColor) u1)
      in Option.bind (help_cmd 1 [] u2) (\<lambda>u3. shell_rounds n 100 (replicate BUFFER_LENGTH 0) (uputc 10 u3)))"

end
