(* ===== verification/ShellProps.thy ===== *)
theory ShellProps
  imports Shell
begin

text \<open>
  What the shell does: the line a user has typed and corrected is cut into its words, and a command line returns
  with every pipe closed that it opened, whatever the kernel answers.
\<close>

section \<open>Words\<close>

text \<open>The maximal runs of characters other than spaces.\<close>

function tokens :: "u8 list \<Rightarrow> u8 list list" where
  "tokens [] = []"
| "tokens (c # cs) = (if c = 32 then tokens cs else (c # takeWhile (\<lambda>c. c \<noteq> 32) cs) # tokens (dropWhile (\<lambda>c. c \<noteq> 32) cs))"
  by pat_completeness auto
termination
  by (relation "measure length") (auto simp: le_imp_less_Suc length_dropWhile_le)

text \<open>The words still to come: inside a word whose first part is \<open>w\<close>, or between words.\<close>

definition words_from :: "bool \<Rightarrow> u8 list \<Rightarrow> u8 list \<Rightarrow> u8 list list" where
  "words_from p w cs =
     (if p then (w @ takeWhile (\<lambda>c. c \<noteq> 32) cs) # tokens (dropWhile (\<lambda>c. c \<noteq> 32) cs) else tokens cs)"

lemma words_from_step:
  "words_from True w (32 # cs) = w # words_from False w' cs"
  "c \<noteq> 32 \<Longrightarrow> words_from True w (c # cs) = words_from True (w @ [c]) cs"
  "words_from False w (32 # cs) = words_from False w' cs"
  "c \<noteq> 32 \<Longrightarrow> words_from False w (c # cs) = words_from True [c] cs"
  by (simp_all add: words_from_def)

text \<open>The string that starts at \<open>s\<close> ends before \<open>i\<close>: later writes do not change it.\<close>

definition ended :: "nat \<Rightarrow> u8 list \<Rightarrow> nat \<Rightarrow> bool" where
  "ended i b s \<longleftrightarrow> s \<le> i \<and> 0 \<in> set (take (i - s) (drop s b))"

lemma ended_mono: "ended i b s \<Longrightarrow> i \<le> j \<Longrightarrow> ended j b s"
  unfolding ended_def by (auto dest: subsetD [OF set_take_subset_set_take [of "i - s" "j - s"], rotated])

lemma takeWhile_take: "\<exists>x \<in> set (take n xs). \<not> P x \<Longrightarrow> takeWhile P xs = takeWhile P (take n xs)"
proof (induction xs arbitrary: n)
  case (Cons x xs)
  then show ?case by (cases n) auto
qed simp

lemma take_drop_update: "s \<le> i \<Longrightarrow> take (i - s) (drop s (b[i := v])) = take (i - s) (drop s b)"
  by (simp add: drop_update_swap)

lemma ended_update: "ended i b s \<Longrightarrow> i \<le> j \<Longrightarrow> ended i (b[j := v]) s \<and> string_at (b[j := v]) s = string_at b s"
proof -
  assume e: "ended i b s" and ij: "i \<le> j"
  have "take (i - s) (drop s (b[j := v])) = take (i - s) (drop s b)"
    using e ij by (simp add: ended_def drop_update_swap)
  moreover have "string_at b s = takeWhile (\<lambda>c. c \<noteq> 0) (take (i - s) (drop s b))"
    using e unfolding string_at_def ended_def by (intro takeWhile_take) auto
  moreover from calculation(1) e have "string_at (b[j := v]) s = takeWhile (\<lambda>c. c \<noteq> 0) (take (i - s) (drop s (b[j := v])))"
    unfolding string_at_def ended_def by (intro takeWhile_take) auto
  ultimately show ?thesis using e by (simp add: ended_def)
qed

text \<open>A word from \<open>s\<close> to \<open>i\<close> becomes a string when its end is written.\<close>

lemma string_at_end:
  assumes "s \<le> i" "i < length b" "take (i - s) (drop s b) = w" "0 \<notin> set w"
  shows "string_at (b[i := 0]) s = w" "ended (Suc i) (b[i := 0]) s"
proof -
  have d: "drop s (b[i := 0]) = w @ 0 # drop (Suc i) b"
  proof -
    have "drop s (b[i := 0]) = (drop s b)[i - s := 0]" using assms(1) by (simp add: drop_update_swap)
    also have "\<dots> = take (i - s) (drop s b) @ 0 # drop (Suc (i - s)) (drop s b)"
      using assms(1,2) by (intro upd_conv_take_nth_drop) simp
    finally show ?thesis using assms(1,3) by simp
  qed
  have "takeWhile (\<lambda>c. c \<noteq> 0) (w @ 0 # drop (Suc i) b) = w" using assms(4) by (subst takeWhile_append2) auto
  then show "string_at (b[i := 0]) s = w" unfolding string_at_def d .
  have "length w = i - s" using assms(1-3) by auto
  then show "ended (Suc i) (b[i := 0]) s" using assms(1) unfolding ended_def d by (simp add: Suc_diff_le)
qed

section \<open>Cutting a line into words\<close>

definition split_from :: "nat \<Rightarrow> nat \<Rightarrow> bool \<Rightarrow> nat \<Rightarrow> nat list \<Rightarrow> u8 list \<Rightarrow> (nat list \<times> u8 list) option" where
  "split_from n i p s args b = Option.bind (split_loop n i p s args b) (lastArg (i + n))"

lemma split_from_words:
  assumes "i + n < length b" "length b = BUFFER_LENGTH" "s \<le> i" "0 \<notin> set (take n (drop i b))"
    "p \<longrightarrow> take (i - s) (drop s b) = w \<and> 0 \<notin> set w" "\<forall>a \<in> set args. ended i b a" "length args \<le> MAX_ARGS"
  shows "if length args + length (words_from p w (take n (drop i b))) \<le> MAX_ARGS
     then \<exists>args' b'. split_from n i p s args b = Some (args', b') \<and> length b' = length b \<and>
       map (string_at b') args' = map (string_at b) args @ words_from p w (take n (drop i b))
     else split_from n i p s args b = None"
  using assms
proof (induction n arbitrary: i p s args b w)
  case 0
  show ?case
  proof (cases p)
    case False
    then show ?thesis using "0.prems" by (simp add: split_from_def lastArg_def words_from_def)
  next
    case True
    have i: "i < length b" "i < BUFFER_LENGTH" using "0.prems"(1,2) by simp_all
    have "map (string_at (b[i := 0])) args = map (string_at b) args"
      using "0.prems"(6) ended_update [of i b _ i 0] by auto
    moreover have "string_at (b[i := 0]) s = w" using True "0.prems"(3,5) i by (intro string_at_end) auto
    ultimately show ?thesis using True i "0.prems"(7)
      by (auto simp: split_from_def lastArg_def storeArg_def words_from_def)
  qed
next
  case (Suc n)
  let ?c = "b ! i" and ?rest = "take n (drop (Suc i) b)"
  have i: "i < length b" using Suc.prems(1) by simp
  have d: "take (Suc n) (drop i b) = ?c # ?rest" using i by (simp add: Cons_nth_drop_Suc [symmetric])
  have z: "?c \<noteq> 0" "0 \<notin> set ?rest" using Suc.prems(4) d by auto
  have e1: "\<forall>a \<in> set args. ended (Suc i) b a" using Suc.prems(6) ended_mono by auto
  consider (word_end) "?c = 32" "p" | (word_start) "?c \<noteq> 32" "\<not> p" | (blank) "?c = 32" "\<not> p" | (inside) "?c \<noteq> 32" "p"
    by blast
  then show ?case
  proof cases
    case word_end
    show ?thesis
    proof (cases "length args < MAX_ARGS")
      case False
      then show ?thesis using word_end d
        by (simp add: split_from_def storeArg_def words_from_def)
    next
      case True
      let ?b = "b[i := 0]" and ?args = "args @ [s]"
      have se: "string_at ?b s = w" "ended (Suc i) ?b s"
        using string_at_end [of s i b w] Suc.prems(3,5) i word_end by auto
      have upd: "ended i ?b a \<and> string_at ?b a = string_at b a" if "a \<in> set args" for a
        using Suc.prems(6) ended_update [of i b a i 0] that by blast
      have same: "map (string_at ?b) args = map (string_at b) args" "\<forall>a \<in> set args. ended (Suc i) ?b a"
        using upd ended_mono [of i ?b _ "Suc i"] by auto
      have r: "take n (drop (Suc i) ?b) = ?rest" by simp
      have "if length ?args + length (words_from False w (take n (drop (Suc i) ?b))) \<le> MAX_ARGS
         then \<exists>args' b'. split_from n (Suc i) False s ?args ?b = Some (args', b') \<and> length b' = length ?b \<and>
           map (string_at b') args' = map (string_at ?b) ?args @ words_from False w (take n (drop (Suc i) ?b))
         else split_from n (Suc i) False s ?args ?b = None"
        using Suc.prems(1-3) z(2) same(2) se(2) True by (intro Suc.IH) auto
      moreover have "split_from (Suc n) i p s args b = split_from n (Suc i) False s ?args ?b"
        using word_end True by (simp add: split_from_def storeArg_def)
      moreover have "map (string_at ?b) ?args = map (string_at b) args @ [w]"
        by (simp only: map_append list.map same(1) se(1))
      ultimately show ?thesis unfolding d r using word_end words_from_step(1) [of w ?rest w]
        by (auto simp del: map_append map_eq_conv split: if_splits)
    qed
  next
    case word_start
    have "if length args + length (words_from True [?c] ?rest) \<le> MAX_ARGS
       then \<exists>args' b'. split_from n (Suc i) True i args b = Some (args', b') \<and> length b' = length b \<and>
         map (string_at b') args' = map (string_at b) args @ words_from True [?c] ?rest
       else split_from n (Suc i) True i args b = None"
      using Suc.prems(1,2,7) z e1 i by (intro Suc.IH) (auto simp: Cons_nth_drop_Suc [symmetric])
    moreover have "split_from (Suc n) i p s args b = split_from n (Suc i) True i args b"
      using word_start by (simp add: split_from_def)
    ultimately show ?thesis unfolding d using word_start words_from_step(4) [of ?c w ?rest] by simp
  next
    case blank
    have "if length args + length (words_from False w ?rest) \<le> MAX_ARGS
       then \<exists>args' b'. split_from n (Suc i) False s args b = Some (args', b') \<and> length b' = length b \<and>
         map (string_at b') args' = map (string_at b) args @ words_from False w ?rest
       else split_from n (Suc i) False s args b = None"
      using Suc.prems(1-3,7) z e1 by (intro Suc.IH) auto
    moreover have "split_from (Suc n) i p s args b = split_from n (Suc i) False s args b"
      using blank by (simp add: split_from_def)
    ultimately show ?thesis unfolding d using blank words_from_step(3) [of w ?rest w] by simp
  next
    case inside
    have w: "take (Suc i - s) (drop s b) = w @ [?c]"
      using Suc.prems(3,5) inside i by (simp add: Suc_diff_le take_Suc_conv_app_nth)
    have "if length args + length (words_from True (w @ [?c]) ?rest) \<le> MAX_ARGS
       then \<exists>args' b'. split_from n (Suc i) True s args b = Some (args', b') \<and> length b' = length b \<and>
         map (string_at b') args' = map (string_at b) args @ words_from True (w @ [?c]) ?rest
       else split_from n (Suc i) True s args b = None"
      using Suc.prems inside z e1 w by (intro Suc.IH) auto
    moreover have "split_from (Suc n) i p s args b = split_from n (Suc i) True s args b"
      using inside by (simp add: split_from_def)
    ultimately show ?thesis unfolding d using inside words_from_step(2) [of ?c w ?rest] by simp
  qed
qed

section \<open>Typing a line\<close>

text \<open>The line after the characters typed: a backspace takes the last character back.\<close>

definition edited :: "u8 list \<Rightarrow> u8 list" where
  "edited cs = foldl (\<lambda>l c. if c = 8 then butlast l else l @ [c]) [] cs"

lemma edited_snoc: "edited (cs @ [c]) = (if c = 8 then butlast (edited cs) else edited cs @ [c])"
  by (simp add: edited_def)

lemma length_edited: "length (edited cs) \<le> length cs"
  by (induction cs rule: rev_induct) (auto simp: edited_snoc edited_def [of "[]"])

lemma edited_set: "set (edited cs) \<subseteq> set cs"
  by (induction cs rule: rev_induct) (auto simp: edited_snoc edited_def [of "[]"] dest: in_set_butlastD)

lemma sint_inj: "sint (c :: u8) = sint d \<longleftrightarrow> c = d"
  by (auto intro: signed_word_eqI)

lemma sint_keys: "sint (c :: u8) = 10 \<longleftrightarrow> c = 10" "sint (c :: u8) = 8 \<longleftrightarrow> c = 8"
  using sint_inj [of c 10] sint_inj [of c 8] by simp_all

text \<open>The loop in the middle of a line: \<open>l\<close> is in the buffer, \<open>cs\<close> is still to be typed.\<close>

lemma readLine_edits:
  assumes "feeds u (cs @ 10 # rest)" "255 \<notin> set cs" "10 \<notin> set cs" "length l + length cs < BUFFER_LENGTH"
    "take (length l) b = l" "length b = BUFFER_LENGTH"
  shows "\<exists>l' b' u'. readLine (length l) b u = Some (length l', b', u') \<and> feeds u' rest \<and> take (length l') b' = l' \<and>
     length b' = BUFFER_LENGTH \<and> l' = foldl (\<lambda>l c. if c = 8 then butlast l else l @ [c]) l cs"
  using assms
proof (induction cs arbitrary: l b u)
  case Nil
  let ?u1 = "u\<lparr>calls := calls u @ [URead]\<rparr>"
  have "readLine (length l) b u = Some (length l, b, ?u1)"
    by (subst readLine.simps) (simp add: getChar_feeds(1) [OF Nil(1)])
  then show ?case using getChar_feeds(2) [OF Nil(1)] Nil by auto
next
  case (Cons c cs)
  let ?u1 = "u\<lparr>calls := calls u @ [URead]\<rparr>" and ?n = "length l"
  have c: "c \<noteq> 255" "c \<noteq> 10" "sint c \<noteq> 10" "sint c \<noteq> -1"
    using Cons.prems(2,3) by (auto simp: sint_minus_one_iff sint_keys)
  have n: "?n < BUFFER_LENGTH" using Cons.prems(4) by simp
  have get: "getChar u = (sint c, ?u1)" using getChar_feeds(1) [OF Cons.prems(1)] by simp
  have fed: "feeds ?u1 (cs @ 10 # rest)" using getChar_feeds(2) [OF Cons.prems(1)] by simp
  have out: "feeds (uputc x v) cs'" if "feeds v cs'" for x v cs'
    by (rule feeds_output [OF that]) simp_all
  have rest: "255 \<notin> set cs" "10 \<notin> set cs" using Cons.prems(2,3) by simp_all
  show ?case
  proof (cases "c = 8")
    case False
    let ?b = "b[?n := c]" and ?u2 = "uputc (sint c) ?u1"
    have s8: "sint c \<noteq> 8" using False by (simp add: sint_keys)
    have step: "readLine ?n b u = readLine (length (l @ [c])) ?b ?u2"
      by (subst readLine.simps) (simp add: get c n s8)
    have "take (length (l @ [c])) ?b = l @ [c]"
      using Cons.prems(4-6) by (simp add: take_Suc_conv_app_nth take_update_swap)
    then show ?thesis
      unfolding step using False Cons.IH [of ?u2 "l @ [c]" ?b] out [OF fed] rest Cons.prems(4,6) by simp
  next
    case True
    then have s8: "sint c = 8" by simp
    show ?thesis
    proof (cases "l = []")
      case True
      have "readLine ?n b u = readLine (length l) b ?u1"
        using n by (subst readLine.simps) (simp add: get s8 True)
      then show ?thesis using \<open>c = 8\<close> True Cons.IH [of ?u1 "[]" b] fed rest Cons.prems(4,6) by simp
    next
      case False
      let ?b = "b[?n := 0]"
      let ?u2 = "uputc 8 (if b ! ?n = 9 then uputc 8 ?u1 else ?u1)"
      have step: "readLine ?n b u = readLine (length (butlast l)) ?b ?u2"
        by (subst readLine.simps) (simp add: get s8 n False)
      have "take (length (butlast l)) ?b = butlast l"
        using Cons.prems(5) by (metis butlast_conv_take diff_le_self length_butlast min.absorb1 take_take take_update_cancel)
      moreover have "feeds ?u2 (cs @ 10 # rest)" using out [OF fed] out [OF out [OF fed]] by simp
      ultimately show ?thesis unfolding step
        using \<open>c = 8\<close> Cons.IH [of ?u2 "butlast l" ?b] rest Cons.prems(4,6) by simp
    qed
  qed
qed

text \<open>C36. When the user types fewer than 1024 characters and ends the line, \<open>getCommandLine\<close> returns the words of the
  line as it reads after the corrections, as strings in its buffer and in their order, and has read nothing more;
  with more than 32 words it writes beyond the array of arguments.\<close>

theorem getCommandLine_words:
  assumes "feeds u (cs @ 10 # rest)" "255 \<notin> set cs" "10 \<notin> set cs" "0 \<notin> set cs" "length cs < 1024" "length b = 1024"
  shows "if length (tokens (edited cs)) \<le> 32
    then \<exists>args b' u'. getCommandLine b u = Some (args, b', u') \<and> map (string_at b') args = tokens (edited cs) \<and> feeds u' rest
    else getCommandLine b u = None"
proof -
  let ?b0 = "b[BUFFER_LENGTH - 1 := 0]"
  obtain l b1 u1 where r: "readLine 0 ?b0 u = Some (length l, b1, u1)" "feeds u1 rest" "take (length l) b1 = l"
      "length b1 = BUFFER_LENGTH" "l = edited cs"
    using readLine_edits [of u cs rest "[]" ?b0] assms unfolding edited_def BUFFER_LENGTH_def by auto
  show ?thesis
  proof (cases "l = []")
    case True
    then show ?thesis using r by (simp add: getCommandLine_def)
  next
    case False
    have l: "length l < BUFFER_LENGTH" using r(5) length_edited [of cs] assms(5) by (simp add: BUFFER_LENGTH_def)
    have z: "0 \<notin> set (take (length l) (drop 0 b1))" using r(3,5) edited_set [of cs] assms(4) by auto
    have split: "if length ([] :: nat list) + length (words_from False [] (take (length l) (drop 0 b1))) \<le> MAX_ARGS
       then \<exists>args' b'. split_from (length l) 0 False 0 [] b1 = Some (args', b') \<and> length b' = length b1 \<and>
         map (string_at b') args' = map (string_at b1) [] @ words_from False [] (take (length l) (drop 0 b1))
       else split_from (length l) 0 False 0 [] b1 = None"
      using l r(4) z by (intro split_from_words) simp_all
    have "getCommandLine b u = map_option (\<lambda>(args, b'). (args, b', u1)) (split_from (length l) 0 False 0 [] b1)"
      using r(1) False by (simp add: getCommandLine_def split_from_def)
    then show ?thesis using split r(2,3,5) by (auto simp: words_from_def MAX_ARGS_def split: if_splits)
  qed
qed

theorem getCommandLine_words_witness:
  "\<exists>args b' u'. getCommandLine (replicate 1024 0) (fed (str '' ls -q'' @ [8] @ str ''a b'' @ [10])) = Some (args, b', u') \<and>
     map (string_at b') args = [str ''ls'', str ''-a'', str ''b''] \<and> feeds u' []"
proof -
  have t: "tokens (edited (str '' ls -q'' @ [8] @ str ''a b'')) = [str ''ls'', str ''-a'', str ''b'']"
    by (simp add: edited_def str_def)
  have "feeds (fed (str '' ls -q'' @ [8] @ str ''a b'' @ [10])) ((str '' ls -q'' @ [8] @ str ''a b'') @ 10 # [])"
    using feeds_fed [of "str '' ls -q'' @ [8] @ str ''a b'' @ [10]"] by simp
  then have "if length (tokens (edited (str '' ls -q'' @ [8] @ str ''a b''))) \<le> 32
    then \<exists>args b' u'. getCommandLine (replicate 1024 0) (fed (str '' ls -q'' @ [8] @ str ''a b'' @ [10])) = Some (args, b', u') \<and>
      map (string_at b') args = tokens (edited (str '' ls -q'' @ [8] @ str ''a b'')) \<and> feeds u' []
    else getCommandLine (replicate 1024 0) (fed (str '' ls -q'' @ [8] @ str ''a b'' @ [10])) = None"
    by (rule getCommandLine_words) (simp_all add: str_def)
  then show ?thesis unfolding t by simp
qed

section \<open>Running a command line\<close>

text \<open>Every pipe opened among the calls \<open>t\<close> that follow those of \<open>u\<close> is closed once after that.\<close>

definition closes_pipes :: "ustate \<Rightarrow> ucall list \<Rightarrow> bool" where
  "closes_pipes u t \<longleftrightarrow> (\<forall>t1 i t2. t = t1 @ UPipeOpen i # t2 \<longrightarrow> answer u (calls u @ t1) (UPipeOpen i) \<noteq> -1 \<longrightarrow>
     count_list t2 (UPipeClose (answer u (calls u @ t1) (UPipeOpen i))) = 1)"

definition opens_pipe :: "ucall \<Rightarrow> bool" where
  "opens_pipe c \<longleftrightarrow> (case c of UPipeOpen i \<Rightarrow> True | _ \<Rightarrow> False)"

lemma opens_pipe_simps [simp]:
  "opens_pipe (UPipeOpen i)" "\<not> opens_pipe (UWrite b n c)" "\<not> opens_pipe (UStartTask f a v g fd)"
  "\<not> opens_pipe (UWaitpid i)" "\<not> opens_pipe (UKill i)" "\<not> opens_pipe (UPipeClose i)"
  by (simp_all add: opens_pipe_def)

lemma closes_pipes_none: "\<forall>c \<in> set t. \<not> opens_pipe c \<Longrightarrow> closes_pipes u t"
  by (auto simp: closes_pipes_def)

lemma closes_pipes_one:
  assumes "\<forall>c \<in> set t. \<not> opens_pipe c"
    "answer u (calls u) (UPipeOpen k) \<noteq> -1 \<Longrightarrow> count_list t (UPipeClose (answer u (calls u) (UPipeOpen k))) = 1"
  shows "closes_pipes u (UPipeOpen k # t)"
  unfolding closes_pipes_def
proof (intro allI impI)
  fix t1 i t2
  assume t: "UPipeOpen k # t = t1 @ UPipeOpen i # t2" and a: "answer u (calls u @ t1) (UPipeOpen i) \<noteq> -1"
  then show "count_list t2 (UPipeClose (answer u (calls u @ t1) (UPipeOpen i))) = 1"
    using assms by (cases t1) auto
qed

lemma output_calls:
  assumes "render format args = Some t"
  shows "\<exists>u' ws. ufprintf format args u = Some u' \<and> calls u' = calls u @ map (\<lambda>s. UWrite s (length s) None) ws"
  using ufprintf_renders [OF assms, of u] by blast

lemma plain_calls:
  "37 \<notin> set cs \<Longrightarrow> \<exists>u' ws. ufprintf cs [] u = Some u' \<and> calls u' = calls u @ map (\<lambda>s. UWrite s (length s) None) ws"
  by (rule output_calls) (rule render_plain)

lemma not_a_command_calls:
  "\<exists>u' ws. not_a_command a u = Some u' \<and> calls u' = calls u @ map (\<lambda>s. UWrite s (length s) None) ws"
proof -
  have "str ''%s no es un comando valido'' @ [10] = 37 # 115 # (str '' no es un comando valido'' @ [10 :: u8])"
    by (simp add: str_def)
  moreover have "37 \<notin> set (str '' no es un comando valido'' @ [10 :: u8])" by (simp add: str_def)
  ultimately have "render (str ''%s no es un comando valido'' @ [10]) [UStr a] =
      Some (a @ str '' no es un comando valido'' @ [10])"
    by (simp add: render_plain)
  then show ?thesis unfolding not_a_command_def by (rule output_calls)
qed

lemma writes_count [simp]: "count_list (map (\<lambda>s. UWrite s (length s) None) ws) (UPipeClose p) = 0"
  by (induction ws) auto

lemma count_list_append [simp]: "count_list (xs @ ys) a = count_list xs a + count_list ys a"
  by (induction xs) auto

lemmas call_defs = upipeOpen_def upipeClose_def ukill_def uwaitpid_def ustartTask_def startCommand_def usyscall_def

text \<open>A command that was found is started, whatever comes of it.\<close>

lemma runPipeCommand_found:
  "getCommand (hd argv) = Some c \<Longrightarrow> runPipeCommand argc argv i o' fg u = Some (startCommand c argc argv fg (Some (i, o')) u)"
  by (simp add: runPipeCommand_def)

lemma linkPipe_calls:
  assumes "getCommand (hd argv) = Some ca" "getCommand (hd (drop (pipeIndex + 1) argv)) = Some cb"
  shows "\<exists>r u' t. linkPipe k argv pipeIndex u = Some (r, k + 1, u') \<and> calls u' = calls u @ UPipeOpen k # t \<and>
     (\<forall>c \<in> set t. \<not> opens_pipe c) \<and>
     (answer u (calls u) (UPipeOpen k) \<noteq> -1 \<longrightarrow> count_list t (UPipeClose (answer u (calls u) (UPipeOpen k))) = 1)"
proof (cases "answer u (calls u) (UPipeOpen k) = -1")
  case True
  have "37 \<notin> set (str ''Error al inicializar el pipe'')" by (simp add: str_def)
  from plain_calls [OF this, of "snd (upipeOpen k u)"] True show ?thesis
    by (auto simp: linkPipe_def call_defs Let_def)
next
  case False
  then show ?thesis
    by (simp add: linkPipe_def runPipeCommand_found [OF assms(1)] runPipeCommand_found [OF assms(2) [simplified]] Let_def call_defs)
qed

lemma findPipe_loop_range:
  "findPipe_loop as i = -1 \<or> (i \<le> findPipe_loop as i \<and> findPipe_loop as i < i + int (length as))" if "0 \<le> i"
  using that
proof (induction as arbitrary: i)
  case (Cons a as)
  show ?case using Cons.IH [of "i + 1"] Cons.prems by auto
qed simp

lemma output_closes_pipes: "closes_pipes u (map (\<lambda>s. UWrite s (length s) None) ws)"
  by (rule closes_pipes_none) auto

text \<open>A line without a pipe.\<close>

lemma single_closes_pipes:
  assumes "args = [] \<or> findPipe (length args) args = -1"
  shows "\<exists>r k' u' t. runCommandLine k args u = Some (r, k', u') \<and> calls u' = calls u @ t \<and> closes_pipes u t"
proof -
  consider "args = []" | "args \<noteq> []" "findPipe (length args) args = -1" "getCommand (args ! 0) = None"
    | c where "args \<noteq> []" "findPipe (length args) args = -1" "getCommand (args ! 0) = Some c"
    using assms by (cases "getCommand (args ! 0)") auto
  then show ?thesis
  proof cases
    case 1
    then show ?thesis using closes_pipes_none [of "[]" u] by (auto simp: runCommandLine_def)
  next
    case 2
    then show ?thesis using not_a_command_calls [of "args ! 0" u] output_closes_pipes by (auto simp: runCommandLine_def)
  next
    case (3 c)
    have "37 \<notin> set (str ''ERROR STARTING TASK'' @ [10])" by (simp add: str_def)
    note e = plain_calls [OF this]
    let ?fg = "is_foreground args"
    let ?s = "startCommand c (int (length args) - (if ?fg then 0 else 1)) args ?fg None u"
    obtain u2 ws where u2: "ufprintf (str ''ERROR STARTING TASK'' @ [10]) [] (snd ?s) = Some u2"
        "calls u2 = calls (snd ?s) @ map (\<lambda>s. UWrite s (length s) None) ws" using e by blast
    obtain f where s: "calls (snd ?s) = calls u @ [f]" "\<not> opens_pipe f" by (auto simp: call_defs)
    have "closes_pipes u (f # map (\<lambda>s. UWrite s (length s) None) ws)" "closes_pipes u [f]"
      "closes_pipes u [f, UWaitpid (fst ?s)]" using s(2) by (auto intro!: closes_pipes_none)
    then show ?thesis using 3 u2 s(1)
      by (cases "fst ?s = -1"; cases ?fg) (auto simp: runCommandLine_def Let_def split_beta uwaitpid_def)
  qed
qed

text \<open>A line with one.\<close>

lemma runPiped_closes_pipes:
  assumes i: "i < length args"
  shows "\<exists>r k' u' t. runPiped k args i u = Some (r, k', u') \<and> calls u' = calls u @ t \<and> closes_pipes u t"
proof -
  have p: "37 \<notin> set (str ''Pipe no tiene funcion inicial'')" "37 \<notin> set (str ''Pipe no tiene funcion destino'')"
    "37 \<notin> set (str ''Error al intentar establecer el pipe'')" by (simp_all add: str_def)
  consider "i = 0" | "i \<noteq> 0" "i = length args - 1" | "i \<noteq> 0" "i \<noteq> length args - 1" "getCommand (args ! 0) = None"
    | "i \<noteq> 0" "i \<noteq> length args - 1" "getCommand (args ! 0) \<noteq> None" "getCommand (args ! (i + 1)) = None"
    | ca cb where "i \<noteq> 0" "i \<noteq> length args - 1" "getCommand (args ! 0) = Some ca" "getCommand (args ! (i + 1)) = Some cb"
    by fastforce
  then show ?thesis
  proof cases
    case 1
    then show ?thesis using plain_calls [OF p(1), of u] output_closes_pipes by (auto simp: runPiped_def)
  next
    case 2
    then show ?thesis using plain_calls [OF p(2), of u] output_closes_pipes by (auto simp: runPiped_def)
  next
    case 3
    then show ?thesis using not_a_command_calls [of "args ! 0" u] output_closes_pipes by (auto simp: runPiped_def)
  next
    case 4
    then show ?thesis using not_a_command_calls [of "args ! (i + 1)" u] output_closes_pipes by (auto simp: runPiped_def)
  next
    case (5 ca cb)
    have h: "hd args = args ! 0" "hd (drop (i + 1) args) = args ! (i + 1)"
      using i 5 by (cases args; simp add: hd_drop_conv_nth)+
    obtain r u1 t where l: "linkPipe k args i u = Some (r, k + 1, u1)" "calls u1 = calls u @ UPipeOpen k # t"
        "\<forall>c \<in> set t. \<not> opens_pipe c"
        "answer u (calls u) (UPipeOpen k) \<noteq> -1 \<longrightarrow> count_list t (UPipeClose (answer u (calls u) (UPipeOpen k))) = 1"
      using linkPipe_calls [of args ca i cb k u] 5 h by auto
    obtain u2 ws where u2: "ufprintf (str ''Error al intentar establecer el pipe'') [] u1 = Some u2"
        "calls u2 = calls u1 @ map (\<lambda>s. UWrite s (length s) None) ws" using plain_calls [OF p(3)] by blast
    have "closes_pipes u (UPipeOpen k # t)" "closes_pipes u (UPipeOpen k # t @ map (\<lambda>s. UWrite s (length s) None) ws)"
      using l(3,4) by (auto intro!: closes_pipes_one)
    then show ?thesis using 5 l(1,2) u2 by (cases "r = -1") (auto simp: runPiped_def Let_def)
  qed
qed

text \<open>C37. A command line always returns, whatever the kernel answers to the calls of the shell, and closes once every
  pipe it has opened.\<close>

theorem runCommandLine_closes_pipes:
  "\<exists>r k' u' t. runCommandLine k args u = Some (r, k', u') \<and> calls u' = calls u @ t \<and> closes_pipes u t"
proof (cases "args = [] \<or> findPipe (length args) args = -1")
  case False
  then have "nat (findPipe (length args) args) < length args"
    using findPipe_loop_range [of 0 args] by (auto simp: findPipe_def)
  from runPiped_closes_pipes [OF this, of k u] False show ?thesis by (simp add: runCommandLine_def)
qed (rule single_closes_pipes)

text \<open>The position of the pipe in a line that has one.\<close>

lemma findPipe_loop_split:
  assumes "lowered bar = lowered (str ''|'')" "\<forall>x \<in> set a. lowered x \<noteq> lowered (str ''|'')"
  shows "findPipe_loop (a @ bar # b) i = i + int (length a)"
  using assms(2)
proof (induction a arbitrary: i)
  case Nil
  then show ?case using assms(1) by (simp add: strcasecmp_list_eq_0)
next
  case (Cons x a)
  then show ?case using Cons.IH [of "i + 1"] by (simp add: strcasecmp_list_eq_0)
qed

text \<open>C38. Of two commands with a pipe between them, whose processes can be started, the first writes to the new pipe and
  the second reads from it; in the foreground the shell waits for both before it closes the pipe, in the background
  it waits for neither.\<close>

theorem piped_commands_run:
  assumes "args = a @ bar # b" "a \<noteq> []" "b \<noteq> []" "lowered bar = lowered (str ''|'')"
    "\<forall>x \<in> set a. lowered x \<noteq> lowered (str ''|'')"
    and "getCommand (hd a) = Some ca" "getCommand (hd b) = Some cb"
    and "fg = is_foreground args" "p = answer u (calls u) (UPipeOpen k)" "p \<noteq> -1"
    and "start0 = UStartTask (the (runner ca)) (length a) args (if fg then 1 else 0) (Some (0, p))"
      "pid0 = answer u (calls u @ [UPipeOpen k]) start0" "pid0 \<noteq> -1"
    and "start1 = UStartTask (the (runner cb)) (length b - (if fg then 0 else 1)) b (if fg then 1 else 0) (Some (p, 1))"
      "pid1 = answer u (calls u @ [UPipeOpen k, start0]) start1" "pid1 \<noteq> -1"
  shows "runCommandLine k args u = Some (1, k + 1, u\<lparr>calls := calls u @ [UPipeOpen k, start0, start1] @
     (if fg then [UWaitpid pid0, UWaitpid pid1] else []) @ [UPipeClose p]\<rparr>)"
proof -
  have "findPipe (length args) args = int (length a)"
    using findPipe_loop_split [OF assms(4,5), of b 0] assms(1) by (simp add: findPipe_def)
  moreover have "getCommand (args ! 0) = Some ca" "getCommand (args ! (length a + 1)) = Some cb"
    "hd args = hd a" "drop (length a + 1) args = b"
    using assms(1-3,6,7) by (simp_all add: nth_append hd_append hd_conv_nth [symmetric])
  moreover have "nat (int (length args) - int (length a) - 1 - (if fg then 0 else 1)) = length b - (if fg then 0 else 1)"
    using assms(1) by (auto simp: nat_diff_distrib')
  moreover have "linkPipe k args (length a) u = Some (1, k + 1, u\<lparr>calls := calls u @ [UPipeOpen k, start0, start1] @
     (if fg then [UWaitpid pid0, UWaitpid pid1] else []) @ [UPipeClose p]\<rparr>)"
    if "hd args = hd a" "drop (length a + 1) args = b"
      "nat (int (length args) - int (length a) - 1 - (if fg then 0 else 1)) = length b - (if fg then 0 else 1)"
    using assms(6-16) that
    by (cases fg) (simp_all add: linkPipe_def runPipeCommand_found Let_def call_defs)
  ultimately show ?thesis using assms(1-3) by (simp add: runCommandLine_def runPiped_def)
qed

text \<open>A kernel that gives every process and every pipe the number 7.\<close>

definition sevens :: ustate where
  "sevens = \<lparr>answer = \<lambda>_ _. 7, calls = []\<rparr>"

theorem piped_commands_run_witness:
  "runCommandLine 100 [str ''cat'', str ''|'', str ''WC''] sevens =
     Some (1, 101, sevens\<lparr>calls := [UPipeOpen 100,
       UStartTask ''cat'' 1 [str ''cat'', str ''|'', str ''WC''] 1 (Some (0, 7)), UStartTask ''wc'' 1 [str ''WC''] 1 (Some (7, 1)),
       UWaitpid 7, UWaitpid 7, UPipeClose 7]\<rparr>)"
proof -
  have a: "getCommand (str ''cat'') = Some (cmd ''cat'' ''cat'' ''Imprime el stdin tal como lo recibe. '')" by code_simp
  have b: "getCommand (str ''WC'') = Some (cmd ''wc'' ''wc'' ''Cuenta la cantidad de lineas escritas en stdin.'')" by code_simp
  have fg: "is_foreground [str ''cat'', str ''|'', str ''WC'']" by code_simp
  have l: "lowered (str ''cat'') \<noteq> lowered (str ''|'')" by code_simp
  show ?thesis
    using piped_commands_run [of "[str ''cat'', str ''|'', str ''WC'']" "[str ''cat'']" "str ''|''" "[str ''WC'']"
        "cmd ''cat'' ''cat'' ''Imprime el stdin tal como lo recibe. ''"
        "cmd ''wc'' ''wc'' ''Cuenta la cantidad de lineas escritas en stdin.''" True 7 sevens 100
        "UStartTask ''cat'' 1 [str ''cat'', str ''|'', str ''WC''] 1 (Some (0, 7))" 7
        "UStartTask ''wc'' 1 [str ''WC''] 1 (Some (7, 1))" 7] a b fg l
    by (simp add: sevens_def cmd_def)
qed

text \<open>The flag after the loop tells whether the last character was part of a word.\<close>

lemma split_loop_flag:
  "split_loop n i p s args b = Some (p', s', args', b') \<Longrightarrow> p' \<longleftrightarrow> (if n = 0 then p else b ! (i + n - 1) \<noteq> 32)"
proof (induction n arbitrary: i p s args b)
  case (Suc n)
  let ?next = "\<lambda>q. if n = 0 then q else b ! (i + n) \<noteq> 32"
  have b: "b[i := 0] ! (i + n) = b ! (i + n)" if "n \<noteq> 0" using that by simp
  show ?case
  proof (cases "b ! i = 32 \<and> p")
    case True
    then obtain a where "split_loop n (i + 1) False s a (b[i := 0]) = Some (p', s', args', b')"
      using Suc.prems by (cases "storeArg s args") auto
    from Suc.IH [OF this] show ?thesis using True by auto
  next
    case False
    then obtain q s0 where q: "split_loop n (i + 1) q s0 args b = Some (p', s', args', b')" "q \<longleftrightarrow> b ! i \<noteq> 32"
      using Suc.prems by (auto split: if_splits)
    from Suc.IH [OF q(1)] show ?thesis using q(2) by auto
  qed
qed simp

lemma readLine_fills:
  assumes "feeds u (cs @ c # rest)" "{8, 10, 255} \<inter> set cs = {}" "length l + length cs = BUFFER_LENGTH"
    "take (length l) b = l" "length b = BUFFER_LENGTH"
  shows "\<exists>u'. readLine (length l) b u = Some (BUFFER_LENGTH, l @ cs, u')"
  using assms
proof (induction cs arbitrary: l b u)
  case Nil
  then show ?case by (subst readLine.simps) (simp add: getChar_feeds(1) [OF Nil(1)])
next
  case (Cons d cs)
  let ?u1 = "u\<lparr>calls := calls u @ [URead]\<rparr>" and ?n = "length l"
  let ?b = "b[?n := d]"
  have d: "sint d \<noteq> 10" "sint d \<noteq> -1" "sint d \<noteq> 8" "?n < BUFFER_LENGTH"
    using Cons.prems(2,3) by (auto simp: sint_minus_one_iff sint_keys)
  have get: "getChar u = (sint d, ?u1)" using getChar_feeds(1) [OF Cons.prems(1)] by simp
  have "feeds ?u1 (cs @ c # rest)" using getChar_feeds(2) [OF Cons.prems(1)] by simp
  then have "feeds (uputc (sint d) ?u1) (cs @ c # rest)" by (rule feeds_output) simp_all
  moreover have step: "readLine ?n b u = readLine (length (l @ [d])) ?b (uputc (sint d) ?u1)"
    by (subst readLine.simps) (simp add: get d)
  moreover have "take (length (l @ [d])) ?b = l @ [d]"
    using Cons.prems(3-5) by (simp add: take_Suc_conv_app_nth take_update_swap)
  ultimately show ?case using Cons.IH [of "uputc (sint d) ?u1" "l @ [d]" ?b] Cons.prems(2,3,5) by simp
qed

text \<open>After 1024 characters without a correction the line is full: when its last one is not a space, the terminator
  is written behind the buffer, whatever is typed next.\<close>

theorem getCommandLine_full_line:
  assumes "feeds u (cs @ c # rest)" "length cs = 1024" "{8, 10, 255} \<inter> set cs = {}" "last cs \<noteq> 32" "length b = 1024"
  shows "getCommandLine b u = None"
proof -
  obtain u' where u': "readLine 0 (b[BUFFER_LENGTH - 1 := 0]) u = Some (BUFFER_LENGTH, cs, u')"
    using readLine_fills [of u cs c rest "[]" "b[BUFFER_LENGTH - 1 := 0]"] assms by (auto simp: BUFFER_LENGTH_def)
  have "cs \<noteq> []" using assms(2) by auto
  then have "cs ! (0 + BUFFER_LENGTH - 1) \<noteq> 32" using assms(2,4) last_conv_nth [of cs] by (auto simp: BUFFER_LENGTH_def)
  then have "Option.bind (split_loop BUFFER_LENGTH 0 False 0 [] cs) (lastArg BUFFER_LENGTH) = None"
    using split_loop_flag [of BUFFER_LENGTH 0 False 0 "[]" cs]
    by (cases "split_loop BUFFER_LENGTH 0 False 0 [] cs") (auto simp: lastArg_def BUFFER_LENGTH_def)
  then show ?thesis using u' by (simp add: getCommandLine_def BUFFER_LENGTH_def)
qed

theorem getCommandLine_full_line_witness:
  "getCommandLine (replicate 1024 0) (fed (replicate 1024 97 @ [10])) = None"
  using getCommandLine_full_line [of "fed (replicate 1024 97 @ [10])" "replicate 1024 97" 10 "[]" "replicate 1024 0"] feeds_fed
  by simp

end
