(* ===== verification/PrintInfo.thy ===== *)
theory PrintInfo
  imports CommandProps SyscallProps Sample Malloc
begin

text \<open>
  The commands that show the state of the kernel, \<open>Userland/SampleCodeModule/lib/printinfo.c\<close>. The structures the
  kernel answers with are arguments, \<open>None\<close> for \<open>NULL\<close>; \<open>adr\<close> says where the kernel put their parts. Reading
  through \<open>NULL\<close> is \<open>None\<close>.
\<close>

section \<open>Semaphores\<close>

text \<open>The parts of the answer that are allocated on their own.\<close>

datatype part = Info | Array | Name nat | Blocked nat | BlockedArray nat
  | WriteSem nat | ReadSem nat | WName nat | WBlocked nat | WBlockedArray nat | RName nat | RBlocked nat | RBlockedArray nat

primrec pids_loop :: "int list \<Rightarrow> bool \<Rightarrow> ustate \<Rightarrow> ustate option" where
  "pids_loop [] first u = Some u"
| "pids_loop (p # ps) first u =
     Option.bind (ufprintf (str ''%d'') [UInt p] (if first then u else ufprint (str '', '') u)) (pids_loop ps False)"

definition printBlockedPids :: "(unit + int list) option \<Rightarrow> ustate \<Rightarrow> ustate option" where
  "printBlockedPids blockedPids u =
     (case blockedPids of
        None \<Rightarrow> None
      | Some (Inl _) \<Rightarrow> Some u
      | Some (Inr ps) \<Rightarrow> if ps = [] then ufprintf (str ''[Sin procesos]'') [] u else pids_loop ps True u)"

definition printUserlandSem :: "userlandSem \<Rightarrow> ustate \<Rightarrow> ustate option" where
  "printUserlandSem sm u =
     Option.bind (ufprintf (str ''|%-4d|'') [UInt (us_id sm)] u) (\<lambda>u.
     Option.bind (ufprintf (str ''%-6d|'') [UInt (us_value sm)] u) (\<lambda>u.
     Option.bind (ufprintf (str ''%-19s|'')
         [UStr (if strcasecmp_list (us_name sm) [] \<noteq> 0 then us_name sm else str ''[unnamed]'')] u) (\<lambda>u.
     Option.bind (ufprintf (str ''%-7d|'') [UInt (uint (us_attached sm))] u) (\<lambda>u.
       printBlockedPids (us_blocked sm) u))))"

primrec printSems :: "userlandSem list \<Rightarrow> ustate \<Rightarrow> ustate option" where
  "printSems [] u = Some u"
| "printSems (sm # sms) u = Option.bind (printUserlandSem sm u) (\<lambda>u1. printSems sms (uputc 10 u1))"

definition freeUserlandSem :: "u64 \<Rightarrow> (u64 \<times> u64) option \<Rightarrow> ustate \<Rightarrow> ustate" where
  "freeUserlandSem name blockedPids u =
     (let u1 = ufree name u
      in case blockedPids of None \<Rightarrow> u1 | Some (array, b) \<Rightarrow> ufree b (ufree array u1))"

definition blocked_parts :: "(part \<Rightarrow> u64) \<Rightarrow> part \<Rightarrow> part \<Rightarrow> userlandSem \<Rightarrow> (u64 \<times> u64) option" where
  "blocked_parts adr array b sm = (if us_blocked sm = None then None else Some (adr array, adr b))"

primrec freeSems :: "(part \<Rightarrow> u64) \<Rightarrow> nat \<Rightarrow> userlandSem list \<Rightarrow> ustate \<Rightarrow> ustate" where
  "freeSems adr i [] u = u"
| "freeSems adr i (sm # sms) u =
     freeSems adr (i + 1) sms (freeUserlandSem (adr (Name i)) (blocked_parts adr (BlockedArray i) (Blocked i) sm) u)"

definition freeSemInfo :: "(part \<Rightarrow> u64) \<Rightarrow> userlandSem list \<Rightarrow> ustate \<Rightarrow> ustate" where
  "freeSemInfo adr sms u = ufree (adr Info) (ufree (adr Array) (freeSems adr 0 sms u))"

definition printSemInfo :: "(part \<Rightarrow> u64) \<Rightarrow> userlandSem list option \<Rightarrow> ustate \<Rightarrow> ustate option" where
  "printSemInfo adr info u =
     (let u1 = ufprint (str ''|ID  |Valor |Nombre            |# PIDs |PIDs bloqueados'' @ [10]) u;
          u2 = ufprint (replicate 75 45 @ [10]) u1;
          u3 = snd (ugetSemInfo u2)
      in case info of
           None \<Rightarrow> ufprintf (str ''Error al recuperar informacion de los semaforos'') [] u3
         | Some sms \<Rightarrow> map_option (freeSemInfo adr sms) (printSems sms u3))"

section \<open>Pipes\<close>

definition printPipe :: "userlandPipe \<Rightarrow> ustate \<Rightarrow> ustate option" where
  "printPipe p u =
     Option.bind (ufprintf (str ''|%-4d|'') [UInt (up_id p)] u) (\<lambda>u.
     Option.bind (up_readSem p) (\<lambda>r. Option.bind (ufprintf (str ''%-11d|'') [UInt (us_id r)] u) (\<lambda>u.
     Option.bind (up_writeSem p) (\<lambda>w. Option.bind (ufprintf (str ''%-12d|'') [UInt (us_id w)] u) (\<lambda>u.
     Option.bind (ufprintf (str ''%-7d|'') [UInt (up_totalProcesses p)] u) (\<lambda>u.
     Option.bind (printBlockedPids (us_blocked w) u) (\<lambda>u.
     Option.bind (printBlockedPids (us_blocked r) (uputc 124 u)) (\<lambda>u. Some (uputc 10 u)))))))))"

primrec printPipes :: "userlandPipe list \<Rightarrow> ustate \<Rightarrow> ustate option" where
  "printPipes [] u = Some u"
| "printPipes (p # ps) u = Option.bind (printPipe p u) (printPipes ps)"

definition freePipe :: "(part \<Rightarrow> u64) \<Rightarrow> nat \<Rightarrow> userlandPipe \<Rightarrow> ustate \<Rightarrow> ustate option" where
  "freePipe adr i p u =
     Option.bind (up_writeSem p) (\<lambda>w. map_option (\<lambda>r.
       let u1 = freeUserlandSem (adr (WName i)) (blocked_parts adr (WBlockedArray i) (WBlocked i) w) u;
           u2 = freeUserlandSem (adr (RName i)) (blocked_parts adr (RBlockedArray i) (RBlocked i) r) u1
       in ufree (adr (ReadSem i)) (ufree (adr (WriteSem i)) u2)) (up_readSem p))"

primrec freePipes :: "(part \<Rightarrow> u64) \<Rightarrow> nat \<Rightarrow> userlandPipe list \<Rightarrow> ustate \<Rightarrow> ustate option" where
  "freePipes adr i [] u = Some u"
| "freePipes adr i (p # ps) u = Option.bind (freePipe adr i p u) (freePipes adr (i + 1) ps)"

definition freePipeInfo :: "(part \<Rightarrow> u64) \<Rightarrow> userlandPipe list \<Rightarrow> ustate \<Rightarrow> ustate option" where
  "freePipeInfo adr ps u = map_option (\<lambda>u1. ufree (adr Info) (ufree (adr Array) u1)) (freePipes adr 0 ps u)"

definition printPipeInfo :: "(part \<Rightarrow> u64) \<Rightarrow> userlandPipe list option \<Rightarrow> ustate \<Rightarrow> ustate option" where
  "printPipeInfo adr info u =
     (let u1 = snd (ugetPipeInfo u)
      in case info of
           None \<Rightarrow> ufprintf (str ''Error al recuperar informacion de los pipes'') [] u1
         | Some ps \<Rightarrow>
             (let u2 = ufprint (str ''|ID  |ReadSem ID |WriteSem ID |# PIDs |Write PIDs      |Read PIDs      '' @ [10]) u1;
                  u3 = ufprint (replicate 75 45 @ [10]) u2
              in Option.bind (printPipes ps u3) (freePipeInfo adr ps)))"

section \<open>Processes and memory\<close>

definition printProcess :: "processInfo \<Rightarrow> ustate \<Rightarrow> ustate option" where
  "printProcess p u =
     ufprintf (str ''|%-12s|%-7d|%-8d|%-12s|%-8x|%-8x|%-5d|%-5s|'' @ [10])
       [UStr (in_name p), UInt (in_pid p), UInt (in_ppid p), UStr (str (if in_foreground p \<noteq> 0 then ''TRUE'' else ''FALSE'')),
        UWord (in_rsp p), UWord (in_rbp p), UInt (in_priority p), UStr (str (in_state p))] u"

primrec printProcesses :: "processInfo list \<Rightarrow> ustate \<Rightarrow> ustate option" where
  "printProcesses [] u = Some u"
| "printProcesses (p # ps) u = Option.bind (printProcess p u) (printProcesses ps)"

definition ps_cmd :: "(part \<Rightarrow> u64) \<Rightarrow> processInfo list option \<Rightarrow> ustate \<Rightarrow> ustate option" where
  "ps_cmd adr processes u =
     (let u1 = snd (ugetSchedulerInfo u)
      in case processes of
           None \<Rightarrow> Some (ufprint (str ''ERROR recuperando datos de los procesos.'' @ [10]) u1)
         | Some ps \<Rightarrow>
             (let u2 = ufprint (str ''|Nombre      |PID    |PPID    |Foreground  |RSP     |RBP     |Prio |Estado|'' @ [10]) u1;
                  u3 = ufprint (replicate 75 45 @ [10]) u2
              in map_option (\<lambda>u4. ufree (adr Info) (ufree (adr Array) u4)) (printProcesses ps u3)))"

definition memDump :: "(part \<Rightarrow> u64) \<Rightarrow> memoryInfo option \<Rightarrow> ustate \<Rightarrow> ustate option" where
  "memDump adr memory u =
     (let u1 = snd (ugetMemoryInfo u)
      in case memory of
           None \<Rightarrow> ufprintf (str ''ERROR recuperando datos de la memoria.'' @ [10]) [] u1
         | Some m \<Rightarrow>
             Option.bind (ufprintf (str ''Informacion actual de la memoria: '' @ [10]) [] u1) (\<lambda>u.
             Option.bind (ufprintf (str ''Memoria total: %d'' @ [10]) [UInt (uint (totalMem m))] u) (\<lambda>u.
             Option.bind (ufprintf (str ''Memoria libre total: %d'' @ [10]) [UInt (uint (availableMem m))] u) (\<lambda>u.
             Option.bind (ufprintf (str ''Memoria ocupada total: %d'' @ [10]) [UInt (uint (totalMem m - availableMem m))] u) (\<lambda>u.
               Some (ufree (adr Info) u))))))"

section \<open>The list of waiting processes\<close>

text \<open>\<open>sem\<close> reads through \<open>NULL\<close> when the list of waiting processes of some semaphore is missing.\<close>

lemma printSems_missing: "\<exists>sm \<in> set sms. us_blocked sm = None \<Longrightarrow> printSems sms u = None"
proof (induction sms arbitrary: u)
  case (Cons sm sms)
  show ?case
  proof (cases "us_blocked sm = None")
    case True
    then have "printUserlandSem sm u = None"
      by (auto simp: printUserlandSem_def printBlockedPids_def bind_eq_None_conv)
    then show ?thesis by simp
  next
    case False
    then have "\<exists>sm \<in> set sms. us_blocked sm = None" using Cons.prems by auto
    then show ?thesis using Cons.IH by (cases "printUserlandSem sm u") auto
  qed
qed simp

text \<open>What the kernel tells about a semaphore: the list of waiting processes is there only when it is not empty, for
  the memory managers answer a request for no bytes with \<open>NULL\<close>.\<close>

definition told :: "sem \<Rightarrow> userlandSem" where
  "told m = userSem m (case s_blocked m of Some (p # ps) \<Rightarrow> Some (Inr (p # ps)) | _ \<Rightarrow> None)"

lemma lookupSem_member:
  assumes "semQueue s = Some q" "distinct (map s_id q)" "m \<in> set q"
  shows "lookupSem (s_id m) s = Some m"
proof -
  have "List.find (\<lambda>k. s_id k = s_id m) q = Some m"
    using assms(2,3) by (induction q) (auto simp: image_iff)
  then show ?thesis using assms(1) by (simp add: lookupSem_def)
qed

lemma getBlockedPids_told:
  assumes k: "kinv s" and q: "semQueue s = Some q" and m: "m \<in> set q"
  shows "\<exists>n b. getBlockedPids (s_id m) s = Ret b (s\<lparr>mcount := n\<rparr>) \<and> userSem m b = told m"
proof -
  have l: "kinv_locked {} 0 s" using k by (simp add: kinv_def)
  have mem: "mallocs s n \<noteq> 0" for n using kinvD(1) [OF k] by (simp add: memory_ok_def)
  have d: "distinct (map s_id q)" "s_blocked m \<noteq> None"
    using kinvD(4) [OF k] q m by (auto simp: sems_inv_def sem_ok_def)
  then obtain b where b: "s_blocked m = Some b" by blast
  have f: "findSem (s_id m) s = (Some m, s\<lparr>mcount := Suc (mcount s)\<rparr>)"
    using findSem_ok [OF l] lookupSem_member [OF q d(1) m] by simp
  show ?thesis
    using b by (cases b) (auto simp: getBlockedPids_def f kmalloc_def mem Let_def told_def)
qed

lemma getSemInfo_loop_told:
  "kinv s \<Longrightarrow> semQueue s = Some q \<Longrightarrow> set ms \<subseteq> set q \<Longrightarrow>
   \<exists>n. getSemInfo_loop ms acc s = Ret (Some (acc @ map told ms)) (s\<lparr>mcount := n\<rparr>)"
proof (induction ms arbitrary: s acc)
  case Nil
  then show ?case by (intro exI [of _ "mcount s"]) simp
next
  case (Cons m ms)
  let ?s = "s\<lparr>mcount := Suc (mcount s)\<rparr>"
  have mem: "kmalloc (length (s_name m) + 1) s = (mallocs s (mcount s), ?s)" "mallocs s (mcount s) \<noteq> 0"
    using kinvD(1) [OF Cons.prems(1)] by (auto simp: memory_ok_def kmalloc_def)
  obtain n b where b: "getBlockedPids (s_id m) ?s = Ret b (?s\<lparr>mcount := n\<rparr>)" "userSem m b = told m"
    using getBlockedPids_told [of ?s q m] Cons.prems by auto
  have "\<exists>k. getSemInfo_loop ms (acc @ [told m]) (s\<lparr>mcount := n\<rparr>) = Ret (Some ((acc @ [told m]) @ map told ms)) ((s\<lparr>mcount := n\<rparr>)\<lparr>mcount := k\<rparr>)"
    using Cons.IH [of "s\<lparr>mcount := n\<rparr>" "acc @ [told m]"] Cons.prems by simp
  then show ?case using mem b by simp
qed

lemma getSemInfo_told:
  assumes "kinv s" "semQueue s = Some q" "q \<noteq> []"
  shows "\<exists>n. getSemInfo s = Ret (Some (map told q)) (s\<lparr>mcount := n\<rparr>)"
proof -
  have mem: "mallocs s n \<noteq> 0" for n using kinvD(1) [OF assms(1)] by (simp add: memory_ok_def)
  have "\<exists>k. getSemInfo_loop q [] (s\<lparr>mcount := n\<rparr>) = Ret (Some (map told q)) (s\<lparr>mcount := k\<rparr>)" for n
    using getSemInfo_loop_told [of "s\<lparr>mcount := n\<rparr>" q q "[]"] assms by simp
  then show ?thesis using assms by (simp add: getSemInfo_def kmalloc_def mem Let_def)
qed

text \<open>The \<open>sem\<close> command and the kernel do not agree on a semaphore that nobody waits for: the kernel then answers
  with a list of semaphores in which that one has no list of waiting processes, and \<open>printSemInfo\<close>, which does not
  test it, reads through the null pointer while it prints that list.\<close>

theorem sem_command_reads_null:
  assumes "kinv s" "semQueue s = Some q" "m \<in> set q" "s_blocked m = Some []"
  shows "\<exists>sms n. getSemInfo s = Ret (Some sms) (s\<lparr>mcount := n\<rparr>) \<and> length sms = length q \<and>
    printSemInfo adr (Some sms) u = None"
proof -
  have "q \<noteq> []" using assms(3) by auto
  then obtain n where n: "getSemInfo s = Ret (Some (map told q)) (s\<lparr>mcount := n\<rparr>)"
    using getSemInfo_told [OF assms(1,2)] by blast
  have "us_blocked (told m) = None" using assms(4) by (simp add: told_def userSem_def)
  then have "\<exists>sm \<in> set (map told q). us_blocked sm = None" using assms(3) by auto
  then show ?thesis using n printSems_missing by (auto simp: printSemInfo_def Let_def)
qed

theorem sem_command_reads_null_witness:
  "\<exists>sms n. getSemInfo sample = Ret (Some sms) (sample\<lparr>mcount := n\<rparr>) \<and> length sms = 9 \<and>
    printSemInfo (\<lambda>_. 0) (Some sms) \<lparr>answer = (\<lambda>_ _. 0), calls = []\<rparr> = None"
proof -
  have q: "semQueue sample = Some (the (semQueue sample))" "length (the (semQueue sample)) = 9"
    "sampleSem 8 1 [] [] \<in> set (the (semQueue sample))" "s_blocked (sampleSem 8 1 [] []) = Some []"
    by (simp_all add: sample_simps)
  from sem_command_reads_null [OF sample_kinv q(1,3,4)] show ?thesis unfolding q(2) .
qed

end
