(* ===== verification/Sequences.thy ===== *)
theory Sequences
  imports CommandProps
begin

text \<open>
  The two endless programs \<open>Userland/SampleCodeModule/lib/fibonacci.c\<close> and \<open>prime.c\<close>, by the rounds of their loops.
  The square root that \<open>isPrime\<close> uses as its bound is computed in floating point and is an argument.
\<close>

section \<open>Fibonacci\<close>

definition fib_line :: "int \<Rightarrow> u64 \<Rightarrow> ustate \<Rightarrow> ustate option" where
  "fib_line count c = ufprintf (str ''n %d: %u'' @ [10]) [UInt count, UWord c]"

primrec fibonacci_rounds :: "nat \<Rightarrow> u64 \<Rightarrow> u64 \<Rightarrow> int \<Rightarrow> ustate \<Rightarrow> ustate option" where
  "fibonacci_rounds 0 a b count u = Some u"
| "fibonacci_rounds (Suc n) a b count u =
     (let c = a + b; u1 = snd (usleep 1 u)
      in Option.bind (fib_line (count + 1) c u1) (fibonacci_rounds n b c (count + 1)))"

definition fibonacci :: "nat \<Rightarrow> ustate \<Rightarrow> ustate option" where
  "fibonacci n u =
     Option.bind (fib_line 1 0 u) (\<lambda>u1.
     Option.bind (fib_line 2 1 (snd (usleep 1 u1))) (fibonacci_rounds n 0 1 2))"

fun fib :: "nat \<Rightarrow> nat" where
  "fib 0 = 0"
| "fib (Suc 0) = 1"
| "fib (Suc (Suc n)) = fib n + fib (Suc n)"

definition fib_text :: "nat \<Rightarrow> u8 list" where
  "fib_text k = str ''n '' @ dec_text (k + 1) @ str '': '' @ dec_text (fib k mod 2 ^ 64) @ [10]"

lemma fib_line_prints:
  assumes "k + 1 < 2 ^ 32"
  shows "\<exists>u'. fib_line (int (k + 1)) (of_nat (fib k)) u = Some u' \<and> printed (calls u') = printed (calls u) @ fib_text k"
proof -
  have fmt: "str ''n %d: %u'' @ [10] = str ''n '' @ 37 # 100 # str '': '' @ 37 # 117 # [10 :: u8]" by (simp add: str_def)
  have p: "37 \<notin> set (str ''n '' :: u8 list)" "37 \<notin> set (str '': '' :: u8 list)" by (simp_all add: str_def)
  have i: "itoa (ucast (word_of_int (int (k + 1)) :: u32)) 10 = Some (dec_text (k + 1))" by (rule itoa_int [OF assms])
  have w: "itoa (of_nat (fib k)) 10 = Some (dec_text (fib k mod 2 ^ 64))" by (simp add: itoa_dec_text unat_of_nat)
  have "render (str ''n %d: %u'' @ [10]) [UInt (int (k + 1)), UWord (of_nat (fib k))] = Some (fib_text k)"
    unfolding fmt fib_text_def render_plain_append [OF p(1)]
    by (simp only: render.simps(2) if_False if_True list.case uarg.case i w render_plain_append [OF p(2)] refl simp_thms
        Option.bind.bind_lunit option.map bind_eq_None_conv) (simp add: i [simplified] w render_plain_append [OF p(2)])
  from ufprintf_renders [OF this, of u] show ?thesis unfolding fib_line_def by blast
qed

lemma usleep_printed [simp]: "printed (calls (snd (usleep n u))) = printed (calls u)"
  by (simp add: usleep_def usyscall_def text_of_def)

lemma fibonacci_rounds_print:
  "k + n + 3 < 2 ^ 32 \<Longrightarrow> \<exists>u'. fibonacci_rounds n (of_nat (fib k)) (of_nat (fib (Suc k))) (int (k + 2)) u = Some u' \<and>
     printed (calls u') = printed (calls u) @ concat (map fib_text [k + 2 ..< k + 2 + n])"
proof (induction n arbitrary: k u)
  case (Suc n)
  let ?c = "of_nat (fib k) + of_nat (fib (Suc k)) :: u64" and ?u = "snd (usleep 1 u)"
  have c: "?c = of_nat (fib (k + 2))" by simp
  have n: "int (k + 2) + 1 = int (k + 2 + 1)" "int (k + 2) + 1 = int (Suc k + 2)" by simp_all
  have "k + 2 + 1 < 2 ^ 32" using Suc.prems by simp
  from fib_line_prints [OF this, of ?u] obtain u1 where
    u1: "fib_line (int (k + 2 + 1)) (of_nat (fib (k + 2))) ?u = Some u1" "printed (calls u1) = printed (calls ?u) @ fib_text (k + 2)"
    by blast
  have "Suc k + n + 3 < 2 ^ 32" using Suc.prems by simp
  from Suc.IH [OF this, of u1] obtain u2 where
    u2: "fibonacci_rounds n (of_nat (fib (Suc k))) (of_nat (fib (Suc (Suc k)))) (int (Suc k + 2)) u1 = Some u2"
      "printed (calls u2) = printed (calls u1) @ concat (map fib_text [Suc k + 2 ..< Suc k + 2 + n])"
    by blast
  have s: "fib (Suc (Suc k)) = fib (k + 2)" by simp
  have "fibonacci_rounds (Suc n) (of_nat (fib k)) (of_nat (fib (Suc k))) (int (k + 2)) u = Some u2"
    using u1(1) u2(1) unfolding fibonacci_rounds.simps Let_def c s n(1) by (simp only: Option.bind.bind_lunit n [symmetric])
  moreover have "[k + 2 ..< k + 2 + Suc n] = (k + 2) # [Suc k + 2 ..< Suc k + 2 + n]" by (simp add: upt_conv_Cons)
  ultimately show ?case using u1(2) u2(2) by (intro exI [of _ u2]) (simp del: fib.simps)
qed simp

text \<open>The first lines of \<open>fibonacci\<close> number the Fibonacci numbers from one on, modulo \<open>2 ^ 64\<close>.\<close>

theorem fibonacci_prints:
  assumes "n + 3 < 2 ^ 32"
  shows "\<exists>u'. fibonacci n u = Some u' \<and> printed (calls u') = printed (calls u) @ concat (map fib_text [0 ..< n + 2])"
proof -
  obtain u1 where u1: "fib_line 1 0 u = Some u1" "printed (calls u1) = printed (calls u) @ fib_text 0"
    using fib_line_prints [of 0 u] by auto
  obtain u2 where u2: "fib_line 2 1 (snd (usleep 1 u1)) = Some u2" "printed (calls u2) = printed (calls u1) @ fib_text 1"
    using fib_line_prints [of 1 "snd (usleep 1 u1)"] by auto
  obtain u3 where u3: "fibonacci_rounds n 0 1 2 u2 = Some u3"
      "printed (calls u3) = printed (calls u2) @ concat (map fib_text [2 ..< 2 + n])"
    using fibonacci_rounds_print [of 0 n u2] assms by (auto simp: numeral_2_eq_2)
  have "[0 ..< n + 2] = 0 # 1 # [2 ..< 2 + n]" by (simp add: upt_conv_Cons add.commute numeral_2_eq_2)
  then show ?thesis using u1 u2 u3 by (simp add: fibonacci_def)
qed

section \<open>Primes\<close>

text \<open>The loop of \<open>isPrime\<close>: odd candidates from \<open>i\<close> on, up to \<open>numsqrt\<close>.\<close>

function isPrime_loop :: "int \<Rightarrow> int \<Rightarrow> int \<Rightarrow> bool \<Rightarrow> bool" where
  "isPrime_loop num numsqrt i r =
     (if i \<le> numsqrt \<and> r then isPrime_loop num numsqrt (i + 2) (num mod i \<noteq> 0) else r)"
  by pat_completeness auto
termination by (relation "measure (\<lambda>(num, s, i, r). nat (s + 1 - i))") auto

declare isPrime_loop.simps [simp del]

definition isPrime :: "int \<Rightarrow> int \<Rightarrow> bool" where
  "isPrime numsqrt num = (if num = 2 \<or> num = 3 then True else isPrime_loop num numsqrt 3 True)"

lemma isPrime_loop_iff:
  "0 < i \<Longrightarrow> isPrime_loop num s i True \<longleftrightarrow> (\<forall>k :: nat. i + 2 * int k \<le> s \<longrightarrow> num mod (i + 2 * int k) \<noteq> 0)"
proof (induction "nat (s + 1 - i)" arbitrary: i rule: less_induct)
  case less
  show ?case
  proof (cases "i \<le> s")
    case False
    then show ?thesis by (subst isPrime_loop.simps) auto
  next
    case True
    have shift: "(\<forall>k :: nat. i + 2 * int k \<le> s \<longrightarrow> num mod (i + 2 * int k) \<noteq> 0) \<longleftrightarrow>
        num mod i \<noteq> 0 \<and> (\<forall>k :: nat. (i + 2) + 2 * int k \<le> s \<longrightarrow> num mod ((i + 2) + 2 * int k) \<noteq> 0)"
    proof
      assume a: "\<forall>k :: nat. i + 2 * int k \<le> s \<longrightarrow> num mod (i + 2 * int k) \<noteq> 0"
      have "num mod ((i + 2) + 2 * int k) \<noteq> 0" if "(i + 2) + 2 * int k \<le> s" for k :: nat
        using a [rule_format, of "Suc k"] that by (simp add: algebra_simps)
      then show "num mod i \<noteq> 0 \<and> (\<forall>k :: nat. (i + 2) + 2 * int k \<le> s \<longrightarrow> num mod ((i + 2) + 2 * int k) \<noteq> 0)"
        using a [rule_format, of 0] True by simp
    next
      assume a: "num mod i \<noteq> 0 \<and> (\<forall>k :: nat. (i + 2) + 2 * int k \<le> s \<longrightarrow> num mod ((i + 2) + 2 * int k) \<noteq> 0)"
      show "\<forall>k :: nat. i + 2 * int k \<le> s \<longrightarrow> num mod (i + 2 * int k) \<noteq> 0"
      proof (intro allI impI)
        fix k :: nat assume k: "i + 2 * int k \<le> s"
        show "num mod (i + 2 * int k) \<noteq> 0"
          using a k by (cases k) (auto simp: algebra_simps)
      qed
    qed
    have step: "isPrime_loop num s i True = isPrime_loop num s (i + 2) (num mod i \<noteq> 0)"
      using True by (subst isPrime_loop.simps) simp
    show ?thesis
    proof (cases "num mod i = 0")
      case True
      then have "\<not> isPrime_loop num s i True" unfolding step by (subst isPrime_loop.simps) simp
      then show ?thesis using shift True by simp
    next
      case False
      then show ?thesis using less.hyps [of "i + 2"] less.prems True shift step by simp
    qed
  qed
qed

text \<open>For an odd number from 5 on, and any bound between its square root and itself, \<open>isPrime\<close> tells whether it is
  prime.\<close>

theorem isPrime_correct:
  assumes "odd num" "5 \<le> num" "num \<le> s * s" "0 \<le> s" "s < num"
  shows "isPrime s num \<longleftrightarrow> (\<forall>d. 1 < d \<longrightarrow> d < num \<longrightarrow> \<not> d dvd num)"
proof -
  have l: "isPrime s num \<longleftrightarrow> (\<forall>k :: nat. 3 + 2 * int k \<le> s \<longrightarrow> num mod (3 + 2 * int k) \<noteq> 0)"
    using assms(2) isPrime_loop_iff [of 3 num s] by (simp add: isPrime_def)
  show ?thesis
  proof
    assume p: "isPrime s num"
    have small: "\<not> d dvd num" if d: "1 < d" "d \<le> s" for d
    proof
      assume dvd: "d dvd num"
      then have "odd d" using assms(1) by (meson dvd_trans)
      then obtain k where k: "d = 2 * k + 1" by (metis oddE)
      have "d = 3 + 2 * int (nat (k - 1))" using k d(1) by simp
      then have "num mod d \<noteq> 0" using l p d(2) by metis
      then show False using dvd by (simp add: dvd_eq_mod_eq_0)
    qed
    show "\<forall>d. 1 < d \<longrightarrow> d < num \<longrightarrow> \<not> d dvd num"
    proof (intro allI impI notI)
      fix d assume d: "1 < d" "d < num" "d dvd num"
      then obtain e where e: "num = d * e" by blast
      have "1 < e"
      proof -
        have "0 < e" using e d(1) assms(2) by (smt (verit) zero_less_mult_iff)
        moreover have "e \<noteq> 1" using e d(2) by auto
        ultimately show ?thesis by simp
      qed
      have "d \<le> s \<or> e \<le> s"
      proof (rule ccontr)
        assume "\<not> (d \<le> s \<or> e \<le> s)"
        then have "s * s < d * e" using assms(4) by (intro mult_strict_mono) auto
        then show False using e assms(3) by simp
      qed
      then show False using small [of d] small [of e] d \<open>1 < e\<close> e by auto
    qed
  next
    assume p: "\<forall>d. 1 < d \<longrightarrow> d < num \<longrightarrow> \<not> d dvd num"
    show "isPrime s num" unfolding l
    proof (intro allI impI)
      fix k :: nat assume "3 + 2 * int k \<le> s"
      then show "num mod (3 + 2 * int k) \<noteq> 0" using p [rule_format, of "3 + 2 * int k"] assms(5) by (simp add: dvd_eq_mod_eq_0)
    qed
  qed
qed

definition prime_line :: "int \<Rightarrow> ustate \<Rightarrow> ustate option" where
  "prime_line num u = map_option (\<lambda>u1. snd (usleep 1 u1)) (ufprintf (str ''prime : %d'' @ [10]) [UInt num] u)"

text \<open>The first \<open>n\<close> rounds of the loop of \<open>primes\<close> from \<open>num\<close> on; \<open>sq\<close> is the square root used.\<close>

primrec primes_rounds :: "(int \<Rightarrow> int) \<Rightarrow> nat \<Rightarrow> int \<Rightarrow> ustate \<Rightarrow> ustate option" where
  "primes_rounds sq 0 num u = Some u"
| "primes_rounds sq (Suc n) num u =
     Option.bind (if isPrime (sq num) num then prime_line num u else Some u) (primes_rounds sq n (num + 2))"

definition primes :: "(int \<Rightarrow> int) \<Rightarrow> nat \<Rightarrow> ustate \<Rightarrow> ustate option" where
  "primes sq n u = Option.bind (prime_line 2 u) (primes_rounds sq n 3)"

end
