(* ===== verification/TestUtil.thy ===== *)
theory TestUtil
  imports Numerals Loader
begin

text \<open>
  \<open>Userland/SampleCodeModule/tests/test_util.c\<close>: the pseudo random numbers, the check of a block of memory and the
  conversion of a number with a sign. \<open>memset\<close> and \<open>memcpy\<close> there are the text of \<open>Kernel/lib.c\<close>. \<open>GetUniform\<close> scales
  a random number in floating point: the scaling is an argument.
\<close>

section \<open>Random numbers\<close>

text \<open>\<open>m_z\<close> and \<open>m_w\<close>.\<close>

type_synonym rng = "u32 \<times> u32"

definition GetUint :: "rng \<Rightarrow> u32 \<times> rng" where
  "GetUint g =
     (let m_z = 36969 * (fst g AND 65535) + drop_bit 16 (fst g);
          m_w = 18000 * (snd g AND 65535) + drop_bit 16 (snd g)
      in (push_bit 16 m_z + m_w, (m_z, m_w)))"

definition GetUniform :: "(u32 \<Rightarrow> u32 \<Rightarrow> u32) \<Rightarrow> u32 \<Rightarrow> rng \<Rightarrow> u32 \<times> rng" where
  "GetUniform scale mx g = (let (u, g1) = GetUint g in (scale u mx, g1))"

section \<open>Memory\<close>

primrec memcheck_loop :: "nat \<Rightarrow> u64 \<Rightarrow> u8 \<Rightarrow> memory \<Rightarrow> bool" where
  "memcheck_loop 0 p v m = True"
| "memcheck_loop (Suc n) p v m = (if m p \<noteq> v then False else memcheck_loop n (p + 1) v m)"

definition memcheck :: "u64 \<Rightarrow> u8 \<Rightarrow> u32 \<Rightarrow> memory \<Rightarrow> bool" where
  "memcheck start v n m = memcheck_loop (unat n) start v m"

lemma span_Suc: "span p (Suc n) = insert p (span (p + 1) n)"
proof -
  have "{..< Suc n} = insert 0 (Suc ` {..< n})" by (auto simp: less_Suc_eq_0_disj)
  then show ?thesis by (simp add: span_def image_image add.assoc)
qed

lemma memcheck_loop_iff: "memcheck_loop n p v m \<longleftrightarrow> (\<forall>x \<in> span p n. m x = v)"
  by (induction n arbitrary: p) (auto simp: span_Suc, simp add: span_def)

lemma memcheck_iff: "memcheck p v n m \<longleftrightarrow> (\<forall>x \<in> span p (unat n). m x = v)"
  by (simp add: memcheck_def memcheck_loop_iff)

section \<open>Numbers\<close>

text \<open>The text up to its zero byte; the sign is not a digit after the first character.\<close>

primrec satoi_digits :: "u8 list \<Rightarrow> int \<Rightarrow> int option" where
  "satoi_digits [] res = Some res"
| "satoi_digits (c # cs) res =
     (if sint c < 48 \<or> sint c > 57 then None else satoi_digits cs (res * 10 + sint c - 48))"

definition satoi :: "u8 list option \<Rightarrow> int" where
  "satoi str =
     (case str of
        None \<Rightarrow> 0
      | Some (c # cs) \<Rightarrow>
          (if c = 45 then (case satoi_digits cs 0 of None \<Rightarrow> 0 | Some r \<Rightarrow> r * -1)
           else (case satoi_digits (c # cs) 0 of None \<Rightarrow> 0 | Some r \<Rightarrow> r * 1))
      | Some [] \<Rightarrow> 0)"

lemma satoi_digits_all: "\<forall>c \<in> set cs. is_digit c \<Longrightarrow> satoi_digits cs r = Some (atoi_digits r cs)"
proof (induction cs arbitrary: r)
  case (Cons c cs)
  then have "is_digit c" "satoi_digits cs (r * 10 + sint c - 48) = Some (atoi_digits (r * 10 + (sint c - 48)) cs)"
    by (simp_all add: add_diff_eq)
  then show ?case by (auto simp: is_digit_def)
qed simp

lemma dec_text_digits:
  "\<forall>c \<in> set (dec_text n). is_digit c" "dec_text n \<noteq> []" "atoi_digits 0 (dec_text n) = int n"
proof -
  have b: "\<forall>d \<in> set (rev (lsd 10 n)). d < 10" using lsd_bounded [of 10] by auto
  then show "\<forall>c \<in> set (dec_text n). is_digit c" using Representation_digit by (auto simp: dec_text_def)
  show "dec_text n \<noteq> []" using lsd_not_Nil by (simp add: dec_text_def)
  show "atoi_digits 0 (dec_text n) = int n"
    using atoi_digits_rep [OF b, of 0] undigits_lsd [of 10 n] by (simp add: dec_text_def undigits_def)
qed

text \<open>\<open>satoi\<close> reads a number with or without a minus sign.\<close>

lemma satoi_reads:
  "satoi (Some (dec_text n)) = int n" "satoi (Some (45 # dec_text n)) = - int n"
proof -
  obtain c cs where c: "dec_text n = c # cs" using dec_text_digits(2) [of n] by (cases "dec_text n") auto
  have d: "satoi_digits (dec_text n) 0 = Some (int n)"
    using satoi_digits_all [OF dec_text_digits(1), of n 0] dec_text_digits(3) by simp
  have "c \<noteq> 45" using dec_text_digits(1) [of n] c by (auto simp: is_digit_def)
  then show "satoi (Some (dec_text n)) = int n" using d c by (simp add: satoi_def)
  show "satoi (Some (45 # dec_text n)) = - int n" using d by (simp add: satoi_def)
qed

end
