(* ===== verification/Allocator.thy ===== *)
theory Allocator
  imports BuddySpec Loader
begin

text \<open>
  What a program that uses memory relies on, as an interface: the blocks of a memory manager and their sizes, and what
  its two operations promise. The buddy allocator provides it. (The list allocator does not: after an exact fit of its
  only free block it hands out the same block again.)
\<close>

section \<open>The interface\<close>

text \<open>\<open>good h U\<close>: the manager is in state \<open>h\<close> and its used blocks are \<open>U\<close>, each the pointer given out and the number of
  bytes behind it that belong to the block.\<close>

locale memory_manager =
  fixes alloc :: "u64 \<Rightarrow> 'h \<Rightarrow> (u64 option \<times> 'h) option"
    and release :: "u64 option \<Rightarrow> 'h \<Rightarrow> 'h option"
    and good :: "'h \<Rightarrow> (u64 \<times> nat) set \<Rightarrow> bool"
  assumes alloc_answers: "good h U \<Longrightarrow> unat n < 2 ^ 32 \<Longrightarrow>
      (\<exists>h'. alloc n h = Some (None, h') \<and> good h' U) \<or>
      (\<exists>p k h'. alloc n h = Some (Some p, h') \<and> unat n \<le> k \<and> (p, k) \<notin> U \<and> good h' (insert (p, k) U))"
    and blocks_apart: "good h U \<Longrightarrow> (p, k) \<in> U \<Longrightarrow> (q, l) \<in> U \<Longrightarrow> (p, k) \<noteq> (q, l) \<Longrightarrow> span p k \<inter> span q l = {}"
    and release_answers: "good h U \<Longrightarrow> (p, k) \<in> U \<Longrightarrow> \<exists>h'. release (Some p) h = Some h' \<and> good h' (U - {(p, k)})"
begin

text \<open>Releasing blocks one after the other.\<close>

lemma release_all:
  "good h (U \<union> set bs) \<Longrightarrow> distinct bs \<Longrightarrow> U \<inter> set bs = {} \<Longrightarrow>
   \<exists>h'. fold (\<lambda>b r. Option.bind r (release (Some (fst b)))) bs (Some h) = Some h' \<and> good h' U"
proof (induction bs arbitrary: h)
  case (Cons b bs)
  obtain p k where b: "b = (p, k)" by fastforce
  have "(p, k) \<in> U \<union> set (b # bs)" using b by simp
  from release_answers [OF Cons.prems(1) this] obtain h1 where h1: "release (Some p) h = Some h1"
      "good h1 (U \<union> set (b # bs) - {(p, k)})" by blast
  have "U \<union> set (b # bs) - {(p, k)} = U \<union> set bs" using b Cons.prems(2,3) by auto
  then have "good h1 (U \<union> set bs)" using h1(2) by simp
  from Cons.IH [OF this] Cons.prems(2,3) show ?case using b h1(1) by auto
qed simp

end

section \<open>The buddy allocator\<close>

definition usable :: "nat \<times> u64 \<Rightarrow> u64 \<times> nat" where
  "usable b = (snd b + 24, 2 ^ (fst b + 4) - 24)"

definition buddy_good :: "buddy \<Rightarrow> (u64 \<times> nat) set \<Rightarrow> bool" where
  "buddy_good h V \<longleftrightarrow>
     (\<exists>mx B U. buddy_ok mx h B U \<and> mx < 26 \<and> unat (blockMaxSize h) < 2 ^ 32 \<and> V = usable ` U)"

lemma buddy_usable:
  assumes "blocks_ok mx B" "(k, a) \<in> B"
  shows "span (a + 24) (2 ^ (k + 4) - 24) \<subseteq> extent (k, a)"
proof
  fix x assume "x \<in> span (a + 24) (2 ^ (k + 4) - 24)"
  then obtain i where i: "i < 2 ^ (k + 4) - 24" "x = a + of_nat (24 + i)" by (auto simp: span_def add.assoc)
  have low: "\<not> bit a n" if "n < k + 4" for n using blocks_okE [OF assms] that by (simp add: aligned_def)
  have "24 + i < 2 ^ (k + 4)" using i(1) by simp
  then have high: "\<not> bit (24 + i) n" if "k + 4 \<le> n" for n
    using that by (metis bit_take_bit_iff not_less take_bit_nat_eq_self)
  have "bit (of_nat (24 + i) :: u64) n \<Longrightarrow> n < k + 4" for n using high [of n] by (metis bit_of_nat_iff not_le_imp_less)
  then have "a + of_nat (24 + i) = a OR of_nat (24 + i)" using low by (intro disjunctive_add_eq_or) (auto simp: bit_eq_iff bit_and_iff)
  then have "bit x n = bit a n" if "k + 4 \<le> n" for n
    using high [OF that] i(2) by (simp add: bit_or_iff bit_of_nat_iff del: of_nat_add)
  then show "x \<in> extent (k, a)" by (simp add: extent_def addrs_def)
qed

lemma usable_inj:
  assumes "blocks_ok mx B" "U \<subseteq> B"
  shows "inj_on usable U"
proof (rule inj_onI)
  fix b c assume b: "b \<in> U" "c \<in> U" "usable b = usable c"
  then have "snd b = snd c" by (simp add: usable_def)
  moreover have "(fst b, snd b) \<in> B" "(fst c, snd c) \<in> B" using b assms(2) by auto
  ultimately show "b = c" using blocks_unique [OF assms(1)] by (metis prod.collapse)
qed

lemma buddy_alloc_answers:
  assumes g: "buddy_good h V" and n: "unat n < 2 ^ 32"
  shows "(\<exists>h'. buddy_malloc n h = Some (None, h') \<and> buddy_good h' V) \<or>
    (\<exists>p k h'. buddy_malloc n h = Some (Some p, h') \<and> unat n \<le> k \<and> (p, k) \<notin> V \<and> buddy_good h' (insert (p, k) V))"
proof -
  obtain mx B U where h: "buddy_ok mx h B U" "mx < 26" "unat (blockMaxSize h) < 2 ^ 32" "V = usable ` U"
    using g by (auto simp: buddy_good_def)
  show ?thesis
  proof (cases "n = 0 \<or> unat (blockMaxSize h) < unat n + 24")
    case True
    have "unat n + 24 < 2 ^ 64" using n by simp
    from buddy_malloc_refuses [OF this True] show ?thesis using g by blast
  next
    case False
    then have n: "0 < n" "unat n + 24 \<le> unat (blockMaxSize h)" by (auto simp: word_gt_0)
    obtain j where j: "unat n + 24 \<le> 2 ^ (j + 4)" and
      some: "(\<exists>k a. j \<le> k \<and> (k, a) \<in> B - U) \<longrightarrow>
        (\<exists>a h' B' k. buddy_malloc n h = Some (Some (a + 24), h') \<and> buddy_ok mx h' B' (insert (j, a) U) \<and>
           j \<le> k \<and> (k, a) \<in> B - U \<and> blockMaxSize h' = blockMaxSize h)" and
      none: "(\<nexists>k a. j \<le> k \<and> (k, a) \<in> B - U) \<longrightarrow> buddy_malloc n h = Some (None, h)"
      using buddy_malloc_cases [OF h(1,2) n h(3)] by blast
    show ?thesis
    proof (cases "\<exists>k a. j \<le> k \<and> (k, a) \<in> B - U")
      case False
      then show ?thesis using none g by blast
    next
      case True
      then obtain a h' B' k where r: "buddy_malloc n h = Some (Some (a + 24), h')" "buddy_ok mx h' B' (insert (j, a) U)"
          "(k, a) \<in> B - U" "blockMaxSize h' = blockMaxSize h" using some by blast
      have "(i, a) \<notin> U" for i using r(3) blocks_unique [OF buddy_okD(1) [OF h(1)], of i a k] buddy_okD(2) [OF h(1)] by blast
      then have new: "usable (j, a) \<notin> V" by (auto simp: h(4) usable_def)
      have "buddy_good h' (insert (usable (j, a)) V)"
        unfolding buddy_good_def using r(2,4) h(2-4) by (intro exI [of _ mx] exI [of _ B'] exI [of _ "insert (j, a) U"]) simp
      then show ?thesis using r(1) j new by (intro disjI2 exI [of _ "a + 24"] exI [of _ "2 ^ (j + 4) - 24"] exI [of _ h'])
        (simp add: usable_def)
    qed
  qed
qed

lemma buddy_release_answers:
  assumes "buddy_good h V" "(p, k) \<in> V"
  shows "\<exists>h'. buddy_free (Some p) h = Some h' \<and> buddy_good h' (V - {(p, k)})"
proof -
  obtain mx B U where h: "buddy_ok mx h B U" "mx < 26" "unat (blockMaxSize h) < 2 ^ 32" "V = usable ` U"
    using assms(1) by (auto simp: buddy_good_def)
  obtain j a where a: "(j, a) \<in> U" "(p, k) = usable (j, a)" using assms(2) h(4) by auto
  obtain h' B' where r: "buddy_free (Some (a + 24)) h = Some h'" "buddy_ok mx h' B' (U - {(j, a)})" "blockMaxSize h' = blockMaxSize h"
    using buddy_free_cases [OF h(1) a(1)] by blast
  have "V - {(p, k)} = usable ` (U - {(j, a)})"
    using inj_on_image_set_diff [OF usable_inj [OF buddy_okD [OF h(1)]], of U "{(j, a)}"] a by (simp add: h(4))
  then have "buddy_good h' (V - {(p, k)})" unfolding buddy_good_def using r(2,3) h(2,3) by metis
  then show ?thesis using r(1) a(2) by (simp add: usable_def)
qed

lemma buddy_blocks_apart:
  assumes "buddy_good h V" "(p, k) \<in> V" "(q, l) \<in> V" "(p, k) \<noteq> (q, l)"
  shows "span p k \<inter> span q l = {}"
proof -
  obtain mx B U where h: "buddy_ok mx h B U" "V = usable ` U" using assms(1) by (auto simp: buddy_good_def)
  obtain b c where b: "b \<in> U" "(p, k) = usable b" "c \<in> U" "(q, l) = usable c" using assms(2,3) h(2) by auto
  then have "extent b \<inter> extent c = {}" using used_apart [OF h(1)] assms(4) by metis
  moreover have "span p k \<subseteq> extent b" "span q l \<subseteq> extent c"
    using buddy_usable [OF buddy_okD(1) [OF h(1)], of "fst b" "snd b"] buddy_usable [OF buddy_okD(1) [OF h(1)], of "fst c" "snd c"]
      b buddy_okD(2) [OF h(1)] by (auto simp: usable_def)
  ultimately show ?thesis by blast
qed

interpretation buddy_manager: memory_manager buddy_malloc buddy_free buddy_good
  by unfold_locales (rule buddy_alloc_answers buddy_blocks_apart buddy_release_answers; assumption)+

end
