(* ===== verification/TestMM.thy ===== *)
theory TestMM
  imports TestUtil Allocator
begin

text \<open>
  \<open>Userland/SampleCodeModule/tests/test_mm.c\<close>: a program that takes as many blocks of memory as it can, fills each with
  a byte of its own, checks that all still hold it and gives them back, again and again. It runs over any two
  operations of a memory manager; its correctness uses the promises of theory \<open>Allocator\<close> only.
\<close>

section \<open>The program\<close>

definition MAX_BLOCKS :: nat where "MAX_BLOCKS = 128"

record mm_rq =
  rq_address :: "u64 option"
  rq_size :: u32

text \<open>The loop of the requests, with the number of blocks it may still take; \<open>None\<close> is a crash of the memory manager.\<close>

primrec mm_request ::
  "(u64 \<Rightarrow> 'h \<Rightarrow> (u64 option \<times> 'h) option) \<Rightarrow> (u32 \<Rightarrow> u32 \<Rightarrow> u32) \<Rightarrow> int \<Rightarrow> nat \<Rightarrow>
   mm_rq list \<Rightarrow> u32 \<Rightarrow> rng \<Rightarrow> 'h \<Rightarrow> (mm_rq list \<times> rng \<times> 'h) option" where
  "mm_request alloc scale max_memory 0 rqs tot g h = Some (rqs, g, h)"
| "mm_request alloc scale max_memory (Suc n) rqs tot g h =
     (if \<not> uint tot < max_memory then Some (rqs, g, h)
      else let (u, g1) = GetUniform scale (word_of_int (max_memory - uint tot - 1)) g; rqsize = u + 1
           in Option.bind (alloc (ucast rqsize) h) (\<lambda>(address, h1).
                if address \<noteq> None
                then mm_request alloc scale max_memory n (rqs @ [\<lparr>rq_address = address, rq_size = rqsize\<rparr>])
                       (tot + rqsize) g1 h1
                else Some (rqs, g1, h1)))"

primrec mm_set :: "mm_rq list \<Rightarrow> nat \<Rightarrow> memory \<Rightarrow> memory" where
  "mm_set [] i m = m"
| "mm_set (r # rs) i m =
     mm_set rs (i + 1) (case rq_address r of None \<Rightarrow> m | Some a \<Rightarrow> memset a (int i) (ucast (rq_size r)) m)"

primrec mm_check :: "mm_rq list \<Rightarrow> nat \<Rightarrow> memory \<Rightarrow> bool" where
  "mm_check [] i m = True"
| "mm_check (r # rs) i m =
     (case rq_address r of
        None \<Rightarrow> mm_check rs (i + 1) m
      | Some a \<Rightarrow> (if \<not> memcheck a (of_nat i) (rq_size r) m then False else mm_check rs (i + 1) m))"

primrec mm_free :: "(u64 option \<Rightarrow> 'h \<Rightarrow> 'h option) \<Rightarrow> mm_rq list \<Rightarrow> 'h \<Rightarrow> 'h option" where
  "mm_free release [] h = Some h"
| "mm_free release (r # rs) h =
     (case rq_address r of
        None \<Rightarrow> mm_free release rs h
      | Some a \<Rightarrow> Option.bind (release (Some a) h) (mm_free release rs))"

text \<open>One round of the endless loop: whether all checks succeeded, and what it leaves. A round that finds a wrong byte
  reports the error and ends the program, without giving anything back.\<close>

definition mm_round ::
  "(u64 \<Rightarrow> 'h \<Rightarrow> (u64 option \<times> 'h) option) \<Rightarrow> (u64 option \<Rightarrow> 'h \<Rightarrow> 'h option) \<Rightarrow> (u32 \<Rightarrow> u32 \<Rightarrow> u32) \<Rightarrow> int \<Rightarrow>
   rng \<times> 'h \<times> memory \<Rightarrow> (bool \<times> rng \<times> 'h \<times> memory) option" where
  "mm_round alloc release scale max_memory st =
     (let (g, h, m) = st
      in Option.bind (mm_request alloc scale max_memory MAX_BLOCKS [] 0 g h) (\<lambda>(rqs, g1, h1).
           let m1 = mm_set rqs 0 m
           in if \<not> mm_check rqs 0 m1 then Some (False, g1, h1, m1)
              else map_option (\<lambda>h2. (True, g1, h2, m1)) (mm_free release rqs h1)))"

primrec mm_rounds ::
  "(u64 \<Rightarrow> 'h \<Rightarrow> (u64 option \<times> 'h) option) \<Rightarrow> (u64 option \<Rightarrow> 'h \<Rightarrow> 'h option) \<Rightarrow> (u32 \<Rightarrow> u32 \<Rightarrow> u32) \<Rightarrow> int \<Rightarrow>
   nat \<Rightarrow> rng \<times> 'h \<times> memory \<Rightarrow> (bool \<times> rng \<times> 'h \<times> memory) option" where
  "mm_rounds alloc release scale max_memory 0 st = Some (True, st)"
| "mm_rounds alloc release scale max_memory (Suc n) st =
     Option.bind (mm_round alloc release scale max_memory st) (\<lambda>(ok, st1).
       if ok then mm_rounds alloc release scale max_memory n st1 else Some (False, st1))"

definition test_mm ::
  "(u64 \<Rightarrow> 'h \<Rightarrow> (u64 option \<times> 'h) option) \<Rightarrow> (u64 option \<Rightarrow> 'h \<Rightarrow> 'h option) \<Rightarrow> (u32 \<Rightarrow> u32 \<Rightarrow> u32) \<Rightarrow>
   u8 list list \<Rightarrow> nat \<Rightarrow> rng \<times> 'h \<times> memory \<Rightarrow> (bool \<times> rng \<times> 'h \<times> memory) option" where
  "test_mm alloc release scale argv n st =
     (if length argv < 2 then Some (True, st)
      else let max_memory = satoi (Some (argv ! 1))
           in if max_memory \<le> 0 then Some (True, st)
              else mm_rounds alloc release scale max_memory n st)"

section \<open>Filling and checking\<close>

text \<open>The requests that were granted, each inside its block.\<close>

definition within :: "mm_rq \<Rightarrow> u64 \<times> nat \<Rightarrow> bool" where
  "within r b \<longleftrightarrow> rq_address r = Some (fst b) \<and> unat (rq_size r) \<le> snd b"

definition owned :: "u64 \<times> nat \<Rightarrow> u64 set" where
  "owned b = span (fst b) (snd b)"

lemma memset_outside:
  "within r b \<Longrightarrow> x \<notin> owned b \<Longrightarrow> memset (fst b) c (ucast (rq_size r)) m x = m x"
proof -
  assume r: "within r b" and x: "x \<notin> owned b"
  have "span (fst b) (unat (rq_size r)) \<subseteq> owned b"
    using r span_mono [of "unat (rq_size r)" "snd b" "fst b"] by (simp add: within_def owned_def)
  then have "x \<notin> span (fst b) (unat (rq_size r))" using x by blast
  then show ?thesis by (simp add: memset_def memset_loop_at unsigned_ucast_eq take_bit_nat_eq_self)
qed

lemma mm_set_outside:
  "list_all2 within rqs bs \<Longrightarrow> \<forall>b \<in> set bs. x \<notin> owned b \<Longrightarrow> mm_set rqs i m x = m x"
proof (induction rqs bs arbitrary: i m rule: list_all2_induct)
  case (Cons r rqs b bs)
  then have "rq_address r = Some (fst b)" by (simp add: within_def)
  then show ?case using Cons memset_outside [OF Cons.hyps(1), of x] by simp
qed simp

lemma memset_fills:
  assumes "within r b" "x \<in> span (fst b) (unat (rq_size r))"
  shows "memset (fst b) (int i) (ucast (rq_size r)) m x = of_nat i"
  using assms(2) by (simp add: memset_def memset_loop_at unsigned_ucast_eq take_bit_nat_eq_self)

lemma mm_set_checked:
  "list_all2 within rqs bs \<Longrightarrow> pairwise (\<lambda>b c. owned b \<inter> owned c = {}) (set bs) \<Longrightarrow> distinct bs \<Longrightarrow>
   mm_check rqs i (mm_set rqs i m)"
proof (induction rqs bs arbitrary: i m rule: list_all2_induct)
  case (Cons r rqs b bs)
  have a: "rq_address r = Some (fst b)" "unat (rq_size r) \<le> snd b" using Cons.hyps(1) by (simp_all add: within_def)
  let ?m = "memset (fst b) (int i) (ucast (rq_size r)) m"
  have ap: "owned b \<inter> owned c = {}" if "c \<in> set bs" for c
  proof -
    have "b \<noteq> c" "b \<in> set (b # bs)" "c \<in> set (b # bs)" using Cons.prems(2) that by auto
    then show ?thesis using Cons.prems(1) unfolding pairwise_def by blast
  qed
  have sub: "span (fst b) (unat (rq_size r)) \<subseteq> owned b" using a(2) span_mono by (auto simp: owned_def)
  have "mm_set rqs (i + 1) ?m x = of_nat i" if x: "x \<in> span (fst b) (unat (rq_size r))" for x
  proof -
    have "\<forall>c \<in> set bs. x \<notin> owned c" using x sub ap by blast
    from mm_set_outside [OF Cons.hyps(2) this] memset_fills [OF Cons.hyps(1) x] show ?thesis by metis
  qed
  moreover have "mm_check rqs (i + 1) (mm_set rqs (i + 1) ?m)"
    using Cons.IH Cons.prems by (simp add: pairwise_insert)
  ultimately show ?case using a(1) by (simp add: memcheck_iff)
qed simp

section \<open>Rounds over a memory manager\<close>

text \<open>The state between two rounds: the blocks of the others are as before, and so is what they hold.\<close>

context memory_manager
begin

lemma request_within:
  "good h (U \<union> set bs) \<Longrightarrow> distinct bs \<Longrightarrow> U \<inter> set bs = {} \<Longrightarrow> list_all2 within rqs bs \<Longrightarrow>
   \<exists>rqs' g' h' bs'. mm_request alloc scale mx n rqs tot g h = Some (rqs', g', h') \<and> good h' (U \<union> set bs') \<and>
     distinct bs' \<and> U \<inter> set bs' = {} \<and> list_all2 within rqs' bs'"
proof (induction n arbitrary: rqs bs tot g h)
  case (Suc n)
  obtain u g1 where u: "GetUniform scale (word_of_int (mx - uint tot - 1)) g = (u, g1)" by (rule prod.exhaust)
  let ?n = "ucast (u + 1) :: u64"
  have n: "unat ?n = unat (u + 1)" by (simp add: unsigned_ucast_eq take_bit_nat_eq_self)
  then have "unat ?n < 2 ^ 32" using unsigned_less [of "u + 1"] by simp
  from alloc_answers [OF Suc.prems(1) this]
  consider h1 where "alloc ?n h = Some (None, h1)" "good h1 (U \<union> set bs)"
    | p k h1 where "alloc ?n h = Some (Some p, h1)" "unat ?n \<le> k" "(p, k) \<notin> U \<union> set bs" "good h1 (insert (p, k) (U \<union> set bs))"
    by blast
  then show ?case
  proof cases
    case 1
    then show ?thesis using Suc.prems u by (auto simp: Let_def)
  next
    case (2 p k h1)
    let ?bs = "bs @ [(p, k)]"
    have "good h1 (U \<union> set ?bs)" "distinct ?bs" "U \<inter> set ?bs = {}" using 2(3,4) Suc.prems(2,3) by auto
    moreover have "within \<lparr>rq_address = Some p, rq_size = u + 1\<rparr> (p, k)" using 2(2) n by (simp add: within_def)
    then have "list_all2 within (rqs @ [\<lparr>rq_address = Some p, rq_size = u + 1\<rparr>]) ?bs"
      using Suc.prems(4) by (simp add: list_all2_appendI)
    ultimately show ?thesis
      using Suc.IH [of h1 ?bs "rqs @ [\<lparr>rq_address = Some p, rq_size = u + 1\<rparr>]" "tot + (u + 1)" g1] Suc.prems 2(1) u
      by (cases "uint tot < mx") (auto simp: Let_def)
  qed
qed auto

lemma free_fold:
  "list_all2 within rqs bs \<Longrightarrow> mm_free release rqs h = fold (\<lambda>b r. Option.bind r (release (Some (fst b)))) bs (Some h)"
proof (induction rqs bs arbitrary: h rule: list_all2_induct)
  case (Cons r rqs b bs)
  have "fold (\<lambda>b r. Option.bind r (release (Some (fst b)))) bs None = None" by (induction bs) simp_all
  then show ?case using Cons by (cases "release (Some (fst b)) h") (simp_all add: within_def)
qed simp

lemma regions_apart:
  assumes "good h U"
  shows "pairwise (\<lambda>b c. owned b \<inter> owned c = {}) U"
proof (rule pairwiseI)
  fix b c assume "b \<in> U" "c \<in> U" "b \<noteq> c"
  then show "owned b \<inter> owned c = {}"
    using blocks_apart [OF assms, of "fst b" "snd b" "fst c" "snd c"] by (simp add: owned_def)
qed

lemma round_succeeds:
  assumes "good h U"
  shows "\<exists>g' h' m'. mm_round alloc release scale mx (g, h, m) = Some (True, g', h', m') \<and> good h' U \<and>
    (\<forall>b \<in> U. \<forall>x \<in> owned b. m' x = m x)"
proof -
  have "good h (U \<union> set [])" "list_all2 within [] []" using assms by simp_all
  from request_within [OF this(1) _ _ this(2), of scale mx MAX_BLOCKS 0 g]
  obtain rqs g1 h1 bs where r: "mm_request alloc scale mx MAX_BLOCKS [] 0 g h = Some (rqs, g1, h1)" "good h1 (U \<union> set bs)"
      "distinct bs" "U \<inter> set bs = {}" "list_all2 within rqs bs" by auto
  note ap = regions_apart [OF r(2)]
  have "pairwise (\<lambda>b c. owned b \<inter> owned c = {}) (set bs)" by (rule pairwise_subset [OF ap]) simp
  then have c: "mm_check rqs 0 (mm_set rqs 0 m)" by (rule mm_set_checked [OF r(5) _ r(3)])
  obtain h2 where h2: "mm_free release rqs h1 = Some h2" "good h2 U"
    using release_all [OF r(2-4)] free_fold [OF r(5), of h1] by metis
  have "mm_set rqs 0 m x = m x" if b: "b \<in> U" "x \<in> owned b" for b x
  proof (rule mm_set_outside [OF r(5)], intro ballI)
    fix c assume c: "c \<in> set bs"
    then have "b \<noteq> c" using r(4) b(1) by blast
    then have "owned b \<inter> owned c = {}" using pairwiseD [OF ap] b(1) c by blast
    then show "x \<notin> owned c" using b(2) by blast
  qed
  moreover have "mm_round alloc release scale mx (g, h, m) = Some (True, g1, h2, mm_set rqs 0 m)"
    using c h2(1) by (simp add: mm_round_def r(1) Let_def)
  ultimately show ?thesis using h2(2) by blast
qed

lemma rounds_succeed:
  "good h U \<Longrightarrow> \<exists>g' h' m'. mm_rounds alloc release scale mx n (g, h, m) = Some (True, g', h', m') \<and> good h' U \<and>
    (\<forall>b \<in> U. \<forall>x \<in> owned b. m' x = m x)"
proof (induction n arbitrary: g h m)
  case (Suc n)
  obtain g1 h1 m1 where r: "mm_round alloc release scale mx (g, h, m) = Some (True, g1, h1, m1)" "good h1 U"
      "\<forall>b \<in> U. \<forall>x \<in> owned b. m1 x = m x" using round_succeeds [OF Suc.prems] by blast
  obtain g2 h2 m2 where "mm_rounds alloc release scale mx n (g1, h1, m1) = Some (True, g2, h2, m2)" "good h2 U"
      "\<forall>b \<in> U. \<forall>x \<in> owned b. m2 x = m1 x" using Suc.IH [OF r(2)] by blast
  then show ?case using r by auto
qed auto

lemma test_mm_succeeds:
  "good h U \<Longrightarrow> \<exists>g' h' m'. test_mm alloc release scale argv n (g, h, m) = Some (True, g', h', m') \<and> good h' U \<and>
    (\<forall>b \<in> U. \<forall>x \<in> owned b. m' x = m x)"
  using rounds_succeed by (auto simp: test_mm_def Let_def)

end

section \<open>The test over the buddy allocator\<close>

text \<open>Every state the buddy allocator reaches from its start is good.\<close>

lemma buddy_run_good:
  assumes "unwritten h" "heap_base \<noteq> 0" "2 ^ e \<le> unat heap_size" "unat heap_size < 2 ^ Suc e" "5 \<le> e" "e < 30"
    and "initializeMemoryManager_buddy heap_base heap_size h = Some h0" "buddy_run h0 h1 ps"
  shows "\<exists>V. buddy_good h1 V \<and> fst ` V = ps"
proof -
  have i: "buddy_ok (e - 4) h0 {(e - 4, 0)} {}" "blockMaxSize h0 = ucast heap_size"
    using buddy_initial [OF assms(1,2,3,4)] assms(5-7) by auto
  have "unat (blockMaxSize h0) = unat heap_size" unfolding i(2) by (intro unat_cast less_le_trans [OF unsigned_less]) simp
  then have n: "unat (blockMaxSize h0) < 2 ^ 32" "e - 4 < 26" using unsigned_less [of heap_size] assms(6) by simp_all
  from buddy_run_ok [OF assms(8) i(1) n(2,1)] obtain B U where
    "buddy_ok (e - 4) h1 B U" "ps = pointer ` U" "blockMaxSize h1 = blockMaxSize h0" by blast
  moreover have "fst ` usable ` U = pointer ` U" by (simp add: image_image usable_def pointer_def)
  ultimately show ?thesis using n unfolding buddy_good_def by (intro exI [of _ "usable ` U"]) auto
qed

text \<open>C34. Run over the buddy allocator, the memory test never reports an error and never crashes the allocator, however
  many rounds it makes, whatever its argument and the random numbers are: after its rounds the blocks in use are
  those that were in use before, and every byte of them holds what it held.\<close>

theorem test_mm_never_fails:
  assumes "buddy_good h V"
  shows "\<exists>g' h' m'. test_mm buddy_malloc buddy_free scale argv n (g, h, m) = Some (True, g', h', m') \<and>
    buddy_good h' V \<and> (\<forall>(p, k) \<in> V. \<forall>x \<in> span p k. m' x = m x)"
  using buddy_manager.test_mm_succeeds [OF assms, of scale argv n g m] by (simp add: owned_def split_beta)

theorem test_mm_never_fails_witness:
  "\<exists>V g' h' m'. buddy_good kernelBuddy V \<and>
    test_mm buddy_malloc buddy_free (\<lambda>u mx. u) [[109], [53]] 3 ((362436069, 521288629), kernelBuddy, \<lambda>_. 0) = Some (True, g', h', m') \<and>
    buddy_good h' V"
proof -
  have "buddy_good kernelBuddy {}"
    unfolding buddy_good_def using kernelBuddy(2,3) by (intro exI [of _ 16] exI [of _ "{(16, 0)}"] exI [of _ "{}"]) simp
  from test_mm_never_fails [OF this, of "\<lambda>u mx. u" "[[109], [53]]" 3 "(362436069, 521288629)" "\<lambda>_. 0"] this
  show ?thesis by blast
qed

end
