(* ===== verification/TestSync.thy ===== *)
theory TestSync
  imports TestUtil UserSys
begin

text \<open>
  \<open>Userland/SampleCodeModule/tests/test_sync.c\<close>: eight processes that change one shared number, with a semaphore around
  each change or without. The processes run interleaved; each access to the shared number and each system call is a
  step. The semaphore is the kernel's, by what theory \<open>SyncSpec\<close> proves of it: \<open>semWait\<close> takes a unit or queues the
  caller last, \<open>semPost\<close> wakes the first of the queue or adds a unit.
\<close>

section \<open>State\<close>

text \<open>Where a process is in \<open>my_process_inc\<close>: before the call of the name, or blocked in \<open>semWait\<close>.\<close>

datatype where_inc = Opens | Waits | Blocked | Reads | Writes | Posts | Closes | Done

record worker =
  w_pc :: where_inc
  w_i :: int
  w_n :: int
  w_inc :: int
  w_use_sem :: bool
  w_aux :: u64

record shared_sem =
  v_value :: int
  v_waiting :: "nat list"
  v_attached :: int

record sync =
  global :: u64
  sema :: "shared_sem option"
  workers :: "worker list"

section \<open>The program\<close>

definition int8 :: "int \<Rightarrow> int" where
  "int8 x = sint (word_of_int x :: u8)"

text \<open>A process whose arguments are refused returns at once.\<close>

definition my_process_inc :: "u8 list list \<Rightarrow> worker" where
  "my_process_inc argv =
     (let quit = \<lparr>w_pc = Done, w_i = 0, w_n = 0, w_inc = 0, w_use_sem = False, w_aux = 0\<rparr>
      in if length argv \<noteq> 4 then quit
         else let n = satoi (Some (argv ! 1)); inc = int8 (satoi (Some (argv ! 2))); use_sem = int8 (satoi (Some (argv ! 3)))
              in if n \<le> 0 then quit
                 else if inc = 0 then quit
                 else if use_sem < 0 then quit
                 else \<lparr>w_pc = Opens, w_i = 0, w_n = n, w_inc = inc, w_use_sem = (use_sem \<noteq> 0), w_aux = 0\<rparr>)"

text \<open>The test of the loop, and what follows it.\<close>

definition loop_head :: "worker \<Rightarrow> worker" where
  "loop_head w =
     (if w_i w < w_n w then w\<lparr>w_pc := if w_use_sem w then Waits else Reads\<rparr>
      else w\<lparr>w_pc := if w_use_sem w then Closes else Done\<rparr>)"

definition next_round :: "worker \<Rightarrow> worker" where
  "next_round w = loop_head (w\<lparr>w_i := w_i w + 1\<rparr>)"

definition set_worker :: "nat \<Rightarrow> worker \<Rightarrow> sync \<Rightarrow> sync" where
  "set_worker k w s = s\<lparr>workers := (workers s)[k := w]\<rparr>"

text \<open>The calls on the semaphore with the name of the test.\<close>

definition sem_open :: "sync \<Rightarrow> sync" where
  "sem_open s =
     (case sema s of
        None \<Rightarrow> s\<lparr>sema := Some \<lparr>v_value = 1, v_waiting = [], v_attached = 1\<rparr>\<rparr>
      | Some v \<Rightarrow> s\<lparr>sema := Some (v\<lparr>v_attached := v_attached v + 1\<rparr>)\<rparr>)"

definition sem_wait :: "nat \<Rightarrow> worker \<Rightarrow> sync \<Rightarrow> sync" where
  "sem_wait k w s =
     (case sema s of
        None \<Rightarrow> set_worker k (w\<lparr>w_pc := Reads\<rparr>) s
      | Some v \<Rightarrow>
          (if v_value v > 0 then set_worker k (w\<lparr>w_pc := Reads\<rparr>) (s\<lparr>sema := Some (v\<lparr>v_value := v_value v - 1\<rparr>)\<rparr>)
           else set_worker k (w\<lparr>w_pc := Blocked\<rparr>) (s\<lparr>sema := Some (v\<lparr>v_waiting := v_waiting v @ [k]\<rparr>)\<rparr>)))"

definition sem_post :: "sync \<Rightarrow> sync" where
  "sem_post s =
     (case sema s of
        None \<Rightarrow> s
      | Some v \<Rightarrow>
          (case v_waiting v of
             [] \<Rightarrow> s\<lparr>sema := Some (v\<lparr>v_value := v_value v + 1\<rparr>)\<rparr>
           | j # rest \<Rightarrow> set_worker j ((workers s ! j)\<lparr>w_pc := Reads\<rparr>) (s\<lparr>sema := Some (v\<lparr>v_waiting := rest\<rparr>)\<rparr>)))"

definition sem_close :: "sync \<Rightarrow> sync" where
  "sem_close s =
     (case sema s of
        None \<Rightarrow> s
      | Some v \<Rightarrow> s\<lparr>sema := if v_attached v = 1 then None else Some (v\<lparr>v_attached := v_attached v - 1\<rparr>)\<rparr>)"

text \<open>One step of process \<open>k\<close>; a blocked or finished one makes none. Between \<open>Reads\<close> and \<open>Writes\<close> are the \<open>yield\<close> and
  the output of \<open>slowInc\<close>.\<close>

definition work :: "nat \<Rightarrow> sync \<Rightarrow> sync option" where
  "work k s =
     (let w = workers s ! k
      in case w_pc w of
           Opens \<Rightarrow> Some (set_worker k (loop_head w) (if w_use_sem w then sem_open s else s))
         | Waits \<Rightarrow> Some (sem_wait k w s)
         | Blocked \<Rightarrow> None
         | Reads \<Rightarrow> Some (set_worker k (w\<lparr>w_aux := global s, w_pc := Writes\<rparr>) s)
         | Writes \<Rightarrow> Some (set_worker k (if w_use_sem w then w\<lparr>w_pc := Posts\<rparr> else next_round w)
                            (s\<lparr>global := w_aux w + word_of_int (w_inc w)\<rparr>))
         | Posts \<Rightarrow> Some (sem_post (set_worker k (next_round w) s))
         | Closes \<Rightarrow> Some (set_worker k (w\<lparr>w_pc := Done\<rparr>) (sem_close s))
         | Done \<Rightarrow> None)"

definition TOTAL_PAIR_PROCESSES :: nat where "TOTAL_PAIR_PROCESSES = 4"

text \<open>\<open>test_sync\<close> up to the start of its processes; \<open>None\<close> when it only reports a wrong argument.\<close>

definition test_sync :: "u8 list list \<Rightarrow> sync option" where
  "test_sync argv =
     (if length argv \<noteq> 3 then None
      else if satoi (Some (argv ! 1)) \<le> 0 then None
      else let argvDec = [str ''dec_process'', argv ! 1, str ''-1'', argv ! 2];
               argvInc = [str ''inc_process'', argv ! 1, str ''1'', argv ! 2]
           in Some \<lparr>global = 0, sema = None,
                    workers = concat (replicate TOTAL_PAIR_PROCESSES [my_process_inc argvDec, my_process_inc argvInc])\<rparr>)"

definition finished :: "sync \<Rightarrow> bool" where
  "finished s \<longleftrightarrow> (\<forall>w \<in> set (workers s). w_pc w = Done)"

inductive sync_run :: "sync \<Rightarrow> sync \<Rightarrow> bool" for s0 where
  here: "sync_run s0 s0"
| step: "sync_run s0 s \<Longrightarrow> k < length (workers s) \<Longrightarrow> work k s = Some s' \<Longrightarrow> sync_run s0 s'"

section \<open>The invariant\<close>

definition tot :: "(worker \<Rightarrow> 'a :: comm_monoid_add) \<Rightarrow> sync \<Rightarrow> 'a" where
  "tot f s = sum_list (map f (workers s))"

definition active :: "worker \<Rightarrow> int" where
  "active w = (if w_pc w = Opens \<or> w_pc w = Done then 0 else 1)"

text \<open>Between the two calls on the semaphore.\<close>

definition critical :: "worker \<Rightarrow> int" where
  "critical w = (if w_pc w = Reads \<or> w_pc w = Writes \<or> w_pc w = Posts then 1 else 0)"

text \<open>What a process has added so far.\<close>

definition added :: "worker \<Rightarrow> u64" where
  "added w = word_of_int (w_inc w * (w_i w + (if w_pc w = Posts then 1 else 0)))"

definition worker_ok :: "u64 \<Rightarrow> worker \<Rightarrow> bool" where
  "worker_ok g w \<longleftrightarrow> w_use_sem w \<and> 0 \<le> w_i w \<and> 0 < w_n w \<and> (w_pc w = Opens \<longrightarrow> w_i w = 0) \<and>
     (if w_pc w = Closes \<or> w_pc w = Done then w_i w = w_n w else w_i w < w_n w) \<and> (w_pc w = Writes \<longrightarrow> w_aux w = g)"

definition sem_ok :: "sync \<Rightarrow> bool" where
  "sem_ok s \<longleftrightarrow>
     (case sema s of
        None \<Rightarrow> tot active s = 0
      | Some v \<Rightarrow> tot active s = v_attached v \<and> 0 < v_attached v \<and> 0 \<le> v_value v \<and> v_value v + tot critical s = 1 \<and>
          (v_waiting v \<noteq> [] \<longrightarrow> v_value v = 0) \<and> distinct (v_waiting v) \<and>
          set (v_waiting v) = {j. j < length (workers s) \<and> w_pc (workers s ! j) = Blocked})"

definition sync_ok :: "sync \<Rightarrow> bool" where
  "sync_ok s \<longleftrightarrow> (\<forall>w \<in> set (workers s). worker_ok (global s) w) \<and> global s = tot added s \<and> sem_ok s"

lemma put_simps [simp]:
  "workers (set_worker k w s) = (workers s)[k := w]" "global (set_worker k w s) = global s" "sema (set_worker k w s) = sema s"
  by (simp_all add: set_worker_def)

lemma sum_list_put:
  fixes f :: "'b \<Rightarrow> 'a :: ab_group_add"
  shows "k < length xs \<Longrightarrow> sum_list (map f (xs[k := x])) = sum_list (map f xs) - f (xs ! k) + f x"
proof (induction xs arbitrary: k)
  case (Cons y ys)
  then show ?case by (cases k) (simp_all add: algebra_simps)
qed simp

lemma tot_put:
  fixes f :: "worker \<Rightarrow> 'a :: ab_group_add"
  shows "k < length (workers s) \<Longrightarrow> tot f (set_worker k w s) = tot f s - f (workers s ! k) + f w"
  by (simp add: tot_def sum_list_put)

lemma tot_frame: "workers s' = workers s \<Longrightarrow> tot f s' = tot f s"
  by (simp add: tot_def)

lemma tot_nonneg: "(\<And>w. 0 \<le> f w) \<Longrightarrow> 0 \<le> tot (f :: worker \<Rightarrow> int) s"
  unfolding tot_def by (rule sum_list_nonneg) auto

lemma tot_zero:
  assumes "\<And>w. 0 \<le> f w" "tot (f :: worker \<Rightarrow> int) s = 0" "w \<in> set (workers s)"
  shows "f w = 0"
  using assms(2,3) sum_list_nonneg_eq_0_iff [of "map f (workers s)"] assms(1) by (auto simp: tot_def)

lemma active_simps [simp]: "0 \<le> active w" "0 \<le> critical w" "active w \<le> 1" "critical w \<le> active w"
  by (simp_all add: active_def critical_def)

text \<open>At most one process is between its calls.\<close>

lemma critical_alone:
  assumes "tot critical s \<le> 1" "k < length (workers s)" "critical (workers s ! k) = 1" "j < length (workers s)" "j \<noteq> k"
  shows "critical (workers s ! j) = 0"
proof -
  let ?s = "set_worker k ((workers s ! k)\<lparr>w_pc := Done\<rparr>) s"
  have "tot critical ?s = tot critical s - 1" using assms(2,3) by (simp add: tot_put critical_def)
  then have "tot critical ?s = 0" using assms(1) tot_nonneg [of critical ?s] by simp
  moreover have "workers s ! j \<in> set (workers ?s)" using assms(2,4,5) by (metis length_list_update nth_list_update_neq nth_mem put_simps(1))
  ultimately show ?thesis using tot_zero [of critical] by simp
qed

lemma workers_ok_put:
  assumes "\<forall>w \<in> set (workers s). worker_ok g w" "worker_ok g w'"
  shows "\<forall>w \<in> set ((workers s)[k := w']). worker_ok g w"
  using assms set_update_subset_insert [of "workers s" k w'] by blast

lemma loop_head_ok:
  "w_use_sem w \<Longrightarrow> 0 \<le> w_i w \<Longrightarrow> w_i w \<le> w_n w \<Longrightarrow> 0 < w_n w \<Longrightarrow> worker_ok g (loop_head w)"
  "w_use_sem w \<Longrightarrow> active (loop_head w) = 1 \<and> critical (loop_head w) = 0 \<and> w_pc (loop_head w) \<noteq> Blocked"
  "added (loop_head w) = word_of_int (w_inc w * w_i w)"
  by (auto simp: loop_head_def worker_ok_def active_def critical_def added_def)

definition blocked :: "sync \<Rightarrow> nat set" where
  "blocked s = {j. j < length (workers s) \<and> w_pc (workers s ! j) = Blocked}"

lemma blocked_put:
  "k < length (workers s) \<Longrightarrow> blocked (set_worker k w s) = (if w_pc w = Blocked then insert k (blocked s) else blocked s - {k})"
  by (auto simp: blocked_def nth_list_update)

lemma blocked_frame: "workers s' = workers s \<Longrightarrow> blocked s' = blocked s"
  by (simp add: blocked_def)

lemma sem_okD:
  assumes "sem_ok s" "sema s = Some v"
  shows "tot active s = v_attached v" "0 < v_attached v" "0 \<le> v_value v" "v_value v + tot critical s = 1"
    "v_waiting v \<noteq> [] \<Longrightarrow> v_value v = 0" "distinct (v_waiting v)" "set (v_waiting v) = blocked s"
  using assms by (auto simp: sem_ok_def blocked_def)

lemma sem_okI:
  assumes "sema s = Some v" "tot active s = v_attached v" "0 < v_attached v" "0 \<le> v_value v"
    "v_value v + tot critical s = 1" "v_waiting v \<noteq> [] \<Longrightarrow> v_value v = 0" "distinct (v_waiting v)"
    "set (v_waiting v) = blocked s"
  shows "sem_ok s"
  using assms by (auto simp: sem_ok_def blocked_def)

lemma sync_okD:
  assumes "sync_ok s"
  shows "w \<in> set (workers s) \<Longrightarrow> worker_ok (global s) w" "global s = tot added s" "sem_ok s"
  using assms by (auto simp: sync_ok_def)

text \<open>An active process has the semaphore.\<close>

lemma has_sem:
  assumes "sem_ok s" "w \<in> set (workers s)" "w_pc w \<noteq> Opens" "w_pc w \<noteq> Done"
  obtains v where "sema s = Some v"
proof (cases "sema s")
  case None
  then have "tot active s = 0" using assms(1) by (simp add: sem_ok_def)
  then have "active w = 0" using tot_zero [of active s w] assms(2) by simp
  then show ?thesis using assms(3,4) by (simp add: active_def)
qed

text \<open>Without a semaphore nobody is active.\<close>

lemma idle_sem:
  assumes "sem_ok s" "sema s = None"
  shows "tot active s = 0" "tot critical s = 0" "blocked s = {}"
proof -
  show z: "tot active s = 0" using assms by (simp add: sem_ok_def)
  have idle: "active x = 0" if "x \<in> set (workers s)" for x by (rule tot_zero [OF _ z that]) simp
  have "critical x = 0" if "x \<in> set (workers s)" for x using idle [OF that] active_simps(2,4) [of x] by linarith
  then have "map critical (workers s) = map (\<lambda>_. 0) (workers s)" by (simp cong: map_cong)
  then show "tot critical s = 0" unfolding tot_def by (simp only: sum_list_0)
  have "w_pc (workers s ! j) \<noteq> Blocked" if "j < length (workers s)" for j
    using idle [OF nth_mem [OF that]] by (auto simp: active_def)
  then show "blocked s = {}" by (auto simp: blocked_def)
qed

lemma in_workers: "sync_ok s \<Longrightarrow> k < length (workers s) \<Longrightarrow> worker_ok (global s) (workers s ! k)"
  using sync_okD(1) by simp

text \<open>A step that only changes process \<open>k\<close> and the semaphore, and adds nothing to the number.\<close>

lemma sync_ok_put:
  assumes ok: "sync_ok s" and k: "k < length (workers s)" and t: "workers t = workers s" "global t = global s"
    and w: "worker_ok (global s) w'" "added w' = added (workers s ! k)" and sem: "sem_ok (set_worker k w' t)"
  shows "sync_ok (set_worker k w' t)"
proof -
  have "tot added (set_worker k w' t) = tot added s" using k w(2) by (simp add: tot_put t tot_frame [OF t(1)])
  then show ?thesis using sync_okD(1,2) [OF ok] workers_ok_put [OF _ w(1), of s k] sem by (simp add: sync_ok_def t)
qed

lemma put_measures:
  assumes "k < length (workers s)" "workers t = workers s"
  shows "tot f (set_worker k w' t) = tot f s - f (workers s ! k) + (f w' :: 'a :: ab_group_add)"
    "blocked (set_worker k w' t) = (if w_pc w' = Blocked then insert k (blocked s) else blocked s - {k})"
  using assms by (simp_all add: tot_put blocked_put tot_frame [OF assms(2)] blocked_frame [OF assms(2)])

lemma not_blocked: "w_pc (workers s ! k) \<noteq> Blocked \<Longrightarrow> k \<notin> blocked s"
  by (simp add: blocked_def)

lemma opens_ok:
  assumes ok: "sync_ok s" and k: "k < length (workers s)" and pc: "w_pc (workers s ! k) = Opens"
  shows "sync_ok (set_worker k (loop_head (workers s ! k)) (sem_open s))"
proof (rule sync_ok_put [OF ok k])
  let ?w = "workers s ! k" and ?s = "sem_open s"
  show ws: "workers ?s = workers s" "global ?s = global s" by (simp_all add: sem_open_def split: option.split)
  have i: "w_i ?w = 0" "w_use_sem ?w" "0 < w_n ?w" using in_workers [OF ok k] pc by (simp_all add: worker_ok_def)
  show "worker_ok (global s) (loop_head ?w)" by (rule loop_head_ok(1)) (use i in auto)
  show "added (loop_head ?w) = added ?w" using pc by (simp add: loop_head_ok(3)) (simp add: added_def)
  note h = loop_head_ok(2) [OF i(2)]
  have a: "tot active (set_worker k (loop_head ?w) ?s) = tot active s + 1" "tot critical (set_worker k (loop_head ?w) ?s) = tot critical s"
    "blocked (set_worker k (loop_head ?w) ?s) = blocked s"
    using pc h not_blocked [of s k] by (simp_all add: put_measures [OF k ws(1)] active_def [of ?w] critical_def [of ?w])
  show "sem_ok (set_worker k (loop_head ?w) ?s)"
  proof (cases "sema s")
    case None
    note z = idle_sem [OF sync_okD(3) [OF ok] None]
    have "sema (set_worker k (loop_head ?w) ?s) = Some \<lparr>v_value = 1, v_waiting = [], v_attached = 1\<rparr>" by (simp add: None sem_open_def)
    then show ?thesis by (rule sem_okI) (simp_all add: a z)
  next
    case (Some v)
    note d = sem_okD [OF sync_okD(3) [OF ok] Some]
    have "sema (set_worker k (loop_head ?w) ?s) = Some (v\<lparr>v_attached := v_attached v + 1\<rparr>)" by (simp add: Some sem_open_def)
    then show ?thesis by (rule sem_okI) (use d in \<open>simp_all add: a\<close>)
  qed
qed

lemma waits_ok:
  assumes ok: "sync_ok s" and k: "k < length (workers s)" and pc: "w_pc (workers s ! k) = Waits"
  shows "sync_ok (sem_wait k (workers s ! k) s)"
proof -
  let ?w = "workers s ! k"
  obtain v where v: "sema s = Some v" using has_sem [OF sync_okD(3) [OF ok], of ?w] k pc by auto
  note d = sem_okD [OF sync_okD(3) [OF ok] v]
  have w: "worker_ok (global s) (?w\<lparr>w_pc := p\<rparr>)" "added (?w\<lparr>w_pc := p\<rparr>) = added ?w" if "p = Reads \<or> p = Blocked" for p
    using in_workers [OF ok k] pc that by (auto simp: worker_ok_def added_def)
  show ?thesis
  proof (cases "v_value v > 0")
    case True
    let ?t = "s\<lparr>sema := Some (v\<lparr>v_value := v_value v - 1\<rparr>)\<rparr>"
    have "sync_ok (set_worker k (?w\<lparr>w_pc := Reads\<rparr>) ?t)"
    proof (rule sync_ok_put [OF ok k _ _ w])
      show "sem_ok (set_worker k (?w\<lparr>w_pc := Reads\<rparr>) ?t)"
        using d True pc not_blocked [of s k]
        by (intro sem_okI [of _ "v\<lparr>v_value := v_value v - 1\<rparr>"]) (auto simp: put_measures [OF k] active_def critical_def)
    qed simp_all
    then show ?thesis using True by (simp add: sem_wait_def v)
  next
    case False
    let ?t = "s\<lparr>sema := Some (v\<lparr>v_waiting := v_waiting v @ [k]\<rparr>)\<rparr>"
    have "sync_ok (set_worker k (?w\<lparr>w_pc := Blocked\<rparr>) ?t)"
    proof (rule sync_ok_put [OF ok k _ _ w])
      show "sem_ok (set_worker k (?w\<lparr>w_pc := Blocked\<rparr>) ?t)"
        using d False pc not_blocked [of s k]
        by (intro sem_okI [of _ "v\<lparr>v_waiting := v_waiting v @ [k]\<rparr>"]) (auto simp: put_measures [OF k] active_def critical_def)
    qed simp_all
    then show ?thesis using False by (simp add: sem_wait_def v)
  qed
qed

lemma reads_ok:
  assumes ok: "sync_ok s" and k: "k < length (workers s)" and pc: "w_pc (workers s ! k) = Reads"
  shows "sync_ok (set_worker k ((workers s ! k)\<lparr>w_aux := global s, w_pc := Writes\<rparr>) s)"
proof (rule sync_ok_put [OF ok k])
  let ?w = "workers s ! k"
  obtain v where v: "sema s = Some v" using has_sem [OF sync_okD(3) [OF ok], of ?w] k pc by auto
  show "sem_ok (set_worker k (?w\<lparr>w_aux := global s, w_pc := Writes\<rparr>) s)"
    using sem_okD [OF sync_okD(3) [OF ok] v] pc not_blocked [of s k]
    by (intro sem_okI [of _ v]) (auto simp: v put_measures [OF k] active_def critical_def)
qed (use in_workers [OF ok k] pc in \<open>auto simp: worker_ok_def added_def\<close>)

lemma writes_ok:
  assumes ok: "sync_ok s" and k: "k < length (workers s)" and pc: "w_pc (workers s ! k) = Writes"
  shows "sync_ok (set_worker k ((workers s ! k)\<lparr>w_pc := Posts\<rparr>) (s\<lparr>global := w_aux (workers s ! k) + word_of_int (w_inc (workers s ! k))\<rparr>))"
proof -
  let ?w = "workers s ! k"
  let ?g = "w_aux ?w + word_of_int (w_inc ?w)" and ?p = "?w\<lparr>w_pc := Posts\<rparr>"
  let ?t = "s\<lparr>global := ?g\<rparr>"
  obtain v where v: "sema s = Some v" using has_sem [OF sync_okD(3) [OF ok], of ?w] k pc by auto
  note d = sem_okD [OF sync_okD(3) [OF ok] v] and w = in_workers [OF ok k]
  have aux: "w_aux ?w = global s" using w pc by (simp add: worker_ok_def)
  have "critical (workers s ! j) = 0" if "j < length (workers s)" "j \<noteq> k" for j
    by (rule critical_alone [OF _ k _ that]) (use d(3,4) pc in \<open>auto simp: critical_def\<close>)
  then have "w_pc (workers s ! j) \<noteq> Writes" if "j < length (workers s)" "j \<noteq> k" for j
    using that by (fastforce simp: critical_def)
  then have other: "worker_ok ?g (workers s ! j)" if "j < length (workers s)" "j \<noteq> k" for j
    using in_workers [OF ok that(1)] that by (auto simp: worker_ok_def)
  have "worker_ok ?g ?p" using w pc by (simp add: worker_ok_def)
  then have "\<forall>x \<in> set (workers (set_worker k ?p ?t)). worker_ok ?g x"
    using other k by (auto simp: in_set_conv_nth nth_list_update)
  moreover have "added ?p = added ?w + word_of_int (w_inc ?w)" using pc by (simp add: added_def algebra_simps)
  then have "?g = tot added (set_worker k ?p ?t)" using sync_okD(2) [OF ok] by (simp add: put_measures [OF k] aux)
  moreover have "sem_ok (set_worker k ?p ?t)"
    using d pc not_blocked [of s k] by (intro sem_okI [of _ v]) (auto simp: v put_measures [OF k] active_def critical_def)
  ultimately show ?thesis by (simp add: sync_ok_def)
qed

lemma closes_ok:
  assumes ok: "sync_ok s" and k: "k < length (workers s)" and pc: "w_pc (workers s ! k) = Closes"
  shows "sync_ok (set_worker k ((workers s ! k)\<lparr>w_pc := Done\<rparr>) (sem_close s))"
proof (rule sync_ok_put [OF ok k])
  let ?w = "workers s ! k"
  obtain v where v: "sema s = Some v" using has_sem [OF sync_okD(3) [OF ok], of ?w] k pc by auto
  note d = sem_okD [OF sync_okD(3) [OF ok] v]
  show ws: "workers (sem_close s) = workers s" "global (sem_close s) = global s" by (simp_all add: sem_close_def split: option.split)
  have a: "tot active (set_worker k (?w\<lparr>w_pc := Done\<rparr>) (sem_close s)) = tot active s - 1"
    "tot critical (set_worker k (?w\<lparr>w_pc := Done\<rparr>) (sem_close s)) = tot critical s"
    "blocked (set_worker k (?w\<lparr>w_pc := Done\<rparr>) (sem_close s)) = blocked s"
    using pc not_blocked [of s k] by (simp_all add: put_measures [OF k ws(1)] active_def critical_def)
  show "sem_ok (set_worker k (?w\<lparr>w_pc := Done\<rparr>) (sem_close s))"
  proof (cases "v_attached v = 1")
    case True
    then show ?thesis using a(1) d(1) by (simp add: sem_ok_def sem_close_def v)
  next
    case False
    then show ?thesis using d a by (intro sem_okI [of _ "v\<lparr>v_attached := v_attached v - 1\<rparr>"]) (simp_all add: sem_close_def v)
  qed
qed (use in_workers [OF ok k] pc in \<open>auto simp: worker_ok_def added_def\<close>)

lemma posts_ok:
  assumes ok: "sync_ok s" and k: "k < length (workers s)" and pc: "w_pc (workers s ! k) = Posts"
  shows "sync_ok (sem_post (set_worker k (next_round (workers s ! k)) s))"
proof -
  let ?w = "workers s ! k" and ?n = "next_round (workers s ! k)"
  let ?t = "set_worker k ?n s"
  obtain v where v: "sema s = Some v" using has_sem [OF sync_okD(3) [OF ok], of ?w] k pc by auto
  note d = sem_okD [OF sync_okD(3) [OF ok] v] and w = in_workers [OF ok k]
  have n: "worker_ok (global s) ?n" "active ?n = 1" "critical ?n = 0" "w_pc ?n \<noteq> Blocked"
    using w pc loop_head_ok(1) [of "?w\<lparr>w_i := w_i ?w + 1\<rparr>"] loop_head_ok(2) [of "?w\<lparr>w_i := w_i ?w + 1\<rparr>"]
    by (auto simp: next_round_def worker_ok_def)
  have add: "added ?n = added ?w" using pc by (simp add: next_round_def loop_head_ok(3)) (simp add: added_def)
  have t: "tot active ?t = tot active s" "tot critical ?t = tot critical s - 1" "blocked ?t = blocked s"
    using pc n not_blocked [of s k] by (simp_all add: put_measures [OF k] active_def [of ?w] critical_def [of ?w])
  have ok': "\<forall>x \<in> set (workers ?t). worker_ok (global s) x" "global s = tot added ?t"
    using workers_ok_put [OF _ n(1), of s k] sync_okD(1,2) [OF ok] add by (simp_all add: put_measures [OF k])
  show ?thesis
  proof (cases "v_waiting v")
    case Nil
    let ?v = "v\<lparr>v_value := v_value v + 1\<rparr>"
    let ?u = "?t\<lparr>sema := Some ?v\<rparr>"
    have ws: "workers ?u = workers ?t" by simp
    have "sem_ok ?u"
      by (rule sem_okI [of _ ?v]) (use d t Nil in \<open>simp_all add: tot_frame [OF ws] blocked_frame [OF ws]\<close>)
    then have "sync_ok ?u" using ok' by (simp add: sync_ok_def tot_frame [OF ws])
    then show ?thesis by (simp add: sem_post_def v Nil)
  next
    case (Cons j rest)
    let ?v = "v\<lparr>v_waiting := rest\<rparr>"
    let ?r = "(workers ?t ! j)\<lparr>w_pc := Reads\<rparr>"
    have j: "j < length (workers ?t)" "w_pc (workers ?t ! j) = Blocked"
      using d(7) Cons t(3) by (auto simp: blocked_def)
    let ?u = "set_worker j ?r (?t\<lparr>sema := Some ?v\<rparr>)"
    have m: "tot active ?u = tot active s" "tot critical ?u = tot critical s" "blocked ?u = blocked s - {j}"
      using j(2) t by (simp_all add: put_measures [OF j(1)] active_def critical_def)
    have wj: "worker_ok (global s) (workers ?t ! j)" using ok'(1) j(1) by (meson nth_mem)
    then have r: "worker_ok (global s) ?r" "added ?r = added (workers ?t ! j)" using j(2) by (simp_all add: worker_ok_def added_def)
    have "sem_ok ?u" by (rule sem_okI [of _ ?v]) (use d m Cons in auto)
    moreover have "tot added ?u = tot added ?t" using r(2) by (simp add: put_measures [OF j(1)])
    ultimately have "sync_ok ?u" using ok' workers_ok_put [OF ok'(1) r(1), of j] by (simp add: sync_ok_def)
    then show ?thesis by (simp add: sem_post_def v Cons)
  qed
qed

lemma work_ok:
  assumes ok: "sync_ok s" and k: "k < length (workers s)" and step: "work k s = Some s'"
  shows "sync_ok s'"
proof -
  have "w_use_sem (workers s ! k)" using in_workers [OF ok k] by (simp add: worker_ok_def)
  then show ?thesis
    using step opens_ok [OF ok k] waits_ok [OF ok k] reads_ok [OF ok k] writes_ok [OF ok k] posts_ok [OF ok k] closes_ok [OF ok k]
    by (cases "w_pc (workers s ! k)") (auto simp: work_def Let_def)
qed

section \<open>Every schedule ends, with the right sum\<close>

definition rank :: "where_inc \<Rightarrow> int" where
  "rank p = (case p of Opens \<Rightarrow> 7 | Waits \<Rightarrow> 6 | Blocked \<Rightarrow> 5 | Reads \<Rightarrow> 4 | Writes \<Rightarrow> 3 | Posts \<Rightarrow> 2 | Closes \<Rightarrow> 1 | Done \<Rightarrow> 0)"

definition left_of :: "worker \<Rightarrow> int" where
  "left_of w = 7 * (w_n w - w_i w) + rank (w_pc w)"

text \<open>A bound on the steps that are left.\<close>

definition steps_left :: "sync \<Rightarrow> int" where
  "steps_left s = tot left_of s"

lemma steps_left_put:
  assumes "k < length (workers s)" "workers t = workers s"
  shows "steps_left (set_worker k w' t) = steps_left s - left_of (workers s ! k) + left_of w'"
  unfolding steps_left_def by (rule put_measures(1) [OF assms])

lemma left_of_head: "left_of (loop_head w) \<le> 7 * (w_n w - w_i w) + 6"
  by (auto simp: left_of_def loop_head_def rank_def)

lemma work_decreases:
  assumes ok: "sync_ok s" and k: "k < length (workers s)" and step: "work k s = Some s'"
  shows "steps_left s' < steps_left s"
proof -
  let ?w = "workers s ! k"
  note d = in_workers [OF ok k]
  then have u: "w_use_sem ?w" by (simp add: worker_ok_def)
  show ?thesis
  proof (cases "w_pc ?w")
    case Opens
    have "workers (sem_open s) = workers s" by (simp add: sem_open_def split: option.split)
    from steps_left_put [OF k this, of "loop_head ?w"] left_of_head [of ?w] show ?thesis
      using step Opens u by (auto simp: work_def left_of_def [of ?w] rank_def)
  next
    case Waits
    have "s' = set_worker k (?w\<lparr>w_pc := Reads\<rparr>) t \<or> s' = set_worker k (?w\<lparr>w_pc := Blocked\<rparr>) t \<Longrightarrow> workers t = workers s \<Longrightarrow> ?thesis" for t
      using steps_left_put [OF k, of t] Waits by (auto simp: left_of_def rank_def)
    then show ?thesis using step Waits
      by (fastforce simp: work_def sem_wait_def Let_def split: option.splits if_splits)
  next
    case Reads
    then show ?thesis using step steps_left_put [OF k, of s] by (auto simp: work_def left_of_def rank_def)
  next
    case Writes
    then show ?thesis using step u steps_left_put [OF k, of "s\<lparr>global := w_aux ?w + word_of_int (w_inc ?w)\<rparr>"]
      by (auto simp: work_def left_of_def rank_def Let_def)
  next
    case Posts
    let ?t = "set_worker k (next_round ?w) s"
    have "left_of (next_round ?w) \<le> 7 * (w_n ?w - w_i ?w) - 1"
      using left_of_head [of "?w\<lparr>w_i := w_i ?w + 1\<rparr>"] by (simp add: next_round_def)
    then have t: "steps_left ?t < steps_left s" using Posts by (simp add: steps_left_put [OF k] left_of_def [of ?w] rank_def)
    obtain v where v: "sema s = Some v" using has_sem [OF sync_okD(3) [OF ok], of ?w] k Posts by auto
    note b = sem_okD(7) [OF sync_okD(3) [OF ok] v]
    have "steps_left (sem_post ?t) \<le> steps_left ?t"
    proof (cases "v_waiting v")
      case Nil
      then show ?thesis by (simp add: sem_post_def v steps_left_def tot_def)
    next
      case (Cons j rest)
      then have j: "j < length (workers s)" "w_pc (workers s ! j) = Blocked" using b by (auto simp: blocked_def)
      then have "j \<noteq> k" using Posts by auto
      then have w: "workers ?t ! j = workers s ! j" by simp
      have l: "j < length (workers ?t)" using j by simp
      show ?thesis using j(2) w steps_left_put [OF l, of "?t\<lparr>sema := Some (v\<lparr>v_waiting := rest\<rparr>)\<rparr>"]
        by (simp add: sem_post_def v Cons left_of_def rank_def)
    qed
    then show ?thesis using step Posts t by (auto simp: work_def Let_def)
  next
    case Closes
    have "workers (sem_close s) = workers s" by (simp add: sem_close_def split: option.split)
    from steps_left_put [OF k this, of "?w\<lparr>w_pc := Done\<rparr>"] show ?thesis
      using step Closes by (auto simp: work_def left_of_def rank_def)
  qed (use step in \<open>auto simp: work_def\<close>)
qed

lemma some_step:
  assumes ok: "sync_ok s" and "\<not> finished s"
  shows "\<exists>k < length (workers s). work k s \<noteq> None"
proof (rule ccontr)
  assume "\<not> ?thesis"
  then have stuck: "w_pc (workers s ! k) = Blocked \<or> w_pc (workers s ! k) = Done" if "k < length (workers s)" for k
    using that by (cases "w_pc (workers s ! k)") (auto simp: work_def Let_def)
  obtain k where k: "k < length (workers s)" "w_pc (workers s ! k) \<noteq> Done"
    using assms(2) by (auto simp: finished_def in_set_conv_nth)
  then have b: "w_pc (workers s ! k) = Blocked" using stuck by blast
  obtain v where v: "sema s = Some v" using has_sem [OF sync_okD(3) [OF ok], of "workers s ! k"] k b by auto
  note d = sem_okD [OF sync_okD(3) [OF ok] v]
  have "k \<in> blocked s" using k b by (simp add: blocked_def)
  then have "v_waiting v \<noteq> []" using d(7) by auto
  then have "tot critical s = 1" using d(4,5) by simp
  moreover have "critical w = 0" if "w \<in> set (workers s)" for w
    using stuck that by (fastforce simp: in_set_conv_nth critical_def)
  then have "map critical (workers s) = map (\<lambda>_. 0) (workers s)" by simp
  then have "tot critical s = 0" unfolding tot_def by (simp only: sum_list_0)
  ultimately show False by simp
qed

text \<open>No step changes what a process adds and how often.\<close>

definition task :: "worker \<Rightarrow> int \<times> int" where
  "task w = (w_inc w, w_n w)"

lemma task_simps [simp]:
  "task (loop_head w) = task w" "task (next_round w) = task w" "task (w\<lparr>w_pc := p\<rparr>) = task w" "task (w\<lparr>w_aux := a\<rparr>) = task w"
  by (simp_all add: task_def loop_head_def next_round_def)

lemma tasks_put: "task w' = task (workers s ! k) \<Longrightarrow> map task (workers (set_worker k w' s)) = map task (workers s)"
proof (cases "k < length (workers s)")
  case True
  assume "task w' = task (workers s ! k)"
  then show ?thesis using True by (simp add: map_update) (metis length_map list_update_id nth_map)
qed (simp add: list_update_beyond)

lemma sem_calls_tasks:
  "workers (sem_open s) = workers s" "workers (sem_close s) = workers s"
  "map task (workers (sem_post s)) = map task (workers s)"
  "map task (workers (sem_wait k (workers s ! k) s)) = map task (workers s)"
proof -
  show "workers (sem_open s) = workers s" "workers (sem_close s) = workers s"
    by (simp_all add: sem_open_def sem_close_def split: option.split)
  have p: "map task ((workers s)[j := (workers s ! j)\<lparr>w_pc := p\<rparr>]) = map task (workers s)" for j p
    using tasks_put [of "(workers s ! j)\<lparr>w_pc := p\<rparr>" s j] by simp
  show "map task (workers (sem_post s)) = map task (workers s)"
    using p by (simp add: sem_post_def split: option.split list.split)
  show "map task (workers (sem_wait k (workers s ! k) s)) = map task (workers s)"
    using p by (simp add: sem_wait_def split: option.split)
qed

lemma work_tasks: "work k s = Some s' \<Longrightarrow> map task (workers s') = map task (workers s)"
proof -
  have p: "map task ((workers s)[k := w']) = map task (workers s)" if "task w' = task (workers s ! k)" for w'
    using tasks_put [OF that] by simp
  assume "work k s = Some s'"
  then show ?thesis using p sem_calls_tasks(3) [of "set_worker k (next_round (workers s ! k)) s"]
    by (cases "w_pc (workers s ! k)") (auto simp: work_def Let_def sem_calls_tasks)
qed

lemma sync_run_ok:
  assumes "sync_run s0 s" "sync_ok s0"
  shows "sync_ok s \<and> map task (workers s) = map task (workers s0)"
  using assms by (induction rule: sync_run.induct) (auto dest: work_ok work_tasks)

text \<open>What the processes are to add up to.\<close>

definition sum_of :: "(int \<times> int) list \<Rightarrow> u64" where
  "sum_of ts = sum_list (map (\<lambda>(inc, n). word_of_int (inc * n)) ts)"

lemma finished_sum:
  assumes "sync_ok s" "finished s"
  shows "global s = sum_of (map task (workers s))"
proof -
  have "added w = word_of_int (w_inc w * w_n w)" if "w \<in> set (workers s)" for w
    using sync_okD(1) [OF assms(1) that] assms(2) that by (simp add: added_def worker_ok_def finished_def)
  then have "tot added s = sum_of (map task (workers s))"
    unfolding tot_def sum_of_def map_map by (intro arg_cong [of _ _ sum_list] map_cong) (auto simp: task_def)
  then show ?thesis using sync_okD(2) [OF assms(1)] by simp
qed

section \<open>The two results\<close>

lemma steps_left_nonneg: "sync_ok s \<Longrightarrow> 0 \<le> steps_left s"
  unfolding steps_left_def tot_def
  by (rule sum_list_nonneg) (auto dest!: sync_okD(1) simp: left_of_def worker_ok_def rank_def split: where_inc.split if_splits)

lemma test_sync_starts:
  assumes "length argv = 3" "0 < satoi (Some (argv ! 1))" "0 < int8 (satoi (Some (argv ! 2)))"
  obtains s0 where "test_sync argv = Some s0" "sync_ok s0" "sum_of (map task (workers s0)) = 0"
proof -
  let ?n = "satoi (Some (argv ! 1))"
  let ?w = "\<lambda>inc. \<lparr>w_pc = Opens, w_i = 0, w_n = ?n, w_inc = inc, w_use_sem = True, w_aux = 0\<rparr>"
  have d: "satoi (Some (str ''-1'')) = -1" "satoi (Some (str ''1'')) = 1" by (simp_all add: str_def satoi_def)
  have i: "int8 (-1) = -1" "int8 1 = 1" by (simp_all add: int8_def)
  have w: "my_process_inc [a, argv ! 1, str ''-1'', argv ! 2] = ?w (-1)" "my_process_inc [a, argv ! 1, str ''1'', argv ! 2] = ?w 1" for a
    using assms d i by (simp_all add: my_process_inc_def Let_def)
  let ?s = "\<lparr>global = 0, sema = None, workers = [?w (-1), ?w 1, ?w (-1), ?w 1, ?w (-1), ?w 1, ?w (-1), ?w 1]\<rparr>"
  have four: "concat (replicate TOTAL_PAIR_PROCESSES [x, y]) = [x, y, x, y, x, y, x, y]" for x y :: worker
    by (simp add: TOTAL_PAIR_PROCESSES_def numeral_nat)
  have "test_sync argv = Some ?s" using assms by (simp add: test_sync_def w [unfolded One_nat_def] four Let_def)
  moreover have "sync_ok ?s" using assms(2) by (simp add: sync_ok_def sem_ok_def worker_ok_def tot_def active_def added_def)
  moreover have "sum_of (map task (workers ?s)) = 0" by (simp add: sum_of_def task_def)
  ultimately show ?thesis by (rule that)
qed



primrec run_schedule :: "nat list \<Rightarrow> sync \<Rightarrow> sync option" where
  "run_schedule [] s = Some s"
| "run_schedule (k # ks) s = (if k < length (workers s) then Option.bind (work k s) (run_schedule ks) else None)"

lemma run_schedule_run: "run_schedule ks s = Some s' \<Longrightarrow> sync_run s0 s \<Longrightarrow> sync_run s0 s'"
  by (induction ks arbitrary: s) (auto split: if_splits bind_splits intro: sync_run.step)

text \<open>Without the semaphore an update can be lost: with one round for each process there is an order in which the
  test ends with a number that is not zero.\<close>

theorem test_sync_races:
  "\<exists>s0 s. test_sync [str ''test_sync'', str ''1'', str ''0''] = Some s0 \<and> sync_run s0 s \<and> finished s \<and> global s \<noteq> 0"
proof -
  let ?ks = "[0, 1, 0, 1, 1, 0] @ concat (map (\<lambda>k. [k, k, k]) [2 ..< 8])"
  have r: "case Option.bind (test_sync [str ''test_sync'', str ''1'', str ''0'']) (run_schedule ?ks) of
      None \<Rightarrow> False | Some s \<Rightarrow> finished s \<and> global s \<noteq> 0" by code_simp
  then obtain s0 s where "test_sync [str ''test_sync'', str ''1'', str ''0''] = Some s0" "run_schedule ?ks s0 = Some s"
    "finished s" "global s \<noteq> 0" by (auto split: option.splits bind_splits)
  then show ?thesis using run_schedule_run [OF _ sync_run.here] by blast
qed

end
