(* ===== verification/TestProcess.thy ===== *)
theory TestProcess
  imports TestUtil ShellProps
begin

text \<open>
  The user programs \<open>tests/test_process.c\<close> and \<open>tests/test_prio.c\<close>, which exercise the scheduler through its system
  calls. \<open>bussy_wait\<close> only takes time.
\<close>

section \<open>Results\<close>

text \<open>A part of a program that may leave the program early, in the state given (\<open>Inl\<close>), or goes on (\<open>Inr\<close>).\<close>

definition andthen :: "(ustate + 'a) option \<Rightarrow> ('a \<Rightarrow> (ustate + 'b) option) \<Rightarrow> (ustate + 'b) option" where
  "andthen m f = Option.bind m (\<lambda>r. case r of Inl u \<Rightarrow> Some (Inl u) | Inr a \<Rightarrow> f a)"

definition leave :: "u8 list \<Rightarrow> ustate \<Rightarrow> (ustate + 'a) option" where
  "leave msg u = map_option Inl (ufprintf msg [] u)"

lemma andthen_Inr:
  "andthen m f = Some (Inr b) \<longleftrightarrow> (\<exists>a. m = Some (Inr a) \<and> f a = Some (Inr b))"
  by (cases m; cases "the m") (auto simp: andthen_def)

lemma leave_Inr [simp]: "leave msg u \<noteq> Some (Inr a)"
  by (auto simp: leave_def)

section \<open>\<open>test_processes\<close>\<close>

datatype p_state = RUNNING | BLOCKED | KILLED

record p_rq =
  rq_pid :: int
  rq_state :: p_state

text \<open>Creating the processes: \<open>rq\<close> and \<open>alive\<close> are 8 bits wide, so with 256 processes or more the loop does not
  end by itself; the number of its rounds is bounded by the first argument, \<open>None\<close> when that is used up.\<close>

primrec create_loop :: "nat \<Rightarrow> int \<Rightarrow> u8 \<Rightarrow> u8 \<Rightarrow> p_rq list \<Rightarrow> ustate \<Rightarrow> (ustate + u8 \<times> p_rq list \<times> ustate) option" where
  "create_loop 0 max_processes rq alive p_rqs u = None"
| "create_loop (Suc fuel) max_processes rq alive p_rqs u =
     (if uint rq < max_processes
      then let (pid, u1) = ustartTask ''endless_loop'' 1 [str ''endless_loop''] 0 None u;
               p_rqs1 = p_rqs[unat rq := (p_rqs ! unat rq)\<lparr>rq_pid := pid\<rparr>]
           in if pid = -1 then leave (str ''test_processes: ERROR creating process'' @ [10]) u1
              else create_loop fuel max_processes (rq + 1) (alive + 1)
                     (p_rqs1[unat rq := (p_rqs1 ! unat rq)\<lparr>rq_state := RUNNING\<rparr>]) u1
      else Some (Inr (alive, p_rqs, u)))"

text \<open>The body of the first inner loop for one process.\<close>

definition kill_or_block :: "(u32 \<Rightarrow> u32 \<Rightarrow> u32) \<Rightarrow> p_rq \<Rightarrow> u8 \<Rightarrow> rng \<Rightarrow> ustate \<Rightarrow> (ustate + p_rq \<times> u8 \<times> rng \<times> ustate) option" where
  "kill_or_block scale p alive g u =
     (let (r, g1) = GetUniform scale 100 g; action = ucast (r mod 2) :: u8
      in if action = 0 \<and> (rq_state p = RUNNING \<or> rq_state p = BLOCKED)
         then let (k, u1) = ukill (rq_pid p) u
              in if k = -1 then leave (str ''test_processes: ERROR killing process'' @ [10]) u1
                 else Some (Inr (p\<lparr>rq_state := KILLED\<rparr>, alive - 1, g1, u1))
         else if action = 1 \<and> rq_state p = RUNNING
         then let (k, u1) = ublock (rq_pid p) u
              in if k = -1 then leave (str ''test_processes: ERROR blocking process'' @ [10]) u1
                 else Some (Inr (p\<lparr>rq_state := BLOCKED\<rparr>, alive, g1, u1))
         else Some (Inr (p, alive, g1, u)))"

primrec kill_loop :: "(u32 \<Rightarrow> u32 \<Rightarrow> u32) \<Rightarrow> p_rq list \<Rightarrow> u8 \<Rightarrow> rng \<Rightarrow> ustate \<Rightarrow> (ustate + p_rq list \<times> u8 \<times> rng \<times> ustate) option" where
  "kill_loop scale [] alive g u = Some (Inr ([], alive, g, u))"
| "kill_loop scale (p # ps) alive g u =
     andthen (kill_or_block scale p alive g u) (\<lambda>(p1, alive1, g1, u1).
     andthen (kill_loop scale ps alive1 g1 u1) (\<lambda>(ps1, st). Some (Inr (p1 # ps1, st))))"

primrec unblock_loop :: "(u32 \<Rightarrow> u32 \<Rightarrow> u32) \<Rightarrow> p_rq list \<Rightarrow> rng \<Rightarrow> ustate \<Rightarrow> (ustate + p_rq list \<times> rng \<times> ustate) option" where
  "unblock_loop scale [] g u = Some (Inr ([], g, u))"
| "unblock_loop scale (p # ps) g u =
     (let (r, g1) = (if rq_state p = BLOCKED then GetUniform scale 100 g else (0, g))
      in andthen
           (if rq_state p = BLOCKED \<and> r mod 2 \<noteq> 0
            then let (k, u1) = uresume (rq_pid p) u
                 in if k = -1 then leave (str ''test_processes: ERROR unblocking process'' @ [10]) u1
                    else Some (Inr (p\<lparr>rq_state := RUNNING\<rparr>, u1))
            else Some (Inr (p, u))) (\<lambda>(p1, u1).
         andthen (unblock_loop scale ps g1 u1) (\<lambda>(ps1, st). Some (Inr (p1 # ps1, st)))))"

text \<open>The loop while processes are alive need not end; the first argument bounds its rounds.\<close>

primrec alive_loop :: "nat \<Rightarrow> (u32 \<Rightarrow> u32 \<Rightarrow> u32) \<Rightarrow> p_rq list \<Rightarrow> u8 \<Rightarrow> rng \<Rightarrow> ustate \<Rightarrow> (ustate + p_rq list \<times> rng \<times> ustate) option" where
  "alive_loop 0 scale ps alive g u = None"
| "alive_loop (Suc fuel) scale ps alive g u =
     (if alive > 0
      then andthen (kill_loop scale ps alive g u) (\<lambda>(ps1, alive1, g1, u1).
           andthen (unblock_loop scale ps1 g1 u1) (\<lambda>(ps2, g2, u2). alive_loop fuel scale ps2 alive1 g2 u2))
      else Some (Inr (ps, g, u)))"

definition wait_all :: "p_rq list \<Rightarrow> ustate \<Rightarrow> ustate" where
  "wait_all ps u = fold (\<lambda>p u. snd (uwaitpid (rq_pid p) u)) ps u"

text \<open>One round of the endless loop; the array keeps what the round before left in it. \<open>alive\<close> is zero between rounds.\<close>

definition process_round ::
  "nat \<Rightarrow> (u32 \<Rightarrow> u32 \<Rightarrow> u32) \<Rightarrow> int \<Rightarrow> p_rq list \<Rightarrow> rng \<Rightarrow> ustate \<Rightarrow> (ustate + p_rq list \<times> rng \<times> ustate) option" where
  "process_round fuel scale max_processes p_rqs g u =
     andthen (create_loop fuel max_processes 0 0 p_rqs u) (\<lambda>(alive, ps, u1).
     andthen (alive_loop fuel scale ps alive g (snd (usleep 1 u1))) (\<lambda>(ps1, g1, u2).
       Some (Inr (ps1, g1, snd (usleep 1 (wait_all ps1 u2))))))"

section \<open>\<open>test_prio\<close>\<close>

definition TOTAL_PROCESSES :: nat where "TOTAL_PROCESSES = 3"
definition LOWEST :: int where "LOWEST = 1"
definition MEDIUM :: int where "MEDIUM = 10"
definition HIGHEST :: int where "HIGHEST = 20"

definition prio :: "int list" where
  "prio = [LOWEST, MEDIUM, HIGHEST]"

primrec start_printers :: "nat \<Rightarrow> ustate \<Rightarrow> int list \<times> ustate" where
  "start_printers 0 u = ([], u)"
| "start_printers (Suc n) u =
     (let (pid, u1) = ustartTask ''printWrapper'' 0 [] 0 None u; (pids, u2) = start_printers n u1 in (pid # pids, u2))"

definition test_prio :: "ustate \<Rightarrow> ustate option" where
  "test_prio u =
     (let (pids, u) = start_printers TOTAL_PROCESSES u
      in Option.bind (ufprintf ([10] @ str ''CHANGING PRIORITIES...'' @ [10]) [] u) (\<lambda>u.
         let u = fold (\<lambda>(pid, p). unice pid p) (zip pids prio) u
         in Option.bind (ufprintf ([10] @ str ''BLOCKING...'' @ [10]) [] u) (\<lambda>u.
         let u = fold (\<lambda>pid u. snd (ublock pid u)) pids u
         in Option.bind (ufprintf (str ''CHANGING PRIORITIES WHILE BLOCKED...'' @ [10]) [] u) (\<lambda>u.
         let u = fold (\<lambda>pid. unice pid MEDIUM) pids u
         in Option.bind (ufprintf (str ''UNBLOCKING...'' @ [10]) [] u) (\<lambda>u.
         let u = fold (\<lambda>pid u. snd (uresume pid u)) pids u
         in Option.bind (ufprintf ([10] @ str ''KILLING...'' @ [10]) [] u) (\<lambda>u.
         let u = fold (\<lambda>pid u. snd (ukill pid u)) pids u
         in Some (fold (\<lambda>pid u. snd (uwaitpid pid u)) pids u)))))))"

section \<open>Nobody is left over\<close>

text \<open>How often a process is killed, how often waited for, and how many of the table are recorded as killed.\<close>

definition kills :: "int \<Rightarrow> ustate \<Rightarrow> nat" where
  "kills pid u = count_list (calls u) (UKill pid)"

definition waits :: "int \<Rightarrow> ustate \<Rightarrow> nat" where
  "waits pid u = count_list (calls u) (UWaitpid pid)"

definition killed :: "int \<Rightarrow> p_rq list \<Rightarrow> nat" where
  "killed pid ps = length (filter (\<lambda>p. rq_pid p = pid \<and> rq_state p = KILLED) ps)"

definition living :: "p_rq list \<Rightarrow> nat" where
  "living ps = length (filter (\<lambda>p. rq_state p \<noteq> KILLED) ps)"

lemmas proc_calls = ukill_def ublock_def uresume_def uwaitpid_def usleep_def ustartTask_def

lemma call_counts [simp]:
  "kills q (snd (ukill i u)) = kills q u + (if i = q then 1 else 0)" "waits q (snd (ukill i u)) = waits q u"
  "kills q (snd (ublock i u)) = kills q u" "waits q (snd (ublock i u)) = waits q u"
  "kills q (snd (uresume i u)) = kills q u" "waits q (snd (uresume i u)) = waits q u"
  "kills q (snd (uwaitpid i u)) = kills q u" "waits q (snd (uwaitpid i u)) = waits q u + (if i = q then 1 else 0)"
  "kills q (snd (usleep n u)) = kills q u" "waits q (snd (usleep n u)) = waits q u"
  "kills q (snd (ustartTask f c v g d u)) = kills q u" "waits q (snd (ustartTask f c v g d u)) = waits q u"
  by (simp_all add: kills_def waits_def proc_calls usyscall_def)

lemma table_counts [simp]:
  "killed q [] = 0" "killed q (p # ps) = (if rq_pid p = q \<and> rq_state p = KILLED then 1 else 0) + killed q ps"
  "living [] = 0" "living (p # ps) = (if rq_state p \<noteq> KILLED then 1 else 0) + living ps"
  by (simp_all add: killed_def living_def)

text \<open>What one process does to the counts.\<close>

definition counted :: "int \<Rightarrow> p_rq list \<Rightarrow> ustate \<Rightarrow> p_rq list \<Rightarrow> ustate \<Rightarrow> bool" where
  "counted q ps u ps1 u1 \<longleftrightarrow>
     map rq_pid ps1 = map rq_pid ps \<and> kills q u1 + killed q ps = kills q u + killed q ps1 \<and> waits q u1 = waits q u"

lemma kill_or_block_cases:
  assumes "kill_or_block scale p a g u = Some (Inr (p1, a1, g1, u1))"
  shows "p1 = p \<and> a1 = a \<and> u1 = u \<or>
    rq_state p \<noteq> KILLED \<and> p1 = p\<lparr>rq_state := KILLED\<rparr> \<and> a1 = a - 1 \<and> u1 = snd (ukill (rq_pid p) u) \<or>
    rq_state p = RUNNING \<and> p1 = p\<lparr>rq_state := BLOCKED\<rparr> \<and> a1 = a \<and> u1 = snd (ublock (rq_pid p) u)"
proof -
  obtain r g2 where g: "GetUniform scale 100 g = (r, g2)" by (rule prod.exhaust)
  show ?thesis using assms unfolding kill_or_block_def g Let_def prod.case
    by (auto simp: split_beta split: if_split_asm)
qed

lemma kill_or_block_counts:
  assumes "kill_or_block scale p a g u = Some (Inr (p1, a1, g1, u1))"
  shows "counted q [p] u [p1] u1" "a1 + of_nat (living [p]) = a + of_nat (living [p1])"
  using kill_or_block_cases [OF assms] by (auto simp: counted_def)

lemma counted_Cons:
  "counted q [p] u [p1] u1 \<Longrightarrow> counted q ps u1 ps1 u2 \<Longrightarrow> counted q (p # ps) u (p1 # ps1) u2"
  by (auto simp: counted_def split: if_splits)

lemma counted_trans: "counted q ps u ps1 u1 \<Longrightarrow> counted q ps1 u1 ps2 u2 \<Longrightarrow> counted q ps u ps2 u2"
  by (simp add: counted_def)

lemma kill_loop_counts:
  "kill_loop scale ps a g u = Some (Inr (ps1, a1, g1, u1)) \<Longrightarrow>
   counted q ps u ps1 u1 \<and> a1 + of_nat (living ps) = a + of_nat (living ps1)"
proof (induction ps arbitrary: a g u ps1 a1 g1 u1)
  case (Cons p ps)
  obtain p2 a2 g2 u2 ps3 where r: "kill_or_block scale p a g u = Some (Inr (p2, a2, g2, u2))"
      "kill_loop scale ps a2 g2 u2 = Some (Inr (ps3, a1, g1, u1))" "ps1 = p2 # ps3"
    using Cons.prems by (auto simp: andthen_Inr)
  note k = kill_or_block_counts [OF r(1)]
  have "a1 + of_nat (living (p # ps)) = a1 + of_nat (living ps) + of_nat (living [p])" by simp
  also have "\<dots> = (a2 + of_nat (living [p])) + of_nat (living ps3)" using Cons.IH [OF r(2)] by (simp add: add_ac del: table_counts)
  also have "\<dots> = a + of_nat (living ps1)" unfolding k(2) r(3) by simp
  finally show ?case using counted_Cons [OF k(1)] Cons.IH [OF r(2)] r(3) by blast
qed (simp add: counted_def)

lemma unblock_loop_counts:
  "unblock_loop scale ps g u = Some (Inr (ps1, g1, u1)) \<Longrightarrow> counted q ps u ps1 u1 \<and> living ps1 = living ps"
proof (induction ps arbitrary: g u ps1 g1 u1)
  case (Cons p ps)
  obtain r g2 where g: "(if rq_state p = BLOCKED then GetUniform scale 100 g else (0, g)) = (r, g2)" by (rule prod.exhaust)
  obtain p2 u2 ps3 where r: "(if rq_state p = BLOCKED \<and> r mod 2 \<noteq> 0
            then let (k, u1) = uresume (rq_pid p) u
                 in if k = -1 then leave (str ''test_processes: ERROR unblocking process'' @ [10]) u1
                    else Some (Inr (p\<lparr>rq_state := RUNNING\<rparr>, u1))
            else Some (Inr (p, u))) = Some (Inr (p2, u2))"
      "unblock_loop scale ps g2 u2 = Some (Inr (ps3, g1, u1))" "ps1 = p2 # ps3"
    using Cons.prems unfolding unblock_loop.simps Let_def g prod.case by (auto simp: andthen_Inr)
  have "p2 = p \<and> u2 = u \<or> rq_state p = BLOCKED \<and> p2 = p\<lparr>rq_state := RUNNING\<rparr> \<and> u2 = snd (uresume (rq_pid p) u)"
    using r(1) by (auto simp: Let_def split_beta split: if_split_asm)
  then have "counted q [p] u [p2] u2" "living [p2] = living [p]" by (auto simp: counted_def)
  then show ?case using counted_Cons [of q p u p2 u2 ps ps3 u1] Cons.IH [OF r(2)] r(3) by simp
qed (simp add: counted_def)

lemma alive_loop_counts:
  "alive_loop fuel scale ps a g u = Some (Inr (ps1, g1, u1)) \<Longrightarrow> a = of_nat (living ps) \<Longrightarrow> length ps < 256 \<Longrightarrow>
   counted q ps u ps1 u1 \<and> living ps1 = 0"
proof (induction fuel arbitrary: ps a g u)
  case (Suc fuel)
  show ?case
  proof (cases "a > 0")
    case False
    have "living ps \<le> length ps" by (simp add: living_def)
    then have "living ps < 256" using Suc.prems(3) by linarith
    moreover have "(of_nat (living ps) :: u8) = 0" using False Suc.prems(2) word_gt_0 by metis
    ultimately have "living ps = 0" by (auto simp: word_of_nat_eq_0_iff dest: nat_dvd_not_less)
    then show ?thesis using Suc.prems(1) False by (simp add: counted_def)
  next
    case True
    obtain ps2 a2 g2 u2 ps3 g3 u3 where r: "kill_loop scale ps a g u = Some (Inr (ps2, a2, g2, u2))"
        "unblock_loop scale ps2 g2 u2 = Some (Inr (ps3, g3, u3))" "alive_loop fuel scale ps3 a2 g3 u3 = Some (Inr (ps1, g1, u1))"
      using Suc.prems(1) True by (auto simp: andthen_Inr)
    note k = kill_loop_counts [OF r(1), of q] and b = unblock_loop_counts [OF r(2), of q]
    have "a2 = of_nat (living ps3)" using k b Suc.prems(2) by (simp add: add.commute)
    moreover have "length ps3 = length ps" using k b by (metis counted_def length_map)
    ultimately show ?thesis using Suc.IH [OF r(3)] Suc.prems(3) k b counted_trans by metis
  qed
qed simp

lemma create_loop_counts:
  "create_loop fuel mx (of_nat k) (of_nat k) ps u = Some (Inr (a, ps1, u1)) \<Longrightarrow> length ps = nat mx \<Longrightarrow> 0 \<le> mx \<Longrightarrow> mx < 256 \<Longrightarrow>
   int k \<le> mx \<Longrightarrow> \<forall>p \<in> set (take k ps). rq_state p = RUNNING \<Longrightarrow>
   a = of_nat (length ps1) \<and> length ps1 = nat mx \<and> (\<forall>p \<in> set ps1. rq_state p = RUNNING) \<and>
     (\<forall>q. kills q u1 = kills q u \<and> waits q u1 = waits q u)"
proof (induction fuel arbitrary: k ps u)
  case (Suc fuel)
  have k: "uint (of_nat k :: u8) = int k" "unat (of_nat k :: u8) = k"
    using Suc.prems(4,5) by (simp_all add: unsigned_of_nat take_bit_nat_eq_self)
  show ?case
  proof (cases "int k < mx")
    case False
    then have "nat mx = k" using Suc.prems(5) by simp
    then show ?thesis using Suc.prems False by (simp add: k)
  next
    case True
    define pid where "pid = fst (ustartTask ''endless_loop'' 1 [str ''endless_loop''] 0 None u)"
    define u2 where "u2 = snd (ustartTask ''endless_loop'' 1 [str ''endless_loop''] 0 None u)"
    let ?q = "ps[k := (ps ! k)\<lparr>rq_pid := pid\<rparr>]"
    let ?ps = "?q[k := (?q ! k)\<lparr>rq_state := RUNNING\<rparr>]"
    have c: "pid \<noteq> -1" "create_loop fuel mx (of_nat (Suc k)) (of_nat (Suc k)) ?ps u2 = Some (Inr (a, ps1, u1))"
      using Suc.prems(1) True by (auto simp: k Let_def split_beta pid_def u2_def add.commute simp del: of_nat_Suc split: if_split_asm)
        (simp_all add: add.commute)
    have "k < length ps" using True Suc.prems(2) by simp
    then have "take (Suc k) ?ps = take k ps @ [(?q ! k)\<lparr>rq_state := RUNNING\<rparr>]" by (simp add: take_Suc_conv_app_nth)
    then have "\<forall>p \<in> set (take (Suc k) ?ps). rq_state p = RUNNING" using Suc.prems(6) by auto
    then have "a = of_nat (length ps1) \<and> length ps1 = nat mx \<and> (\<forall>p \<in> set ps1. rq_state p = RUNNING) \<and>
        (\<forall>q. kills q u1 = kills q u2 \<and> waits q u1 = waits q u2)"
      using Suc.prems(2-4) True by (intro Suc.IH [OF c(2)]) simp_all
    then show ?thesis by (simp add: u2_def)
  qed
qed simp

lemma wait_all_counts:
  "kills q (wait_all ps u) = kills q u" "waits q (wait_all ps u) = waits q u + count_list (map rq_pid ps) q"
  by (induction ps arbitrary: u) (simp_all add: wait_all_def)

lemma killed_all: "living ps = 0 \<Longrightarrow> killed q ps = count_list (map rq_pid ps) q \<and> (\<forall>p \<in> set ps. rq_state p = KILLED)"
  by (induction ps) (auto split: if_splits)

text \<open>A round of \<open>test_processes\<close> that comes to its end leaves nobody behind, whatever the kernel answers and
  whatever the random numbers are: every process it has created is recorded as killed, and has been killed once and waited
  for once.\<close>

theorem process_round_leaves_nobody:
  assumes "process_round fuel scale max_processes p_rqs g u = Some (Inr (ps, g', u'))"
    and "length p_rqs = nat max_processes" "0 < max_processes" "max_processes < 256"
  shows "length ps = nat max_processes \<and> (\<forall>p \<in> set ps. rq_state p = KILLED) \<and>
    (\<forall>q. kills q u' = kills q u + count_list (map rq_pid ps) q \<and> waits q u' = waits q u + count_list (map rq_pid ps) q)"
proof -
  obtain a ps1 u1 u2 where r: "create_loop fuel max_processes 0 0 p_rqs u = Some (Inr (a, ps1, u1))"
      "alive_loop fuel scale ps1 a g (snd (usleep 1 u1)) = Some (Inr (ps, g', u2))" "u' = snd (usleep 1 (wait_all ps u2))"
    using assms(1) by (auto simp: process_round_def andthen_Inr)
  have c: "a = of_nat (length ps1)" "length ps1 = nat max_processes" "\<forall>p \<in> set ps1. rq_state p = RUNNING"
      "\<forall>q. kills q u1 = kills q u \<and> waits q u1 = waits q u"
    using create_loop_counts [of fuel max_processes 0 p_rqs u a ps1 u1] r(1) assms(2-4) by simp_all
  have n: "living ps1 = length ps1" "killed q ps1 = 0" for q using c(3) by (auto simp: living_def killed_def filter_id_conv filter_empty_conv)
  have l: "counted q ps1 (snd (usleep 1 u1)) ps u2 \<and> living ps = 0" for q
    by (rule alive_loop_counts [OF r(2)]) (use c n assms(3,4) in simp_all)
  have "length ps = length ps1" using l by (metis counted_def length_map)
  then show ?thesis using l n(2) c killed_all [of ps] by (auto simp: r(3) wait_all_counts counted_def)
qed

theorem process_round_leaves_nobody_witness:
  "\<exists>ps g' u'. process_round 3 (\<lambda>u mx. 0) 2 (replicate 2 \<lparr>rq_pid = 0, rq_state = RUNNING\<rparr>) (1, 1)
      \<lparr>answer = \<lambda>cs c. int (length cs), calls = []\<rparr> = Some (Inr (ps, g', u')) \<and>
    (\<forall>p \<in> set ps. rq_state p = KILLED) \<and> kills 0 u' = 1 \<and> waits 1 u' = 1"
proof -
  let ?r = "process_round 3 (\<lambda>u mx. 0) 2 (replicate 2 \<lparr>rq_pid = 0, rq_state = RUNNING\<rparr>) (1, 1)
      \<lparr>answer = \<lambda>cs c. int (length cs), calls = []\<rparr>"
  have "case ?r of Some (Inr (ps, _, _)) \<Rightarrow> map rq_pid ps = [0, 1] | _ \<Rightarrow> False" by code_simp
  then obtain ps g' u' where r: "?r = Some (Inr (ps, g', u'))" "map rq_pid ps = [0, 1]"
    by (auto split: option.splits sum.splits)
  from process_round_leaves_nobody [OF r(1)] show ?thesis using r by (auto simp: kills_def waits_def)
qed

section \<open>The calls of \<open>test_prio\<close>\<close>

text \<open>The calls of a program but for its output.\<close>

definition silent :: "ucall list \<Rightarrow> ucall list" where
  "silent cs = filter (\<lambda>c. case c of UWrite b n col \<Rightarrow> False | _ \<Rightarrow> True) cs"

lemma silent_simps [simp]:
  "silent [] = []" "silent (cs @ ds) = silent cs @ silent ds" "silent (map (\<lambda>s. UWrite s (length s) None) ws) = []"
  by (simp_all add: silent_def)

lemma silent_plain:
  assumes "37 \<notin> set s"
  obtains u' where "ufprintf s [] u = Some u'" "silent (calls u') = silent (calls u)"
  using plain_calls [OF assms, of u] by force

lemma silent_folds:
  "silent (calls (fold (\<lambda>pid u. snd (ublock pid u)) ps u)) = silent (calls u) @ map UBlock ps"
  "silent (calls (fold (\<lambda>pid u. snd (uresume pid u)) ps u)) = silent (calls u) @ map UResume ps"
  "silent (calls (fold (\<lambda>pid u. snd (ukill pid u)) ps u)) = silent (calls u) @ map UKill ps"
  "silent (calls (fold (\<lambda>pid u. snd (uwaitpid pid u)) ps u)) = silent (calls u) @ map UWaitpid ps"
  "silent (calls (fold (\<lambda>pid. unice pid n) ps u)) = silent (calls u) @ map (\<lambda>p. UNice p n) ps"
  by (induction ps arbitrary: u; simp add: proc_calls unice_def usyscall_def silent_def)+

text \<open>\<open>test_prio\<close> starts three processes and changes their priorities, blocks them, changes them again, unblocks, kills
  and waits for each of them, in this order; between these calls it only writes.\<close>

theorem test_prio_calls:
  "\<exists>u' p0 p1 p2. test_prio u = Some u' \<and>
    silent (calls u') = silent (calls u) @ replicate 3 (UStartTask ''printWrapper'' 0 [] 0 None) @
      [UNice p0 1, UNice p1 10, UNice p2 20] @ map UBlock [p0, p1, p2] @ map (\<lambda>p. UNice p 10) [p0, p1, p2] @
      map UResume [p0, p1, p2] @ map UKill [p0, p1, p2] @ map UWaitpid [p0, p1, p2]"
proof -
  obtain u1 p0 p1 p2 where s: "start_printers TOTAL_PROCESSES u = ([p0, p1, p2], u1)"
      "silent (calls u1) = silent (calls u) @ replicate 3 (UStartTask ''printWrapper'' 0 [] 0 None)"
    by (simp add: TOTAL_PROCESSES_def numeral_nat Let_def split_beta proc_calls usyscall_def silent_def)
  have p: "37 \<notin> set ([10] @ str ''CHANGING PRIORITIES...'' @ [10])" "37 \<notin> set ([10] @ str ''BLOCKING...'' @ [10])"
    "37 \<notin> set (str ''CHANGING PRIORITIES WHILE BLOCKED...'' @ [10])" "37 \<notin> set (str ''UNBLOCKING...'' @ [10])"
    "37 \<notin> set ([10] @ str ''KILLING...'' @ [10])" by (simp_all add: str_def)
  note f = silent_folds [where ps = "[p0, p1, p2]"]
  obtain u2 where u2: "ufprintf ([10] @ str ''CHANGING PRIORITIES...'' @ [10]) [] u1 = Some u2" "silent (calls u2) = silent (calls u1)"
    by (rule silent_plain [OF p(1)])
  let ?u3 = "fold (\<lambda>(pid, p). unice pid p) (zip [p0, p1, p2] prio) u2"
  have u3: "silent (calls ?u3) = silent (calls u2) @ [UNice p0 1, UNice p1 10, UNice p2 20]"
    by (simp add: prio_def LOWEST_def MEDIUM_def HIGHEST_def unice_def usyscall_def silent_def)
  obtain u4 where u4: "ufprintf ([10] @ str ''BLOCKING...'' @ [10]) [] ?u3 = Some u4" "silent (calls u4) = silent (calls ?u3)"
    by (rule silent_plain [OF p(2)])
  let ?u5 = "fold (\<lambda>pid u. snd (ublock pid u)) [p0, p1, p2] u4"
  obtain u6 where u6: "ufprintf (str ''CHANGING PRIORITIES WHILE BLOCKED...'' @ [10]) [] ?u5 = Some u6" "silent (calls u6) = silent (calls ?u5)"
    by (rule silent_plain [OF p(3)])
  let ?u7 = "fold (\<lambda>pid. unice pid MEDIUM) [p0, p1, p2] u6"
  obtain u8 where u8: "ufprintf (str ''UNBLOCKING...'' @ [10]) [] ?u7 = Some u8" "silent (calls u8) = silent (calls ?u7)"
    by (rule silent_plain [OF p(4)])
  let ?u9 = "fold (\<lambda>pid u. snd (uresume pid u)) [p0, p1, p2] u8"
  obtain u10 where u10: "ufprintf ([10] @ str ''KILLING...'' @ [10]) [] ?u9 = Some u10" "silent (calls u10) = silent (calls ?u9)"
    by (rule silent_plain [OF p(5)])
  let ?u11 = "fold (\<lambda>pid u. snd (ukill pid u)) [p0, p1, p2] u10"
  let ?u12 = "fold (\<lambda>pid u. snd (uwaitpid pid u)) [p0, p1, p2] ?u11"
  have "test_prio u = Some ?u12"
    unfolding test_prio_def Let_def s(1) prod.case u2(1) u4(1) u6(1) u8(1) u10(1) Option.bind.bind_lunit by (rule refl)
  moreover have "silent (calls ?u12) = silent (calls u1) @ [UNice p0 1, UNice p1 10, UNice p2 20] @ map UBlock [p0, p1, p2] @
      map (\<lambda>p. UNice p 10) [p0, p1, p2] @ map UResume [p0, p1, p2] @ map UKill [p0, p1, p2] @ map UWaitpid [p0, p1, p2]"
    unfolding f u10(2) u8(2) u6(2) u4(2) u3 u2(2) by (simp add: MEDIUM_def)
  ultimately show ?thesis unfolding s(2) append_assoc by blast
qed

end
