(* ===== verification/DiskFile.thy ===== *)
theory DiskFile
  imports Loader
begin

text \<open>
  Files of the host as the tools that build the disk image use them through \<open>stdio\<close>: the bytes, the position, the
  size at which the host's disk is full, and the error indicator. The system programs under \<open>Bootloader/BMFS\<close> are
  translated over these operations.
\<close>

type_synonym bytes = "u8 list"

record stream =
  content :: bytes
  pos :: nat
  limit :: nat
  failed :: bool

text \<open>Bytes stored at an offset; a gap after the end of the file reads as zeros.\<close>

definition patch :: "bytes \<Rightarrow> nat \<Rightarrow> bytes \<Rightarrow> bytes" where
  "patch xs i ys = take i (xs @ replicate (i - length xs) 0) @ ys @ drop (i + length ys) xs"

definition fseek :: "nat \<Rightarrow> stream \<Rightarrow> stream" where
  "fseek n s = s\<lparr>pos := n\<rparr>"

text \<open>An offset that is negative as a \<open>long\<close> is refused and the position stays.\<close>

definition fseekl :: "u64 \<Rightarrow> stream \<Rightarrow> stream" where
  "fseekl n s = (if sint n < 0 then s else fseek (unat n) s)"

text \<open>\<open>fwrite\<close> of one item: what the host has room for is written, the result tells whether that was all.\<close>

definition fwrite :: "bytes \<Rightarrow> stream \<Rightarrow> bool \<times> stream" where
  "fwrite ys s =
     (let zs = take (limit s - pos s) ys
      in (zs = ys, if zs = [] then s\<lparr>failed := (failed s \<or> zs \<noteq> ys)\<rparr>
          else s\<lparr>content := patch (content s) (pos s) zs, pos := pos s + length zs, failed := (failed s \<or> zs \<noteq> ys)\<rparr>))"

definition fread :: "nat \<Rightarrow> stream \<Rightarrow> bytes \<times> stream" where
  "fread n s = (let zs = take n (drop (pos s) (content s)) in (zs, s\<lparr>pos := pos s + length zs\<rparr>))"

text \<open>A read that comes short leaves the rest of the buffer alone.\<close>

definition into_buffer :: "bytes \<Rightarrow> bytes \<Rightarrow> bytes" where
  "into_buffer buf zs = zs @ drop (length zs) buf"

text \<open>\<open>getc\<close> at the end of a file is \<open>EOF\<close>, which \<open>putc\<close> stores as the byte 255.\<close>

definition getc :: "stream \<Rightarrow> u8 \<times> stream" where
  "getc s = (if pos s < length (content s) then (content s ! pos s, s\<lparr>pos := pos s + 1\<rparr>) else (255, s))"

definition putc :: "u8 \<Rightarrow> stream \<Rightarrow> stream" where
  "putc c s = snd (fwrite [c] s)"

text \<open>The loop \<open>putc(getc(from), to)\<close>, \<open>n\<close> times.\<close>

primrec copyc :: "nat \<Rightarrow> stream \<Rightarrow> stream \<Rightarrow> stream \<times> stream" where
  "copyc 0 from to = (from, to)"
| "copyc (Suc n) from to = (let (c, from) = getc from in copyc n from (putc c to))"

section \<open>Overwriting\<close>

lemma length_patch [simp]: "length (patch xs i ys) = max (length xs) (i + length ys)"
  by (simp add: patch_def)

lemma patch_inside: "i + length ys \<le> length xs \<Longrightarrow> patch xs i ys = take i xs @ ys @ drop (i + length ys) xs"
  by (simp add: patch_def)

lemma patch_end: "patch xs (length xs) ys = xs @ ys"
  by (simp add: patch_def)

lemma patch_Nil_inside [simp]: "i \<le> length xs \<Longrightarrow> patch xs i [] = xs"
  by (simp add: patch_def)

lemma nth_patch:
  "j < length xs \<or> i \<le> j \<Longrightarrow> j < max (length xs) (i + length ys) \<Longrightarrow>
     patch xs i ys ! j = (if i \<le> j \<and> j < i + length ys then ys ! (j - i) else xs ! j)"
  by (auto simp: patch_def nth_append not_less min_def)

lemma patch_patch_append:
  assumes "i \<le> length xs"
  shows "patch (patch xs i ys) (i + length ys) zs = patch xs i (ys @ zs)"
  using assms by (cases "length xs = i") (auto simp: patch_def ac_simps)

lemma drop_patch_before: "i \<le> length xs \<Longrightarrow> i + length ys \<le> k \<Longrightarrow> drop k (patch xs i ys) = drop k xs"
  by (simp add: patch_def min_def)

lemma take_patch_after: "k \<le> i \<Longrightarrow> i \<le> length xs \<Longrightarrow> take k (patch xs i ys) = take k xs"
  by (simp add: patch_def min_def)

lemma take_drop_patch: "i \<le> length xs \<Longrightarrow> take (length ys) (drop i (patch xs i ys)) = ys"
  by (simp add: patch_def)

text \<open>A part of the file apart from the bytes written is what it was.\<close>

lemma slice_patch_other:
  assumes "k + n \<le> i \<or> i + length ys \<le> k" "i \<le> length xs"
  shows "take n (drop k (patch xs i ys)) = take n (drop k xs)"
proof (cases "k + n \<le> i")
  case True
  then have "take (k + n) (patch xs i ys) = take (k + n) xs" using assms(2) by (simp add: take_patch_after)
  then have "drop k (take (k + n) (patch xs i ys)) = drop k (take (k + n) xs)" by simp
  then show ?thesis by (simp add: take_drop add.commute)
next
  case False
  then show ?thesis using assms by (simp add: drop_patch_before)
qed

section \<open>The operations where there is room\<close>

lemma fwrite_room:
  "pos s + length ys \<le> limit s \<Longrightarrow> pos s \<le> length (content s) \<Longrightarrow>
     fwrite ys s = (True, s\<lparr>content := patch (content s) (pos s) ys, pos := pos s + length ys\<rparr>)"
  by (cases "ys = []") (auto simp: fwrite_def Let_def)

lemma fwrite_fseek:
  "n + length ys \<le> limit s \<Longrightarrow> n \<le> length (content s) \<Longrightarrow>
     fwrite ys (fseek n s) = (True, s\<lparr>content := patch (content s) n ys, pos := n + length ys\<rparr>)"
  by (simp add: fwrite_room fseek_def)

lemma copyc_copies:
  assumes "n \<le> length (content f) - pos f" "pos t + n \<le> limit t" "pos t \<le> length (content t)"
  shows "copyc n f t = (f\<lparr>pos := pos f + n\<rparr>,
     t\<lparr>content := patch (content t) (pos t) (take n (drop (pos f) (content f))), pos := pos t + n\<rparr>)"
  using assms
proof (induction n arbitrary: f t)
  case 0
  then show ?case by simp
next
  case (Suc n)
  let ?c = "content f ! pos f"
  have p: "pos f < length (content f)" using Suc.prems(1) by simp
  have put: "putc ?c t = t\<lparr>content := patch (content t) (pos t) [?c], pos := pos t + 1\<rparr>"
    using Suc.prems by (simp add: putc_def fwrite_room)
  have "take (Suc n) (drop (pos f) (content f)) = [?c] @ take n (drop (Suc (pos f)) (content f))"
    using p by (simp add: Cons_nth_drop_Suc [symmetric])
  moreover have "copyc n (f\<lparr>pos := pos f + 1\<rparr>) (putc ?c t) = (f\<lparr>pos := pos f + Suc n\<rparr>,
     t\<lparr>content := patch (patch (content t) (pos t) [?c]) (pos t + length [?c]) (take n (drop (Suc (pos f)) (content f))),
       pos := pos t + Suc n\<rparr>)"
    using Suc.prems p unfolding put by (subst Suc.IH) auto
  moreover have "patch (patch (content t) (pos t) [?c]) (pos t + length [?c]) zs = patch (content t) (pos t) ([?c] @ zs)" for zs
    by (rule patch_patch_append) (rule Suc.prems(3))
  ultimately show ?case
    using p by (simp add: getc_def)
qed

section \<open>Bytes of words\<close>

definition le64 :: "u64 \<Rightarrow> bytes" where
  "le64 w = map (\<lambda>i. ucast (drop_bit (8 * i) w)) [0 ..< 8]"

primrec of_le :: "bytes \<Rightarrow> u64" where
  "of_le [] = 0"
| "of_le (b # bs) = ucast b OR push_bit 8 (of_le bs)"

lemma length_le64 [simp]: "length (le64 w) = 8"
  by (simp add: le64_def)

lemma bit_of_le:
  "i < 64 \<Longrightarrow> bit (of_le bs) i = (i div 8 < length bs \<and> bit (bs ! (i div 8)) (i mod 8))"
proof (induction bs arbitrary: i)
  case Nil
  then show ?case by simp
next
  case (Cons b bs)
  show ?case
  proof (cases "i < 8")
    case True
    then show ?thesis using Cons.prems by (simp add: bit_simps)
  next
    case False
    then obtain j where j: "i = j + 8" by (metis add.commute le_Suc_ex not_less)
    have "\<not> bit b i" using False bit_imp_le_length [of b i] by auto
    have "(j + 8) div 8 = Suc (j div 8)" by simp
    then show ?thesis using Cons.prems Cons.IH [of j] \<open>\<not> bit b i\<close> by (simp add: j bit_simps)
  qed
qed

lemma of_le_le64 [simp]: "of_le (le64 w) = w"
proof (rule bit_word_eqI)
  fix i assume i: "i < LENGTH(64)"
  then have "i div 8 < 8" by simp
  then show "bit (of_le (le64 w)) i = bit w i"
    using i by (simp add: bit_of_le le64_def bit_simps del: upt_Suc)
qed

end
