(* ===== verification/Bmfs.thy ===== *)
theory Bmfs
  imports DiskFile
begin

text \<open>
  \<open>Bootloader/BMFS/bmfs.c\<close>, the program that the build runs to make the disk image: its data, the operations on the
  directory of a formatted disk and on the files in it. Every function of the file that works on an open disk is here;
  \<open>BmfsInit\<close> has \<open>initialize\<close> and \<open>main\<close>. \<open>None\<close> is undefined behaviour: a null name that is compared, a name that does
  not fit its 32 bytes, a counter of type \<open>int\<close> that would pass its greatest value.
\<close>

section \<open>Data\<close>

record BMFSEntry =
  FileName :: bytes
  StartingBlock :: u64
  ReservedBlocks :: u64
  FileSize :: u64
  Unused :: u64

text \<open>An entry as its 64 bytes, and the 64 entries of the directory as their 4096 bytes.\<close>

definition entry_bytes :: "BMFSEntry \<Rightarrow> bytes" where
  "entry_bytes e = FileName e @ le64 (StartingBlock e) @ le64 (ReservedBlocks e) @ le64 (FileSize e) @ le64 (Unused e)"

definition bytes_entry :: "bytes \<Rightarrow> BMFSEntry" where
  "bytes_entry bs =
     \<lparr>FileName = take 32 bs, StartingBlock = of_le (take 8 (drop 32 bs)), ReservedBlocks = of_le (take 8 (drop 40 bs)),
      FileSize = of_le (take 8 (drop 48 bs)), Unused = of_le (take 8 (drop 56 bs))\<rparr>"

definition directory_bytes :: "BMFSEntry list \<Rightarrow> bytes" where
  "directory_bytes d = concat (map entry_bytes d)"

definition bytes_directory :: "bytes \<Rightarrow> BMFSEntry list" where
  "bytes_directory bs = map (\<lambda>i. bytes_entry (take 64 (drop (64 * i) bs))) [0 ..< 64]"

definition blank :: BMFSEntry where
  "blank = \<lparr>FileName = replicate 32 0, StartingBlock = 0, ReservedBlocks = 0, FileSize = 0, Unused = 0\<rparr>"

definition fs_tag :: bytes where "fs_tag = [66, 77, 70, 83]"

definition minimumDiskSize :: u64 where "minimumDiskSize = 6 * 1024 * 1024"

text \<open>What the program prints, one value for each \<open>printf\<close> that is reached.\<close>

datatype msg =
    Usage | InitializeUsage bytes | CannotOpenDisk bytes | NotBmfs | FormatAborted | FileNameMissing | InvalidFileSize
  | AskFileSize | UnknownCommand
  | ListHeader bytes u32 | ListRow bytes int int
  | FormatComplete
  | DiskSizeTooLarge | DiskSizeNotNumeric | DiskSizeInvalid bytes | DiskSizeTooSmall
  | CannotOpenMbr bytes | CannotOpenBoot bool bytes | CannotOpenKernel bytes | NoBuffer
  | Formatting u64 u64 | Formatted u64 u64 | CannotWriteDisk bytes | CannotReadFile bytes
  | WritingMbr | WritingBoot bool | WritingKernel | InitializationComplete
  | Creating | NoFreeEntry | CannotCreate int | Complete | FileExists
  | FileNotFound | NotCreated | Reading bytes | Writing bytes | Deleting bytes | CannotOpenLocal bytes | NotEnoughReserved

text \<open>The static variables, the local files of the host, and what has been printed.\<close>

record bmfs =
  disk :: stream
  disksize :: u32
  Directory :: "BMFSEntry list"
  DiskInfo :: bytes
  local_files :: "bytes \<rightharpoonup> bytes"
  out :: "msg list"

definition say :: "msg list \<Rightarrow> bmfs \<Rightarrow> bmfs" where
  "say ms st = st\<lparr>out := out st @ ms\<rparr>"

section \<open>Strings\<close>

text \<open>\<open>strcmp\<close> of a name with the 32 bytes of \<open>FileName\<close>: \<open>None\<close> when it would read past them.\<close>

fun same_name :: "bytes \<Rightarrow> bytes \<Rightarrow> bool option" where
  "same_name f [] = None"
| "same_name [] (b # bs) = Some (b = 0)"
| "same_name (c # f) (b # bs) = (if c = b then same_name f bs else Some False)"

text \<open>A name as \<open>printf\<close> shows it.\<close>

definition shown :: "bytes \<Rightarrow> bytes option" where
  "shown bs = (if 0 \<in> set bs then Some (takeWhile (\<lambda>b. b \<noteq> 0) bs) else None)"

definition strcpy_name :: "bytes \<Rightarrow> bytes \<Rightarrow> bytes option" where
  "strcpy_name f old = (if length f < length old then Some (f @ [0] @ drop (length f + 1) old) else None)"

section \<open>The directory\<close>

text \<open>The mark of the end of the directory and of a deleted entry is the first byte of the name.\<close>

definition at_end :: "BMFSEntry \<Rightarrow> bool" where
  "at_end e \<longleftrightarrow> FileName e ! 0 = 0"

definition deleted :: "BMFSEntry \<Rightarrow> bool" where
  "deleted e \<longleftrightarrow> FileName e ! 0 = 1"

text \<open>The loop of \<open>findfile\<close> over the rest of the directory; \<open>i\<close> is the number of the first entry of the rest.\<close>

fun findfile_loop :: "bytes option \<Rightarrow> nat \<Rightarrow> BMFSEntry list \<Rightarrow> (nat \<times> BMFSEntry) option option" where
  "findfile_loop f i [] = Some None"
| "findfile_loop f i (e # es) =
     (if at_end e then Some None
      else if deleted e then findfile_loop f (Suc i) es
      else Option.bind f (\<lambda>n. Option.bind (same_name n (FileName e))
        (\<lambda>same. if same then Some (Some (i, e)) else findfile_loop f (Suc i) es)))"

definition findfile :: "bytes option \<Rightarrow> BMFSEntry list \<Rightarrow> (nat \<times> BMFSEntry) option option" where
  "findfile f d = findfile_loop f 0 d"

fun list_rows :: "BMFSEntry list \<Rightarrow> msg list option" where
  "list_rows [] = Some []"
| "list_rows (e # es) =
     (if at_end e then Some []
      else if deleted e then list_rows es
      else Option.bind (shown (FileName e)) (\<lambda>n. map_option
        (\<lambda>rs. ListRow n (sint (FileSize e)) (sint (ReservedBlocks e * 2)) # rs) (list_rows es)))"

definition list_files :: "bytes \<Rightarrow> bmfs \<Rightarrow> bmfs option" where
  "list_files diskname st =
     map_option (\<lambda>rows. say (ListHeader diskname (disksize st) # rows) st) (list_rows (Directory st))"

text \<open>The directory goes to the disk whole; the result of \<open>fwrite\<close> is ignored.\<close>

definition flush_directory :: "bmfs \<Rightarrow> bmfs" where
  "flush_directory st = st\<lparr>disk := snd (fwrite (directory_bytes (Directory st)) (fseek 4096 (disk st)))\<rparr>"

definition format :: "bmfs \<Rightarrow> bmfs" where
  "format st =
     (let info = fs_tag @ replicate 508 0;
          st = st\<lparr>DiskInfo := info, Directory := replicate 64 blank, disk := snd (fwrite info (fseek 1024 (disk st)))\<rparr>
      in say [FormatComplete] (flush_directory st))"

section \<open>Creating a file\<close>

definition StartingBlockCmp :: "BMFSEntry \<Rightarrow> BMFSEntry \<Rightarrow> int" where
  "StartingBlockCmp ea eb =
     (if deleted ea then 1
      else if deleted eb then -1
      else sint (ucast (StartingBlock ea - StartingBlock eb) :: u32))"

text \<open>The first loop of \<open>create\<close>: \<open>num_used_entries\<close>, which stays 0 when no entry is the end mark, and \<open>first_free_entry\<close>.\<close>

fun count_entries :: "nat \<Rightarrow> nat option \<Rightarrow> BMFSEntry list \<Rightarrow> nat \<times> nat option" where
  "count_entries i free [] = (0, free)"
| "count_entries i free (e # es) =
     (if at_end e then (i, if free = None then Some i else free)
      else if deleted e then count_entries (Suc i) (if free = None then Some i else free) es
      else count_entries (Suc i) free es)"

text \<open>
  The second loop, over the sorted copy of the used entries: the end of the file before the first gap that is large
  enough, or 0. The last round, after the last entry, compares with the last block of the disk.
\<close>

fun find_gap :: "u64 \<Rightarrow> u64 \<Rightarrow> u64 \<Rightarrow> BMFSEntry list \<Rightarrow> u64" where
  "find_gap requested lastb prev_file_end [] =
     (if lastb - prev_file_end \<ge> requested then prev_file_end else 0)"
| "find_gap requested lastb prev_file_end (e # es) =
     (let this_file_start = (if deleted e then lastb else StartingBlock e)
      in if this_file_start - prev_file_end \<ge> requested then prev_file_end
         else find_gap requested lastb (StartingBlock e + ReservedBlocks e) es)"

text \<open>The new record, and the end mark in the entry after it when it took the place of the end mark.\<close>

definition add_record :: "nat \<Rightarrow> nat \<Rightarrow> bytes \<Rightarrow> u64 \<Rightarrow> u64 \<Rightarrow> BMFSEntry list \<Rightarrow> BMFSEntry list option" where
  "add_record free used filename start blocks d =
     map_option (\<lambda>n.
       let d = d[free := (d ! free)\<lparr>FileName := n, StartingBlock := start, ReservedBlocks := blocks, FileSize := 0\<rparr>]
       in if free = used \<and> used + 1 < 64
          then d[used + 1 := (d ! (used + 1))\<lparr>FileName := (FileName (d ! (used + 1)))[0 := 0]\<rparr>] else d)
     (strcpy_name filename (FileName (d ! free)))"

text \<open>\<open>qsort\<close> of the C library is an argument.\<close>

type_synonym sorter = "(BMFSEntry \<Rightarrow> BMFSEntry \<Rightarrow> int) \<Rightarrow> BMFSEntry list \<Rightarrow> BMFSEntry list"

definition create :: "sorter \<Rightarrow> bytes \<Rightarrow> u64 \<Rightarrow> bmfs \<Rightarrow> bmfs option" where
  "create qsort filename maxsize st =
     (let maxsize = (if maxsize mod 2 \<noteq> 0 then maxsize + 1 else maxsize);
          d = Directory st
      in Option.bind (findfile (Some filename) d) (\<lambda>found.
        if found \<noteq> None then Some (say [FileExists] st)
        else
          let blocks_requested = maxsize div 2; num_blocks = ucast (disksize st div 2);
              (num_used_entries, first_free_entry) = count_entries 0 None d
          in case first_free_entry of
            None \<Rightarrow> Some (say [Creating, NoFreeEntry] st)
          | Some free \<Rightarrow>
              let new_file_start = find_gap blocks_requested (num_blocks - 1) 1 (qsort StartingBlockCmp (take num_used_entries d))
              in if new_file_start = 0 then Some (say [Creating, CannotCreate (sint maxsize)] st)
                 else map_option (\<lambda>d. say [Creating, Complete] (flush_directory (st\<lparr>Directory := d\<rparr>)))
                   (add_record free num_used_entries filename new_file_start blocks_requested d)))"

section \<open>Reading, writing and deleting a file\<close>

text \<open>The loops count with an \<open>int\<close> up to the 64 bit size.\<close>

definition int_limit :: nat where "int_limit = 2 ^ 31"

text \<open>
  \<open>writable\<close> tells which local files \<open>fopen\<close> can open for writing; they may grow as far as the disk. Local files are
  taken to be other files than the disk.
\<close>

definition read_file :: "(bytes \<Rightarrow> bool) \<Rightarrow> bytes option \<Rightarrow> bmfs \<Rightarrow> bmfs option" where
  "read_file writable filename st =
     Option.bind (findfile filename (Directory st)) (\<lambda>found.
       case found of
         None \<Rightarrow> Some (say [FileNotFound] st)
       | Some (slot, e) \<Rightarrow>
           Option.bind filename (\<lambda>f. Option.bind (shown (FileName e)) (\<lambda>n.
             if \<not> writable n then Some (say [Reading f, CannotOpenLocal n] st)
             else if unat (FileSize e) \<ge> int_limit then None
             else
               let (d, t) = copyc (unat (FileSize e)) (fseekl (StartingBlock e * 2097152) (disk st))
                     \<lparr>content = [], pos = 0, limit = limit (disk st), failed = False\<rparr>
               in Some (say [Reading f, Complete] (st\<lparr>disk := d, local_files := (local_files st)(n \<mapsto> content t)\<rparr>)))))"

definition write_file_bmfs :: "bytes option \<Rightarrow> bmfs \<Rightarrow> bmfs option" where
  "write_file_bmfs filename st =
     Option.bind (findfile filename (Directory st)) (\<lambda>found.
       case found of
         None \<Rightarrow> Some (say [NotCreated] st)
       | Some (slot, e) \<Rightarrow>
           Option.bind filename (\<lambda>f.
             case local_files st f of
               None \<Rightarrow> map_option (\<lambda>n. say [Writing f, CannotOpenLocal n] st) (shown (FileName e))
             | Some c \<Rightarrow>
                 let tempfilesize = (of_nat (length c) :: u64)
                 in if ReservedBlocks e * 2097152 < tempfilesize then Some (say [Writing f, NotEnoughReserved] st)
                    else if unat tempfilesize \<ge> int_limit then None
                    else
                      let (t, d) = copyc (unat tempfilesize) \<lparr>content = c, pos = 0, limit = length c, failed = False\<rparr>
                            (fseekl (StartingBlock e * 2097152) (disk st));
                          dir = (Directory st)[slot := (Directory st ! slot)\<lparr>FileSize := tempfilesize\<rparr>]
                      in Some (say [Writing f, Complete] (flush_directory (st\<lparr>disk := d, Directory := dir\<rparr>)))))"

definition delete_file :: "bytes option \<Rightarrow> bmfs \<Rightarrow> bmfs option" where
  "delete_file filename st =
     Option.bind (findfile filename (Directory st)) (\<lambda>found.
       case found of
         None \<Rightarrow> Some (say [FileNotFound] st)
       | Some (slot, e) \<Rightarrow>
           Option.bind filename (\<lambda>f.
             let dir = (Directory st)[slot := (Directory st ! slot)\<lparr>FileName := (FileName (Directory st ! slot))[0 := 1]\<rparr>]
             in Some (say [Deleting f, Complete] (flush_directory (st\<lparr>Directory := dir\<rparr>)))))"

end
