(* ===== verification/BmfsInit.thy ===== *)
theory BmfsInit
  imports Bmfs
begin

text \<open>
  \<open>initialize\<close> and \<open>main\<close> of \<open>Bootloader/BMFS/bmfs.c\<close>. The build calls the program with \<open>initialize\<close>, the size of the
  disk, the master boot record, the boot loader and the packed kernel.
\<close>

section \<open>The size of the disk\<close>

definition isdigit :: "u8 \<Rightarrow> bool" where
  "isdigit ch \<longleftrightarrow> 48 \<le> ch \<and> ch \<le> 57"

definition toupper :: "u8 \<Rightarrow> u8" where
  "toupper ch = (if 97 \<le> ch \<and> ch \<le> 122 then ch - 32 else ch)"

definition unit_factor :: "u8 \<Rightarrow> nat option" where
  "unit_factor ch =
     (let c = toupper ch
      in if c = 75 then Some 1 else if c = 77 then Some 2 else if c = 71 then Some 3
         else if c = 84 then Some 4 else if c = 80 then Some 5 else None)"

text \<open>The loop over the size string \<open>sz\<close>: \<open>i\<close> characters are behind, \<open>chs\<close> is the rest.\<close>

fun parse_size :: "bytes \<Rightarrow> nat \<Rightarrow> u64 \<Rightarrow> nat \<Rightarrow> bytes \<Rightarrow> msg + u64 \<times> nat" where
  "parse_size sz i diskSize factor [] = Inr (diskSize, factor)"
| "parse_size sz i diskSize factor (ch # chs) =
     (if isdigit ch then
        (let n = ucast (ch - 48)
         in if diskSize * 10 > diskSize then parse_size sz (Suc i) (diskSize * 10 + n) factor chs
            else if diskSize = 0 then parse_size sz (Suc i) (diskSize + n) factor chs
            else Inl DiskSizeTooLarge)
      else if i = 0 then Inl DiskSizeNotNumeric
      else case unit_factor ch of
        None \<Rightarrow> Inl (DiskSizeInvalid sz)
      | Some k \<Rightarrow> if chs \<noteq> [] then Inl (DiskSizeInvalid sz) else parse_size sz (Suc i) diskSize k chs)"

text \<open>The multiplication by the unit; the loop goes on after a failure, with the messages so far in \<open>ms\<close>.\<close>

primrec scale_size :: "nat \<Rightarrow> u64 \<Rightarrow> msg list \<Rightarrow> u64 \<times> msg list" where
  "scale_size 0 diskSize ms = (diskSize, ms)"
| "scale_size (Suc k) diskSize ms =
     (if diskSize * 1024 > diskSize then scale_size k (diskSize * 1024) ms
      else scale_size k diskSize (ms @ [DiskSizeTooLarge]))"

definition disk_size :: "bytes \<Rightarrow> msg list + u64" where
  "disk_size sz =
     (case parse_size sz 0 0 0 sz of
        Inl m \<Rightarrow> Inl [m]
      | Inr (diskSize, factor) \<Rightarrow>
          let (diskSize, ms) = (if diskSize > 0 \<and> factor > 0 then scale_size factor diskSize [] else (diskSize, []))
          in if ms \<noteq> [] then Inl ms
             else if diskSize < minimumDiskSize then Inl [DiskSizeTooSmall] else Inr diskSize)"

section \<open>Writing the image\<close>

text \<open>What the host gives: local files, those that can be opened for writing, room, and whether \<open>malloc\<close> succeeds.\<close>

record host =
  files :: "bytes \<rightharpoonup> bytes"
  writable :: "bytes \<Rightarrow> bool"
  room :: nat
  heap :: bool

text \<open>The first file that cannot be opened, in the order in which they are opened.\<close>

definition cannot_open :: "host \<Rightarrow> bytes option \<Rightarrow> bytes option \<Rightarrow> bytes option \<Rightarrow> msg option" where
  "cannot_open h mbr boot krn =
     (let missing = (\<lambda>f. case f of None \<Rightarrow> False | Some n \<Rightarrow> files h n = None)
      in if missing mbr then Some (CannotOpenMbr (the mbr))
         else if missing boot then Some (CannotOpenBoot (krn = None) (the boot))
         else if missing krn then Some (CannotOpenKernel (the krn)) else None)"

definition bufferSize :: nat where "bufferSize = 50 * 1024"

text \<open>The phases of \<open>initialize\<close> return \<open>ret\<close>; the next phase runs while it is 0.\<close>

definition and_then :: "int \<times> bmfs \<Rightarrow> (bmfs \<Rightarrow> int \<times> bmfs) \<Rightarrow> int \<times> bmfs" where
  "and_then r f = (if fst r = 0 then f (snd r) else r)"

text \<open>The image is filled with zeros, a buffer at a time.\<close>

function fill_disk :: "bytes \<Rightarrow> u64 \<Rightarrow> u64 \<Rightarrow> bmfs \<Rightarrow> int \<times> bmfs" where
  "fill_disk diskname writeSize diskSize st =
     (if writeSize < diskSize then
        let st = say [Formatting writeSize diskSize] st;
            chunkSize = (if of_nat bufferSize > diskSize - writeSize then diskSize - writeSize else of_nat bufferSize);
            (ok, d) = fwrite (replicate (unat chunkSize) 0) (disk st); st = st\<lparr>disk := d\<rparr>
        in if \<not> ok then (1, say [CannotWriteDisk diskname] st)
           else fill_disk diskname (writeSize + chunkSize) diskSize st
      else (0, say [Formatted writeSize diskSize] st))"
  by pat_completeness auto
termination
proof (relation "measure (\<lambda>(n, w, d, st). unat (d - w))", goal_cases)
  case 1
  show ?case by simp
next
  case (2 diskname w d st st1 c x ok t st2)
  have "w < d" by fact
  have c: "c \<le> d - w" "c \<noteq> 0" using 2(1,3) by (auto simp: bufferSize_def not_less split: if_splits)
  have "unat (d - (w + c)) = unat (d - w) - unat c" using unat_sub [OF c(1)] by (simp only: diff_diff_eq)
  moreover have "0 < unat c" "unat c \<le> unat (d - w)" using c by (auto simp: unat_gt_0 word_le_nat_alt)
  ultimately show ?case by simp
qed

definition write_mbr :: "bytes \<Rightarrow> bytes \<Rightarrow> bytes \<Rightarrow> bmfs \<Rightarrow> int \<times> bmfs" where
  "write_mbr diskname mbr file st =
     (let st = say [WritingMbr] (st\<lparr>disk := fseek 0 (disk st)\<rparr>)
      in if 512 \<le> length file then
           let (ok, d) = fwrite (take 512 file) (disk st); st = st\<lparr>disk := d\<rparr>
           in if ok then (0, st) else (1, say [CannotWriteDisk diskname] st)
         else (1, say [CannotReadFile mbr] st))"

text \<open>
  A file is copied to the disk by buffers. A failed write is reported and the loop goes on; at the end of the file it is
  the error indicator of the disk that decides on the message about reading.
\<close>

function copy_file :: "bytes \<Rightarrow> bytes \<Rightarrow> int \<Rightarrow> bytes \<Rightarrow> bmfs \<Rightarrow> int \<times> bmfs" where
  "copy_file diskname name ret file st =
     (let chunk = take bufferSize file
      in if chunk \<noteq> [] then
           let (ok, d) = fwrite chunk (disk st); st = st\<lparr>disk := d\<rparr>
           in if ok then copy_file diskname name ret (drop bufferSize file) st
              else copy_file diskname name 1 (drop bufferSize file) (say [CannotWriteDisk diskname] st)
         else if failed (disk st) then (1, say [CannotReadFile name] st) else (ret, st))"
  by pat_completeness auto
termination by (relation "measure (\<lambda>(d, n, r, f, st). length f)") (auto simp: bufferSize_def)

definition write_boot :: "bytes \<Rightarrow> bool \<Rightarrow> bytes \<Rightarrow> bytes \<Rightarrow> bmfs \<Rightarrow> int \<times> bmfs" where
  "write_boot diskname system boot file st =
     copy_file diskname boot 0 file (say [WritingBoot system] (st\<lparr>disk := fseek 8192 (disk st)\<rparr>))"

definition write_kernel :: "bytes \<Rightarrow> bytes \<Rightarrow> bytes \<Rightarrow> bmfs \<Rightarrow> int \<times> bmfs" where
  "write_kernel diskname krn file st = copy_file diskname krn 0 file (say [WritingKernel] st)"

text \<open>A file that was not named is left out.\<close>

definition if_named :: "host \<Rightarrow> bytes option \<Rightarrow> (bytes \<Rightarrow> bytes \<Rightarrow> bmfs \<Rightarrow> int \<times> bmfs) \<Rightarrow> bmfs \<Rightarrow> int \<times> bmfs" where
  "if_named h name phase st = (case name of None \<Rightarrow> (0, st) | Some n \<Rightarrow> phase n (the (files h n)) st)"

definition initialize ::
  "host \<Rightarrow> bytes \<Rightarrow> bytes \<Rightarrow> bytes option \<Rightarrow> bytes option \<Rightarrow> bytes option \<Rightarrow> bmfs \<Rightarrow> int \<times> bmfs" where
  "initialize h diskname sz mbr boot krn st =
     (case disk_size sz of
        Inl ms \<Rightarrow> (1, say ms st)
      | Inr diskSize \<Rightarrow>
          case cannot_open h mbr boot krn of
            Some m \<Rightarrow> (1, say [m] st)
          | None \<Rightarrow>
              if \<not> heap h then (1, say [NoBuffer] st)
              else if \<not> writable h diskname then (1, say [CannotOpenDisk diskname] st)
              else
                and_then (and_then (and_then (and_then (and_then
                  (fill_disk diskname 0 diskSize (st\<lparr>disk := \<lparr>content = [], pos = 0, limit = room h, failed = False\<rparr>\<rparr>))
                  (\<lambda>st. (0, format (st\<lparr>disk := (fseek 0 (disk st))\<lparr>failed := False\<rparr>\<rparr>))))
                  (if_named h mbr (write_mbr diskname)))
                  (if_named h boot (write_boot diskname (krn = None))))
                  (if_named h krn (write_kernel diskname)))
                  (\<lambda>st. (0, say [InitializationComplete] st)))"

section \<open>The command line\<close>

definition chars :: "string \<Rightarrow> bytes" where
  "chars s = map of_char s"

definition strcasecmp_eq :: "bytes \<Rightarrow> bytes \<Rightarrow> bool" where
  "strcasecmp_eq a b \<longleftrightarrow> map toupper a = map toupper b"

text \<open>\<open>atoi\<close> of the C library: blanks, a sign, digits.\<close>

definition atoi :: "bytes \<Rightarrow> int" where
  "atoi s =
     (let s = dropWhile (\<lambda>c. c = 32 \<or> 9 \<le> c \<and> c \<le> 13) s;
          digits = (\<lambda>s. foldl (\<lambda>v c. 10 * v + (uint c - 48)) 0 (takeWhile isdigit s))
      in case s of [] \<Rightarrow> 0 | c # cs \<Rightarrow> if c = 45 then - digits cs else if c = 43 then digits cs else digits s)"

text \<open>\<open>fgets\<close> of at most 31 characters, up to the end of the line.\<close>

definition fgets_line :: "bytes \<Rightarrow> bytes" where
  "fgets_line s = take 31 (takeWhile (\<lambda>c. c \<noteq> 10) s @ (if 10 \<in> set s then [10] else []))"

text \<open>
  The size for \<open>create\<close> is an \<open>int\<close> when it is an argument, and the static \<open>unsigned int filesize\<close> when it is asked for.
\<close>

definition is_int :: "int \<Rightarrow> bool" where
  "is_int i \<longleftrightarrow> - (2 ^ 31) \<le> i \<and> i < 2 ^ 31"

definition create_command :: "sorter \<Rightarrow> bytes option \<Rightarrow> bytes option \<Rightarrow> bytes \<Rightarrow> bmfs \<Rightarrow> bmfs option" where
  "create_command qsort filename arg stdin st =
     (case filename of
        None \<Rightarrow> Some (say [FileNameMissing] st)
      | Some f \<Rightarrow>
          case arg of
            Some a \<Rightarrow>
              if \<not> is_int (atoi a) then None
              else if atoi a \<ge> 1 then create qsort f (word_of_int (atoi a)) st
              else Some (say [InvalidFileSize] st)
          | None \<Rightarrow>
              let st = say [AskFileSize] st; a = atoi (takeWhile (\<lambda>c. c \<noteq> 0) (fgets_line stdin))
              in if \<not> is_int a then None
                 else let filesize = (word_of_int a :: u32)
                      in if filesize \<ge> 1 then create qsort f (ucast filesize) st else Some (say [InvalidFileSize] st))"

text \<open>The start of \<open>main\<close> on a disk that exists: its size in MiB, the two buffers.\<close>

definition open_disk :: "host \<Rightarrow> bytes \<Rightarrow> bmfs" where
  "open_disk h bs =
     (let d = \<lparr>content = bs, pos = 0, limit = room h, failed = False\<rparr>;
          (info, d) = fread 512 (fseek 1024 d);
          (dir, d) = fread 4096 (fseek 4096 d)
      in \<lparr>disk = fseek 0 d, disksize = of_nat (length bs div 1048576),
          Directory = bytes_directory (into_buffer (replicate 4096 0) dir),
          DiskInfo = into_buffer (replicate 512 0) info, local_files = files h, out = []\<rparr>)"

definition formatted :: "bmfs \<Rightarrow> bool" where
  "formatted st \<longleftrightarrow> strcasecmp_eq (takeWhile (\<lambda>c. c \<noteq> 0) (DiskInfo st)) fs_tag"

text \<open>A static \<open>bmfs\<close> before any disk is open.\<close>

definition at_start :: "host \<Rightarrow> bmfs" where
  "at_start h = \<lparr>disk = \<lparr>content = [], pos = 0, limit = room h, failed = False\<rparr>, disksize = 0,
     Directory = replicate 64 blank, DiskInfo = replicate 512 0, local_files = files h, out = []\<rparr>"

text \<open>The command on a formatted disk; \<open>argv\<close> are the arguments after the command.\<close>

definition command :: "host \<Rightarrow> sorter \<Rightarrow> bytes \<Rightarrow> bytes \<Rightarrow> bytes list \<Rightarrow> bytes \<Rightarrow> bmfs \<Rightarrow> bmfs option" where
  "command h qsort diskname cmd argv stdin st =
     (let is = (\<lambda>s. strcasecmp_eq (chars s) cmd);
          filename = (case argv of [] \<Rightarrow> None | f # _ \<Rightarrow> Some f)
      in if is ''list'' then list_files diskname st
         else if is ''format'' then
           (if \<exists>f \<in> set (take 1 argv). strcasecmp_eq f (chars ''/FORCE'') then Some (format st)
            else Some (say [FormatAborted] st))
         else if is ''create'' then
           create_command qsort filename (case argv of f # a # _ \<Rightarrow> Some a | _ \<Rightarrow> None) stdin st
         else if is ''read'' then read_file (writable h) filename st
         else if is ''write'' then write_file_bmfs filename st
         else if is ''delete'' then delete_file filename st
         else Some (say [UnknownCommand] st))"

text \<open>
  \<open>main\<close>: the exit status, the contents of the disk if it was opened, and the final state. \<open>argv\<close> are the arguments
  after the name of the program.
\<close>

definition bmfs_main :: "host \<Rightarrow> sorter \<Rightarrow> bytes list \<Rightarrow> bytes \<Rightarrow> (int \<times> bmfs) option" where
  "bmfs_main h qsort argv stdin =
     (case argv of
        diskname # cmd # args \<Rightarrow>
          if strcasecmp_eq (chars ''initialize'') cmd then
            (case args of
               [] \<Rightarrow> Some (1, say [InitializeUsage cmd] (at_start h))
             | sz # fs \<Rightarrow>
                 let nth_arg = (\<lambda>i. if i < length fs then Some (fs ! i) else None)
                 in Some (initialize h diskname sz (nth_arg 0) (nth_arg 1) (nth_arg 2) (at_start h)))
          else
            (case files h diskname of
               None \<Rightarrow> Some (0, say [CannotOpenDisk diskname] (at_start h))
             | Some bs \<Rightarrow>
                 if \<not> writable h diskname then Some (0, say [CannotOpenDisk diskname] (at_start h))
                 else
                   let st = open_disk h bs
                   in if \<not> formatted st then
                        Some (0, if strcasecmp_eq (chars ''format'') cmd then format st else say [NotBmfs] st)
                      else map_option (\<lambda>st. (0, st)) (command h qsort diskname cmd args stdin st))
      | _ \<Rightarrow> Some (0, say [Usage] (at_start h)))"

end
