(* ===== verification/BmfsInitSpec.thy ===== *)
theory BmfsInitSpec
  imports BmfsInit
begin

text \<open>
  What \<open>initialize\<close> of \<open>Bootloader/BMFS/bmfs.c\<close> leaves on the disk: the layout of the image that the build makes of the
  master boot record, the boot loader and the packed kernel, and which sizes it accepts.
\<close>

section \<open>The phases\<close>

lemma say_disk [simp]: "disk (say ms st) = disk st" "Directory (say ms st) = Directory st"
  "disksize (say ms st) = disksize st" "local_files (say ms st) = local_files st" "DiskInfo (say ms st) = DiskInfo st"
  by (simp_all add: say_def)

lemma le64_0: "le64 0 = replicate 8 0"
  by (simp add: le64_def map_replicate_const)

lemma entry_bytes_blank: "entry_bytes blank = replicate 64 0"
proof -
  have "entry_bytes blank = replicate 32 0 @ replicate 8 0 @ replicate 8 0 @ replicate 8 0 @ replicate 8 0"
    by (simp add: entry_bytes_def blank_def le64_0)
  also have "\<dots> = replicate 64 0" by (simp flip: replicate_add)
  finally show ?thesis .
qed

lemma concat_replicate_replicate: "concat (replicate n (replicate k x)) = replicate (n * k) x"
  by (induction n) (simp_all add: replicate_add)

lemma directory_bytes_blank: "directory_bytes (replicate 64 blank) = replicate 4096 0"
  by (simp add: directory_bytes_def entry_bytes_blank concat_replicate_replicate)

text \<open>A disk that only differs in what has been written so far.\<close>

lemma fill_disk_zeros:
  assumes "content (disk st) = replicate (unat w) 0" "pos (disk st) = unat w" "w \<le> d" "unat d \<le> limit (disk st)"
  shows "\<exists>st'. fill_disk n w d st = (0, st') \<and>
     disk st' = (disk st)\<lparr>content := replicate (unat d) 0, pos := unat d\<rparr>"
  using assms
proof (induction n w d st rule: fill_disk.induct)
  case (1 n w d st)
  show ?case
  proof (cases "w < d")
    case False
    then have "w = d" using "1.prems"(3) by simp
    then show ?thesis using "1.prems" by (subst fill_disk.simps) simp
  next
    case True
    let ?c = "if of_nat bufferSize > d - w then d - w else of_nat bufferSize"
    have le: "?c \<le> d - w" by (simp add: not_less)
    have un: "unat (d - w) = unat d - unat w" using True by (simp add: unat_sub)
    have "unat ?c \<le> unat d - unat w" using le un by (metis word_le_nat_alt)
    moreover have "unat w < unat d" using True by (simp add: word_less_nat_alt)
    ultimately have c: "unat w + unat ?c \<le> unat d" by simp
    moreover have "unat d < 2 ^ 64" using unsigned_less [of d] by simp
    ultimately have wc: "unat (w + ?c) = unat w + unat ?c"
      using unat_of_nat64 [of "unat w + unat ?c"] by (simp)
    let ?d = "(disk st)\<lparr>content := replicate (unat (w + ?c)) 0, pos := unat (w + ?c)\<rparr>"
    let ?st = "(say [Formatting w d] st)\<lparr>disk := ?d\<rparr>"
    have wr: "fwrite (replicate (unat ?c) 0) (disk st) = (True, ?d)"
      using "1.prems"(1,2,4) c unfolding wc
      by (subst fwrite_room) (simp_all add: patch_def replicate_add del: stream.update_convs)
    have "\<exists>st'. fill_disk n (w + ?c) d ?st = (0, st') \<and>
        disk st' = (disk ?st)\<lparr>content := replicate (unat d) 0, pos := unat d\<rparr>"
    proof (rule "1.IH" [OF True refl refl])
      show "(True, ?d) = fwrite (replicate (unat ?c) 0) (disk (say [Formatting w d] st))"
        using wr by simp
    next
      show "w + ?c \<le> d" unfolding word_le_nat_alt wc by (rule c)
    qed (use "1.prems"(4) in simp_all)
    then show ?thesis
      using True wr by (subst fill_disk.simps) (simp add: Let_def del: fill_disk.simps)
  qed
qed

lemma copy_file_copies:
  assumes "\<not> failed (disk st)" "pos (disk st) \<le> length (content (disk st))" "pos (disk st) + length f \<le> limit (disk st)"
  shows "copy_file n m r f st = (r, st\<lparr>disk := (disk st)\<lparr>content := patch (content (disk st)) (pos (disk st)) f,
     pos := pos (disk st) + length f\<rparr>\<rparr>)"
  using assms
proof (induction n m r f st rule: copy_file.induct)
  case (1 n m r f st)
  show ?case
  proof (cases "take bufferSize f = []")
    case True
    then have "f = []" by (simp add: bufferSize_def)
    then show ?thesis using "1.prems" by (subst copy_file.simps) simp
  next
    case False
    let ?k = "take bufferSize f" and ?s = "disk st"
    let ?st = "st\<lparr>disk := ?s\<lparr>content := patch (content ?s) (pos ?s) ?k, pos := pos ?s + length ?k\<rparr>\<rparr>"
    have wr: "fwrite ?k ?s = (True, ?s\<lparr>content := patch (content ?s) (pos ?s) ?k, pos := pos ?s + length ?k\<rparr>)"
      by (rule fwrite_room) (use "1.prems" in \<open>simp_all add: min_def split: if_splits\<close>)
    have len: "length ?k + (length f - bufferSize) = length f" by simp
    have "copy_file n m r (drop bufferSize f) ?st = (r, ?st\<lparr>disk := (disk ?st)\<lparr>content :=
        patch (content (disk ?st)) (pos (disk ?st)) (drop bufferSize f), pos := pos (disk ?st) + length (drop bufferSize f)\<rparr>\<rparr>)"
      by (rule "1.IH"(1) [OF refl False wr [symmetric] refl]) (use "1.prems" in \<open>simp_all\<close>)
    moreover have "patch (patch (content ?s) (pos ?s) ?k) (pos ?s + length ?k) (drop bufferSize f) = patch (content ?s) (pos ?s) f"
      using "1.prems"(2) by (simp only: patch_patch_append append_take_drop_id)
    ultimately show ?thesis
      using False wr by (subst copy_file.simps) (simp add: Let_def len add.assoc del: copy_file.simps length_take)
  qed
qed

lemma patch_at: "length pre = i \<Longrightarrow> length old = length ys \<Longrightarrow> patch (pre @ old @ rest) i ys = pre @ ys @ rest"
  by (simp add: patch_inside)

lemma patch_zeros:
  "i + length ys \<le> D \<Longrightarrow> patch (replicate D x) i ys = replicate i x @ ys @ replicate (D - (i + length ys)) x"
  by (simp add: patch_inside min_def)

lemma patch_tail: "length pre = i \<Longrightarrow> patch (pre @ replicate n x) i ys = pre @ ys @ replicate (n - length ys) x"
  by (simp add: patch_def)

lemma length_fs_tag [simp]: "length fs_tag = 4"
  by (simp add: fs_tag_def)

lemma format_disk:
  assumes "content (disk st) = replicate D 0" "8192 \<le> D" "D \<le> limit (disk st)"
  shows "disk (format st) = (disk st)\<lparr>content := replicate 1024 0 @ fs_tag @ replicate (D - 1028) 0, pos := 8192\<rparr>"
proof -
  define info where "info = fs_tag @ replicate 508 (0 :: u8)"
  define c where "c = replicate 1024 0 @ info @ replicate (D - 1536) 0"
  have len: "length info = 512" by (simp add: info_def)
  have one: "patch (replicate D 0) 1024 info = c"
    using assms(2) by (simp add: patch_zeros len c_def)
  have w1: "fwrite info (fseek 1024 (disk st)) = (True, (disk st)\<lparr>content := c, pos := 1536\<rparr>)"
    using assms by (subst fwrite_fseek) (simp_all add: one len)
  have "D - 1536 = 2560 + (4096 + (D - 8192))" using assms(2) by simp
  then have split: "c = (replicate 1024 0 @ info @ replicate 2560 0) @ replicate 4096 0 @ replicate (D - 8192) 0"
    by (simp only: c_def replicate_add append_assoc)
  have two: "patch c 4096 (replicate 4096 0) = c"
    unfolding split by (rule patch_at) (simp_all add: len)
  have lc: "length c = D" using assms(2) by (simp add: c_def len)
  let ?d = "(disk st)\<lparr>content := c, pos := 1536\<rparr>"
  have w2: "fwrite (replicate 4096 0) (fseek 4096 ?d) = (True, ?d\<lparr>content := patch c 4096 (replicate 4096 0), pos := 4096 + 4096\<rparr>)"
    using assms lc by (subst fwrite_fseek) simp_all
  have "disk (format st) = (disk st)\<lparr>content := c, pos := 8192\<rparr>"
    by (simp only: format_def Let_def info_def [symmetric] say_disk flush_directory_def bmfs.simps w1 snd_conv
        directory_bytes_blank w2 two) (simp add: directory_bytes_blank w2 two)
  moreover have "D - 1028 = 508 + (D - 1536)" using assms(2) by simp
  then have "c = replicate 1024 0 @ fs_tag @ replicate (D - 1028) 0"
    by (simp only: c_def info_def replicate_add append_assoc)
  ultimately show ?thesis by simp
qed

section \<open>The image\<close>

definition image :: "nat \<Rightarrow> bytes \<Rightarrow> bytes \<Rightarrow> bytes \<Rightarrow> bytes" where
  "image D mb b k = take 512 mb @ replicate 512 0 @ fs_tag @ replicate 7164 0 @ b @ k @
     replicate (D - (8192 + length b + length k)) 0"

lemma image_patches:
  assumes "512 \<le> length mb" "8192 \<le> D"
  shows "patch (patch (replicate 1024 0 @ fs_tag @ replicate (D - 1028) 0) 0 (take 512 mb)) 8192 (b @ k) = image D mb b k"
proof -
  have l: "length (take 512 mb) = 512" using assms(1) by simp
  have "replicate 1024 (0 :: u8) = replicate 512 0 @ replicate 512 0" by (simp flip: replicate_add)
  then have "replicate 1024 0 @ fs_tag @ rest = [] @ replicate 512 0 @ replicate 512 0 @ fs_tag @ rest" for rest by simp
  then have mbr: "patch (replicate 1024 0 @ fs_tag @ rest) 0 (take 512 mb) = take 512 mb @ replicate 512 0 @ fs_tag @ rest" for rest
    using patch_at [of "[]" 0 "replicate 512 0" "take 512 mb"] l by simp
  have "D - 1028 = 7164 + (D - 8192)" using assms(2) by simp
  then have eq: "take 512 mb @ replicate 512 0 @ fs_tag @ replicate (D - 1028) 0 =
      (take 512 mb @ replicate 512 0 @ fs_tag @ replicate 7164 0) @ replicate (D - 8192) 0"
    by (simp only: replicate_add append_assoc)
  have pre: "length (take 512 mb @ replicate 512 0 @ fs_tag @ replicate 7164 0) = 8192" using l by simp
  show ?thesis
    unfolding mbr eq patch_tail [OF pre] by (simp add: image_def)
qed

lemma initialize_image:
  assumes "disk_size sz = Inr d" "unat d \<le> room h" "heap h" "writable h dn"
    and "files h m = Some mb" "512 \<le> length mb" "files h bf = Some b" "files h kf = Some k"
    and "8192 + length b + length k \<le> room h"
  shows "\<exists>st'. initialize h dn sz (Some m) (Some bf) (Some kf) st = (0, st') \<and> content (disk st') = image (unat d) mb b k"
proof -
  have "minimumDiskSize \<le> d" using assms(1) by (auto simp: disk_size_def Let_def split: sum.splits prod.splits if_splits)
  then have D: "6291456 \<le> unat d" by (simp add: minimumDiskSize_def word_le_nat_alt)
  let ?D = "unat d"
  let ?st0 = "st\<lparr>disk := \<lparr>content = [], pos = 0, limit = room h, failed = False\<rparr>\<rparr>"
  obtain st1 where 1: "fill_disk dn 0 d ?st0 = (0, st1)"
    "disk st1 = \<lparr>content = replicate ?D 0, pos = ?D, limit = room h, failed = False\<rparr>"
    using fill_disk_zeros [of ?st0 0 d dn] assms(2) by auto
  define st2 where "st2 = format (st1\<lparr>disk := (fseek 0 (disk st1))\<lparr>failed := False\<rparr>\<rparr>)"
  define c2 where "c2 = replicate 1024 0 @ fs_tag @ replicate (?D - 1028) 0"
  have 2: "disk st2 = \<lparr>content = c2, pos = 8192, limit = room h, failed = False\<rparr>"
    using format_disk [of "st1\<lparr>disk := (fseek 0 (disk st1))\<lparr>failed := False\<rparr>\<rparr>" ?D] 1(2) D assms(2)
    by (simp add: st2_def c2_def fseek_def)
  have lc2: "length c2 = ?D" using D by (simp add: c2_def)
  define c3 where "c3 = patch c2 0 (take 512 mb)"
  have lc3: "length c3 = ?D" using D by (simp add: c3_def lc2)
  have "fwrite (take 512 mb) (fseek 0 (disk st2)) =
      (True, \<lparr>content = c3, pos = 512, limit = room h, failed = False\<rparr>)"
    using D assms(2,6) by (subst fwrite_fseek) (simp_all add: 2 c3_def)
  then obtain st3 where 3: "write_mbr dn m mb st2 = (0, st3)"
    "disk st3 = \<lparr>content = c3, pos = 512, limit = room h, failed = False\<rparr>"
    using assms(6) by (simp add: write_mbr_def)
  have "write_boot dn False bf b st3 = copy_file dn bf 0 b (say [WritingBoot False] (st3\<lparr>disk := fseek 8192 (disk st3)\<rparr>))"
    by (simp add: write_boot_def)
  then obtain st4 where 4: "write_boot dn False bf b st3 = (0, st4)"
    "disk st4 = \<lparr>content = patch c3 8192 b, pos = 8192 + length b, limit = room h, failed = False\<rparr>"
    using D lc3 assms(9) by (simp add: copy_file_copies 3 fseek_def del: copy_file.simps)
  obtain st5 where 5: "write_kernel dn kf k st4 = (0, st5)"
    "content (disk st5) = patch (patch c3 8192 b) (8192 + length b) k"
    using assms(9) by (simp add: write_kernel_def copy_file_copies 4 del: copy_file.simps)
  have "content (disk st5) = patch c3 8192 (b @ k)" using D lc3 by (simp add: 5(2) patch_patch_append)
  also have "\<dots> = image ?D mb b k" unfolding c3_def c2_def by (rule image_patches) (use D assms(6) in simp_all)
  finally have im: "content (disk st5) = image ?D mb b k" .
  have "initialize h dn sz (Some m) (Some bf) (Some kf) st = (0, say [InitializationComplete] st5)"
    using assms(1,3,4,5,7,8) 1(1) 3(1) 4(1) 5(1)
    by (simp add: initialize_def cannot_open_def and_then_def if_named_def st2_def [symmetric] del: fill_disk.simps)
  then show ?thesis using im by simp
qed

text \<open>C15. 
  The disk image of the build: with a size that is accepted and files that fit the host, \<open>initialize\<close> returns 0 and
  the disk is the first 512 bytes of the master boot record, the tag in its second kilobyte, an empty directory in the
  fifth, the boot loader from the ninth on, the packed kernel directly behind it, and zeros.
\<close>

theorem initialize_writes_image:
  assumes "disk_size sz = Inr d" "unat d \<le> room h" "heap h" "writable h dn"
    and "files h m = Some mb" "512 \<le> length mb" "files h bf = Some b" "files h kf = Some k"
    and "8192 + length b + length k \<le> room h"
  shows "\<exists>st'. initialize h dn sz (Some m) (Some bf) (Some kf) st = (0, st') \<and> content (disk st') = image (unat d) mb b k"
  by (rule initialize_image [OF assms])

section \<open>The sizes that are read right\<close>

definition decimal :: "nat \<Rightarrow> bytes \<Rightarrow> nat" where
  "decimal v ds = foldl (\<lambda>v c. 10 * v + unat (c - 48)) v ds"

lemma decimal_simps [simp]: "decimal v [] = v" "decimal v (c # ds) = decimal (10 * v + unat (c - 48)) ds"
  by (simp_all add: decimal_def)

lemma decimal_ge: "v \<le> decimal v ds"
proof (induction ds arbitrary: v)
  case Nil
  then show ?case by simp
next
  case (Cons c ds)
  have "v \<le> 10 * v + unat (c - 48)" by simp
  also have "\<dots> \<le> decimal v (c # ds)" using Cons.IH by simp
  finally show ?case .
qed

lemma parse_digits:
  assumes "list_all isdigit ds" "decimal v ds < 2 ^ 64"
  shows "parse_size sz i (of_nat v) k (ds @ rest) = parse_size sz (i + length ds) (of_nat (decimal v ds)) k rest"
  using assms
proof (induction ds arbitrary: i v)
  case Nil
  then show ?case by simp
next
  case (Cons c ds)
  let ?v = "10 * v + unat (c - 48)"
  have v: "?v < 2 ^ 64" using Cons.prems(2) decimal_ge [of ?v ds] by simp
  have add: "(of_nat v :: u64) * 10 + ucast (c - 48) = of_nat ?v" by (simp add: mult.commute)
  have un: "unat (of_nat v * 10 :: u64) = 10 * v" "unat (of_nat v :: u64) = v"
    using v unat_of_nat64 [of "10 * v"] unat_of_nat64 [of v] by (simp_all add: mult.commute)
  have step: "parse_size sz i (of_nat v) k (c # ds @ rest) = parse_size sz (Suc i) (of_nat ?v) k (ds @ rest)"
  proof (cases "v = 0")
    case True
    then show ?thesis using Cons.prems(1) by simp
  next
    case False
    then have "(of_nat v :: u64) * 10 > of_nat v" by (simp add: word_less_nat_alt un)
    then show ?thesis using Cons.prems(1) by (simp add: mult.commute)
  qed
  have "parse_size sz (Suc i) (of_nat ?v) k (ds @ rest) = parse_size sz (Suc i + length ds) (of_nat (decimal ?v ds)) k rest"
    by (rule Cons.IH) (use Cons.prems in simp_all)
  then show ?case unfolding append_Cons step by simp
qed

lemma scale_size_exact: "v * 1024 ^ k < 2 ^ 64 \<Longrightarrow> 0 < v \<Longrightarrow> scale_size k (of_nat v) ms = (of_nat (v * 1024 ^ k), ms)"
proof (induction k arbitrary: v)
  case 0
  then show ?case by simp
next
  case (Suc k)
  have "v * 1024 \<le> v * 1024 ^ Suc k" by simp
  then have v: "v * 1024 < 2 ^ 64" using Suc.prems(1) by linarith
  then have "unat (of_nat v * 1024 :: u64) = v * 1024" "unat (of_nat v :: u64) = v"
    using unat_of_nat64 [of "v * 1024"] unat_of_nat64 [of v] by simp_all
  then have "(of_nat v :: u64) * 1024 > of_nat v" using Suc.prems(2) by (simp add: word_less_nat_alt)
  then show ?case using Suc.IH [of "v * 1024"] Suc.prems by (simp add: ac_simps)
qed

lemma unit_factor_cases:
  "unit_factor c = Some k \<Longrightarrow> \<not> isdigit c \<and> 0 < k"
proof -
  assume u: "unit_factor c = Some k"
  have "\<not> (97 \<le> c \<and> c \<le> 122)" if "isdigit c"
    using that by (auto simp: isdigit_def word_le_nat_alt)
  with u show ?thesis
    by (auto simp: unit_factor_def toupper_def Let_def isdigit_def word_le_nat_alt split: if_splits)
qed

text \<open>
  The size string: a decimal number with one of the unit letters, in either case, or none stands for the number times
  that power of 1024, as long as the product fits 64 bits, and is refused below 6 MiB.
\<close>

theorem disk_size_reads:
  assumes "list_all isdigit ds" "ds \<noteq> []" "u = [] \<and> k = 0 \<or> (\<exists>c. u = [c] \<and> unit_factor c = Some k)"
    and "decimal 0 ds * 1024 ^ k < 2 ^ 64"
  shows "disk_size (ds @ u) = (if decimal 0 ds * 1024 ^ k < 6 * 1024 * 1024 then Inl [DiskSizeTooSmall]
     else Inr (of_nat (decimal 0 ds * 1024 ^ k)))"
proof -
  let ?v = "decimal 0 ds"
  have "?v \<le> ?v * 1024 ^ k" by simp
  then have v: "?v < 2 ^ 64" using assms(4) by linarith
  have digits: "parse_size (ds @ u) 0 0 0 (ds @ u) = parse_size (ds @ u) (length ds) (of_nat ?v) 0 u"
    using parse_digits [OF assms(1) v, of "ds @ u" 0 0 u] by simp
  have parse: "parse_size (ds @ u) 0 0 0 (ds @ u) = Inr (of_nat ?v, k)"
    unfolding digits using assms(2,3) unit_factor_cases by auto
  have pos: "(0 < (of_nat ?v :: u64)) = (0 < ?v)" using unat_of_nat64 [OF v] by (simp add: word_less_nat_alt)
  have scaled: "(if (of_nat ?v :: u64) > 0 \<and> k > 0 then scale_size k (of_nat ?v) [] else (of_nat ?v, [])) =
      (of_nat (?v * 1024 ^ k), [])"
    using scale_size_exact [OF assms(4)] by (auto simp: pos)
  have "((of_nat (?v * 1024 ^ k) :: u64) < minimumDiskSize) = (?v * 1024 ^ k < 6 * 1024 * 1024)"
    unfolding word_less_nat_alt unat_of_nat64 [OF assms(4)] by (simp add: minimumDiskSize_def)
  then show ?thesis by (simp only: disk_size_def parse scaled sum.case prod.case Let_def) simp
qed

lemma disk_size_reads_witness: "disk_size (chars ''6m'') = Inr 6291456"
  using disk_size_reads [of "chars ''6''" "chars ''m''" 2]
  by (simp add: chars_def isdigit_def unit_factor_def toupper_def)

text \<open>The test for overflow lets wrapped products through: a size of 3 * 10 ^ 19 bytes is taken for another one.\<close>

lemma disk_size_wraps: "disk_size (chars ''30000000000000000000'') = Inr 11553255926290448384"
  by (simp add: chars_def disk_size_def isdigit_def minimumDiskSize_def)

end
