(* ===== verification/BmfsDir.thy ===== *)
theory BmfsDir
  imports BmfsInitSpec "HOL-Library.Multiset"
begin

text \<open>
  The directory of a BMFS disk as a catalogue of names: which entries count, what a well-formed directory is, what
  \<open>findfile\<close> finds, and that the bytes written to the disk stand for the directory.
\<close>

section \<open>The entries that count\<close>

definition used :: "BMFSEntry list \<Rightarrow> BMFSEntry list" where
  "used d = takeWhile (\<lambda>e. \<not> at_end e) d"

definition live :: "BMFSEntry list \<Rightarrow> BMFSEntry list" where
  "live d = filter (\<lambda>e. \<not> deleted e) (used d)"

definition name :: "BMFSEntry \<Rightarrow> bytes" where
  "name e = takeWhile (\<lambda>b. b \<noteq> 0) (FileName e)"

definition start :: "BMFSEntry \<Rightarrow> nat" where
  "start e = unat (StartingBlock e)"

definition fin :: "BMFSEntry \<Rightarrow> nat" where
  "fin e = unat (StartingBlock e) + unat (ReservedBlocks e)"

definition apart_areas :: "BMFSEntry \<Rightarrow> BMFSEntry \<Rightarrow> bool" where
  "apart_areas a b \<longleftrightarrow> fin a \<le> start b \<or> fin b \<le> start a"

text \<open>Every file has blocks of its own between the first and the last block of the disk.\<close>

definition areas_ok :: "nat \<Rightarrow> BMFSEntry list \<Rightarrow> bool" where
  "areas_ok lastb es \<longleftrightarrow> (\<forall>e \<in> set es. 1 \<le> start e \<and> start e < fin e \<and> fin e \<le> lastb) \<and> sorted_wrt apart_areas es"

definition dir_ok :: "nat \<Rightarrow> BMFSEntry list \<Rightarrow> bool" where
  "dir_ok lastb d \<longleftrightarrow> length d = 64 \<and> (\<forall>e \<in> set d. length (FileName e) = 32) \<and> (\<forall>e \<in> set (live d). 0 \<in> set (FileName e)) \<and>
     distinct (map name (live d)) \<and> areas_ok lastb (live d)"

text \<open>A name that can be given to a file.\<close>

definition name_ok :: "bytes \<Rightarrow> bool" where
  "name_ok f \<longleftrightarrow> f \<noteq> [] \<and> 0 \<notin> set f \<and> hd f \<noteq> 1 \<and> length f < 32"

text \<open>The catalogue: where the file of a name lies and how long it is.\<close>

definition catalogue :: "BMFSEntry list \<Rightarrow> bytes \<rightharpoonup> u64 \<times> u64 \<times> u64" where
  "catalogue d = map_of (map (\<lambda>e. (name e, (StartingBlock e, ReservedBlocks e, FileSize e))) (live d))"

lemma live_Nil [simp]: "live [] = []"
  by (simp add: live_def used_def)

lemma live_Cons: "live (e # es) = (if at_end e then [] else if deleted e then live es else e # live es)"
  by (simp add: live_def used_def)

lemma set_live: "e \<in> set (live d) \<Longrightarrow> e \<in> set d \<and> \<not> at_end e \<and> \<not> deleted e"
  by (auto simp: live_def used_def dest: set_takeWhileD)

lemma sorted_wrt_mset:
  assumes "mset xs = mset ys" "sorted_wrt R xs" "\<And>a b. R a b \<Longrightarrow> R b a"
  shows "sorted_wrt R ys"
  using assms(1,2)
proof (induction xs arbitrary: ys)
  case Nil
  then show ?case by simp
next
  case (Cons x xs)
  from Cons.prems(1) have "x \<in> set ys" by (metis list.set_intros(1) set_mset_mset)
  then obtain ys1 ys2 where ys: "ys = ys1 @ x # ys2" by (meson split_list)
  then have m: "mset xs = mset (ys1 @ ys2)" using Cons.prems(1) by simp
  then have "set xs = set (ys1 @ ys2)" by (metis set_mset_mset)
  moreover have "sorted_wrt R (ys1 @ ys2)" using Cons.IH [OF m] Cons.prems(2) by simp
  ultimately show ?case using Cons.prems(2) assms(3) by (auto simp: ys sorted_wrt_append)
qed

lemma apart_areas_sym: "apart_areas a b \<Longrightarrow> apart_areas b a"
  by (auto simp: apart_areas_def)

lemma areas_ok_mset: "mset xs = mset ys \<Longrightarrow> areas_ok l xs \<Longrightarrow> areas_ok l ys"
  using sorted_wrt_mset [of xs ys apart_areas] apart_areas_sym mset_eq_setD [of xs ys] by (simp add: areas_ok_def)

definition listing :: "BMFSEntry \<Rightarrow> bytes \<times> u64 \<times> u64 \<times> u64" where
  "listing e = (name e, (StartingBlock e, ReservedBlocks e, FileSize e))"

lemma fst_listing [simp]: "map fst (map listing es) = map name es"
  by (simp add: listing_def)

lemma catalogue_listing: "catalogue d = map_of (map listing (live d))"
  by (simp add: catalogue_def listing_def cong: map_cong)

lemma catalogue_mset:
  assumes "mset (live d) = mset (e # es)" "distinct (map name (live d))"
  shows "catalogue d = (map_of (map listing es))(name e \<mapsto> (StartingBlock e, ReservedBlocks e, FileSize e))"
proof -
  have "mset (map name (live d)) = mset (map name (e # es))" using assms(1) by (metis mset_map)
  then have d: "distinct (map name (e # es))" using assms(2) mset_eq_imp_distinct_iff by blast
  have "set (live d) = set (e # es)" using assms(1) by (rule mset_eq_setD)
  then have s: "set (map listing (live d)) = set (map listing (e # es))" by (simp only: set_map)
  have "map_of (map listing (live d)) = map_of (map listing (e # es))"
    using d assms(2) s by (subst map_of_inject_set) (simp_all only: fst_listing)
  then show ?thesis by (simp add: catalogue_listing listing_def)
qed

section \<open>Finding a file\<close>

lemma same_name_iff: "0 \<in> set bs \<Longrightarrow> 0 \<notin> set f \<Longrightarrow> same_name f bs = Some (takeWhile (\<lambda>b. b \<noteq> 0) bs = f)"
  by (induction f bs rule: same_name.induct) auto

lemma findfile_loop_find:
  assumes "\<forall>e \<in> set (live d). 0 \<in> set (FileName e)" "0 \<notin> set f"
  shows "findfile_loop (Some f) i d = Some None \<and> (\<forall>e \<in> set (live d). name e \<noteq> f) \<or>
     (\<exists>j e. findfile_loop (Some f) i d = Some (Some (i + j, e)) \<and> j < length (used d) \<and> d ! j = e \<and> \<not> deleted e \<and> name e = f)"
  using assms
proof (induction d arbitrary: i)
  case Nil
  then show ?case by simp
next
  case (Cons e d)
  show ?case
  proof (cases "at_end e")
    case True
    then show ?thesis by (simp add: live_Cons)
  next
    case ne: False
    have u: "used (e # d) = e # used d" using ne by (simp add: used_def)
    show ?thesis
    proof (cases "\<not> deleted e \<and> name e = f")
      case True
      then have "0 \<in> set (FileName e)" using Cons.prems(1) ne by (simp add: live_Cons)
      then have "same_name f (FileName e) = Some True" using same_name_iff Cons.prems(2) True by (simp add: name_def)
      then show ?thesis using ne True u by (intro disjI2 exI [of _ 0] exI [of _ e]) simp
    next
      case False
      have step: "findfile_loop (Some f) i (e # d) = findfile_loop (Some f) (Suc i) d"
      proof (cases "deleted e")
        case True
        then show ?thesis using ne by simp
      next
        case nd: False
        then have "0 \<in> set (FileName e)" using Cons.prems(1) ne by (simp add: live_Cons)
        then have "same_name f (FileName e) = Some False" using same_name_iff Cons.prems(2) False nd by (simp add: name_def)
        then show ?thesis using ne nd by simp
      qed
      have hyps: "\<forall>e \<in> set (live d). 0 \<in> set (FileName e)" using Cons.prems(1) ne by (auto simp: live_Cons split: if_splits)
      from Cons.IH [OF hyps Cons.prems(2), of "Suc i"] show ?thesis
        unfolding step
      proof (elim disjE exE conjE)
        fix j e' assume "findfile_loop (Some f) (Suc i) d = Some (Some (Suc i + j, e'))" "j < length (used d)" "d ! j = e'"
          "\<not> deleted e'" "name e' = f"
        then show "findfile_loop (Some f) (Suc i) d = Some None \<and> (\<forall>e \<in> set (live (e # d)). name e \<noteq> f) \<or>
          (\<exists>j e''. findfile_loop (Some f) (Suc i) d = Some (Some (i + j, e'')) \<and> j < length (used (e # d)) \<and>
             (e # d) ! j = e'' \<and> \<not> deleted e'' \<and> name e'' = f)"
          using u by (intro disjI2 exI [of _ "Suc j"] exI [of _ e']) simp
      qed (use False ne in \<open>auto simp: live_Cons\<close>)
    qed
  qed
qed

lemma used_nth: "j < length (used d) \<Longrightarrow> used d ! j = d ! j \<and> j < length d \<and> \<not> at_end (d ! j)"
  unfolding used_def by (metis (no_types, lifting) length_takeWhile_le nth_mem order_less_le_trans set_takeWhileD takeWhile_nth)

lemma in_live: "j < length (used d) \<Longrightarrow> \<not> deleted (d ! j) \<Longrightarrow> d ! j \<in> set (live d)"
  unfolding live_def using used_nth [of j d] nth_mem [of j "used d"] by simp

lemma catalogue_None: "catalogue d f = None \<longleftrightarrow> (\<forall>e \<in> set (live d). name e \<noteq> f)"
  by (simp add: catalogue_def map_of_eq_None_iff image_image) (auto simp: image_iff)

lemma catalogue_Some:
  "distinct (map name (live d)) \<Longrightarrow> e \<in> set (live d) \<Longrightarrow> catalogue d (name e) = Some (StartingBlock e, ReservedBlocks e, FileSize e)"
  unfolding catalogue_def by (rule map_of_is_SomeI) (auto simp: comp_def)

lemma findfile_None:
  assumes "dir_ok l d" "0 \<notin> set f" "catalogue d f = None"
  shows "findfile (Some f) d = Some None"
  using findfile_loop_find [of d f 0] assms in_live [of _ d] by (auto simp: findfile_def dir_ok_def catalogue_None)

lemma findfile_Some:
  assumes "dir_ok l d" "0 \<notin> set f" "catalogue d f = Some (s, r, z)"
  obtains j e where "findfile (Some f) d = Some (Some (j, e))" "j < length (used d)" "d ! j = e" "\<not> deleted e" "name e = f"
    "StartingBlock e = s" "ReservedBlocks e = r" "FileSize e = z"
proof -
  have "\<not> (\<forall>e \<in> set (live d). name e \<noteq> f)" using assms(3) catalogue_None [of d f] by simp
  then obtain j e where je: "findfile_loop (Some f) 0 d = Some (Some (0 + j, e))" "j < length (used d)" "d ! j = e" "\<not> deleted e" "name e = f"
    using findfile_loop_find [of d f 0] assms(1,2) by (auto simp: dir_ok_def)
  then have "e \<in> set (live d)" using in_live by blast
  then have "catalogue d f = Some (StartingBlock e, ReservedBlocks e, FileSize e)"
    using catalogue_Some [of d e] assms(1) je(5) by (simp add: dir_ok_def)
  then show thesis using that [of j e] je assms(3) by (simp add: findfile_def)
qed

section \<open>The directory on the disk\<close>

lemma length_entry_bytes: "length (FileName e) = 32 \<Longrightarrow> length (entry_bytes e) = 64"
  by (simp add: entry_bytes_def)

lemma bytes_entry_entry_bytes: "length (FileName e) = 32 \<Longrightarrow> bytes_entry (entry_bytes e) = e"
  by (simp add: bytes_entry_def entry_bytes_def)

lemma chunk_concat:
  assumes "\<forall>x \<in> set xs. length (f x) = k" "i < length xs"
  shows "take k (drop (k * i) (concat (map f xs))) = f (xs ! i)"
  using assms
proof (induction xs arbitrary: i)
  case Nil
  then show ?case by simp
next
  case (Cons x xs)
  show ?case
  proof (cases i)
    case 0
    then show ?thesis using Cons.prems by simp
  next
    case (Suc j)
    then show ?thesis using Cons.IH [of j] Cons.prems by simp
  qed
qed

lemma length_directory_bytes: "\<forall>e \<in> set d. length (FileName e) = 32 \<Longrightarrow> length (directory_bytes d) = 64 * length d"
  by (induction d) (auto simp: directory_bytes_def length_entry_bytes)

lemma bytes_directory_directory_bytes:
  assumes "length d = 64" "\<forall>e \<in> set d. length (FileName e) = 32"
  shows "bytes_directory (directory_bytes d) = d"
proof (rule nth_equalityI)
  show "length (bytes_directory (directory_bytes d)) = length d" using assms(1) by (simp add: bytes_directory_def)
  fix i assume "i < length (bytes_directory (directory_bytes d))"
  then have i: "i < length d" using assms(1) by (simp add: bytes_directory_def)
  have "take 64 (drop (64 * i) (directory_bytes d)) = entry_bytes (d ! i)"
    unfolding directory_bytes_def by (rule chunk_concat [OF _ i]) (use assms(2) length_entry_bytes in blast)
  then show "bytes_directory (directory_bytes d) ! i = d ! i"
    using assms i by (simp add: bytes_directory_def bytes_entry_entry_bytes)
qed

end
