(* ===== verification/BmfsCreate.thy ===== *)
theory BmfsCreate
  imports BmfsDir
begin

text \<open>
  \<open>create\<close> of \<open>Bootloader/BMFS/bmfs.c\<close>: it puts a new file at the first place where it fits, if there is one. What is
  asked of \<open>qsort\<close> is a locale, met by an insertion sort. When no place is left, a deleted entry can
  make it give out blocks that are in use.
\<close>

section \<open>Sorting\<close>

definition before :: "(BMFSEntry \<Rightarrow> BMFSEntry \<Rightarrow> int) \<Rightarrow> BMFSEntry \<Rightarrow> BMFSEntry \<Rightarrow> bool" where
  "before cmp a b \<longleftrightarrow> cmp a b < 0 \<and> 0 < cmp b a"

text \<open>
  \<open>qsort\<close> permutes, and orders whenever \<open>before\<close> is a weak order. (Two deleted entries each compare as
  greater than the other; the standard leaves the result open then, the C libraries put both somewhere at the end.)
\<close>

locale sorting =
  fixes qsort :: sorter
  assumes mset_qsort: "mset (qsort cmp xs) = mset xs"
    and ordered: "(\<And>x y z. {x, y, z} \<subseteq> set xs \<Longrightarrow> before cmp z x \<Longrightarrow> before cmp z y \<or> before cmp y x) \<Longrightarrow>
      sorted_wrt (\<lambda>a b. \<not> before cmp b a) (qsort cmp xs)"

primrec insert_by :: "(BMFSEntry \<Rightarrow> BMFSEntry \<Rightarrow> int) \<Rightarrow> BMFSEntry \<Rightarrow> BMFSEntry list \<Rightarrow> BMFSEntry list" where
  "insert_by cmp x [] = [x]"
| "insert_by cmp x (y # ys) = (if cmp x y \<le> 0 then x # y # ys else y # insert_by cmp x ys)"

definition isort :: sorter where
  "isort cmp xs = foldr (insert_by cmp) xs []"

lemma isort_simps [simp]: "isort cmp [] = []" "isort cmp (x # xs) = insert_by cmp x (isort cmp xs)"
  by (simp_all add: isort_def)

lemma mset_insert_by [simp]: "mset (insert_by cmp x xs) = add_mset x (mset xs)"
  by (induction xs) auto

lemma mset_isort: "mset (isort cmp xs) = mset xs"
  by (induction xs) auto

lemma set_insert_by [simp]: "set (insert_by cmp x xs) = insert x (set xs)"
  by (induction xs) auto

lemma insert_by_sorted:
  assumes "sorted_wrt (\<lambda>a b. \<not> before cmp b a) ys"
    and "\<And>a b c. {a, b, c} \<subseteq> insert x (set ys) \<Longrightarrow> before cmp c a \<Longrightarrow> before cmp c b \<or> before cmp b a"
  shows "sorted_wrt (\<lambda>a b. \<not> before cmp b a) (insert_by cmp x ys)"
  using assms
proof (induction ys)
  case Nil
  then show ?case by simp
next
  case (Cons y ys)
  show ?case
  proof (cases "cmp x y \<le> 0")
    case True
    then have xy: "\<not> before cmp y x" by (simp add: before_def)
    moreover have "\<not> before cmp z x" if "z \<in> set ys" for z
      using Cons.prems(2) [of x y z] Cons.prems(1) xy that by auto
    ultimately show ?thesis using True Cons.prems(1) by simp
  next
    case False
    then have "\<not> before cmp x y" by (simp add: before_def)
    moreover have "sorted_wrt (\<lambda>a b. \<not> before cmp b a) (insert_by cmp x ys)"
    proof (rule Cons.IH)
      fix a b c assume "{a, b, c} \<subseteq> insert x (set ys)" "before cmp c a"
      then show "before cmp c b \<or> before cmp b a" by (intro Cons.prems(2)) auto
    qed (use Cons.prems(1) in simp)
    ultimately show ?thesis using False Cons.prems(1) by auto
  qed
qed

lemma isort_sorted:
  "(\<And>x y z. {x, y, z} \<subseteq> set xs \<Longrightarrow> before cmp z x \<Longrightarrow> before cmp z y \<or> before cmp y x) \<Longrightarrow>
     sorted_wrt (\<lambda>a b. \<not> before cmp b a) (isort cmp xs)"
proof (induction xs)
  case Nil
  then show ?case by simp
next
  case (Cons x xs)
  have "set (isort cmp xs) = set xs" by (rule mset_eq_setD) (rule mset_isort)
  then show ?case
    using Cons.prems by (simp, intro insert_by_sorted Cons.IH) (auto simp: subset_iff)
qed

interpretation isort: sorting isort
  by unfold_locales (rule mset_isort, rule isort_sorted)

section \<open>The sorted copy of the directory\<close>

lemma cmp_live:
  assumes "\<not> deleted a" "\<not> deleted b" "start a < 2 ^ 31" "start b < 2 ^ 31"
  shows "StartingBlockCmp a b = int (start a) - int (start b)"
proof -
  have narrow: "(ucast (word_of_int i :: u64) :: u32) = word_of_int i" for i
    by (rule bit_word_eqI) (simp add: bit_simps)
  have exact: "sint (word_of_int i :: u32) = i" if "- (2 ^ 31) \<le> i" "i < 2 ^ 31" for i
    using that by (simp add: signed_of_int signed_take_bit_int_eq_self)
  define i where "i = int (start a) - int (start b)"
  have "StartingBlock a - StartingBlock b = word_of_int i" by (simp add: start_def i_def)
  moreover have "- (2 ^ 31) \<le> i" "i < 2 ^ 31" using assms(3,4) by (simp_all add: i_def)
  ultimately show ?thesis using assms(1,2) by (simp add: StartingBlockCmp_def narrow exact i_def [symmetric])
qed

lemma before_cmp:
  assumes "\<not> deleted a \<Longrightarrow> start a < 2 ^ 31" "\<not> deleted b \<Longrightarrow> start b < 2 ^ 31"
  shows "before StartingBlockCmp a b \<longleftrightarrow> \<not> deleted a \<and> (deleted b \<or> start a < start b)"
proof (cases "deleted a \<or> deleted b")
  case True
  then show ?thesis by (auto simp: before_def StartingBlockCmp_def)
next
  case False
  then show ?thesis using assms by (auto simp: before_def cmp_live)
qed

lemma live_first:
  "sorted_wrt (\<lambda>a b. \<not> (\<not> deleted b \<and> (deleted a \<or> start b < start a))) R \<Longrightarrow>
     R = filter (\<lambda>e. \<not> deleted e) R @ filter deleted R \<and> sorted_wrt (\<lambda>a b. start a \<le> start b) (filter (\<lambda>e. \<not> deleted e) R)"
proof (induction R)
  case Nil
  then show ?case by simp
next
  case (Cons a R)
  then have IH: "R = filter (\<lambda>e. \<not> deleted e) R @ filter deleted R"
    "sorted_wrt (\<lambda>a b. start a \<le> start b) (filter (\<lambda>e. \<not> deleted e) R)" by simp_all
  show ?case
  proof (cases "deleted a")
    case True
    then have "filter (\<lambda>e. \<not> deleted e) R = []" using Cons.prems by (auto simp: filter_empty_conv)
    then show ?thesis using True IH by simp
  next
    case False
    then have "\<forall>b \<in> set R. \<not> deleted b \<longrightarrow> start a \<le> start b" using Cons.prems by auto
    then show ?thesis using False IH by auto
  qed
qed

lemma starts_areas:
  assumes "sorted_wrt (\<lambda>a b. start a \<le> start b) es" "areas_ok l es"
  shows "sorted_wrt (\<lambda>a b. fin a \<le> start b) es"
  using assms
proof (induction es)
  case Nil
  then show ?case by simp
next
  case (Cons a es)
  have "fin a \<le> start b" if "b \<in> set es" for b
    using Cons.prems that by (force simp: areas_ok_def apart_areas_def)
  then show ?case using Cons by (simp add: areas_ok_def)
qed

context sorting
begin

lemma sorted_copy:
  assumes "areas_ok l (filter (\<lambda>e. \<not> deleted e) es)" "l < 2 ^ 31"
  shows "\<exists>ls ds. qsort StartingBlockCmp es = ls @ ds \<and> mset ls = mset (filter (\<lambda>e. \<not> deleted e) es) \<and>
     mset ds = mset (filter deleted es) \<and> sorted_wrt (\<lambda>a b. fin a \<le> start b) ls"
proof -
  let ?R = "qsort StartingBlockCmp es"
  have small: "\<not> deleted e \<Longrightarrow> start e < 2 ^ 31" if "e \<in> set es" for e
    using that assms by (fastforce simp: areas_ok_def)
  have s: "sorted_wrt (\<lambda>a b. \<not> before StartingBlockCmp b a) ?R"
    by (rule ordered) (use small in \<open>auto simp: before_cmp\<close>)
  have sR: "set ?R = set es" by (rule mset_eq_setD) (rule mset_qsort)
  have "sorted_wrt (\<lambda>a b. \<not> (\<not> deleted b \<and> (deleted a \<or> start b < start a))) ?R"
    by (rule sorted_wrt_mono_rel [OF _ s]) (use small sR in \<open>simp add: before_cmp\<close>)
  from live_first [OF this] have R: "?R = filter (\<lambda>e. \<not> deleted e) ?R @ filter deleted ?R"
    "sorted_wrt (\<lambda>a b. start a \<le> start b) (filter (\<lambda>e. \<not> deleted e) ?R)" by simp_all
  have m: "mset (filter P ?R) = mset (filter P es)" for P by (simp add: mset_qsort)
  have "areas_ok l (filter (\<lambda>e. \<not> deleted e) ?R)" by (rule areas_ok_mset [OF m [symmetric] assms(1)])
  from starts_areas [OF R(2) this] R(1) m show ?thesis by blast
qed

end

section \<open>The gap\<close>

text \<open>A place for \<open>req\<close> blocks from \<open>s\<close> on, and the first one.\<close>

definition fits :: "nat \<Rightarrow> nat \<Rightarrow> BMFSEntry list \<Rightarrow> nat \<Rightarrow> bool" where
  "fits l req es s \<longleftrightarrow> 1 \<le> s \<and> s + req \<le> l \<and> (\<forall>e \<in> set es. fin e \<le> s \<or> s + req \<le> start e)"

definition first_fit :: "nat \<Rightarrow> nat \<Rightarrow> BMFSEntry list \<Rightarrow> nat \<Rightarrow> bool" where
  "first_fit l req es s \<longleftrightarrow> fits l req es s \<and> (\<forall>t < s. \<not> fits l req es t)"

lemma unat_u64_less: "unat (x :: u64) < 2 ^ 64"
  using unsigned_less [of x] by simp

lemma find_gap_least:
  assumes "sorted_wrt (\<lambda>a b. fin a \<le> start b) ls" "\<forall>e \<in> set ls. unat p \<le> start e \<and> start e < fin e \<and> fin e \<le> unat l"
    and "\<forall>e \<in> set ls. \<not> deleted e" "\<forall>e \<in> set ds. deleted e"
    and "unat p \<le> s" "s + unat r \<le> unat l" "\<forall>e \<in> set ls. fin e \<le> s \<or> s + unat r \<le> start e"
    and "\<And>t. unat p \<le> t \<Longrightarrow> t < s \<Longrightarrow> \<not> (t + unat r \<le> unat l \<and> (\<forall>e \<in> set ls. fin e \<le> t \<or> t + unat r \<le> start e))"
  shows "find_gap r l p (ls @ ds) = of_nat s"
  using assms
proof (induction ls arbitrary: p)
  case Nil
  have "unat p = s" using Nil.prems(5,6) Nil.prems(8) [of "unat p"] by fastforce
  moreover have "r \<le> l - p" using Nil.prems(5,6) by (simp add: word_le_nat_alt unat_sub)
  ultimately show ?case using Nil.prems(4) by (cases ds) (auto simp: Let_def)
next
  case (Cons e ls)
  have e: "unat p \<le> start e" "start e < fin e" "fin e \<le> unat l" "\<not> deleted e" using Cons.prems(2,3) by auto
  have le: "(r \<le> StartingBlock e - p) = (unat p + unat r \<le> start e)"
    using e(1) by (auto simp: start_def word_le_nat_alt unat_sub)
  show ?case
  proof (cases "unat p + unat r \<le> start e")
    case True
    have "\<forall>e' \<in> set ls. unat p + unat r \<le> start e'" using Cons.prems(1) True e(2) by fastforce
    then have "unat p + unat r \<le> unat l \<and> (\<forall>e' \<in> set (e # ls). fin e' \<le> unat p \<or> unat p + unat r \<le> start e')"
      using True e by auto
    then have "unat p = s" using Cons.prems(5) Cons.prems(8) [of "unat p"] by (metis le_neq_implies_less order_refl)
    then have "of_nat s = p" by auto
    then show ?thesis using True le e(4) by (simp add: Let_def)
  next
    case False
    have after: "fin e \<le> t" if "unat p \<le> t" "fin e \<le> t \<or> t + unat r \<le> start e" for t using that False by auto
    have f: "unat (StartingBlock e + ReservedBlocks e) = fin e"
      using e(3) unat_of_nat64 [of "fin e"] unat_u64_less [of l] by (simp add: fin_def)
    have "find_gap r l (StartingBlock e + ReservedBlocks e) (ls @ ds) = of_nat s"
    proof (rule Cons.IH)
      show "\<forall>e' \<in> set ls. unat (StartingBlock e + ReservedBlocks e) \<le> start e' \<and> start e' < fin e' \<and> fin e' \<le> unat l"
        using Cons.prems(1,2) by (auto simp: f)
      show "unat (StartingBlock e + ReservedBlocks e) \<le> s" unfolding f by (rule after) (use Cons.prems(5,7) in auto)
      show "\<not> (t + unat r \<le> unat l \<and> (\<forall>e \<in> set ls. fin e \<le> t \<or> t + unat r \<le> start e))"
        if "unat (StartingBlock e + ReservedBlocks e) \<le> t" "t < s" for t
        using Cons.prems(8) [of t] that e(1,2) unfolding f by auto
    qed (use Cons.prems in simp_all)
    then show ?thesis using False le e(4) by (simp add: Let_def)
  qed
qed

lemma find_gap_none:
  assumes "sorted_wrt (\<lambda>a b. fin a \<le> start b) ls" "\<forall>e \<in> set ls. unat p \<le> start e \<and> start e < fin e \<and> fin e \<le> unat l"
    and "\<forall>e \<in> set ls. \<not> deleted e" "unat p \<le> unat l"
    and "\<And>t. unat p \<le> t \<Longrightarrow> \<not> (t + unat r \<le> unat l \<and> (\<forall>e \<in> set ls. fin e \<le> t \<or> t + unat r \<le> start e))"
  shows "find_gap r l p ls = 0"
  using assms
proof (induction ls arbitrary: p)
  case Nil
  have "\<not> unat p + unat r \<le> unat l" using Nil.prems(5) [of "unat p"] by simp
  then have "\<not> r \<le> l - p" using Nil.prems(4) by (simp add: word_le_nat_alt unat_sub)
  then show ?case by simp
next
  case (Cons e ls)
  have e: "unat p \<le> start e" "start e < fin e" "fin e \<le> unat l" "\<not> deleted e" using Cons.prems(2,3) by auto
  have le: "(r \<le> StartingBlock e - p) = (unat p + unat r \<le> start e)"
    using e(1) by (auto simp: start_def word_le_nat_alt unat_sub)
  have f: "unat (StartingBlock e + ReservedBlocks e) = fin e"
    using e(3) unat_of_nat64 [of "fin e"] unat_u64_less [of l] by (simp add: fin_def)
  have no: "\<not> unat p + unat r \<le> start e"
  proof
    assume *: "unat p + unat r \<le> start e"
    then have "\<forall>e' \<in> set ls. unat p + unat r \<le> start e'" using Cons.prems(1) e(2) by fastforce
    then show False using Cons.prems(5) [of "unat p"] * e by auto
  qed
  have "find_gap r l (StartingBlock e + ReservedBlocks e) ls = 0"
  proof (rule Cons.IH)
    show "\<not> (t + unat r \<le> unat l \<and> (\<forall>e \<in> set ls. fin e \<le> t \<or> t + unat r \<le> start e))"
      if "unat (StartingBlock e + ReservedBlocks e) \<le> t" for t
      using Cons.prems(5) [of t] that e(1,2) unfolding f by auto
  qed (use Cons.prems e(3) in \<open>auto simp: f\<close>)
  then show ?case using no le e(4) by (simp add: Let_def)
qed

section \<open>The free entry\<close>

lemma count_entries_used:
  assumes "\<exists>e \<in> set d. at_end e"
  shows "count_entries i f d =
    (i + length (used d), if f = None then Some (i + length (takeWhile (\<lambda>e. \<not> at_end e \<and> \<not> deleted e) d)) else f)"
  using assms
proof (induction d arbitrary: i f)
  case Nil
  then show ?case by simp
next
  case (Cons e d)
  show ?case
  proof (cases "at_end e")
    case True
    then show ?thesis by (simp add: used_def)
  next
    case False
    then have "\<exists>e \<in> set d. at_end e" using Cons.prems by simp
    from Cons.IH [OF this] show ?thesis using False by (simp add: used_def)
  qed
qed

lemma live_update_deleted:
  assumes "j < length (used d)" "deleted (d ! j)" "\<not> at_end e" "\<not> deleted e"
  shows "mset (live (d[j := e])) = add_mset e (mset (live d))"
  using assms
proof (induction d arbitrary: j)
  case Nil
  then show ?case by (simp add: used_def)
next
  case (Cons a d)
  then show ?case by (cases j) (auto simp: used_def live_Cons split: if_splits)
qed

lemma live_append_end:
  assumes "length (used d) < length d" "\<not> at_end e" "\<not> deleted e"
    "Suc (length (used d)) < length d \<Longrightarrow> at_end m"
  shows "live ((d[length (used d) := e])[Suc (length (used d)) := m]) = live d @ [e]"
  using assms
proof (induction d)
  case Nil
  then show ?case by simp
next
  case (Cons a d)
  show ?case
  proof (cases "at_end a")
    case True
    then have "used (a # d) = []" by (simp add: used_def)
    then show ?thesis using True Cons.prems by (cases d) (auto simp: live_Cons)
  next
    case False
    then have "used (a # d) = a # used d" by (simp add: used_def)
    then show ?thesis using Cons False by (auto simp: live_Cons)
  qed
qed

text \<open>The record of a new file, and the directory it is added to.\<close>

definition new_entry :: "bytes \<Rightarrow> u64 \<Rightarrow> u64 \<Rightarrow> BMFSEntry \<Rightarrow> BMFSEntry" where
  "new_entry f s b e = e\<lparr>FileName := f @ [0] @ drop (length f + 1) (FileName e), StartingBlock := s, ReservedBlocks := b, FileSize := 0\<rparr>"

lemma new_entry_props:
  assumes "name_ok f" "length (FileName e) = 32"
  shows "name (new_entry f s b e) = f" "\<not> at_end (new_entry f s b e)" "\<not> deleted (new_entry f s b e)"
    "0 \<in> set (FileName (new_entry f s b e))" "length (FileName (new_entry f s b e)) = 32"
proof -
  obtain c cs where f: "f = c # cs" "c \<noteq> 0" "c \<noteq> 1" "0 \<notin> set cs" using assms(1) by (cases f) (auto simp: name_ok_def)
  have "takeWhile (\<lambda>b. b \<noteq> 0) (f @ 0 # rest) = f" for rest
    using f by (subst takeWhile_append2) auto
  then show "name (new_entry f s b e) = f" by (simp add: name_def new_entry_def)
  show "\<not> at_end (new_entry f s b e)" "\<not> deleted (new_entry f s b e)" "0 \<in> set (FileName (new_entry f s b e))"
    using f by (simp_all add: at_end_def deleted_def new_entry_def)
  show "length (FileName (new_entry f s b e)) = 32" using assms by (simp add: new_entry_def name_ok_def)
qed

lemma first_free:
  assumes "\<exists>e \<in> set d. at_end e" and "k = length (takeWhile (\<lambda>e. \<not> at_end e \<and> \<not> deleted e) d)"
  shows "k < length (used d) \<and> deleted (d ! k) \<or> k = length (used d) \<and> at_end (d ! k)" "length (used d) < length d"
proof -
  from assms(1) show "length (used d) < length d"
    by (induction d) (auto simp: used_def)
  from assms show "k < length (used d) \<and> deleted (d ! k) \<or> k = length (used d) \<and> at_end (d ! k)"
    by (induction d arbitrary: k) (auto simp: used_def)
qed

lemma add_record_live:
  assumes "length d = 64" "\<forall>e \<in> set d. length (FileName e) = 32" "\<exists>e \<in> set d. at_end e" "name_ok f"
    and k: "k = length (takeWhile (\<lambda>e. \<not> at_end e \<and> \<not> deleted e) d)"
  shows "\<exists>d'. add_record k (length (used d)) f s b d = Some d' \<and> length d' = 64 \<and> (\<forall>e \<in> set d'. length (FileName e) = 32) \<and>
     mset (live d') = add_mset (new_entry f s b (d ! k)) (mset (live d))"
proof -
  let ?u = "length (used d)" and ?e = "new_entry f s b (d ! k)"
  note kk = first_free [OF assms(3) k]
  have "k < 64" using kk assms(1) by auto
  then have len: "length (FileName (d ! k)) = 32" using assms(1,2) by simp
  note e = new_entry_props [OF assms(4) len, of s b]
  have all: "\<forall>e \<in> set (d[k := ?e]). length (FileName e) = 32"
    using assms(2) e(5) set_update_subset_insert [of d k ?e] by blast
  have rec: "add_record k ?u f s b d = Some (let d = d[k := ?e] in if k = ?u \<and> ?u + 1 < 64
      then d[?u + 1 := (d ! (?u + 1))\<lparr>FileName := (FileName (d ! (?u + 1)))[0 := 0]\<rparr>] else d)"
    using assms(4) len by (simp add: add_record_def strcpy_name_def name_ok_def new_entry_def)
  show ?thesis
  proof (cases "k < ?u")
    case True
    then show ?thesis using kk rec all assms(1) e by (simp add: live_update_deleted)
  next
    case False
    then have ku: "k = ?u" "at_end (d ! k)" using kk(1) by auto
    show ?thesis
    proof (cases "Suc ?u < 64")
      case True
      let ?m = "(d ! Suc ?u)\<lparr>FileName := (FileName (d ! Suc ?u))[0 := 0]\<rparr>"
      have lm: "length (FileName (d ! Suc ?u)) = 32" using True assms(1,2) by simp
      have m: "at_end ?m" unfolding at_end_def using lm by simp
      have same: "d[k := ?e] ! Suc ?u = d ! Suc ?u" using ku by simp
      let ?d = "d[k := ?e, Suc ?u := ?m]"
      have "\<forall>e \<in> set ?d. length (FileName e) = 32"
        using all lm set_update_subset_insert [of "d[k := ?e]" "Suc ?u" ?m] by auto
      moreover have "live ?d = live d @ [?e]"
        unfolding ku(1) by (rule live_append_end) (use kk(2) e m ku(1) in simp_all)
      ultimately show ?thesis using rec True ku(1) same assms(1) by (simp add: Let_def)
    next
      case False
      have "d[k := ?e, Suc ?u := x] = d[k := ?e]" for x using False assms(1) by (simp add: list_update_beyond)
      then have "live (d[k := ?e]) = live d @ [?e]"
        using live_append_end [of d ?e undefined] kk(2) e ku(1) False assms(1) by metis
      then show ?thesis using rec False ku(1) all assms(1) by (simp add: Let_def)
    qed
  qed
qed

section \<open>Creating\<close>

lemma areas_ok_Cons:
  "areas_ok l (e # es) \<longleftrightarrow> 1 \<le> start e \<and> start e < fin e \<and> fin e \<le> l \<and> (\<forall>x \<in> set es. apart_areas e x) \<and> areas_ok l es"
  by (auto simp: areas_ok_def)

lemma dir_ok_add:
  assumes "dir_ok l d" "length d' = 64" "\<forall>e \<in> set d'. length (FileName e) = 32" "mset (live d') = add_mset e (mset (live d))"
    and "0 \<in> set (FileName e)" "catalogue d (name e) = None" "1 \<le> start e" "start e < fin e" "fin e \<le> l"
    and "\<forall>x \<in> set (live d). apart_areas e x"
  shows "dir_ok l d' \<and> catalogue d' = (catalogue d)(name e \<mapsto> (StartingBlock e, ReservedBlocks e, FileSize e))"
proof -
  have m: "mset (live d') = mset (e # live d)" using assms(4) by simp
  then have s: "set (live d') = set (e # live d)" by (rule mset_eq_setD)
  have "areas_ok l (e # live d)" using assms(1,7-10) by (simp add: areas_ok_Cons dir_ok_def)
  then have a: "areas_ok l (live d')" by (rule areas_ok_mset [OF m [symmetric]])
  have "mset (map name (live d')) = mset (map name (e # live d))" using m by (metis mset_map)
  moreover have "distinct (map name (e # live d))" using assms(1,6) by (auto simp: dir_ok_def catalogue_None)
  ultimately have dn: "distinct (map name (live d'))" using mset_eq_imp_distinct_iff by blast
  then have "dir_ok l d'" using assms(1-3,5) a s by (simp add: dir_ok_def)
  moreover have "catalogue d' = (catalogue d)(name e \<mapsto> (StartingBlock e, ReservedBlocks e, FileSize e))"
    using catalogue_mset [OF m dn] by (simp add: catalogue_listing)
  ultimately show ?thesis ..
qed

text \<open>The blocks for a size in MiB.\<close>

lemma blocks_requested:
  assumes "mib < 2 ^ 32"
  shows "unat ((if (of_nat mib :: u64) mod 2 \<noteq> 0 then of_nat mib + 1 else of_nat mib) div 2 :: u64) = (mib + 1) div 2"
proof -
  have u: "unat (of_nat mib :: u64) = mib" "unat (of_nat (mib + 1) :: u64) = mib + 1"
    using assms unat_of_nat64 [of mib] unat_of_nat64 [of "mib + 1"] by simp_all
  have odd: "((of_nat mib :: u64) mod 2 \<noteq> 0) = (mib mod 2 \<noteq> 0)"
    unfolding unat_eq_zero [symmetric] unat_mod_distrib u by simp
  show ?thesis
  proof (cases "mib mod 2 = 0")
    case True
    then show ?thesis using odd u by (simp add: unat_div_distrib) presburger
  next
    case False
    then show ?thesis using odd u by (simp add: unat_div_distrib add.commute) (simp add: numeral_2_eq_2)
  qed
qed

text \<open>The last block: half the MiB of the disk, less one.\<close>

definition last_block :: "bmfs \<Rightarrow> nat" where
  "last_block st = unat (disksize st) div 2 - 1"

lemma unat_ucast_up: "unat (ucast (w :: u32) :: u64) = unat w"
  by (simp add: unsigned_ucast_eq take_bit_word_eq_self)

lemma last_block_word:
  assumes "2 \<le> unat (disksize st)"
  shows "unat (ucast (disksize st div 2) - 1 :: u64) = last_block st" "last_block st < 2 ^ 31"
proof -
  have u: "unat (ucast (disksize st div 2) :: u64) = unat (disksize st) div 2"
    by (simp add: unat_div_distrib unat_ucast_up)
  have "1 \<le> unat (disksize st) div 2" using assms by simp
  then have "(1 :: u64) \<le> ucast (disksize st div 2)" by (simp only: word_le_nat_alt u) simp
  then show "unat (ucast (disksize st div 2) - 1 :: u64) = last_block st"
    by (simp only: unat_sub u last_block_def) simp
  have "unat (disksize st) < 2 ^ 32" using unsigned_less [of "disksize st"] by simp
  then show "last_block st < 2 ^ 31" by (simp add: last_block_def)
qed

lemma filter_used: "filter (\<lambda>e. \<not> deleted e) (take (length (used d)) d) = live d"
  by (simp add: live_def used_def takeWhile_eq_take [symmetric])

context sorting
begin

lemma gap_found:
  assumes "dir_ok (last_block st) d" "2 \<le> unat (disksize st)" "first_fit (last_block st) (unat r) (live d) s"
  shows "find_gap r (ucast (disksize st div 2) - 1) 1 (qsort StartingBlockCmp (take (length (used d)) d)) = of_nat s"
proof -
  note l = last_block_word [OF assms(2)]
  have "areas_ok (last_block st) (filter (\<lambda>e. \<not> deleted e) (take (length (used d)) d))"
    using assms(1) by (simp add: filter_used dir_ok_def)
  from sorted_copy [OF this l(2)] obtain ls ds where q: "qsort StartingBlockCmp (take (length (used d)) d) = ls @ ds"
    "mset ls = mset (live d)" "mset ds = mset (filter deleted (take (length (used d)) d))" "sorted_wrt (\<lambda>a b. fin a \<le> start b) ls"
    unfolding filter_used by blast
  have sl: "set ls = set (live d)" using q(2) by (rule mset_eq_setD)
  have sd: "set ds = set (filter deleted (take (length (used d)) d))" using q(3) by (rule mset_eq_setD)
  show ?thesis
    unfolding q(1)
  proof (rule find_gap_least [OF q(4)])
    show "\<not> (t + unat r \<le> unat (ucast (disksize st div 2) - 1 :: u64) \<and> (\<forall>e \<in> set ls. fin e \<le> t \<or> t + unat r \<le> start e))"
      if "unat (1 :: u64) \<le> t" "t < s" for t
      using assms(3) that unfolding first_fit_def fits_def sl l by auto
  qed (use assms(1,3) set_live in \<open>auto simp: sl sd l dir_ok_def areas_ok_def first_fit_def fits_def\<close>)
qed

lemma gap_missing:
  assumes "dir_ok (last_block st) d" "2 \<le> unat (disksize st)" "\<forall>s. \<not> fits (last_block st) (unat r) (live d) s"
    and "\<forall>e \<in> set (used d). \<not> deleted e" "4 \<le> unat (disksize st)"
  shows "find_gap r (ucast (disksize st div 2) - 1) 1 (qsort StartingBlockCmp (take (length (used d)) d)) = 0"
proof -
  note l = last_block_word [OF assms(2)]
  have "areas_ok (last_block st) (filter (\<lambda>e. \<not> deleted e) (take (length (used d)) d))"
    using assms(1) by (simp add: filter_used dir_ok_def)
  from sorted_copy [OF this l(2)] obtain ls ds where q: "qsort StartingBlockCmp (take (length (used d)) d) = ls @ ds"
    "mset ls = mset (live d)" "mset ds = mset (filter deleted (take (length (used d)) d))" "sorted_wrt (\<lambda>a b. fin a \<le> start b) ls"
    unfolding filter_used by blast
  have sl: "set ls = set (live d)" using q(2) by (rule mset_eq_setD)
  have "take (length (used d)) d = used d" by (simp add: used_def takeWhile_eq_take [symmetric])
  then have "ds = []" using q(3) assms(4) by (auto simp: filter_empty_conv)
  then have q': "qsort StartingBlockCmp (take (length (used d)) d) = ls" using q(1) by simp
  show ?thesis
    unfolding q'
  proof (rule find_gap_none [OF q(4)])
    show "\<not> (t + unat r \<le> unat (ucast (disksize st div 2) - 1 :: u64) \<and> (\<forall>e \<in> set ls. fin e \<le> t \<or> t + unat r \<le> start e))"
      if "unat (1 :: u64) \<le> t" for t
      using assms(3) that unfolding fits_def sl l by auto
  qed (use assms(1,5) set_live in \<open>auto simp: sl l dir_ok_def areas_ok_def last_block_def\<close>)
qed

lemma create_fits:
  assumes "dir_ok (last_block st) (Directory st)" "2 \<le> unat (disksize st)" "\<exists>e \<in> set (Directory st). at_end e"
    and "name_ok f" "catalogue (Directory st) f = None" "1 \<le> mib" "mib < 2 ^ 32"
    and "first_fit (last_block st) ((mib + 1) div 2) (live (Directory st)) s"
  shows "\<exists>d'. create qsort f (of_nat mib) st = Some (say [Creating, Complete] (flush_directory (st\<lparr>Directory := d'\<rparr>))) \<and>
     dir_ok (last_block st) d' \<and> catalogue d' = (catalogue (Directory st))(f \<mapsto> (of_nat s, of_nat ((mib + 1) div 2), 0))"
proof -
  let ?d = "Directory st"
  define m :: u64 where "m = (if (of_nat mib :: u64) mod 2 \<noteq> 0 then of_nat mib + 1 else of_nat mib)"
  define b where "b = m div 2"
  define k where "k = length (takeWhile (\<lambda>e. \<not> at_end e \<and> \<not> deleted e) ?d)"
  have b: "unat b = (mib + 1) div 2" unfolding b_def m_def by (rule blocks_requested) (rule assms(7))
  have bw: "b = of_nat ((mib + 1) div 2)" unfolding b [symmetric] by simp
  have s: "1 \<le> s" "s + unat b \<le> last_block st" unfolding b using assms(8) by (simp_all add: first_fit_def fits_def)
  have us: "unat (of_nat s :: u64) = s" using s(2) last_block_word(2) [OF assms(2)] unat_of_nat64 [of s] by simp
  have found: "findfile (Some f) ?d = Some None"
    using findfile_None [OF assms(1) _ assms(5)] assms(4) by (simp add: name_ok_def)
  have gap: "find_gap b (ucast (disksize st div 2) - 1) 1 (qsort StartingBlockCmp (take (length (used ?d)) ?d)) = of_nat s"
    by (rule gap_found [OF assms(1,2)]) (use assms(8) b in simp)
  have d: "length ?d = 64" "\<forall>e \<in> set ?d. length (FileName e) = 32" using assms(1) by (simp_all add: dir_ok_def)
  obtain d' where d': "add_record k (length (used ?d)) f (of_nat s) b ?d = Some d'" "length d' = 64" "\<forall>e \<in> set d'. length (FileName e) = 32"
    "mset (live d') = add_mset (new_entry f (of_nat s) b (?d ! k)) (mset (live ?d))"
    using add_record_live [OF d assms(3,4) k_def, of "of_nat s" b] by blast
  let ?e = "new_entry f (of_nat s) b (?d ! k)"
  have "k < 64" using first_free [OF assms(3) k_def] d(1) by auto
  then have "length (FileName (?d ! k)) = 32" using d by simp
  note e = new_entry_props [OF assms(4) this, of "of_nat s" b]
  have st: "start ?e = s" "fin ?e = s + unat b" "StartingBlock ?e = of_nat s" "ReservedBlocks ?e = b" "FileSize ?e = 0"
    using us by (simp_all add: new_entry_def start_def fin_def del: of_nat_add)
  have "dir_ok (last_block st) d' \<and> catalogue d' = (catalogue ?d)(name ?e \<mapsto> (StartingBlock ?e, ReservedBlocks ?e, FileSize ?e))"
  proof (rule dir_ok_add [OF assms(1) d'(2-4)])
    show "start ?e < fin ?e" unfolding st b using assms(6) by simp
    show "\<forall>x \<in> set (live ?d). apart_areas ?e x"
      using assms(8) by (auto simp: apart_areas_def st b first_fit_def fits_def)
  qed (use e s st assms(5) in simp_all)
  moreover have "(of_nat s :: u64) \<noteq> 0" using us s(1) by (metis not_one_le_zero unat_0)
  then have "create qsort f (of_nat mib) st = Some (say [Creating, Complete] (flush_directory (st\<lparr>Directory := d'\<rparr>)))"
    unfolding create_def Let_def m_def [symmetric] b_def [symmetric]
    using found gap d'(1) by (simp add: count_entries_used [OF assms(3)] k_def [symmetric])
  ultimately show ?thesis
    by (intro exI [of _ d']) (simp only: e(1) st(3-5) bw [symmetric])
qed

end

end
