(* ===== verification/BmfsFiles.thy ===== *)
theory BmfsFiles
  imports BmfsCreate
begin

text \<open>
  A BMFS disk as a map from names to contents: every operation of \<open>Bootloader/BMFS/bmfs.c\<close> on a well-formed disk is the
  expected operation on that map, and what is in front of the first file, the boot loader and the kernel,
  stays as it is.
\<close>

section \<open>Well-formed disks\<close>

definition MiB2 :: nat where "MiB2 = 2097152"

definition sizes_ok :: "BMFSEntry list \<Rightarrow> bool" where
  "sizes_ok es \<longleftrightarrow> (\<forall>e \<in> set es. unat (FileSize e) \<le> unat (ReservedBlocks e) * MiB2)"

definition bmfs_ok :: "bmfs \<Rightarrow> bool" where
  "bmfs_ok st \<longleftrightarrow> dir_ok (last_block st) (Directory st) \<and> sizes_ok (live (Directory st)) \<and> 6 \<le> unat (disksize st) \<and>
     unat (disksize st) = length (content (disk st)) div 1048576 \<and> length (content (disk st)) \<le> limit (disk st)"

definition file_bytes :: "bytes \<Rightarrow> u64 \<times> u64 \<times> u64 \<Rightarrow> bytes" where
  "file_bytes bs = (\<lambda>(s, r, z). take (unat z) (drop (unat s * MiB2) bs))"

definition contents :: "bmfs \<Rightarrow> bytes \<rightharpoonup> bytes" where
  "contents st f = map_option (file_bytes (content (disk st))) (catalogue (Directory st) f)"

text \<open>The first block but for the directory: the master boot record, the tag, the boot loader and the kernel.\<close>

definition system_area :: "bytes \<Rightarrow> bytes" where
  "system_area bs = take 4096 bs @ take (MiB2 - 8192) (drop 8192 bs)"

lemma catalogue_live:
  assumes "catalogue d g = Some (s, r, z)"
  obtains e where "e \<in> set (live d)" "name e = g" "StartingBlock e = s" "ReservedBlocks e = r" "FileSize e = z"
  using map_of_SomeD [of "map listing (live d)" g "(s, r, z)"] assms by (auto simp: catalogue_listing listing_def)

text \<open>Where a file lies.\<close>

lemma area_bounds:
  assumes "bmfs_ok st" "e \<in> set (live (Directory st))"
  shows "1 \<le> start e" "start e < fin e" "fin e * MiB2 \<le> length (content (disk st))" "fin e < 2 ^ 31"
proof -
  have a: "1 \<le> start e" "start e < fin e" "fin e \<le> last_block st"
    using assms by (auto simp: bmfs_ok_def dir_ok_def areas_ok_def)
  show "1 \<le> start e" "start e < fin e" by (rule a)+
  have "last_block st < 2 ^ 31" by (rule last_block_word(2)) (use assms(1) in \<open>simp add: bmfs_ok_def\<close>)
  then show "fin e < 2 ^ 31" using a(3) by simp
  have "last_block st * MiB2 \<le> length (content (disk st)) div 1048576 div 2 * MiB2"
    using assms(1) by (simp add: last_block_def bmfs_ok_def)
  also have "\<dots> = length (content (disk st)) div MiB2 * MiB2" by (simp add: MiB2_def div_mult2_eq)
  also have "\<dots> \<le> length (content (disk st))" by simp
  finally show "fin e * MiB2 \<le> length (content (disk st))" using mult_le_mono1 [OF a(3), of MiB2] by linarith
qed

section \<open>The directory is written back\<close>

lemma big_disk: "bmfs_ok st \<Longrightarrow> 3 * MiB2 \<le> length (content (disk st))"
  using less_eq_div_iff_mult_less_eq [of 1048576 6 "length (content (disk st))"] by (simp add: bmfs_ok_def MiB2_def)

lemma flush_writes:
  assumes "8192 \<le> length (content (disk st))" "length (content (disk st)) \<le> limit (disk st)"
    and "length (Directory st) = 64" "\<forall>e \<in> set (Directory st). length (FileName e) = 32"
  shows "flush_directory st = st\<lparr>disk := (disk st)\<lparr>content := patch (content (disk st)) 4096 (directory_bytes (Directory st)), pos := 8192\<rparr>\<rparr>"
  using assms length_directory_bytes [OF assms(4)] by (simp add: flush_directory_def fwrite_fseek)

lemma system_area_patch:
  assumes "8192 \<le> length bs" "length xs = 4096 \<and> i = 4096 \<or> MiB2 \<le> i \<and> i \<le> length bs"
  shows "system_area (patch bs i xs) = system_area bs"
proof -
  have "take 4096 (patch bs i xs) = take 4096 bs" by (rule take_patch_after) (use assms in \<open>auto simp: MiB2_def\<close>)
  moreover have "take (MiB2 - 8192) (drop 8192 (patch bs i xs)) = take (MiB2 - 8192) (drop 8192 bs)"
    by (rule slice_patch_other) (use assms in \<open>auto simp: MiB2_def\<close>)
  ultimately show ?thesis by (simp add: system_area_def)
qed

lemma file_bytes_flush:
  "1 \<le> unat s \<Longrightarrow> 8192 \<le> length bs \<Longrightarrow> length xs = 4096 \<Longrightarrow> file_bytes (patch bs 4096 xs) (s, r, z) = file_bytes bs (s, r, z)"
  unfolding file_bytes_def prod.case by (rule slice_patch_other) (simp_all add: MiB2_def)

text \<open>A new directory on the same files: what the map becomes is read off the catalogue.\<close>

lemma flush_directory_ok:
  assumes "bmfs_ok st" "dir_ok (last_block st) d" "sizes_ok (live d)"
  defines "st' \<equiv> flush_directory (st\<lparr>Directory := d\<rparr>)"
  shows "bmfs_ok st'" "Directory st' = d" "disksize st' = disksize st" "local_files st' = local_files st"
    "DiskInfo st' = DiskInfo st" "limit (disk st') = limit (disk st)"
    "take 4096 (drop 4096 (content (disk st'))) = directory_bytes d" "system_area (content (disk st')) = system_area (content (disk st))"
    "contents st' g = map_option (file_bytes (content (disk st))) (catalogue d g)"
proof -
  have big: "8192 \<le> length (content (disk st))" using big_disk [OF assms(1)] by (simp add: MiB2_def)
  have d: "length d = 64" "\<forall>e \<in> set d. length (FileName e) = 32" using assms(2) by (simp_all add: dir_ok_def)
  have ld: "length (directory_bytes d) = 4096" using length_directory_bytes [OF d(2)] d(1) by simp
  have st': "st' = st\<lparr>Directory := d, disk := (disk st)\<lparr>content := patch (content (disk st)) 4096 (directory_bytes d), pos := 8192\<rparr>\<rparr>"
    unfolding st'_def using flush_writes [of "st\<lparr>Directory := d\<rparr>"] big assms(1) d by (simp add: bmfs_ok_def)
  show "Directory st' = d" "disksize st' = disksize st" "local_files st' = local_files st"
    "DiskInfo st' = DiskInfo st" "limit (disk st') = limit (disk st)" by (simp_all add: st')
  have len: "length (content (disk st')) = length (content (disk st))" using big ld by (simp add: st')
  then show ok: "bmfs_ok st'" using assms(1-3) ld big by (simp add: bmfs_ok_def last_block_def st')
  show "take 4096 (drop 4096 (content (disk st'))) = directory_bytes d"
    using take_drop_patch [of 4096 "content (disk st)" "directory_bytes d"] big ld by (simp add: st')
  show "system_area (content (disk st')) = system_area (content (disk st))"
    using system_area_patch [of "content (disk st)" "directory_bytes d" 4096] big ld by (simp add: st')
  show "contents st' g = map_option (file_bytes (content (disk st))) (catalogue d g)"
  proof (cases "catalogue d g")
    case None
    then show ?thesis by (simp add: contents_def st')
  next
    case (Some x)
    obtain s r z where x: "x = (s, r, z)" by (cases x) auto
    obtain e where "e \<in> set (live d)" "StartingBlock e = s" using catalogue_live [of d g s r z] Some x by metis
    then have "1 \<le> unat s" using assms(2) by (auto simp: dir_ok_def areas_ok_def start_def)
    from file_bytes_flush [OF this big ld] show ?thesis using Some x by (simp add: contents_def st')
  qed
qed

lemma bmfs_ok_say [simp]: "bmfs_ok (say ms st) = bmfs_ok st" "contents (say ms st) = contents st"
  by (auto simp: bmfs_ok_def last_block_def contents_def)

section \<open>Changing one entry\<close>

lemma live_split:
  assumes "j < length (used d)" "\<not> deleted (d ! j)"
  shows "\<exists>xs ys. live d = xs @ d ! j # ys \<and> (\<forall>e. \<not> at_end e \<longrightarrow> live (d[j := e]) = xs @ (if deleted e then [] else [e]) @ ys)"
  using assms
proof (induction d arbitrary: j)
  case Nil
  then show ?case by (simp add: used_def)
next
  case (Cons a d)
  have a: "\<not> at_end a" using Cons.prems(1) by (auto simp: used_def split: if_splits)
  show ?case
  proof (cases j)
    case 0
    then show ?thesis using Cons.prems a by (intro exI [of _ "[]"] exI [of _ "live d"]) (auto simp: live_Cons)
  next
    case (Suc i)
    then have "i < length (used d)" "\<not> deleted (d ! i)" using Cons.prems a by (simp_all add: used_def)
    from Cons.IH [OF this] obtain xs ys where xy: "live d = xs @ d ! i # ys"
      "\<forall>e. \<not> at_end e \<longrightarrow> live (d[i := e]) = xs @ (if deleted e then [] else [e]) @ ys" by blast
    show ?thesis
      using xy a Suc by (intro exI [of _ "if deleted a then xs else a # xs"] exI [of _ ys]) (simp add: live_Cons)
  qed
qed

lemma length_names_update:
  assumes "\<forall>e \<in> set d. length (FileName e) = 32" "length (FileName e) = 32"
  shows "\<forall>e \<in> set (d[j := e]). length (FileName e) = 32"
  using assms set_update_subset_insert [of d j e] by blast

text \<open>An entry replaced by one with the same name and place.\<close>

lemma dir_ok_resize:
  assumes "dir_ok l d" "j < length (used d)" "d ! j = e" "\<not> deleted e" "e' = e\<lparr>FileSize := z\<rparr>"
  shows "dir_ok l (d[j := e'])" "catalogue (d[j := e']) = (catalogue d)(name e \<mapsto> (StartingBlock e, ReservedBlocks e, z))"
    "sizes_ok (live d) \<Longrightarrow> unat z \<le> unat (ReservedBlocks e) * MiB2 \<Longrightarrow> sizes_ok (live (d[j := e']))"
proof -
  have ne: "\<not> at_end e" "length (FileName e) = 32" using used_nth [OF assms(2)] assms(1,3) by (auto simp: dir_ok_def)
  have same: "\<not> at_end e'" "\<not> deleted e'" "name e' = name e" "start e' = start e" "fin e' = fin e" "FileName e' = FileName e"
    using ne assms(4,5) by (simp_all add: at_end_def deleted_def name_def start_def fin_def)
  obtain xs ys where xy: "live d = xs @ e # ys" "live (d[j := e']) = xs @ e' # ys"
    using live_split [of j d] assms(2-4) same(1,2) by auto
  have n: "map name (live (d[j := e'])) = map name (live d)" by (simp add: xy same)
  have "areas_ok l (live (d[j := e']))"
    using assms(1) unfolding dir_ok_def areas_ok_def xy by (simp add: sorted_wrt_append apart_areas_def same)
  then show "dir_ok l (d[j := e'])"
    using assms(1) n length_names_update [of d e' j] ne(2) unfolding dir_ok_def xy by (simp add: same)
  have dist: "distinct (map name (live (d[j := e'])))" "distinct (map name (live d))" using assms(1) n by (simp_all add: dir_ok_def)
  have m: "mset (live d) = mset (e # xs @ ys)" "mset (live (d[j := e'])) = mset (e' # xs @ ys)" by (simp_all add: xy)
  show "catalogue (d[j := e']) = (catalogue d)(name e \<mapsto> (StartingBlock e, ReservedBlocks e, z))"
    using catalogue_mset [OF m(2) dist(1)] catalogue_mset [OF m(1) dist(2)] assms(5) same(3) by simp
  show "sizes_ok (live d) \<Longrightarrow> unat z \<le> unat (ReservedBlocks e) * MiB2 \<Longrightarrow> sizes_ok (live (d[j := e']))"
    unfolding sizes_ok_def xy by (auto simp: assms(5))
qed

lemma dir_ok_delete:
  assumes "dir_ok l d" "j < length (used d)" "d ! j = e" "\<not> deleted e" "e' = e\<lparr>FileName := (FileName e)[0 := 1]\<rparr>"
  shows "dir_ok l (d[j := e'])" "catalogue (d[j := e']) = (catalogue d)(name e := None)"
    "sizes_ok (live d) \<Longrightarrow> sizes_ok (live (d[j := e']))"
proof -
  have ne: "\<not> at_end e" "length (FileName e) = 32" using used_nth [OF assms(2)] assms(1,3) by (auto simp: dir_ok_def)
  then have e': "\<not> at_end e'" "deleted e'" "length (FileName e') = 32"
    using assms(5) by (simp_all add: at_end_def deleted_def)
  obtain xs ys where xy: "live d = xs @ e # ys" "live (d[j := e']) = xs @ ys"
    using live_split [of j d] assms(2-4) e'(1,2) by auto
  have "areas_ok l (live (d[j := e']))"
    using assms(1) unfolding dir_ok_def areas_ok_def xy by (simp add: sorted_wrt_append)
  then show "dir_ok l (d[j := e'])"
    using assms(1) length_names_update [of d e' j] e'(3) unfolding dir_ok_def xy by auto
  have dist: "distinct (map name (live d))" using assms(1) by (simp add: dir_ok_def)
  have m: "mset (live d) = mset (e # xs @ ys)" by (simp add: xy)
  have "map_of (map listing (xs @ ys)) (name e) = None"
    using dist unfolding xy by (auto simp: map_of_eq_None_iff image_image listing_def image_iff)
  then show "catalogue (d[j := e']) = (catalogue d)(name e := None)"
    unfolding catalogue_mset [OF m dist] by (simp add: catalogue_listing xy fun_upd_idem)
  show "sizes_ok (live d) \<Longrightarrow> sizes_ok (live (d[j := e']))" by (simp add: sizes_ok_def xy)
qed

section \<open>The operations on the map\<close>

lemma ok_dir: "bmfs_ok st \<Longrightarrow> dir_ok (last_block st) (Directory st)"
  by (simp add: bmfs_ok_def)

lemma say_contents [simp]: "contents (say ms st) f = contents st f"
  by (simp add: contents_def)

lemma delete_file_removes:
  assumes "bmfs_ok st" "0 \<notin> set f" "contents st f \<noteq> None"
  shows "\<exists>st'. delete_file (Some f) st = Some st' \<and> bmfs_ok st' \<and> contents st' = (contents st)(f := None) \<and>
     catalogue (Directory st') = (catalogue (Directory st))(f := None) \<and>
     system_area (content (disk st')) = system_area (content (disk st)) \<and> disksize st' = disksize st"
proof -
  let ?d = "Directory st"
  obtain s r z where "catalogue ?d f = Some (s, r, z)" using assms(3) by (auto simp: contents_def)
  then obtain j e where e: "findfile (Some f) ?d = Some (Some (j, e))" "j < length (used ?d)" "?d ! j = e" "\<not> deleted e" "name e = f"
    by (rule findfile_Some [OF ok_dir [OF assms(1)] assms(2)])
  let ?d' = "?d[j := e\<lparr>FileName := (FileName e)[0 := 1]\<rparr>]"
  note del = dir_ok_delete [OF ok_dir [OF assms(1)] e(2-4) refl]
  have sz: "sizes_ok (live ?d')" using del(3) assms(1) by (simp add: bmfs_ok_def)
  note fl = flush_directory_ok [OF assms(1) del(1) sz]
  have "delete_file (Some f) st = Some (say [Deleting f, Complete] (flush_directory (st\<lparr>Directory := ?d'\<rparr>)))"
    by (simp add: delete_file_def e)
  moreover have "contents (flush_directory (st\<lparr>Directory := ?d'\<rparr>)) = (contents st)(f := None)"
    by (rule ext) (simp add: fl(9) del(2) e(5) contents_def [of st])
  ultimately show ?thesis using fl del(2) e(5) by auto
qed

lemma sizes_ok_catalogue:
  assumes "dir_ok l d"
  shows "sizes_ok (live d) \<longleftrightarrow> (\<forall>g s r z. catalogue d g = Some (s, r, z) \<longrightarrow> unat z \<le> unat r * MiB2)"
proof
  assume "sizes_ok (live d)"
  then show "\<forall>g s r z. catalogue d g = Some (s, r, z) \<longrightarrow> unat z \<le> unat r * MiB2"
    by (metis catalogue_live sizes_ok_def)
next
  assume *: "\<forall>g s r z. catalogue d g = Some (s, r, z) \<longrightarrow> unat z \<le> unat r * MiB2"
  show "sizes_ok (live d)"
    unfolding sizes_ok_def using * catalogue_Some assms by (metis dir_ok_def)
qed

context sorting
begin

lemma create_adds:
  assumes "bmfs_ok st" "\<exists>e \<in> set (Directory st). at_end e" "name_ok f" "contents st f = None" "1 \<le> mib" "mib < 2 ^ 32"
    and "first_fit (last_block st) ((mib + 1) div 2) (live (Directory st)) s"
  shows "\<exists>st'. create qsort f (of_nat mib) st = Some st' \<and> bmfs_ok st' \<and> contents st' = (contents st)(f \<mapsto> []) \<and>
     catalogue (Directory st') = (catalogue (Directory st))(f \<mapsto> (of_nat s, of_nat ((mib + 1) div 2), 0)) \<and>
     system_area (content (disk st')) = system_area (content (disk st))"
proof -
  have two: "2 \<le> unat (disksize st)" using assms(1) by (simp add: bmfs_ok_def)
  have none: "catalogue (Directory st) f = None" using assms(4) by (simp add: contents_def)
  obtain d' where c: "create qsort f (of_nat mib) st = Some (say [Creating, Complete] (flush_directory (st\<lparr>Directory := d'\<rparr>)))"
    "dir_ok (last_block st) d'" "catalogue d' = (catalogue (Directory st))(f \<mapsto> (of_nat s, of_nat ((mib + 1) div 2), 0))"
    using create_fits [OF ok_dir [OF assms(1)] two assms(2,3) none assms(5-7)] by blast
  have "sizes_ok (live (Directory st))" using assms(1) by (simp add: bmfs_ok_def)
  then have "sizes_ok (live d')"
    unfolding sizes_ok_catalogue [OF c(2)] sizes_ok_catalogue [OF ok_dir [OF assms(1)]] c(3) by auto
  note fl = flush_directory_ok [OF assms(1) c(2) this]
  have "contents (flush_directory (st\<lparr>Directory := d'\<rparr>)) = (contents st)(f \<mapsto> [])"
    by (rule ext) (simp add: fl(9) c(3) contents_def [of st] file_bytes_def)
  then show ?thesis using c fl by auto
qed

end

text \<open>Offsets on the disk do not wrap.\<close>

lemma sint_nonneg:
  assumes "unat (w :: u64) < 2 ^ 63"
  shows "\<not> sint w < 0"
proof -
  have "\<not> bit (unat w) 63" using assms by (simp add: bit_iff_odd)
  then have "\<not> bit w 63" by (simp add: bit_unsigned_iff)
  then show ?thesis using bit_last_iff [of w] by simp
qed

lemma seek_area:
  assumes "bmfs_ok st" "e \<in> set (live (Directory st))"
  shows "fseekl (StartingBlock e * 2097152) (disk st) = fseek (start e * MiB2) (disk st)"
    "unat (ReservedBlocks e * 2097152) = unat (ReservedBlocks e) * MiB2"
proof -
  have b: "start e < 2 ^ 31" "unat (ReservedBlocks e) < 2 ^ 31" using area_bounds [OF assms] by (auto simp: start_def fin_def)
  have prod: "unat (w * 2097152) = unat w * 2097152" if "unat w < 2 ^ 31" for w :: u64
    using that unat_of_nat64 [of "unat w * 2097152"] by simp
  show "unat (ReservedBlocks e * 2097152) = unat (ReservedBlocks e) * MiB2" using prod [OF b(2)] by (simp add: MiB2_def)
  have u: "unat (StartingBlock e * 2097152) = start e * 2097152" using prod b(1) by (simp add: start_def)
  then have "unat (StartingBlock e * 2097152) < 2 ^ 63" using b(1) by simp
  then have "\<not> sint (StartingBlock e * 2097152) < 0"
    by (rule sint_nonneg)
  then show "fseekl (StartingBlock e * 2097152) (disk st) = fseek (start e * MiB2) (disk st)"
    by (simp add: fseekl_def u MiB2_def)
qed

lemma live_apart:
  assumes "bmfs_ok st" "x \<in> set (live (Directory st))" "e \<in> set (live (Directory st))" "x \<noteq> e"
  shows "apart_areas x e"
proof -
  have "sorted_wrt apart_areas (live (Directory st))" using assms(1) by (simp add: bmfs_ok_def dir_ok_def areas_ok_def)
  then show ?thesis
    using assms(2-4) apart_areas_sym unfolding sorted_wrt_iff_nth_less in_set_conv_nth by (metis linorder_neqE_nat)
qed

text \<open>Bytes written inside one area leave the files in the others alone.\<close>

lemma file_bytes_elsewhere:
  assumes "bmfs_ok st" "e \<in> set (live (Directory st))" "length xs \<le> unat (ReservedBlocks e) * MiB2"
    and "catalogue (Directory st) g = Some (s, r, z)" "g \<noteq> name e"
  shows "file_bytes (patch (content (disk st)) (start e * MiB2) xs) (s, r, z) = file_bytes (content (disk st)) (s, r, z)"
proof -
  obtain x where x: "x \<in> set (live (Directory st))" "name x = g" "StartingBlock x = s" "ReservedBlocks x = r" "FileSize x = z"
    by (rule catalogue_live [OF assms(4)])
  have "apart_areas x e" by (rule live_apart [OF assms(1) x(1) assms(2)]) (use x(2) assms(5) in auto)
  moreover have "unat z \<le> unat r * MiB2" using assms(1) x by (auto simp: bmfs_ok_def sizes_ok_def)
  moreover have "(unat s + unat r) * MiB2 \<le> start e * MiB2 \<or> fin e * MiB2 \<le> unat s * MiB2"
    using calculation(1) x by (auto simp: apart_areas_def start_def fin_def mult_le_mono1)
  ultimately have "unat s * MiB2 + unat z \<le> start e * MiB2 \<or> start e * MiB2 + length xs \<le> unat s * MiB2"
    using assms(3) by (auto simp: start_def fin_def algebra_simps)
  moreover have "start e * MiB2 \<le> length (content (disk st))"
    using area_bounds(2,3) [OF assms(1,2)] by (metis less_imp_le mult_le_mono1 order_trans)
  ultimately show ?thesis unfolding file_bytes_def prod.case by (rule slice_patch_other)
qed

lemma bmfs_ok_disk:
  "length (content d) = length (content (disk st)) \<Longrightarrow> limit d = limit (disk st) \<Longrightarrow> bmfs_ok (st\<lparr>disk := d\<rparr>) = bmfs_ok st"
  by (simp add: bmfs_ok_def last_block_def)

lemma write_file_stores:
  assumes "bmfs_ok st" "0 \<notin> set f" "catalogue (Directory st) f = Some (s, r, z)" "local_files st f = Some c"
    and "length c \<le> unat r * MiB2" "length c < int_limit"
  shows "\<exists>st'. write_file_bmfs (Some f) st = Some st' \<and> bmfs_ok st' \<and> contents st' = (contents st)(f \<mapsto> c) \<and>
     catalogue (Directory st') = (catalogue (Directory st))(f \<mapsto> (s, r, of_nat (length c))) \<and>
     system_area (content (disk st')) = system_area (content (disk st)) \<and> disksize st' = disksize st \<and> DiskInfo st' = DiskInfo st \<and>
     take 4096 (drop 4096 (content (disk st'))) = directory_bytes (Directory st')"
proof -
  let ?d = "Directory st" and ?bs = "content (disk st)"
  obtain j e where e: "findfile (Some f) ?d = Some (Some (j, e))" "j < length (used ?d)" "?d ! j = e" "\<not> deleted e" "name e = f"
    "StartingBlock e = s" "ReservedBlocks e = r"
    by (rule findfile_Some [OF ok_dir [OF assms(1)] assms(2,3)])
  have live: "e \<in> set (live ?d)" using in_live [OF e(2)] e(3,4) by simp
  note seek = seek_area [OF assms(1) live] and ab = area_bounds [OF assms(1) live]
  have "length c < 2 ^ 64" using assms(6) by (simp add: int_limit_def)
  note lc = unat_of_nat64 [OF this]
  have enough: "\<not> ReservedBlocks e * 2097152 < of_nat (length c)"
    unfolding word_less_nat_alt seek(2) lc using assms(5) e(7) by simp
  have fits: "start e * MiB2 + length c \<le> length ?bs"
    using ab(3) assms(5) e(6,7) by (simp add: start_def fin_def algebra_simps)
  define bs where "bs = patch ?bs (start e * MiB2) c"
  define dk where "dk = (disk st)\<lparr>content := bs, pos := start e * MiB2 + length c\<rparr>"
  have lbs: "length bs = length ?bs" and cd: "content dk = bs" using fits by (simp_all add: bs_def dk_def)
  have copy: "copyc (length c) \<lparr>content = c, pos = 0, limit = length c, failed = False\<rparr> (fseek (start e * MiB2) (disk st)) =
      (\<lparr>content = c, pos = length c, limit = length c, failed = False\<rparr>, dk)"
    by (subst copyc_copies) (use fits assms(1) in \<open>auto simp: fseek_def dk_def bs_def bmfs_ok_def\<close>)
  let ?e = "e\<lparr>FileSize := of_nat (length c)\<rparr>" and ?st = "st\<lparr>disk := dk\<rparr>"
  note dir = dir_ok_resize [OF ok_dir [OF assms(1)] e(2-4), of ?e "of_nat (length c)", OF refl]
  have run: "write_file_bmfs (Some f) st = Some (say [Writing f, Complete] (flush_directory (?st\<lparr>Directory := ?d[j := ?e]\<rparr>)))"
    using assms(4,6) enough copy by (simp add: write_file_bmfs_def e(1,3) seek(1) lc)
  have ok: "bmfs_ok ?st" using assms(1) lbs by (simp add: bmfs_ok_disk dk_def)
  have sz: "sizes_ok (live (?d[j := ?e]))"
    using dir(3) assms(1,5) e(7) lc by (simp add: bmfs_ok_def)
  have "last_block ?st = last_block st" by (simp add: last_block_def)
  then have dir': "dir_ok (last_block ?st) (?d[j := ?e])" using dir(1) by simp
  note fl = flush_directory_ok [OF ok dir' sz]
  let ?st' = "flush_directory (?st\<lparr>Directory := ?d[j := ?e]\<rparr>)"
  have "contents ?st' g = ((contents st)(f \<mapsto> c)) g" for g
  proof (cases "g = f")
    case True
    have "take (length c) (drop (start e * MiB2) bs) = c"
      unfolding bs_def by (rule take_drop_patch) (use fits in simp)
    then show ?thesis using True e(5-7) lc by (simp add: fl(9) dir(2) file_bytes_def cd start_def)
  next
    case False
    then have "catalogue (?d[j := ?e]) g = catalogue ?d g" using dir(2) e(5) by simp
    moreover have "file_bytes bs (s', r', z') = file_bytes ?bs (s', r', z')" if "catalogue ?d g = Some (s', r', z')" for s' r' z'
      unfolding bs_def by (rule file_bytes_elsewhere [OF assms(1) live _ that]) (use False e(5,7) assms(5) in auto)
    ultimately show ?thesis using False
      by (cases "catalogue ?d g") (auto simp: fl(9) contents_def [of st] cd)
  qed
  then have map: "contents ?st' = (contents st)(f \<mapsto> c)" by (rule ext)
  have "system_area bs = system_area ?bs"
    unfolding bs_def by (rule system_area_patch) (use ab(1) fits in \<open>auto simp: MiB2_def\<close>)
  then have "system_area (content (disk ?st')) = system_area ?bs" using fl(8) by (simp add: cd)
  then show ?thesis using run fl(1,2,3,5,7) map dir(2) e(5-7) by simp
qed

lemma read_file_fetches:
  assumes "bmfs_ok st" "0 \<notin> set f" "contents st f = Some c" "length c < int_limit" "wr f"
  shows "\<exists>st'. read_file wr (Some f) st = Some st' \<and> local_files st' = (local_files st)(f \<mapsto> c) \<and>
     content (disk st') = content (disk st) \<and> Directory st' = Directory st"
proof -
  let ?d = "Directory st" and ?bs = "content (disk st)"
  obtain s r z where cat: "catalogue ?d f = Some (s, r, z)" "c = file_bytes ?bs (s, r, z)"
    using assms(3) by (auto simp: contents_def)
  obtain j e where e: "findfile (Some f) ?d = Some (Some (j, e))" "j < length (used ?d)" "?d ! j = e" "\<not> deleted e" "name e = f"
    "StartingBlock e = s" "ReservedBlocks e = r" "FileSize e = z"
    by (rule findfile_Some [OF ok_dir [OF assms(1)] assms(2) cat(1)])
  have live: "e \<in> set (live ?d)" using in_live [OF e(2)] e(3,4) by simp
  note seek = seek_area [OF assms(1) live] and ab = area_bounds [OF assms(1) live]
  have zr: "unat z \<le> unat r * MiB2" using assms(1) live e(7,8) by (auto simp: bmfs_ok_def sizes_ok_def)
  then have fits: "start e * MiB2 + unat z \<le> length ?bs"
    using ab(3) e(6,7) by (simp add: start_def fin_def algebra_simps)
  then have c: "c = take (unat z) (drop (start e * MiB2) ?bs)" "length c = unat z"
    using cat(2) e(6) by (simp_all add: file_bytes_def start_def)
  have shown: "shown (FileName e) = Some f"
    using assms(1) live e(5) by (auto simp: bmfs_ok_def dir_ok_def shown_def name_def)
  have lim: "length ?bs \<le> limit (disk st)" using assms(1) by (simp add: bmfs_ok_def)
  have copy: "copyc (unat z) (fseek (start e * MiB2) (disk st)) \<lparr>content = [], pos = 0, limit = limit (disk st), failed = False\<rparr> =
      ((disk st)\<lparr>pos := start e * MiB2 + unat z\<rparr>, \<lparr>content = c, pos = unat z, limit = limit (disk st), failed = False\<rparr>)"
    by (subst copyc_copies) (use fits lim c in \<open>auto simp: fseek_def patch_def\<close>)
  show ?thesis
    using assms(4,5) copy c(2) by (simp add: read_file_def e(1,8) shown seek(1))
qed

end
