(* ===== verification/BmfsSpec.thy ===== *)
theory BmfsSpec
  imports BmfsFiles
begin

text \<open>
  The results on \<open>Bootloader/BMFS/bmfs.c\<close>: files are created at the first place where they fit, what one run of the
  program writes a later run reads, the image of the build holds what the kernel loads, and two situations in which
  \<open>create\<close> destroys files.
\<close>

section \<open>Opening a disk\<close>

lemma open_disk_eq:
  assumes "8192 \<le> length bs"
  shows "disk (open_disk h bs) = \<lparr>content = bs, pos = 0, limit = room h, failed = False\<rparr>"
    "disksize (open_disk h bs) = of_nat (length bs div 1048576)" "local_files (open_disk h bs) = files h"
    "Directory (open_disk h bs) = bytes_directory (take 4096 (drop 4096 bs))" "DiskInfo (open_disk h bs) = take 512 (drop 1024 bs)"
  using assms by (simp_all add: open_disk_def fread_def fseek_def into_buffer_def)

lemma reopen:
  assumes "bmfs_ok st" "take 4096 (drop 4096 (content (disk st))) = directory_bytes (Directory st)"
    and "length (content (disk st)) \<le> room h"
  defines "st' \<equiv> open_disk h (content (disk st))"
  shows "bmfs_ok st'" "contents st' = contents st" "content (disk st') = content (disk st)" "local_files st' = files h"
proof -
  have big: "8192 \<le> length (content (disk st))" using big_disk [OF assms(1)] by (simp add: MiB2_def)
  note eq = open_disk_eq [OF big, of h, folded st'_def]
  have d: "length (Directory st) = 64" "\<forall>e \<in> set (Directory st). length (FileName e) = 32"
    using assms(1) by (simp_all add: bmfs_ok_def dir_ok_def)
  have dir: "Directory st' = Directory st" by (simp add: eq assms(2) bytes_directory_directory_bytes [OF d])
  have u: "length (content (disk st)) div 1048576 = unat (disksize st)" using assms(1) by (simp add: bmfs_ok_def)
  have size: "disksize st' = disksize st" unfolding eq(2) u by simp
  show "bmfs_ok st'"
    using assms(1,3) dir size eq(1) unfolding bmfs_ok_def last_block_def by (metis stream.select_convs(1,3))
  show "contents st' = contents st" by (rule ext) (simp add: contents_def dir eq)
  show "content (disk st') = content (disk st)" "local_files st' = files h" by (simp_all add: eq)
qed

lemma formatted_system_area:
  assumes "8192 \<le> length bs" "8192 \<le> length bs'" "system_area bs' = system_area bs"
  shows "formatted (open_disk h' bs') = formatted (open_disk h bs)"
proof -
  have "take 4096 bs' = take 4096 bs" using assms by (simp add: system_area_def)
  then have "take 512 (drop 1024 (take 4096 bs')) = take 512 (drop 1024 (take 4096 bs))" by simp
  then have "take 512 (drop 1024 bs') = take 512 (drop 1024 bs)" by (simp add: drop_take min_def)
  then show ?thesis using open_disk_eq(5) assms(1,2) by (simp add: formatted_def)
qed

section \<open>Writing and reading\<close>

lemma main_on_disk:
  assumes "files h dn = Some bs" "writable h dn" "formatted (open_disk h bs)" "cmd = chars ''write'' \<or> cmd = chars ''read'' \<or> cmd = chars ''delete''"
  shows "bmfs_main h qsort [dn, cmd, f] stdin = map_option (\<lambda>st. (0, st))
    (if cmd = chars ''write'' then write_file_bmfs (Some f) (open_disk h bs)
     else if cmd = chars ''read'' then read_file (writable h) (Some f) (open_disk h bs)
     else delete_file (Some f) (open_disk h bs))"
  using assms(4,1-3)
  by (elim disjE) (simp_all add: bmfs_main_def command_def strcasecmp_eq_def chars_def toupper_def)

text \<open>C17. 
  A file that one run of the program writes is read back by any later run on the disk that it left, byte for byte; the
  other files and the boot area of the disk, in which the boot loader and the kernel are, stay as they were.
\<close>

theorem write_then_read:
  assumes "files h dn = Some bs" "writable h dn" "bmfs_ok (open_disk h bs)" "formatted (open_disk h bs)"
    and "0 \<notin> set f" "catalogue (Directory (open_disk h bs)) f = Some (s, r, z)"
    and "files h f = Some c" "length c \<le> unat r * 2097152" "length c < 2 ^ 31"
  shows "\<exists>st1. bmfs_main h qsort [dn, chars ''write'', f] stdin = Some (0, st1) \<and>
     contents st1 = (contents (open_disk h bs))(f \<mapsto> c) \<and> system_area (content (disk st1)) = system_area bs \<and>
     (\<forall>h2. files h2 dn = Some (content (disk st1)) \<and> writable h2 dn \<and> writable h2 f \<and> length (content (disk st1)) \<le> room h2 \<longrightarrow>
       (\<exists>st2. bmfs_main h2 qsort [dn, chars ''read'', f] stdin = Some (0, st2) \<and> local_files st2 f = Some c \<and>
          content (disk st2) = content (disk st1)))"
proof -
  let ?st = "open_disk h bs"
  have "8192 \<le> length bs"
  proof (rule ccontr)
    assume "\<not> 8192 \<le> length bs"
    moreover have "disk ?st = \<lparr>content = bs, pos = 0, limit = room h, failed = False\<rparr>"
      by (simp add: open_disk_def fread_def fseek_def Let_def)
    ultimately show False using big_disk [OF assms(3)] by (simp add: MiB2_def)
  qed
  note eq = open_disk_eq [OF this, of h]
  have "local_files ?st f = Some c" using assms(7) by (simp add: eq)
  then obtain st1 where w: "write_file_bmfs (Some f) ?st = Some st1" "bmfs_ok st1" "contents st1 = (contents ?st)(f \<mapsto> c)"
    "system_area (content (disk st1)) = system_area bs" "take 4096 (drop 4096 (content (disk st1))) = directory_bytes (Directory st1)"
    using write_file_stores [OF assms(3,5,6)] assms(8,9) by (auto simp: MiB2_def int_limit_def eq)
  have run: "bmfs_main h qsort [dn, chars ''write'', f] stdin = Some (0, st1)"
    using main_on_disk [OF assms(1,2,4)] w(1) by simp
  have "\<exists>st2. bmfs_main h2 qsort [dn, chars ''read'', f] stdin = Some (0, st2) \<and> local_files st2 f = Some c \<and>
      content (disk st2) = content (disk st1)"
    if h2: "files h2 dn = Some (content (disk st1))" "writable h2 dn" "writable h2 f" "length (content (disk st1)) \<le> room h2" for h2
  proof -
    note re = reopen [OF w(2,5) h2(4)]
    have "8192 \<le> length (content (disk st1))" using big_disk [OF w(2)] by (simp add: MiB2_def)
    then have fm: "formatted (open_disk h2 (content (disk st1)))"
      using formatted_system_area [OF \<open>8192 \<le> length bs\<close> _ w(4)] assms(4) by blast
    have "contents (open_disk h2 (content (disk st1))) f = Some c" using re(2) w(3) by simp
    from read_file_fetches [OF re(1) assms(5) this, of "writable h2"] assms(9) h2(3)
    obtain st2 where "read_file (writable h2) (Some f) (open_disk h2 (content (disk st1))) = Some st2"
      "local_files st2 f = Some c" "content (disk st2) = content (disk st1)"
      by (auto simp: int_limit_def re(3))
    moreover have "chars ''read'' \<noteq> chars ''write''" by (simp add: chars_def)
    ultimately show ?thesis using main_on_disk [OF h2(1,2) fm, of "chars ''read''"] by simp
  qed
  then show ?thesis using run w(3,4) by blast
qed

section \<open>Creating and deleting\<close>

text \<open>C16. 
  \<open>create\<close> puts a new file at the first place with enough free blocks whenever there is one: on a well-formed disk, for
  a name that is free and while the directory has an end mark, whatever \<open>qsort\<close> does that sorts. No other file and no
  byte of the boot area changes, and the disk stays well formed.
\<close>

theorem create_first_fit:
  assumes "sorting qsort" "bmfs_ok st" "\<exists>e \<in> set (Directory st). at_end e" "name_ok f" "contents st f = None"
    and "1 \<le> mib" "mib < 2 ^ 32" "first_fit (last_block st) ((mib + 1) div 2) (live (Directory st)) s"
  shows "\<exists>st'. create qsort f (of_nat mib) st = Some st' \<and> bmfs_ok st' \<and> contents st' = (contents st)(f \<mapsto> []) \<and>
     catalogue (Directory st') = (catalogue (Directory st))(f \<mapsto> (of_nat s, of_nat ((mib + 1) div 2), 0)) \<and>
     system_area (content (disk st')) = system_area (content (disk st))"
  by (rule sorting.create_adds [OF assms])

text \<open>An empty disk of 24 MiB: 12 blocks, of which 1 to 10 are for files.\<close>

definition empty_disk :: bmfs where
  "empty_disk = \<lparr>disk = \<lparr>content = replicate 25165824 0, pos = 0, limit = 25165824, failed = False\<rparr>, disksize = 24,
     Directory = replicate 64 blank, DiskInfo = fs_tag @ replicate 508 0, local_files = Map.empty, out = []\<rparr>"

lemma at_end_blank [simp]: "at_end blank"
  by (simp add: at_end_def blank_def)

lemma length_name_blank: "length (FileName blank) = 32"
  by (simp add: blank_def)

lemma live_blank [simp]: "live (replicate n blank) = []"
  by (cases n) (simp_all add: live_Cons)

lemma empty_disk_ok: "bmfs_ok empty_disk" "last_block empty_disk = 11" "contents empty_disk = Map.empty"
proof -
  show "last_block empty_disk = 11" by (simp add: last_block_def empty_disk_def)
  then show "bmfs_ok empty_disk"
    by (simp add: bmfs_ok_def dir_ok_def sizes_ok_def areas_ok_def) (simp add: empty_disk_def length_name_blank)
  show "contents empty_disk = Map.empty" by (rule ext) (simp add: contents_def catalogue_def empty_disk_def)
qed

theorem create_first_fit_witness:
  "\<exists>st'. create isort (chars ''a'') 5 empty_disk = Some st' \<and> bmfs_ok st' \<and> contents st' = [chars ''a'' \<mapsto> []] \<and>
     catalogue (Directory st') = [chars ''a'' \<mapsto> (1, 3, 0)] \<and>
     system_area (content (disk st')) = system_area (content (disk empty_disk))"
proof -
  have d: "Directory empty_disk = replicate 64 blank" by (simp add: empty_disk_def)
  have "catalogue (Directory empty_disk) = Map.empty" by (simp add: catalogue_def d)
  moreover have "\<exists>e \<in> set (Directory empty_disk). at_end e" by (simp add: d)
  moreover have "name_ok (chars ''a'')" by (simp add: name_ok_def chars_def)
  moreover have "first_fit (last_block empty_disk) ((5 + 1) div 2) (live (Directory empty_disk)) 1"
    by (simp add: first_fit_def fits_def empty_disk_ok(2) d)
  ultimately show ?thesis
    using create_first_fit [OF isort.sorting_axioms empty_disk_ok(1), of "chars ''a''" 5 1] by (simp add: empty_disk_ok(3))
qed

text \<open>Without room and without deleted entries it fails and changes nothing.\<close>

lemma create_no_room:
  assumes "sorting qsort" "bmfs_ok st" "\<exists>e \<in> set (Directory st). at_end e" "name_ok f" "contents st f = None"
    and "mib < 2 ^ 32" "\<forall>s. \<not> fits (last_block st) ((mib + 1) div 2) (live (Directory st)) s"
    and "\<forall>e \<in> set (used (Directory st)). \<not> deleted e"
  shows "\<exists>n. create qsort f (of_nat mib) st = Some (say [Creating, CannotCreate n] st)"
proof -
  define m :: u64 where "m = (if (of_nat mib :: u64) mod 2 \<noteq> 0 then of_nat mib + 1 else of_nat mib)"
  define b where "b = m div 2"
  have b: "unat b = (mib + 1) div 2" unfolding b_def m_def by (rule blocks_requested) (rule assms(6))
  have "catalogue (Directory st) f = None" using assms(5) by (simp add: contents_def)
  then have found: "findfile (Some f) (Directory st) = Some None"
    using findfile_None [OF ok_dir [OF assms(2)]] assms(4) by (simp add: name_ok_def)
  have gap: "find_gap b (ucast (disksize st div 2) - 1) 1
      (qsort StartingBlockCmp (take (length (used (Directory st))) (Directory st))) = 0"
    by (rule sorting.gap_missing [OF assms(1) ok_dir [OF assms(2)]]) (use assms(2,7,8) b in \<open>simp_all add: bmfs_ok_def\<close>)
  show ?thesis
    unfolding create_def Let_def m_def [symmetric] b_def [symmetric]
    using found gap by (auto simp: count_entries_used [OF assms(3)])
qed

text \<open>
  \<open>delete\<close> takes the named file out of the map and leaves the other files and the boot area alone; the disk stays well
  formed, and the blocks are free for the next file.
\<close>

theorem delete_frees:
  assumes "bmfs_ok st" "0 \<notin> set f" "catalogue (Directory st) f = Some (s, r, z)"
  shows "\<exists>st'. delete_file (Some f) st = Some st' \<and> bmfs_ok st' \<and> contents st' = (contents st)(f := None) \<and>
     system_area (content (disk st')) = system_area (content (disk st)) \<and> findfile (Some f) (Directory st') = Some None \<and>
     fits (last_block st') (unat r) (live (Directory st')) (unat s)"
proof -
  have "contents st f \<noteq> None" using assms(3) by (simp add: contents_def)
  from delete_file_removes [OF assms(1,2) this] obtain st' where d: "delete_file (Some f) st = Some st'" "bmfs_ok st'"
    "contents st' = (contents st)(f := None)" "catalogue (Directory st') = (catalogue (Directory st))(f := None)"
    "system_area (content (disk st')) = system_area (content (disk st))" "disksize st' = disksize st" by blast
  have gone: "findfile (Some f) (Directory st') = Some None"
    by (rule findfile_None [OF ok_dir [OF d(2)] assms(2)]) (simp add: d(4))
  obtain e where e: "e \<in> set (live (Directory st))" "name e = f" "StartingBlock e = s" "ReservedBlocks e = r"
    by (rule catalogue_live [OF assms(3)])
  have ab: "1 \<le> start e" "fin e \<le> last_block st" using assms(1) e(1) by (auto simp: bmfs_ok_def dir_ok_def areas_ok_def)
  have "fin x \<le> start e \<or> fin e \<le> start x" if x: "x \<in> set (live (Directory st'))" for x
  proof -
    have "catalogue (Directory st') (name x) = Some (StartingBlock x, ReservedBlocks x, FileSize x)"
      by (rule catalogue_Some [OF _ x]) (use d(2) in \<open>simp add: bmfs_ok_def dir_ok_def\<close>)
    then have "catalogue (Directory st) (name x) = Some (StartingBlock x, ReservedBlocks x, FileSize x)" "name x \<noteq> f"
      by (auto simp: d(4) split: if_splits)
    then obtain y where "y \<in> set (live (Directory st))" "name y \<noteq> f" "StartingBlock y = StartingBlock x" "ReservedBlocks y = ReservedBlocks x"
      by (metis catalogue_live)
    then show ?thesis using live_apart [OF assms(1) _ e(1), of y] e(2) by (auto simp: apart_areas_def start_def fin_def)
  qed
  then have "fits (last_block st') (unat r) (live (Directory st')) (unat s)"
    using ab e(3,4) by (simp add: fits_def last_block_def d(6) start_def fin_def)
  then show ?thesis using d gone by blast
qed

section \<open>How create destroys files\<close>

text \<open>A one-letter file in a fresh entry.\<close>

definition letter_entry :: "u8 \<Rightarrow> u64 \<Rightarrow> u64 \<Rightarrow> BMFSEntry" where
  "letter_entry c s b = \<lparr>FileName = c # replicate 31 0, StartingBlock = s, ReservedBlocks = b, FileSize = 0, Unused = 0\<rparr>"

lemma letter_entry_simps [simp]:
  "c \<noteq> 0 \<Longrightarrow> \<not> at_end (letter_entry c s b)" "deleted (letter_entry c s b) = (c = 1)"
  "FileName (letter_entry c s b) ! 0 = c" "StartingBlock (letter_entry c s b) = s" "ReservedBlocks (letter_entry c s b) = b"
  "FileSize (letter_entry c s b) = 0"
  by (simp_all add: letter_entry_def at_end_def deleted_def)

lemma same_letter: "same_name [x] (FileName (letter_entry c s b)) = Some (x = c)"
  by (cases "x = c") (simp_all add: letter_entry_def numeral_eq_Suc)

lemma name_letter [simp]: "c \<noteq> 0 \<Longrightarrow> name (letter_entry c s b) = [c]"
  by (simp add: letter_entry_def name_def numeral_eq_Suc)

lemma delete_letter: "(letter_entry c s b)\<lparr>FileName := (FileName (letter_entry c s b))[0 := 1]\<rparr> = letter_entry 1 s b"
  by (simp add: letter_entry_def)

text \<open>A one-letter file is added to a directory of such entries.\<close>

lemma strcpy_letter: "strcpy_name [x] (c # replicate 31 0) = Some (x # replicate 31 0)"
  by (simp add: strcpy_name_def numeral_eq_Suc)

lemma blank_letter: "blank = letter_entry 0 0 0"
proof -
  have "replicate 32 (0 :: u8) = 0 # replicate 31 0" using replicate_Suc [of 31 "0 :: u8"] by simp
  then show ?thesis by (simp add: blank_def letter_entry_def)
qed

lemma name_blank: "FileName blank = 0 # replicate 31 0"
  by (simp add: blank_letter letter_entry_def)

lemma new_letter [simp]:
  "strcpy_name [x] (FileName (letter_entry c s b)) = Some (x # replicate 31 0)"
  "(letter_entry c s b)\<lparr>FileName := x # replicate 31 0, StartingBlock := s', ReservedBlocks := b', FileSize := 0\<rparr> = letter_entry x s' b'"
  "strcpy_name [x] (FileName blank) = Some (x # replicate 31 0)"
  "blank\<lparr>FileName := x # replicate 31 0, StartingBlock := s', ReservedBlocks := b', FileSize := 0\<rparr> = letter_entry x s' b'"
  "blank\<lparr>FileName := (FileName blank)[0 := 0]\<rparr> = blank"
  by (simp_all add: blank_letter) (simp_all add: letter_entry_def strcpy_letter)

lemma letter_blank_simps [simp]: "\<not> deleted blank"
  by (simp add: deleted_def name_blank)

text \<open>One call of \<open>create\<close>, on the directory alone.\<close>

lemma create_step:
  assumes "findfile (Some f) (Directory st) = Some None" "count_entries 0 None (Directory st) = (u, Some k)"
    and "find_gap (m div 2) (ucast (disksize st div 2) - 1) 1 (isort StartingBlockCmp (take u (Directory st))) = s" "s \<noteq> 0"
    and "add_record k u f s (m div 2) (Directory st) = Some d" "m mod 2 = 0"
  shows "\<exists>st'. create isort f m st = Some st' \<and> Directory st' = d \<and> disksize st' = disksize st"
  using assms by (simp add: create_def Let_def flush_directory_def)

lemma delete_step:
  assumes "findfile (Some f) (Directory st) = Some (Some (j, e))"
  shows "\<exists>st'. delete_file (Some f) st = Some st' \<and> disksize st' = disksize st \<and>
     Directory st' = (Directory st)[j := (Directory st ! j)\<lparr>FileName := (FileName (Directory st ! j))[0 := 1]\<rparr>]"
  using assms by (simp add: delete_file_def Let_def flush_directory_def)

text \<open>C18. 
  A deleted entry makes \<open>create\<close> give out blocks in use: the loop over the sorted entries takes the end of the deleted
  file for the end of the files, once the disk is full. On an empty disk of 24 MiB, after creating a file of 4 MiB and
  one of 16 MiB and deleting the first, a file of 6 MiB is put on the blocks of the second.
\<close>

theorem create_after_delete_overlaps:
  "\<exists>st1 st2 st3 st4. create isort [97] 4 empty_disk = Some st1 \<and> create isort [98] 16 st1 = Some st2 \<and>
     delete_file (Some [97]) st2 = Some st3 \<and> create isort [99] 6 st3 = Some st4 \<and>
     catalogue (Directory st4) [98] = Some (3, 8, 0) \<and> catalogue (Directory st4) [99] = Some (3, 3, 0)"
proof -
  let ?z = "blank # replicate 60 blank"
  have rep: "replicate 64 blank = blank # blank # blank # ?z" by (simp add: numeral_eq_Suc flip: replicate_Suc)
  have d0: "Directory empty_disk = blank # blank # blank # ?z" "disksize empty_disk = 24"
    by (simp_all only: rep empty_disk_def bmfs.simps)
  obtain st1 where 1: "create isort [97] 4 empty_disk = Some st1" "Directory st1 = letter_entry 97 1 2 # blank # blank # ?z" "disksize st1 = 24"
    using create_step [of "[97]" empty_disk 0 0 4 1 "letter_entry 97 1 2 # blank # blank # ?z"]
    by (auto simp: d0 findfile_def add_record_def Let_def)
  obtain st2 where 2: "create isort [98] 16 st1 = Some st2" "Directory st2 = letter_entry 97 1 2 # letter_entry 98 3 8 # blank # ?z" "disksize st2 = 24"
    using create_step [of "[98]" st1 1 1 16 3 "letter_entry 97 1 2 # letter_entry 98 3 8 # blank # ?z"]
    by (auto simp: 1 findfile_def add_record_def Let_def same_letter)
  obtain st3 where 3: "delete_file (Some [97]) st2 = Some st3" "Directory st3 = letter_entry 1 1 2 # letter_entry 98 3 8 # blank # ?z" "disksize st3 = 24"
    using delete_step [of "[97]" st2 0 "letter_entry 97 1 2"] by (auto simp: 2 findfile_def same_letter delete_letter)
  obtain st4 where 4: "create isort [99] 6 st3 = Some st4" "Directory st4 = letter_entry 99 3 3 # letter_entry 98 3 8 # blank # ?z"
    using create_step [of "[99]" st3 2 0 6 3 "letter_entry 99 3 3 # letter_entry 98 3 8 # blank # ?z"]
    by (auto simp: 3 findfile_def add_record_def Let_def same_letter StartingBlockCmp_def)
  have "catalogue (Directory st4) [98] = Some (3, 8, 0) \<and> catalogue (Directory st4) [99] = Some (3, 3, 0)"
    by (simp add: 4 catalogue_def live_Cons)
  then show ?thesis using 1(1) 2(1) 3(1) 4(1) by blast
qed

lemma count_entries_full: "\<forall>e \<in> set d. \<not> at_end e \<Longrightarrow> count_entries i (Some k) d = (0, Some k)"
  by (induction d arbitrary: i) auto

text \<open>C19. 
  A directory in use up to its last entry has no end mark, and the number of used entries is taken for 0: when its first
  entry is a deleted one, \<open>create\<close> puts the new file on the first block whatever is there, and its end mark cuts all the
  other files off.
\<close>

theorem full_directory_forgets:
  assumes "sorting qsort" "length (Directory st) = 64" "\<forall>e \<in> set (Directory st). length (FileName e) = 32 \<and> \<not> at_end e"
    and "deleted (Directory st ! 0)" "name_ok f" "findfile (Some f) (Directory st) = Some None"
    and "1 \<le> mib" "mib < 2 ^ 32" "4 \<le> unat (disksize st)" "(mib + 1) div 2 < last_block st"
  shows "\<exists>st'. create qsort f (of_nat mib) st = Some st' \<and> catalogue (Directory st') = [f \<mapsto> (1, of_nat ((mib + 1) div 2), 0)]"
proof -
  let ?d = "Directory st"
  define m :: u64 where "m = (if (of_nat mib :: u64) mod 2 \<noteq> 0 then of_nat mib + 1 else of_nat mib)"
  define b where "b = m div 2"
  have b: "unat b = (mib + 1) div 2" unfolding b_def m_def by (rule blocks_requested) (rule assms(8))
  have bw: "b = of_nat ((mib + 1) div 2)" unfolding b [symmetric] by simp
  have "2 \<le> unat (disksize st)" using assms(9) by simp
  note l = last_block_word [OF this]
  have "unat (ucast (disksize st div 2) - 1 - 1 :: u64) = last_block st - 1"
  proof (subst unat_sub)
    show "(1 :: u64) \<le> ucast (disksize st div 2) - 1" using assms(9) by (simp add: word_le_nat_alt l last_block_def)
  qed (simp add: l)
  then have "b \<le> ucast (disksize st div 2) - 1 - 1" using assms(10) b by (simp add: word_le_nat_alt)
  moreover have "qsort StartingBlockCmp [] = []" using sorting.mset_qsort [OF assms(1), of StartingBlockCmp "[]"] by simp
  ultimately have gap: "find_gap b (ucast (disksize st div 2) - 1) 1 (qsort StartingBlockCmp (take 0 ?d)) = 1" by simp
  obtain e d where d: "?d = e # d" using assms(2) by (cases ?d) auto
  then have count: "count_entries 0 None ?d = (0, Some 0)"
    using assms(3,4) count_entries_full [of d "Suc 0" 0] by simp
  have e: "length (FileName e) = 32" using assms(3) d by simp
  note new = new_entry_props [OF assms(5) e, of 1 b]
  obtain x d' where x: "d = x # d'" using assms(2) d by (cases d) auto
  then have lx: "length (FileName x) = 32" using assms(3) d by simp
  let ?d' = "new_entry f 1 b e # x\<lparr>FileName := (FileName x)[0 := 0]\<rparr> # d'"
  have rec: "add_record 0 0 f 1 b ?d = Some ?d'"
    using assms(5) e by (simp add: add_record_def strcpy_name_def name_ok_def new_entry_def d x Let_def)
  have "at_end (x\<lparr>FileName := (FileName x)[0 := 0]\<rparr>)" unfolding at_end_def using lx by simp
  then have "live ?d' = [new_entry f 1 b e]" using new by (simp add: live_Cons)
  then have "catalogue ?d' = [f \<mapsto> (1, b, 0)]" using new(1) by (simp add: catalogue_def new_entry_def)
  moreover have "create qsort f (of_nat mib) st = Some (say [Creating, Complete] (flush_directory (st\<lparr>Directory := ?d'\<rparr>)))"
    unfolding create_def Let_def m_def [symmetric] b_def [symmetric]
    using assms(6) gap count rec by simp
  ultimately show ?thesis unfolding bw by (intro exI conjI) (auto simp: flush_directory_def)
qed

lemma findfile_loop_absent:
  "\<forall>e \<in> set d. \<not> at_end e \<and> (\<not> deleted e \<longrightarrow> same_name f (FileName e) = Some False) \<Longrightarrow> findfile_loop (Some f) i d = Some None"
  by (induction d arbitrary: i) auto

text \<open>A disk of 256 MiB with 63 files of one block, and the entry of a deleted one in front.\<close>

definition full_disk :: bmfs where
  "full_disk = empty_disk\<lparr>disksize := 256,
     Directory := letter_entry 1 64 1 # map (\<lambda>i. letter_entry (of_nat (i + 2)) (of_nat (i + 1)) 1) [0 ..< 63]\<rparr>"

theorem full_directory_forgets_witness:
  "\<exists>st'. create isort [200] (of_nat 4) full_disk = Some st' \<and> catalogue (Directory st') = [[200] \<mapsto> (1, of_nat ((4 + 1) div 2), 0)]"
proof (rule full_directory_forgets [OF isort.sorting_axioms])
  have small: "(of_nat (i + 2) :: u8) \<noteq> 0 \<and> (of_nat (i + 2) :: u8) \<noteq> 1 \<and> (of_nat (i + 2) :: u8) \<noteq> 200" if "i < 63" for i
  proof -
    define x :: u8 where "x = of_nat (i + 2)"
    have "unat x = i + 2" unfolding x_def using that by (subst unat_of_nat) (simp add: take_bit_nat_eq_self)
    then have "x \<noteq> 0 \<and> x \<noteq> 1 \<and> x \<noteq> 200" using that by auto
    then show ?thesis unfolding x_def .
  qed
  have ne: "\<forall>e \<in> set (Directory full_disk). \<not> at_end e \<and> (\<not> deleted e \<longrightarrow> same_name [200] (FileName e) = Some False)"
    using small by (auto simp: full_disk_def same_letter)
  then show "findfile (Some [200]) (Directory full_disk) = Some None" unfolding findfile_def by (rule findfile_loop_absent)
  show "\<forall>e \<in> set (Directory full_disk). length (FileName e) = 32 \<and> \<not> at_end e"
    using ne by (auto simp: full_disk_def letter_entry_def)
  show "deleted (Directory full_disk ! 0)" "length (Directory full_disk) = 64" by (simp_all add: full_disk_def)
qed (simp_all add: full_disk_def name_ok_def last_block_def)

section \<open>A disk with a file\<close>

definition one_file :: "BMFSEntry list" where
  "one_file = letter_entry 97 1 2 # replicate 63 blank"

lemma one_file_live: "live one_file = [letter_entry 97 1 2]"
  by (simp add: one_file_def live_Cons)

lemma one_file_lengths: "length one_file = 64" "\<forall>e \<in> set one_file. length (FileName e) = 32"
  by (auto simp: one_file_def length_name_blank) (simp add: letter_entry_def)

lemma one_file_dir: "dir_ok 11 one_file" "sizes_ok (live one_file)" "catalogue one_file = [[97] \<mapsto> (1, 2, 0)]"
proof -
  have "0 \<in> set (FileName (letter_entry 97 1 2))" by (simp add: letter_entry_def)
  then show "dir_ok 11 one_file"
    unfolding dir_ok_def one_file_live using one_file_lengths by (simp add: areas_ok_def start_def fin_def)
qed (simp_all add: sizes_ok_def one_file_live catalogue_def)

lemma delete_frees_witness:
  "\<exists>st'. delete_file (Some [97]) (empty_disk\<lparr>Directory := one_file\<rparr>) = Some st' \<and> bmfs_ok st' \<and>
     contents st' = (contents (empty_disk\<lparr>Directory := one_file\<rparr>))([97] := None) \<and>
     system_area (content (disk st')) = system_area (content (disk (empty_disk\<lparr>Directory := one_file\<rparr>))) \<and>
     findfile (Some [97]) (Directory st') = Some None \<and> fits (last_block st') (unat (2 :: u64)) (live (Directory st')) (unat (1 :: u64))"
proof (rule delete_frees)
  have "last_block (empty_disk\<lparr>Directory := one_file\<rparr>) = 11" by (simp add: last_block_def empty_disk_def)
  then show "bmfs_ok (empty_disk\<lparr>Directory := one_file\<rparr>)"
    using one_file_dir empty_disk_ok(1) by (simp add: bmfs_ok_def)
  show "catalogue (Directory (empty_disk\<lparr>Directory := one_file\<rparr>)) [97] = Some (1, 2, 0)" by (simp add: one_file_dir)
qed simp

definition one_file_bytes :: bytes where
  "one_file_bytes = replicate 1024 0 @ fs_tag @ replicate 508 0 @ replicate 2560 0 @ directory_bytes one_file @ replicate (25165824 - 8192) 0"

definition one_file_host :: "bytes \<Rightarrow> host" where
  "one_file_host bs = \<lparr>files = [chars ''disk'' \<mapsto> bs, [97] \<mapsto> [1, 2, 3]], writable = (\<lambda>_. True), room = length bs, heap = True\<rparr>"

lemma one_file_open:
  "bmfs_ok (open_disk (one_file_host one_file_bytes) one_file_bytes)" "formatted (open_disk (one_file_host one_file_bytes) one_file_bytes)"
  "Directory (open_disk (one_file_host one_file_bytes) one_file_bytes) = one_file"
proof -
  let ?st = "open_disk (one_file_host one_file_bytes) one_file_bytes"
  have ld: "length (directory_bytes one_file) = 4096" using length_directory_bytes [OF one_file_lengths(2)] one_file_lengths(1) by simp
  then have len: "length one_file_bytes = 25165824" by (simp add: one_file_bytes_def)
  then have "8192 \<le> length one_file_bytes" by simp
  note eq = open_disk_eq [OF this, of "one_file_host one_file_bytes"]
  have "take 4096 (drop 4096 one_file_bytes) = directory_bytes one_file" using ld by (simp add: one_file_bytes_def)
  then show dir: "Directory ?st = one_file" by (simp add: eq bytes_directory_directory_bytes [OF one_file_lengths])
  have "disksize ?st = 24" by (simp add: eq len)
  moreover have "last_block ?st = 11" by (simp add: last_block_def eq len)
  ultimately show "bmfs_ok ?st"
    using one_file_dir by (simp only: bmfs_ok_def dir eq(1) stream.select_convs) (simp add: one_file_host_def len)
  have "take 512 (drop 1024 one_file_bytes) = fs_tag @ replicate 508 0" by (simp add: one_file_bytes_def)
  then have "DiskInfo ?st = fs_tag @ 0 # replicate 507 0" unfolding eq using replicate_Suc [of 507 "0 :: u8"] by simp
  then show "formatted ?st" by (simp add: formatted_def strcasecmp_eq_def fs_tag_def)
qed

theorem write_then_read_witness:
  "\<exists>st1 st2. bmfs_main (one_file_host one_file_bytes) isort [chars ''disk'', chars ''write'', [97]] [] = Some (0, st1) \<and>
     bmfs_main (one_file_host (content (disk st1))) isort [chars ''disk'', chars ''read'', [97]] [] = Some (0, st2) \<and>
     local_files st2 [97] = Some [1, 2, 3]"
proof -
  let ?h = "one_file_host one_file_bytes"
  have f: "files (one_file_host bs) (chars ''disk'') = Some bs" "files (one_file_host bs) [97] = Some [1, 2, 3]"
    "writable (one_file_host bs) n" "room (one_file_host bs) = length bs" for bs n
    by (simp_all add: one_file_host_def chars_def)
  have cat: "catalogue (Directory (open_disk ?h one_file_bytes)) [97] = Some (1, 2, 0)"
    by (simp add: one_file_open one_file_dir)
  obtain st1 where 1: "bmfs_main ?h isort [chars ''disk'', chars ''write'', [97]] [] = Some (0, st1)"
    "\<forall>h2. files h2 (chars ''disk'') = Some (content (disk st1)) \<and> writable h2 (chars ''disk'') \<and> writable h2 [97] \<and>
        length (content (disk st1)) \<le> room h2 \<longrightarrow>
       (\<exists>st2. bmfs_main h2 isort [chars ''disk'', chars ''read'', [97]] [] = Some (0, st2) \<and> local_files st2 [97] = Some [1, 2, 3] \<and>
          content (disk st2) = content (disk st1))"
    using write_then_read [OF f(1,3) one_file_open(1,2) _ cat f(2), of isort "[]"] by auto
  then show ?thesis using f(1,3,4) [of "content (disk st1)"] by (metis order_refl)
qed

section \<open>The image of the build\<close>

text \<open>C14. 
  From the build to the running kernel: the disk that \<open>initialize\<close> makes of what the module packer packed holds, behind
  the boot loader and the kernel, the bytes from which \<open>loadModules\<close> puts every module file at its address, once they are
  in memory at \<open>a\<close> and the modules' places overlap neither them nor each other.
\<close>

theorem built_image_loads:
  assumes "packer True fs (kf # mods) = (0, Some k)" "length mods < 2 ^ 32" "\<forall>f \<in> set mods. length (the (fs f)) < 2 ^ 32"
    and "disk_size sz = Inr d" "unat d \<le> room h" "heap h" "writable h dn"
    and "files h m = Some mb" "512 \<le> length mb" "files h bf = Some b" "files h pk = Some k"
    and "8192 + length b + length k \<le> room h"
  defines "payload_at \<equiv> 8192 + length b + length (the (fs kf))" and "payload_size \<equiv> length k - length (the (fs kf))"
  shows "\<exists>st'. initialize h dn sz (Some m) (Some bf) (Some pk) st = (0, st') \<and>
     (\<forall>mem a ts n. holds mem a (take payload_size (drop payload_at (content (disk st')))) \<and>
        apart a payload_size ts (map (\<lambda>f. the (fs f)) mods) \<and> length (nbuf n) = 64 \<longrightarrow>
        (\<exists>mem' n'. loadModules a ts (mem, n) = Some (mem', n') \<and>
           (\<forall>i < length mods. fs (mods ! i) \<noteq> None \<and> holds mem' (ts ! i) (the (fs (mods ! i))))))"
proof -
  obtain st' where st': "initialize h dn sz (Some m) (Some bf) (Some pk) st = (0, st')" "content (disk st') = image (unat d) mb b k"
    using initialize_image [OF assms(4-12)] by blast
  have "drop 8192 (image (unat d) mb b k) = b @ k @ replicate (unat d - (8192 + length b + length k)) 0"
    using assms(9) by (simp add: image_def)
  then have "drop (length (the (fs kf)) + length b) (drop 8192 (image (unat d) mb b k)) =
      drop (length (the (fs kf))) (k @ replicate (unat d - (8192 + length b + length k)) 0)" by simp
  then have "take payload_size (drop payload_at (content (disk st'))) = drop (length (the (fs kf))) k"
    by (simp add: st'(2) payload_at_def payload_size_def ac_simps)
  then show ?thesis
    using st'(1) pack_load [OF assms(1) _ _ assms(2,3)] unfolding payload_size_def by (metis (no_types, lifting))
qed

definition packed_sample :: bytes where
  "packed_sample = [1, 2, 3, 2, 0, 0, 0, 4, 0, 0, 0, 7, 8, 9, 10, 1, 0, 0, 0, 5]"

definition build_host :: host where
  "build_host = \<lparr>files = [chars ''mbr'' \<mapsto> replicate 512 235, chars ''boot'' \<mapsto> [144], chars ''packed'' \<mapsto> packed_sample],
     writable = (\<lambda>_. True), room = 6291456, heap = True\<rparr>"

lemma build_host_simps:
  "files build_host (chars ''mbr'') = Some (replicate 512 235)" "files build_host (chars ''boot'') = Some [144]"
  "files build_host (chars ''packed'') = Some packed_sample" "writable build_host n" "room build_host = 6291456" "heap build_host"
  by (simp_all add: build_host_def chars_def)

lemma six_MiB: "disk_size (chars ''6291456'') = Inr 6291456"
  by (simp add: chars_def disk_size_def isdigit_def minimumDiskSize_def)

theorem initialize_writes_image_witness:
  "\<exists>st'. initialize build_host (chars ''img'') (chars ''6291456'') (Some (chars ''mbr'')) (Some (chars ''boot'')) (Some (chars ''packed''))
      (at_start build_host) = (0, st') \<and> content (disk st') = image (unat (6291456 :: u64)) (replicate 512 235) [144] packed_sample"
  by (rule initialize_writes_image [OF six_MiB _ _ _ build_host_simps(1) _ build_host_simps(2,3)])
    (simp_all add: build_host_simps packed_sample_def)

theorem built_image_loads_witness:
  "\<exists>st' m' n'. initialize build_host (chars ''img'') (chars ''6291456'') (Some (chars ''mbr'')) (Some (chars ''boot'')) (Some (chars ''packed''))
      (at_start build_host) = (0, st') \<and>
     loadModules 4096 [0x400000, 0x500000] (place 4096 (take 17 (drop 8196 (content (disk st')))), \<lparr>nv = \<lambda>_. 0, npos = 0, nbuf = replicate 64 48\<rparr>)
       = Some (m', n') \<and>
     (\<forall>i < Suc (Suc 0). sampleFiles ([''code'', ''data''] ! i) \<noteq> None \<and>
       holds m' ([0x400000, 0x500000] ! i) (the (sampleFiles ([''code'', ''data''] ! i))))"
proof -
  have pack: "packer True sampleFiles (''kernel'' # [''code'', ''data'']) = (0, Some packed_sample)"
    by (simp add: packer_def checkFiles_def sampleFiles_def buildImage_def write_size_def le32_def packed_sample_def write_file.simps BUFFER_SIZE_def)
  have ap: "apart 4096 (length packed_sample - length (the (sampleFiles ''kernel''))) [0x400000, 0x500000]
      (map (\<lambda>f. the (sampleFiles f)) [''code'', ''data''])"
    by (simp add: apart_def sampleFiles_def All_less_Suc2 span_disjoint packed_sample_def)
  have sz: "8192 + length [144 :: u8] + length (the (sampleFiles ''kernel'')) = 8196"
    "length packed_sample - length (the (sampleFiles ''kernel'')) = 17" by (simp_all add: sampleFiles_def packed_sample_def)
  have small: "\<forall>f \<in> set [''code'', ''data'']. length (the (sampleFiles f)) < 2 ^ 32" by (simp add: sampleFiles_def)
  have len: "length [''code'', ''data''] < 2 ^ 32" by simp
  obtain st' where st': "initialize build_host (chars ''img'') (chars ''6291456'') (Some (chars ''mbr'')) (Some (chars ''boot''))
      (Some (chars ''packed'')) (at_start build_host) = (0, st')"
    "\<And>mem a ts n. holds mem a (take 17 (drop 8196 (content (disk st')))) \<Longrightarrow>
        apart a 17 ts (map (\<lambda>f. the (sampleFiles f)) [''code'', ''data'']) \<Longrightarrow> length (nbuf n) = 64 \<Longrightarrow>
        \<exists>mem' n'. loadModules a ts (mem, n) = Some (mem', n') \<and>
           (\<forall>i < length [''code'', ''data'']. sampleFiles ([''code'', ''data''] ! i) \<noteq> None \<and>
              holds mem' (ts ! i) (the (sampleFiles ([''code'', ''data''] ! i))))"
    using built_image_loads [OF pack len small six_MiB _ _ _ build_host_simps(1) _ build_host_simps(2,3), of "chars ''img''" "at_start build_host", unfolded sz]
    by (auto simp: build_host_simps packed_sample_def)
  have "holds (place 4096 (take 17 (drop 8196 (content (disk st'))))) 4096 (take 17 (drop 8196 (content (disk st'))))"
    by (rule holds_place) simp
  from st'(2) [OF this ap [unfolded sz], of "\<lparr>nv = \<lambda>_. 0, npos = 0, nbuf = replicate 64 48\<rparr>"] st'(1) show ?thesis by auto
qed

text \<open>
  A disk that \<open>initialize\<close> made and the system fits in is one to which the results on files apply: formatted, well formed
  and without files.
\<close>

lemma initialized_disk_ok:
  assumes "6291456 \<le> D" "D div 1048576 < 2 ^ 32" "8192 + length b + length k \<le> D" "512 \<le> length mb" "D \<le> room h"
  defines "st \<equiv> open_disk h (image D mb b k)"
  shows "bmfs_ok st" "formatted st" "contents st = Map.empty" "\<exists>e \<in> set (Directory st). at_end e"
proof -
  let ?bs = "image D mb b k"
  have len: "length ?bs = D" using assms(3,4) by (simp add: image_def)
  then have "8192 \<le> length ?bs" using assms(1) by simp
  note eq = open_disk_eq [OF this, of h, folded st_def]
  have "replicate 7164 (0 :: u8) = replicate (508 + (2560 + 4096)) 0" by simp
  then have split: "?bs = (take 512 mb @ replicate 512 0) @ (fs_tag @ replicate 508 0) @ replicate 2560 0 @ replicate 4096 0 @ b @ k @
      replicate (D - (8192 + length b + length k)) 0"
    by (simp only: image_def replicate_add append_assoc)
  have l: "length (take 512 mb @ replicate 512 (0 :: u8)) = 1024" using assms(4) by simp
  have slices: "take 512 (drop 1024 ((x @ y @ z @ w @ v) :: bytes)) = y \<and> take 4096 (drop 4096 (x @ y @ z @ w @ v)) = w"
    if "length x = 1024" "length y = 512" "length z = 2560" "length w = 4096" for x y z w v
    using that by simp
  have "take 512 (drop 1024 ?bs) = fs_tag @ replicate 508 0 \<and> take 4096 (drop 4096 ?bs) = replicate 4096 0"
    unfolding split by (rule slices [OF l]) simp_all
  then have sl: "take 512 (drop 1024 ?bs) = fs_tag @ replicate 508 0" "take 4096 (drop 4096 ?bs) = replicate 4096 0" by simp_all
  have "\<forall>e \<in> set (replicate 64 blank). length (FileName e) = 32" by (simp add: length_name_blank)
  from bytes_directory_directory_bytes [OF _ this]
  have dir: "Directory st = replicate 64 blank" by (simp add: eq sl directory_bytes_blank)
  show "\<exists>e \<in> set (Directory st). at_end e" by (simp add: dir)
  show "contents st = Map.empty" by (rule ext) (simp add: contents_def catalogue_def dir)
  have "DiskInfo st = fs_tag @ 0 # replicate 507 0" unfolding eq sl using replicate_Suc [of 507 "0 :: u8"] by simp
  then show "formatted st" by (simp add: formatted_def strcasecmp_eq_def fs_tag_def)
  have size: "unat (disksize st) = D div 1048576"
    using assms(2) by (simp add: eq len unat_of_nat take_bit_nat_eq_self)
  have "6 \<le> D div 1048576" using assms(1) by (simp add: less_eq_div_iff_mult_less_eq)
  then show "bmfs_ok st"
    using size assms(5) by (simp add: bmfs_ok_def dir_ok_def sizes_ok_def areas_ok_def dir length_name_blank eq(1) len)
qed

end
