(* ===== verification/FixedTexts.thy ===== *)
theory FixedTexts
  imports CommandProps
begin

text \<open>
  The commands of \<open>Userland/SampleCodeModule/lib/commands.c\<close> that show a fixed picture or text: \<open>cheese\<close>, \<open>brand\<close>,
  \<open>shortcuts\<close> and \<open>ejemplos\<close>, call by call, and what of it reaches the screen. The lengths that are passed to \<open>write\<close>
  are those of the code; where one is larger than its text the zero byte at the end is written too.
\<close>

section \<open>Texts\<close>

text \<open>In the literals below \<open>~\<close> stands for a backslash, \<open>^\<close> for a double quote and \<open>@\<close> for an apostrophe.\<close>

definition pic :: "string \<Rightarrow> u8 list" where
  "pic s = map (\<lambda>c. if c = 126 then 92 else if c = 94 then 34 else if c = 64 then 39 else c) (str s)"

text \<open>A call of \<open>write\<close> in colour with the length it is given, or of \<open>_fprintf\<close> without arguments.\<close>

datatype piece = Shown "u8 list" nat | Plain "u8 list"

definition CHEESE_COLOURS :: "u8 \<times> u8" where "CHEESE_COLOURS = (14, 0)"

primrec show_piece :: "piece \<Rightarrow> ustate \<Rightarrow> ustate option" where
  "show_piece (Shown s n) u = Some (snd (uwrite s n (Some CHEESE_COLOURS) u))"
| "show_piece (Plain s) u = ufprintf s [] u"

primrec show_pieces :: "piece list \<Rightarrow> ustate \<Rightarrow> ustate option" where
  "show_pieces [] u = Some u"
| "show_pieces (p # ps) u = Option.bind (show_piece p u) (show_pieces ps)"

definition cheeseOsText :: "piece list" where
  "cheeseOsText =
    [Shown (pic ''  ______   __    __  ________   ______           ______    ______  '' @ [10]) 68,
     Shown (pic '' /      ~ |  ~  |  ~|        ~ /      ~         /      ~  /      ~ '' @ [10]) 68,
     Shown (pic ''|  $$$$$$~| $$  | $$| $$$$$$$$|  $$$$$$~       |  $$$$$$~|  $$$$$$~'' @ [10]) 68,
     Shown (pic ''| $$  | $$| $$  | $$| $$__    | $$___~$$______ | $$  | $$| $$___~$$'' @ [10]) 68,
     Shown (pic ''| $$  | $$| $$  | $$| $$  ~    ~$$    ~|      ~| $$  | $$ ~$$    ~ '' @ [10]) 68,
     Shown (pic ''| $$ _| $$| $$  | $$| $$$$$    _~$$$$$$~$$$$$$| $$  | $$ _~$$$$$$~'' @ [10]) 67,
     Shown (pic ''| $$/ ~ $$| $$__/ $$| $$_____ |  ~__| $$       | $$__/ $$|  ~__| $$'' @ [10]) 68,
     Shown (pic '' ~$$ $$ $$ ~$$    $$| $$     ~ ~$$    $$        ~$$    $$ ~$$    $$'' @ [10]) 68,
     Shown (pic ''  ~$$$$$$~  ~$$$$$$  ~$$$$$$$$  ~$$$$$$          ~$$$$$$   ~$$$$$$'' @ [10]) 67,
     Shown (pic ''      ~$$$'' @ [10]) 11,
     Plain ([10])]"

definition cheeseText :: "piece list" where
  "cheeseText =
    [Plain ([10]),
     Shown (pic ''    _--^-.           '' @ [10]) 22,
     Shown (pic '' .-^      ^-.        '' @ [10]) 22,
     Shown (pic ''|^^--..      @-.     '' @ [10]) 22,
     Shown (pic ''|      ^^--..   @-.  '' @ [10]) 22,
     Shown (pic ''|.-. .-^.    ^^--..^.'' @ [10]) 22,
     Shown (pic ''|@./  -@  .-.      | '' @ [10]) 22,
     Shown (pic ''|      .-. @.-@   .-@'' @ [10]) 22,
     Shown (pic ''@--..  @.@    .-  -. '' @ [10]) 22,
     Shown (pic ''     ^^--..   @_@   :'' @ [10]) 22,
     Shown (pic ''           ^^--..   |'' @ [10]) 22,
     Shown (pic ''                 ^^-@'' @ [10]) 22,
     Plain ([10])]"

definition shortcutsText :: "piece list" where
  "shortcutsText =
    [Shown ([10] @ pic ''Shortcut 1: '') 13,
     Plain (pic ''ctrl + c para terminar cualquier proceso foreground.'' @ [10]),
     Shown (pic ''Shortcut 2: '' @ [0]) 13,
     Plain (pic ''ctrl + d para enviar un EOF al proceso actual(util para los procesosfilter, wc y cat).'' @ [10]),
     Shown (pic ''Shortcut 3: '' @ [0]) 13,
     Plain (pic ''ctrl + r para capturar los registros en el momento.'' @ [10])]"

definition ejemplosText :: "piece list" where
  "ejemplosText =
    [Shown ([10] @ pic ''Ejemplo 1: '') 12,
     Plain (pic ''Se recomienda utilizar los comandos filter, wc y cat con el operador pipe, como por ejemplo: @sem | filter@, @pipe | wc@.''),
     Plain (pic '' De esta manera se puede'' @ [10] @ pic ''observar de una mejor manera su comportamiento.'' @ [10]),
     Shown (pic ''Ejemplo 2: '' @ [0]) 12,
     Plain (pic ''Para correr un proceso background, incluir al final del comando el '' @ [10] @ pic ''simbolo &, por ejemplo:@fibonacci &@.''),
     Plain (pic '' Recomendacion, ejecutar el comando ps para ver que el proceso esta corriendo en background (kill @pid@) para terminarlo.'' @ [10])]"

definition printCheeseOs :: "ustate \<Rightarrow> ustate option" where
  "printCheeseOs u = show_pieces cheeseOsText u"

definition printCheese :: "ustate \<Rightarrow> ustate option" where
  "printCheese u = show_pieces cheeseText u"

definition printShortcuts :: "ustate \<Rightarrow> ustate option" where
  "printShortcuts u = show_pieces shortcutsText u"

definition ejemplos :: "ustate \<Rightarrow> ustate option" where
  "ejemplos u = show_pieces ejemplosText u"

section \<open>What is printed\<close>

primrec piece_text :: "piece \<Rightarrow> u8 list" where
  "piece_text (Shown s n) = take n s"
| "piece_text (Plain s) = s"

primrec piece_ok :: "piece \<Rightarrow> bool" where
  "piece_ok (Shown s n) \<longleftrightarrow> n = length s"
| "piece_ok (Plain s) \<longleftrightarrow> 37 \<notin> set s"

lemma show_piece_prints:
  assumes "piece_ok p"
  shows "\<exists>u'. show_piece p u = Some u' \<and> printed (calls u') = printed (calls u) @ piece_text p"
proof (cases p)
  case (Shown s n)
  then show ?thesis by (simp add: uwrite_def)
next
  case (Plain s)
  then have "render s [] = Some s" using assms by (simp add: render_plain)
  from ufprintf_renders [OF this, of u] show ?thesis using Plain by auto
qed

lemma show_pieces_prints:
  "list_all piece_ok ps \<Longrightarrow>
     \<exists>u'. show_pieces ps u = Some u' \<and> printed (calls u') = printed (calls u) @ concat (map piece_text ps)"
proof (induction ps arbitrary: u)
  case Nil
  then show ?case by simp
next
  case (Cons p ps)
  then obtain u1 where u1: "show_piece p u = Some u1" "printed (calls u1) = printed (calls u) @ piece_text p"
    using show_piece_prints by fastforce
  from Cons.IH [of u1] Cons.prems u1 show ?case by auto
qed

lemmas text_defs = pic_def str_def

lemma texts_ok: "list_all piece_ok cheeseOsText" "list_all piece_ok cheeseText"
  "list_all piece_ok shortcutsText" "list_all piece_ok ejemplosText"
  by (simp_all add: cheeseOsText_def cheeseText_def shortcutsText_def ejemplosText_def text_defs)

text \<open>
  Every one of the commands returns, having written its text: no length that is passed to \<open>write\<close> goes beyond the zero
  byte at the end of its text, and no text is taken for a directive.
\<close>

lemma fixed_texts_shown:
  "\<exists>u'. printCheeseOs u = Some u' \<and> printed (calls u') = printed (calls u) @ concat (map piece_text cheeseOsText)"
  "\<exists>u'. printCheese u = Some u' \<and> printed (calls u') = printed (calls u) @ concat (map piece_text cheeseText)"
  "\<exists>u'. printShortcuts u = Some u' \<and> printed (calls u') = printed (calls u) @ concat (map piece_text shortcutsText)"
  "\<exists>u'. ejemplos u = Some u' \<and> printed (calls u') = printed (calls u) @ concat (map piece_text ejemplosText)"
  unfolding printCheeseOs_def printCheese_def printShortcuts_def ejemplos_def
  by (rule show_pieces_prints, rule texts_ok)+

end
