(* ===== verification/UserEntry.thy ===== *)
theory UserEntry
  imports ShellProps Loader
begin

text \<open>
  The entry of the user program: \<open>_start\<close> of \<open>Userland/SampleCodeModule/_loader.c\<close> clears the BSS and calls \<open>main\<close> of
  \<open>sampleCodeModule.c\<close>, which starts the shell.
\<close>

section \<open>Entry\<close>

text \<open>The \<open>memset\<close> of this file, from the end to the start.\<close>

primrec clear_loop :: "nat \<Rightarrow> u8 \<Rightarrow> u64 \<Rightarrow> memory \<Rightarrow> memory" where
  "clear_loop 0 chr dst m = m"
| "clear_loop (Suc n) chr dst m = clear_loop n chr dst (m(dst + of_nat n := chr))"

definition user_memset :: "u64 \<Rightarrow> int \<Rightarrow> u64 \<Rightarrow> memory \<Rightarrow> memory" where
  "user_memset destination c len m = clear_loop (unat len) (word_of_int c) destination m"

text \<open>\<open>initShell\<close> and \<open>main\<close>, of which the loop of the shell never lets the ends be reached: its first \<open>n\<close> rounds.\<close>

definition initShell :: "nat \<Rightarrow> ustate \<Rightarrow> (int \<times> u8 list \<times> ustate) option" where
  "initShell n u = runShell n u"

definition user_main :: "nat \<Rightarrow> ustate \<Rightarrow> (int \<times> u8 list \<times> ustate) option" where
  "user_main n u = initShell n u"

definition user_start :: "u64 \<Rightarrow> u64 \<Rightarrow> nat \<Rightarrow> memory \<times> ustate \<Rightarrow> memory \<times> (int \<times> u8 list \<times> ustate) option" where
  "user_start bss endOfBinary n st = (let (m, u) = st in (user_memset bss 0 (endOfBinary - bss) m, user_main n u))"

text \<open>Exactly the bytes from \<open>bss\<close> to the end of the binary are zero when the shell starts, the others are what they were.\<close>

lemma clear_loop_at: "clear_loop n c d m x = (if x \<in> span d n then c else m x)"
proof (induction n arbitrary: m)
  case 0
  then show ?case by (simp add: span_def)
next
  case (Suc n)
  then show ?case by (auto simp: span_def lessThan_Suc)
qed

lemma user_start_clears:
  "fst (user_start bss endOfBinary n (m, u)) x = (if x \<in> span bss (unat (endOfBinary - bss)) then 0 else m x)"
  by (simp add: user_start_def user_memset_def clear_loop_at)

end
