(* ===== verification/PackerArgs.thy ===== *)
theory PackerArgs
  imports Loader
begin

text \<open>
  The command line of the module packer, \<open>Toolchain/ModulePacker/main.c\<close>. The library \<open>argp\<close> turns the command line into
  calls of \<open>parse_opt\<close>; here it is the list of these calls, an option, an argument or the end, and what \<open>parse_opt\<close> makes of
  them is the input of \<open>packer\<close> (theory \<open>Loader\<close>).
\<close>

section \<open>Options\<close>

definition OUTPUT_FILE :: string where "OUTPUT_FILE = ''packedKernel.bin''"

definition MAX_FILES :: nat where "MAX_FILES = 128"

record arguments =
  args :: "string option list"
  output_file :: string
  count :: nat

text \<open>The keys that \<open>parse_opt\<close> gets, with the argument; \<open>OtherKey\<close> is any of the other keys of \<open>argp\<close>.\<close>

datatype key = OutputKey string | ArgKey string | EndKey | OtherKey

text \<open>
  \<open>parse_opt\<close> returns 0 or \<open>ARGP_ERR_UNKNOWN\<close>; \<open>argp_usage\<close> ends the program, and a file beyond the array is a store out of
  its bounds.
\<close>

datatype parsed = Handled arguments | Unknown arguments | UsageExit | Overrun

definition parse_opt :: "key \<Rightarrow> nat \<Rightarrow> arguments \<Rightarrow> parsed" where
  "parse_opt k arg_num a =
     (case k of
        OutputKey f \<Rightarrow> Handled (a\<lparr>output_file := f\<rparr>)
      | ArgKey f \<Rightarrow> if arg_num < MAX_FILES then Handled (a\<lparr>args := (args a)[arg_num := Some f]\<rparr>) else Overrun
      | EndKey \<Rightarrow> if arg_num < 1 then UsageExit else Handled (a\<lparr>count := arg_num\<rparr>)
      | OtherKey \<Rightarrow> Unknown a)"

text \<open>\<open>argp\<close> counts the arguments that were handled, and goes on after a key that is unknown to \<open>parse_opt\<close>.\<close>

fun argp_parse :: "key list \<Rightarrow> nat \<Rightarrow> arguments \<Rightarrow> parsed" where
  "argp_parse [] n a = Handled a"
| "argp_parse (k # ks) n a =
     (case parse_opt k n a of
        Handled a' \<Rightarrow> argp_parse ks (case k of ArgKey f \<Rightarrow> Suc n | _ \<Rightarrow> n) a'
      | Unknown a' \<Rightarrow> argp_parse ks n a'
      | r \<Rightarrow> r)"

text \<open>The exit status, the name of the image and the image; \<open>None\<close> for the store out of bounds.\<close>

definition packer_main :: "(string \<Rightarrow> bool) \<Rightarrow> (string \<Rightarrow> u8 list option) \<Rightarrow> key list \<Rightarrow> (int \<times> string \<times> u8 list option) option" where
  "packer_main creat fs keys =
     (case argp_parse keys 0 \<lparr>args = replicate MAX_FILES None, output_file = OUTPUT_FILE, count = 0\<rparr> of
        Handled a \<Rightarrow>
          let (status, img) = packer (creat (output_file a)) fs (map the (take (count a) (args a)))
          in Some (status, output_file a, img)
      | UsageExit \<Rightarrow> Some (64, OUTPUT_FILE, None)
      | _ \<Rightarrow> None)"

section \<open>What a command line asks for\<close>

text \<open>The files in their order, and the last file that was named for the output.\<close>

fun files_of :: "key list \<Rightarrow> string list" where
  "files_of [] = []"
| "files_of (ArgKey f # ks) = f # files_of ks"
| "files_of (_ # ks) = files_of ks"

fun output_of :: "key list \<Rightarrow> string \<Rightarrow> string" where
  "output_of [] f = f"
| "output_of (OutputKey g # ks) f = output_of ks g"
| "output_of (_ # ks) f = output_of ks f"

lemma argp_parse_files:
  assumes "EndKey \<notin> set ks" "length xs + length (files_of ks) \<le> MAX_FILES" "0 < length xs + length (files_of ks)"
    and "args a = map Some xs @ replicate (MAX_FILES - length xs) None"
  shows "argp_parse (ks @ [EndKey]) (length xs) a =
     Handled \<lparr>args = map Some (xs @ files_of ks) @ replicate (MAX_FILES - length (xs @ files_of ks)) None,
       output_file = output_of ks (output_file a), count = length (xs @ files_of ks)\<rparr>"
  using assms
proof (induction ks arbitrary: a xs)
  case Nil
  then show ?case by (cases a) (simp add: parse_opt_def)
next
  case (Cons k ks)
  show ?case
  proof (cases k)
    case (ArgKey f)
    let ?a = "a\<lparr>args := (args a)[length xs := Some f]\<rparr>"
    have "MAX_FILES - length xs = Suc (MAX_FILES - length (xs @ [f]))" using Cons.prems(2) ArgKey by simp
    then have "args ?a = map Some (xs @ [f]) @ replicate (MAX_FILES - length (xs @ [f])) None"
      using Cons.prems(4) by (simp add: list_update_append)
    from Cons.IH [OF _ _ _ this] Cons.prems show ?thesis by (simp add: ArgKey parse_opt_def)
  qed (use Cons in \<open>auto simp: parse_opt_def\<close>)
qed

text \<open>
  \<open>main\<close> packs the named files in their order, into the file of the last option \<open>-o\<close> or \<open>packedKernel.bin\<close>, as long as
  there are at most 128 of them.
\<close>

lemma packer_main_packs:
  assumes "EndKey \<notin> set ks" "files_of ks \<noteq> []" "length (files_of ks) \<le> MAX_FILES"
  shows "packer_main creat fs (ks @ [EndKey]) =
     (let (status, img) = packer (creat (output_of ks OUTPUT_FILE)) fs (files_of ks)
      in Some (status, output_of ks OUTPUT_FILE, img))"
  using argp_parse_files [of ks "[]" "\<lparr>args = replicate MAX_FILES None, output_file = OUTPUT_FILE, count = 0\<rparr>"] assms
  by (simp add: packer_main_def)

text \<open>One file more is stored behind the array.\<close>

lemma argp_parse_overrun:
  "EndKey \<notin> set ks \<Longrightarrow> n \<le> MAX_FILES \<Longrightarrow> MAX_FILES < n + length (files_of ks) \<Longrightarrow> argp_parse (ks @ rest) n a = Overrun"
proof (induction ks arbitrary: n a)
  case Nil
  then show ?case by simp
next
  case (Cons k ks)
  then show ?case by (cases k) (auto simp: parse_opt_def)
qed

end
