(* ===== verification/Spec2Isabelle.thy ===== *)
theory Spec2Isabelle
  imports QueueContract SystemSpec ConsoleSpec SchedSpec ProcSpec SyncSpec Init KPrintf Ustdlib MallocSpec BuddySpec
    Phylo ShellProps PrintInfo Sequences TestMM TestSync TestProcess BmfsSpec
    FixedTexts UserEntry PackerArgs
begin

text \<open>
  \<^bold>\<open>A model of Ques-OS.\<close>

  Ques-OS is a small 64 bit operating system: a kernel (\<open>src/Kernel\<close>) with a console, a keyboard, processes under a
  round robin scheduler with priorities, semaphores, pipes and one of two memory managers, and a user program
  (\<open>src/Userland/SampleCodeModule\<close>), a shell with its commands. The module packer (\<open>src/Toolchain/ModulePacker\<close>)
  appends the user program to the kernel image; the kernel copies it to its address when it boots.

  \<^bold>\<open>Parts and theories.\<close>

  \<^item> \<open>Prelude\<close>: the types of machine integers and the operations and lemmas on lists that every part uses.
  \<^item> \<open>QueueImpl\<close>: \<open>Kernel/lib/queue.c\<close> on a heap of nodes, every function. \<open>QueueRefine\<close> proves that the
    nodes represent a list and that each function refines its list counterpart; \<open>QueueContract\<close> states the interface
    as a locale, discharged by the linked queue, and derives that runs of calls are first in, first out. The
    kernel theories then keep their queues as lists.
  \<^item> \<open>CString\<close>: \<open>Kernel/lib/string.c\<close>. \<open>Numerals\<close>: the conversions \<open>_itoa\<close>, \<open>_atoi\<close>, \<open>strToHex\<close>, \<open>isNumber\<close> of
    \<open>ustdlib.c\<close> and \<open>uintToBase\<close> of \<open>Kernel/naiveConsole.c\<close>. \<open>NaiveConsole\<close>: the rest of that file.
  \<^item> \<open>Console\<close>, \<open>ConsoleProps\<close>, \<open>ConsoleSpec\<close>: \<open>Kernel/drivers/console.c\<close>. Video memory is a function from
    offsets to bytes, so a write outside the screen would show in it.
  \<^item> \<open>KernelState\<close>: the record of everything the kernel keeps in static variables, and the results of its operations:
    \<open>Ret\<close> a value and a state, \<open>Switch\<close> when another process runs on, or \<open>Crash\<close> with the reason. \<open>Proc\<close>, \<open>Sched\<close>, \<open>Tasks\<close>:
    \<open>Kernel/scheduler/processManager.c\<close>. \<open>Sem\<close>: \<open>Kernel/semaphores/sem.c\<close>. \<open>Pipes\<close>: \<open>Kernel/pipes/pipes.c\<close>.
    \<open>Syscalls\<close>: \<open>Kernel/interruptions/syscalls.c\<close>, \<open>Kernel/drivers/keyboard.c\<close>, the reading and writing of
    \<open>Kernel/lib/stdio.c\<close>, the clock and the register snapshot. \<open>KPrintf\<close>: \<open>printf\<close> of \<open>Kernel/lib/stdio.c\<close>.
  \<^item> \<open>Kinv\<close> is the invariant of the kernel state; \<open>SemProps\<close>, \<open>PipeProps\<close>, \<open>SchedProps\<close>, \<open>TaskProps\<close> and
    \<open>SyscallProps\<close> prove that every operation keeps it. \<open>System\<close> is the step relation of the machine: system calls,
    keys and ticks in any order. \<open>Init\<close> is \<open>Kernel/scheduler/initProcess.c\<close>.
    \<open>SystemSpec\<close>, \<open>SchedSpec\<close>, \<open>ProcSpec\<close>, \<open>SyncSpec\<close> hold the results about the
    kernel, \<open>Sample\<close> the kernel state at which they are tried out.
  \<^item> \<open>Loader\<close>: \<open>Kernel/lib.c\<close>, \<open>Kernel/moduleLoader.c\<close>, \<open>initializeKernelBinary\<close> of \<open>Kernel/kernel.c\<close> and the module
    packer. \<open>Boot\<close>: \<open>main\<close> of the kernel, the interrupt descriptor table, the exceptions.
  \<^item> \<open>Malloc\<close>, \<open>MallocRing\<close>, \<open>MallocFree\<close>, \<open>MallocSpec\<close>: \<open>Kernel/memory_manager/memoryManager.c\<close>. \<open>Buddy\<close>,
    \<open>BuddyRing\<close>, \<open>BuddyBlocks\<close>, \<open>BuddyInv\<close>, \<open>BuddySpec\<close>: \<open>buddy.c\<close> and \<open>buddyBTree.c\<close> of the same directory.
  \<^item> \<open>PackerArgs\<close>: the command line of the module packer. \<open>DiskFile\<close>: the files of the host as the tools of the build use
    them. \<open>Bmfs\<close>, \<open>BmfsInit\<close>: \<open>Bootloader/BMFS/bmfs.c\<close>, the program that makes the disk image and works on the files of such a
    disk. \<open>BmfsInitSpec\<close> is about the image, \<open>BmfsDir\<close> about the directory and its bytes, \<open>BmfsCreate\<close> about the search for free
    blocks (with \<open>qsort\<close> as a locale that an insertion sort interprets), \<open>BmfsFiles\<close> shows that each operation is the expected
    one on a map from names to contents, and \<open>BmfsSpec\<close> has the results, over whole runs of the program.
  \<^item> \<open>UserEntry\<close>: \<open>_loader.c\<close> and \<open>sampleCodeModule.c\<close>. \<open>FixedTexts\<close>: the commands that show a picture or a text.
  \<^item> \<open>UserSys\<close>: the system calls as a user program sees them, \<open>lib/usersyscalls.c\<close>. \<open>Ustdlib\<close>: formatted output of
    \<open>lib/ustdlib.c\<close>. \<open>Commands\<close>, \<open>CommandProps\<close>: \<open>lib/commands.c\<close>. \<open>PrintInfo\<close>: \<open>lib/printinfo.c\<close>. \<open>Shell\<close>,
    \<open>ShellProps\<close>: \<open>lib/shell.c\<close>. \<open>Phylo\<close>: \<open>lib/phylo.c\<close>. \<open>Sequences\<close>: \<open>lib/fibonacci.c\<close> and \<open>lib/prime.c\<close>.
  \<^item> \<open>Allocator\<close>: what a user of memory relies on, as a locale that the buddy allocator interprets. The programs under
    \<open>tests\<close>: \<open>TestUtil\<close> (\<open>test_util.c\<close>), \<open>TestMM\<close> (\<open>test_mm.c\<close>, proved inside that locale), \<open>TestSync\<close>
    (\<open>test_sync.c\<close>, its processes interleaved step by step) and \<open>TestProcess\<close> (\<open>test_process.c\<close>, \<open>test_prio.c\<close>).

  \<^bold>\<open>How the code is translated.\<close> A C function is a HOL function of its arguments and the state it changes. Integers whose
  wrap-around matters are words of their width; an \<open>int\<close> that only counts is an \<open>int\<close>. A null dereference, an
  access to a freed object, a buffer overflow, a lock that is never released and an endless loop are results of their own
  (\<open>Crash\<close> in the kernel, \<open>None\<close> elsewhere), so that a theorem that an operation returns also says that none of these
  happens. Blocking and yielding leave the caller in the middle: the kernel operations return \<open>Switch\<close> there, and what the
  caller still has to do is kept in the state of the machine until it runs again.

  \<^bold>\<open>What is shown.\<close> The kernel: it boots into a well-formed state; every state reached from there by system calls, keys
  and ticks is well formed; the timer interrupt always ends with a ready process running; system calls end in one of four
  listed ways at worst; a context switch runs the first ready process of the queue and each ready process gets its turn;
  new processes start in \<open>processWrapper\<close> with their arguments, killed ones wake who waits for them; semaphores count and
  wake in order; pipes keep the order of bytes; the cache of the last pipe is transparent. The console never writes
  outside the screen and shows what is printed. The build: the disk holds the boot loader and the packed kernel where the boot looks for them, and the
  modules in it are what \<open>loadModules\<close> puts at their addresses; on that disk files are created where they fit first, read back as
  they were written by any earlier run, and deleted without touching the others, but for two situations in which \<open>create\<close>
  destroys files. Both memory managers hand out
  memory nobody else has, take it back and join it; the list version fails in two situations that are pinned down, the
  buddy version recovers the whole heap. User programs: numbers survive printing and parsing, \<open>_fprintf\<close> writes
  what its format says, the shell splits lines into words and closes every pipe it opens; \<open>cat\<close>, \<open>filter\<close>, \<open>help\<close>
  and the philosophers do what they promise, or the theorem says where they do not. The memory test never fails over the
  buddy allocator, the semaphore test ends with the right sum under every schedule and can go wrong without the semaphore.

  \<^bold>\<open>Bounds and fuel.\<close> \<open>pick\<close>, the loop of the scheduler, gets \<open>2 * n + 1\<close> rounds for a queue of \<open>n\<close> processes, which are
  proved to be enough: each round drops or requeues one process, and the queue holds a ready one or the idle process runs. \<open>sleep\<close>
  and \<open>getMem\<close> get fuel because they need not end: for \<open>getMem\<close> 256 rounds are shown to be enough whenever any number is.
  \<open>orders\<close> of the buddy allocator is an array of 27 entries, an index beyond it is \<open>None\<close>. The endless programs run
  for a given number of rounds. The loops of \<open>bmfs.c\<close> over files and the disk end by themselves and have no fuel.

  \<^bold>\<open>What is assumed.\<close> The kernel proper takes its memory from an arbitrary stream of answers, of which the results about
  well-formed states ask that none is \<open>NULL\<close>; the managers are verified on their own. User programs run over an arbitrary
  kernel: a function from the calls made so far to an answer. The steps of the philosophers between taking and giving
  the gate are single steps; the processes of the semaphore test use a semaphore with the behaviour proved of the kernel's.

  \<^bold>\<open>Not modelled.\<close> Assembly (saving and restoring contexts, ports, \<open>hlt\<close>); what a sweep of
  \<open>init\<close> does when another process changes the queue in the middle of it; how \<open>argp\<close> splits a command line into the calls of \<open>parse_opt\<close>; the floating point square
  root of \<open>prime.c\<close>, an argument of \<open>isPrime\<close>; the floating point scaling of random numbers, an argument too; the
  boot loader \<open>Bootloader/Pure64\<close>, which is assembly, so that its copying of the packed kernel into memory is a hypothesis; the percentage
  in the progress message of \<open>bmfs.c\<close>, and a local file that is the disk itself.
\<close>

end
